(* ===== verification/Prelude.thy ===== *)
theory Prelude
  imports Complex_Main "HOL-Library.AList"
begin

text \<open>
  What the components share: Python values the models need (exceptions, floats with their
  non-finite values, JSON values, insertion-ordered dictionaries), the helper lemmas on
  lists and dictionaries, and two interfaces several components implement: a registry of
  named counters and a latch that keeps its first recording.

  A Python \<open>float\<close> whose finiteness the code tests is a \<open>pyfloat\<close>; elsewhere
  a finite float is a \<open>real\<close> and its arithmetic is exact (the rounding of IEEE doubles
  is not modelled).  A Python \<open>int\<close> is an \<open>int\<close>, or a \<open>nat\<close> where the
  code can only produce non-negative values.  A dictionary is an association list in
  insertion order: \<open>AList.update\<close> overwrites in place and appends a new key at the
  end, as \<open>d[k] = v\<close> does, \<open>map_of\<close> reads and \<open>AList.delete\<close> removes.
\<close>

section \<open>Exceptions and results\<close>

datatype py_exc =
    ValueError | TypeError | KeyError | IndexError | AttributeError | RuntimeError
  | OverflowError | OSError | FileNotFoundError | SystemExit | ZeroDivisionError
  | IllegalOpeningError | BookError | MixedRegimeError | PlyCapCriterionError
  | ResultContractError | RunIdError | BundleError | GraphContractError | ConfigError
  | ResumeStateError | RingIdentityError | MirrorReceiptError | GraphWireSplitError
  | CheckpointStampError | RepresentationMismatch | UnknownArchKind | MissingGnnWidthsError
  | ArchScopedKeyOutsideItsArchError | DeclaredEncodingMismatchError | DeclaredFutureHeadMismatchError
  | ResumeIdentityMismatchError | ResumeTargetSemanticsError | ValidationError | EncodingRegistryError
  | SampleClockNotDerivableError | ArmingSurfaceMissingError | ProducerProbeMissingError | FileExistsError
  | GameRecordError | AnchorLoadError | BadArchive | MissingEncodingError | EncodingDeclarationConflictError
  | AmbiguousGraphMarkerError | SixEngineError | SixSyncError | RungUnresolvable

type_synonym 'a res = "py_exc + 'a"

definition rbind :: "'a res \<Rightarrow> ('a \<Rightarrow> 'b res) \<Rightarrow> 'b res" where
  "rbind r f = (case r of Inl e \<Rightarrow> Inl e | Inr a \<Rightarrow> f a)"

lemma rbind_simps [simp]:
  "rbind (Inl e) f = Inl e"
  "rbind (Inr a) f = f a"
  by (simp_all add: rbind_def)

lemma rbind_Inr_iff: "rbind r f = Inr b \<longleftrightarrow> (\<exists>a. r = Inr a \<and> f a = Inr b)"
  by (cases r) auto

lemma rbindE: "rbind r f = Inr b \<Longrightarrow> (\<And>a. r = Inr a \<Longrightarrow> f a = Inr b \<Longrightarrow> P) \<Longrightarrow> P"
  by (auto simp: rbind_Inr_iff)

text \<open>Running an operation that may raise over a list stops at the first exception.\<close>

fun rmap :: "('a \<Rightarrow> 'b res) \<Rightarrow> 'a list \<Rightarrow> 'b list res" where
  "rmap f [] = Inr []"
| "rmap f (x # xs) = rbind (f x) (\<lambda>y. rbind (rmap f xs) (\<lambda>ys. Inr (y # ys)))"

lemma rmap_Inr_length: "rmap f xs = Inr ys \<Longrightarrow> length ys = length xs"
  by (induction xs arbitrary: ys) (auto simp: rbind_Inr_iff)

lemma rmap_total: "(\<And>x. x \<in> set xs \<Longrightarrow> f x = Inr (g x)) \<Longrightarrow> rmap f xs = Inr (map g xs)"
  by (induction xs) auto

section \<open>Floats, JSON values\<close>

datatype pyfloat = Fin real | PosInf | NegInf | NaN

fun isfinite :: "pyfloat \<Rightarrow> bool" where
  "isfinite (Fin _) = True"
| "isfinite _ = False"

text \<open>IEEE comparison: every comparison with a NaN is false.\<close>

fun pf_less :: "pyfloat \<Rightarrow> pyfloat \<Rightarrow> bool" where
  "pf_less NaN _ = False"
| "pf_less _ NaN = False"
| "pf_less (Fin a) (Fin b) = (a < b)"
| "pf_less NegInf NegInf = False"
| "pf_less NegInf _ = True"
| "pf_less _ NegInf = False"
| "pf_less PosInf _ = False"
| "pf_less (Fin _) PosInf = True"

fun pf_le :: "pyfloat \<Rightarrow> pyfloat \<Rightarrow> bool" where
  "pf_le NaN _ = False"
| "pf_le _ NaN = False"
| "pf_le x y = (x = y \<or> pf_less x y)"

lemma pf_le_Fin [simp]: "pf_le (Fin a) (Fin b) = (a \<le> b)"
  by auto

fun pf_add :: "pyfloat \<Rightarrow> pyfloat \<Rightarrow> pyfloat" where
  "pf_add (Fin a) (Fin b) = Fin (a + b)"
| "pf_add NaN _ = NaN"
| "pf_add _ NaN = NaN"
| "pf_add PosInf NegInf = NaN"
| "pf_add NegInf PosInf = NaN"
| "pf_add PosInf _ = PosInf"
| "pf_add _ PosInf = PosInf"
| "pf_add _ _ = NegInf"

fun pf_neg :: "pyfloat \<Rightarrow> pyfloat" where
  "pf_neg (Fin a) = Fin (- a)"
| "pf_neg PosInf = NegInf"
| "pf_neg NegInf = PosInf"
| "pf_neg NaN = NaN"

text \<open>Division by a positive integer.\<close>

fun pf_over :: "pyfloat \<Rightarrow> nat \<Rightarrow> pyfloat" where
  "pf_over (Fin a) n = Fin (a / real n)"
| "pf_over x n = x"

lemma pf_less_NaN [simp]: "\<not> pf_less x NaN" "\<not> pf_less NaN x"
  by (cases x; simp)+

text \<open>
  \<open>float(i)\<close> of a Python integer raises \<open>OverflowError\<close> once the integer rounds past
  the largest double; \<open>math.isfinite(i)\<close> converts first, so it raises there too.
\<close>

definition float_of_int :: "int \<Rightarrow> real res" where
  "float_of_int i = (if \<bar>i\<bar> < 2 ^ 1024 - 2 ^ 970 then Inr (of_int i) else Inl OverflowError)"

text \<open>\<open>int(x)\<close> of a finite float truncates towards zero.\<close>

definition trunc :: "real \<Rightarrow> int" where
  "trunc x = (if 0 \<le> x then \<lfloor>x\<rfloor> else \<lceil>x\<rceil>)"

lemma trunc_of_int [simp]: "trunc (of_int i) = i"
  by (simp add: trunc_def)

datatype json =
    JNull | JBool bool | JInt int | JFloat pyfloat | JStr string
  | JList "json list" | JObj "(string \<times> json) list"

text \<open>A JSON file as a reader meets it: an \<open>OSError\<close>, a text that does not parse, or a value.\<close>

datatype file_read = Unreadable | Undecodable | Decoded json

section \<open>Dictionaries\<close>

type_synonym ('k, 'v) dict = "('k \<times> 'v) list"

definition dget :: "('k, 'v) dict \<Rightarrow> 'k \<Rightarrow> 'v \<Rightarrow> 'v" where
  "dget d k dflt = (case map_of d k of None \<Rightarrow> dflt | Some v \<Rightarrow> v)"

lemma dget_Nil [simp]: "dget [] k x = x"
  by (simp add: dget_def)

lemma dget_update [simp]:
  "dget (AList.update k v d) k' x = (if k = k' then v else dget d k' x)"
  by (simp add: dget_def update_conv')

lemma update_fresh: "k \<notin> fst ` set d \<Longrightarrow> AList.update k v d = d @ [(k, v)]"
  by (induction d) auto

lemma length_update:
  "length (AList.update k v d) = (if k \<in> fst ` set d then length d else Suc (length d))"
  by (induction d) auto

lemma keys_update:
  "map fst (AList.update k v d) = (if k \<in> fst ` set d then map fst d else map fst d @ [k])"
  by (induction d) auto

definition dkeys :: "('k, 'v) dict \<Rightarrow> 'k set" where
  "dkeys d = fst ` set d"

lemma dkeys_Nil [simp]: "dkeys [] = {}"
  and dkeys_Cons [simp]: "dkeys (p # d) = insert (fst p) (dkeys d)"
  and dkeys_append [simp]: "dkeys (d @ e) = dkeys d \<union> dkeys e"
  by (auto simp: dkeys_def)

lemma dkeys_update [simp]: "dkeys (AList.update k v d) = insert k (dkeys d)"
  by (induction d) auto

lemma map_of_None_dkeys [simp]: "map_of d k = None \<longleftrightarrow> k \<notin> dkeys d"
  by (induction d) auto

lemma map_of_Some_dkeys: "map_of d k = Some v \<Longrightarrow> k \<in> dkeys d"
  by (metis map_of_None_dkeys option.distinct(1))

lemma card_dkeys: "distinct (map fst d) \<Longrightarrow> card (dkeys d) = length d"
  unfolding dkeys_def using distinct_card [of "map fst d"] by simp

section \<open>Interfaces shared by several components\<close>

text \<open>
  A total registry of named counters: an untouched label reads 0 and an increment moves
  exactly one label by one.
\<close>

locale counter_registry =
  fixes no_counts :: "'c"
    and bump :: "'l \<Rightarrow> 'c \<Rightarrow> 'c"
    and reading :: "'c \<Rightarrow> 'l \<Rightarrow> nat"
  assumes reading_empty: "reading no_counts l = 0"
    and reading_bump: "reading (bump l c) m = (if l = m then Suc (reading c m) else reading c m)"
begin

lemma reading_fold: "reading (fold bump ls c) l = reading c l + count_list ls l"
  by (induction ls arbitrary: c) (auto simp: reading_bump)

lemma reading_run: "reading (fold bump ls no_counts) l = count_list ls l"
  by (simp add: reading_fold reading_empty)

lemma reading_monotone: "reading c l \<le> reading (fold bump ls c) l"
  by (simp add: reading_fold)

end

text \<open>A latch that keeps the first value recorded in it.\<close>

locale first_wins =
  fixes latch :: "'r \<Rightarrow> 's \<Rightarrow> 's"
    and latched :: "'s \<Rightarrow> 'r option"
  assumes latch_open: "latched s = None \<Longrightarrow> latched (latch r s) = Some r"
    and latch_shut: "latched s = Some r' \<Longrightarrow> latched (latch r s) = Some r'"
begin

lemma latched_stays: "latched s = Some r \<Longrightarrow> latched (fold latch rs s) = Some r"
  by (induction rs arbitrary: s) (auto simp: latch_shut)

lemma latched_first: "latched s = None \<Longrightarrow> latched (fold latch (r # rs) s) = Some r"
  by (simp add: latch_open latched_stays)

end

end
