(* ===== verification/Heartbeat.thy ===== *)
theory Heartbeat
  imports Prelude
begin

text \<open>
  \<open>src/mantis/monitor/heartbeat.py\<close> and \<open>src/mantis/monitor/best_effort.py\<close>: the
  process exit codes, the registry of last beats, the heartbeat-file codec and the counted
  optional effect.  A heartbeat file is represented by the JSON value it holds: the write
  publishes that value atomically, the read returns it, or says why there is none.
\<close>

section \<open>Exit codes\<close>

definition WATCHDOG_STALL_EXIT_CODE :: int where "WATCHDOG_STALL_EXIT_CODE = 42"
definition PERSIST_FATAL_EXIT_CODE :: int where "PERSIST_FATAL_EXIT_CODE = 43"
definition ACTOR_LAG_EXIT_CODE :: int where "ACTOR_LAG_EXIT_CODE = 45"
definition DRAW_RATE_COLLAPSE_EXIT_CODE :: int where "DRAW_RATE_COLLAPSE_EXIT_CODE = 46"
definition DISK_SPACE_EXHAUSTED_EXIT_CODE :: int where "DISK_SPACE_EXHAUSTED_EXIT_CODE = 47"
definition TERMINAL_EVAL_BROKEN_EXIT_CODE :: int where "TERMINAL_EVAL_BROKEN_EXIT_CODE = 48"
definition PLY_CAP_ATTRACTOR_EXIT_CODE :: int where "PLY_CAP_ATTRACTOR_EXIT_CODE = 50"
definition PARENT_VANISHED_EXIT_CODE :: int where "PARENT_VANISHED_EXIT_CODE = 71"

lemmas exit_codes =
  WATCHDOG_STALL_EXIT_CODE_def PERSIST_FATAL_EXIT_CODE_def ACTOR_LAG_EXIT_CODE_def
  DRAW_RATE_COLLAPSE_EXIT_CODE_def DISK_SPACE_EXHAUSTED_EXIT_CODE_def
  TERMINAL_EVAL_BROKEN_EXIT_CODE_def PLY_CAP_ATTRACTOR_EXIT_CODE_def
  PARENT_VANISHED_EXIT_CODE_def

definition HEARTBEAT_SOURCES :: "string list" where
  "HEARTBEAT_SOURCES = [''train_step'', ''inference_dispatch'', ''selfplay_drain'', ''eval_round'']"

section \<open>The heartbeat registry\<close>

text \<open>The injected clock's reading is an argument \<open>now\<close> of every operation that takes one.\<close>

record hb_registry =
  hb_sources :: "string list"
  hb_last :: "(string, real) dict"
  hb_beaten :: "string set"

definition hb_init :: "string list \<Rightarrow> real \<Rightarrow> hb_registry res" where
  "hb_init sources now =
     (if sources = [] then Inl ValueError
      else Inr \<lparr>hb_sources = sources,
                hb_last = fold (\<lambda>s d. AList.update s now d) sources [],
                hb_beaten = {}\<rparr>)"

definition hb_beat :: "string \<Rightarrow> real \<Rightarrow> hb_registry \<Rightarrow> hb_registry res" where
  "hb_beat source now r =
     (if map_of (hb_last r) source = None then Inl ValueError
      else Inr (r\<lparr>hb_last := AList.update source now (hb_last r),
                  hb_beaten := insert source (hb_beaten r)\<rparr>))"

definition hb_arm :: "real \<Rightarrow> hb_registry \<Rightarrow> hb_registry" where
  "hb_arm now r = r\<lparr>hb_last := fold (\<lambda>s d. AList.update s now d) (hb_sources r) (hb_last r)\<rparr>"

definition hb_ages :: "real \<Rightarrow> hb_registry \<Rightarrow> (string, real) dict" where
  "hb_ages now r = map (\<lambda>(s, t). (s, now - t)) (hb_last r)"

lemma map_of_fold_update:
  "map_of (fold (\<lambda>s d. AList.update s v d) ks d) k = (if k \<in> set ks then Some v else map_of d k)"
  by (induction ks arbitrary: d) (auto simp: update_conv')

lemma map_of_hb_ages:
  "map_of (hb_ages now r) s = map_option (\<lambda>t. now - t) (map_of (hb_last r) s)"
proof -
  have "map_of (map (\<lambda>(s, t). (s, now - t)) d) s = map_option (\<lambda>t. now - t) (map_of d s)" for d :: "(string, real) dict"
    by (induction d) auto
  then show ?thesis by (simp add: hb_ages_def)
qed

text \<open>The registry invariant: the sources it was built with are exactly the keys it tracks.\<close>

definition hb_wf :: "hb_registry \<Rightarrow> bool" where
  "hb_wf r \<longleftrightarrow> dkeys (hb_last r) = set (hb_sources r) \<and> hb_beaten r \<subseteq> set (hb_sources r)"

lemma dkeys_fold_update: "dkeys (fold (\<lambda>s d. AList.update s v d) ks d) = set ks \<union> dkeys d"
  by (induction ks arbitrary: d) auto

lemma hb_wf_init: "hb_init sources now = Inr r \<Longrightarrow> hb_wf r \<and> hb_beaten r = {} \<and> hb_sources r = sources"
  by (auto simp: hb_init_def hb_wf_def dkeys_fold_update split: if_splits)

lemma hb_wf_beat: "hb_wf r \<Longrightarrow> hb_beat s now r = Inr r' \<Longrightarrow> hb_wf r'"
  by (auto simp: hb_beat_def hb_wf_def split: if_splits)

lemma hb_wf_arm: "hb_wf r \<Longrightarrow> hb_wf (hb_arm now r)"
  by (auto simp: hb_arm_def hb_wf_def dkeys_fold_update)

section \<open>The heartbeat file\<close>

record hb_state =
  hbs_seq :: int
  hbs_pid :: int
  hbs_ages :: "(string, real) dict"
  hbs_wall_ts :: real

definition MAX_COUNTER :: int where
  "MAX_COUNTER = 2 ^ 63 - 1"

definition write_heartbeat_file :: "int \<Rightarrow> int \<Rightarrow> (string, real) dict \<Rightarrow> real \<Rightarrow> json" where
  "write_heartbeat_file seq pid ages wall_ts =
     JObj [(''seq'', JInt seq), (''pid'', JInt pid),
           (''ages'', JObj (map (\<lambda>(k, v). (k, JFloat (Fin v))) ages)),
           (''wall_ts'', JFloat (Fin wall_ts)),
           (''sources'', JList (map JStr HEARTBEAT_SOURCES))]"

definition in_counter_range :: "int \<Rightarrow> int option" where
  "in_counter_range n = (if n < 0 \<or> MAX_COUNTER < n then None else Some n)"

fun safe_counter :: "json option \<Rightarrow> int option" where
  "safe_counter (Some (JInt n)) = in_counter_range n"
| "safe_counter (Some (JFloat (Fin x))) = in_counter_range (trunc x)"
| "safe_counter _ = None"

text \<open>
  A value of \<open>ages\<close> or \<open>wall_ts\<close>: \<open>None\<close> when it is filtered out, an exception when
  \<open>math.isfinite\<close> or \<open>float\<close> overflows on a huge integer.
\<close>

fun finite_number :: "json \<Rightarrow> real option res" where
  "finite_number (JInt n) = rbind (float_of_int n) (\<lambda>x. Inr (Some x))"
| "finite_number (JFloat (Fin x)) = Inr (Some x)"
| "finite_number _ = Inr None"

fun decode_ages :: "(string \<times> json) list \<Rightarrow> (string, real) dict res" where
  "decode_ages [] = Inr []"
| "decode_ages ((k, v) # kvs) =
     rbind (finite_number v) (\<lambda>x. rbind (decode_ages kvs) (\<lambda>rest.
       Inr (case x of None \<Rightarrow> rest | Some a \<Rightarrow> (k, a) # rest)))"

definition read_ages :: "json option \<Rightarrow> (string, real) dict res" where
  "read_ages v = (case v of Some (JObj kvs) \<Rightarrow> decode_ages kvs | _ \<Rightarrow> Inr [])"

definition read_wall :: "json option \<Rightarrow> real res" where
  "read_wall v = (case v of None \<Rightarrow> Inr 0
     | Some w \<Rightarrow> rbind (finite_number w) (\<lambda>x. Inr (case x of None \<Rightarrow> 0 | Some a \<Rightarrow> a)))"

fun read_heartbeat_file :: "file_read \<Rightarrow> hb_state option" where
  "read_heartbeat_file (Decoded (JObj payload)) =
     (case (safe_counter (map_of payload ''seq''), safe_counter (map_of payload ''pid'')) of
        (Some seq, Some pid) \<Rightarrow>
          (case rbind (read_ages (map_of payload ''ages'')) (\<lambda>ages.
                  rbind (read_wall (map_of payload ''wall_ts'')) (\<lambda>wall.
                    Inr \<lparr>hbs_seq = seq, hbs_pid = pid, hbs_ages = ages, hbs_wall_ts = wall\<rparr>)) of
             Inl _ \<Rightarrow> None
           | Inr st \<Rightarrow> Some st)
      | _ \<Rightarrow> None)"
| "read_heartbeat_file _ = None"

lemma safe_counter_range: "safe_counter v = Some n \<Longrightarrow> 0 \<le> n \<and> n \<le> MAX_COUNTER"
  by (cases v rule: safe_counter.cases) (auto simp: in_counter_range_def split: if_splits)

lemma decode_ages_written: "decode_ages (map (\<lambda>(k, v). (k, JFloat (Fin v))) ages) = Inr ages"
  by (induction ages) auto

section \<open>Counted optional effects\<close>

text \<open>
  An effect returns, raises an \<open>Exception\<close>, or is unwound by a \<open>BaseException\<close> that
  \<open>except Exception\<close> does not catch.
\<close>

datatype 'a effect = Done 'a | Failed py_exc | Unwound

type_synonym counts = "(string, nat) dict"

definition be_increment :: "string \<Rightarrow> counts \<Rightarrow> counts" where
  "be_increment label c = AList.update label (Suc (dget c label 0)) c"

definition be_get :: "counts \<Rightarrow> string \<Rightarrow> nat" where
  "be_get c label = dget c label 0"

definition be_total :: "counts \<Rightarrow> nat" where
  "be_total c = sum_list (map snd c)"

definition best_effort :: "string \<Rightarrow> 'a effect \<Rightarrow> counts \<Rightarrow> (bool \<times> 'a option) effect \<times> counts" where
  "best_effort label eff c = (case eff of
     Done v \<Rightarrow> (Done (True, Some v), c)
   | Failed e \<Rightarrow> (Done (False, None), be_increment label c)
   | Unwound \<Rightarrow> (Unwound, c))"

interpretation best_effort_counters: counter_registry "[]" be_increment be_get
  by unfold_locales (auto simp: be_increment_def be_get_def)

lemma be_total_increment:
  "distinct (map fst c) \<Longrightarrow> be_total (be_increment l c) = Suc (be_total c)"
  by (induction c) (auto simp: be_total_def be_increment_def dget_def map_of_eq_None_iff image_iff split: option.splits)

lemma be_increment_distinct: "distinct (map fst c) \<Longrightarrow> distinct (map fst (be_increment l c))"
  by (simp add: be_increment_def distinct_update)

section \<open>Properties\<close>

text \<open>A heartbeat snapshot survives the file: writing counters in the 63-bit range with
  per-source ages and a wall time and decoding the result gives exactly that snapshot.\<close>

theorem heartbeat_roundtrip:
  assumes "0 \<le> seq" "seq \<le> MAX_COUNTER" "0 \<le> pid" "pid \<le> MAX_COUNTER"
  shows "read_heartbeat_file (Decoded (write_heartbeat_file seq pid ages wall)) =
         Some \<lparr>hbs_seq = seq, hbs_pid = pid, hbs_ages = ages, hbs_wall_ts = wall\<rparr>"
  using assms
  by (simp add: write_heartbeat_file_def in_counter_range_def read_ages_def read_wall_def decode_ages_written)

theorem heartbeat_roundtrip_witness:
  "read_heartbeat_file (Decoded (write_heartbeat_file 7 4242 [(''train_step'', 3 / 2)] 100)) =
     Some \<lparr>hbs_seq = 7, hbs_pid = 4242, hbs_ages = [(''train_step'', 3 / 2)], hbs_wall_ts = 100\<rparr>"
  by (rule heartbeat_roundtrip) (simp_all add: MAX_COUNTER_def)

text \<open>Whatever a hostile heartbeat file holds, the decoder returns either nothing or a
  snapshot whose sequence number and pid are non-negative 63-bit integers; a file that is no JSON
  object, or whose counters are booleans, non-finite, negative or too large, is no snapshot.\<close>

theorem heartbeat_decode_safe:
  "case read_heartbeat_file f of
     None \<Rightarrow> True
   | Some st \<Rightarrow> (\<exists>payload. f = Decoded (JObj payload) \<and>
        safe_counter (map_of payload ''seq'') = Some (hbs_seq st) \<and>
        safe_counter (map_of payload ''pid'') = Some (hbs_pid st)) \<and>
        {hbs_seq st, hbs_pid st} \<subseteq> {0 .. MAX_COUNTER}"
  by (cases f rule: read_heartbeat_file.cases)
     (auto split: option.split sum.split simp: rbind_Inr_iff dest: safe_counter_range)

text \<open>A heartbeat registry keeps exactly the sources it was built with: a beat of an unknown
  source raises and every other beat sets that source's age to 0, leaves every other age alone
  and marks the source as beaten; arming resets the ages and marks none.\<close>

theorem heartbeat_beat_ages:
  assumes "hb_wf r"
  shows "hb_beat s t r = Inl ValueError \<and> s \<notin> set (hb_sources r) \<or>
         (\<exists>r'. hb_beat s t r = Inr r' \<and> s \<in> set (hb_sources r) \<and> hb_wf r' \<and>
           (\<forall>x. map_of (hb_ages now r') x =
                  (if x = s then Some (now - t) else map_of (hb_ages now r) x)) \<and>
           hb_beaten r' = insert s (hb_beaten r) \<and>
           hb_beaten (hb_arm now r') = hb_beaten r' \<and>
           (\<forall>x \<in> set (hb_sources r). map_of (hb_ages now (hb_arm now r')) x = Some 0))"
proof (cases "s \<in> set (hb_sources r)")
  case True
  with assms obtain r' where r': "hb_beat s t r = Inr r'"
    by (auto simp: hb_beat_def hb_wf_def)
  moreover have "hb_wf r'" using assms r' by (rule hb_wf_beat)
  ultimately show ?thesis using True
    by (auto simp: hb_beat_def map_of_hb_ages update_conv' hb_arm_def map_of_fold_update
        split: if_splits)
next
  case False
  with assms show ?thesis by (auto simp: hb_beat_def hb_wf_def)
qed

definition registry_of_two :: "hb_registry" where
  "registry_of_two = \<lparr>hb_sources = [''train_step'', ''eval_round''],
     hb_last = [(''train_step'', 0), (''eval_round'', 0)], hb_beaten = {}\<rparr>"

theorem heartbeat_beat_ages_witness:
  "hb_wf registry_of_two \<and> (\<exists>r'. hb_beat ''eval_round'' 5 registry_of_two = Inr r' \<and> hb_wf r' \<and>
      map_of (hb_ages 7 r') ''eval_round'' = Some 2)"
proof -
  have wf: "hb_wf registry_of_two" by (simp add: hb_wf_def registry_of_two_def)
  have m: "''eval_round'' \<in> set (hb_sources registry_of_two)" by (simp add: registry_of_two_def)
  show ?thesis using heartbeat_beat_ages [OF wf, of "''eval_round''" 5 7] wf m by auto
qed

end
