(* ===== verification/Supervisor.thy ===== *)
theory Supervisor
  imports Heartbeat
begin

text \<open>
  \<open>src/mantis/monitor/supervise.py\<close>: the staleness core, the relaunch loop, the two
  kill ladders and the command line.  The collaborators the loop is injected with (the child
  process, the clock, the heartbeat reader) are a script: one \<open>sup_obs\<close> per loop
  iteration says what each of them answers in that iteration.  Everything the loop does to
  the world is appended to the state's trace \<open>sup_trace\<close>.  The \<open>pid\<close>,
  \<open>ts\<close> and path fields of the emitted lines are not modelled.
\<close>

definition RELAUNCH_BUDGET_EXIT_CODE :: int where "RELAUNCH_BUDGET_EXIT_CODE = 44"
definition SIGTERM :: int where "SIGTERM = 15"
definition SIGKILL :: int where "SIGKILL = 9"

section \<open>The staleness core\<close>

record tracker =
  lt_stale_after :: real
  lt_seq :: "int option"
  lt_pid :: "int option"
  lt_seen :: "int set"
  lt_last :: "real option"
  lt_observations :: nat

definition lt_init :: "real \<Rightarrow> tracker" where
  "lt_init w = \<lparr>lt_stale_after = w, lt_seq = None, lt_pid = None, lt_seen = {},
                lt_last = None, lt_observations = 0\<rparr>"

definition lt_reset :: "real \<Rightarrow> tracker \<Rightarrow> tracker" where
  "lt_reset now t = t\<lparr>lt_seq := None, lt_pid := None, lt_seen := {},
                      lt_last := Some now, lt_observations := 0\<rparr>"

definition lt_progressed :: "hb_state \<Rightarrow> tracker \<Rightarrow> bool" where
  "lt_progressed st t \<longleftrightarrow>
     (case lt_seq t of None \<Rightarrow> True
      | Some q \<Rightarrow> hbs_pid st \<notin> lt_seen t \<or> (lt_pid t = Some (hbs_pid st) \<and> q < hbs_seq st))"

fun lt_observe :: "hb_state option \<Rightarrow> real \<Rightarrow> tracker \<Rightarrow> tracker" where
  "lt_observe None now t = t"
| "lt_observe (Some st) now t =
     t\<lparr>lt_observations := Suc (lt_observations t),
       lt_seen := insert (hbs_pid st) (lt_seen t),
       lt_pid := Some (hbs_pid st),
       lt_seq := Some (hbs_seq st),
       lt_last := (if lt_progressed st t then Some now else lt_last t)\<rparr>"

definition lt_ever_observed :: "tracker \<Rightarrow> bool" where
  "lt_ever_observed t \<longleftrightarrow> lt_observations t > 0"

definition lt_is_stale :: "real \<Rightarrow> tracker \<Rightarrow> bool" where
  "lt_is_stale now t = (case lt_last t of None \<Rightarrow> False | Some l \<Rightarrow> now - l \<ge> lt_stale_after t)"

definition lt_observe_all :: "(hb_state option \<times> real) list \<Rightarrow> tracker \<Rightarrow> tracker" where
  "lt_observe_all obs t = fold (\<lambda>(st, now). lt_observe st now) obs t"

lemma lt_observe_all_simps [simp]:
  "lt_observe_all [] t = t"
  "lt_observe_all ((st, now) # obs) t = lt_observe_all obs (lt_observe st now t)"
  by (simp_all add: lt_observe_all_def)

text \<open>What the supervisor relies on: a liveness core it resets, feeds and asks.\<close>

locale liveness_core =
  fixes reset :: "real \<Rightarrow> 't \<Rightarrow> 't"
    and observe :: "'h option \<Rightarrow> real \<Rightarrow> 't \<Rightarrow> 't"
    and stale :: "real \<Rightarrow> 't \<Rightarrow> bool"
    and ever :: "'t \<Rightarrow> bool"
    and window :: "'t \<Rightarrow> real"
  assumes reset_fresh: "now < t0 + window t \<Longrightarrow> \<not> stale now (reset t0 t)"
    and reset_never: "\<not> ever (reset t0 t)"
    and observe_none: "observe None now t = t"
    and observe_some: "ever (observe (Some h) now t)"
    and ever_stays: "ever t \<Longrightarrow> ever (observe st now t)"
begin

definition feed :: "('h option \<times> real) list \<Rightarrow> 't \<Rightarrow> 't" where
  "feed obs t = fold (\<lambda>(st, now). observe st now) obs t"

lemma feed_ever: "ever t \<Longrightarrow> ever (feed obs t)"
  by (induction obs arbitrary: t) (auto simp: feed_def ever_stays)

lemma feed_silent: "\<forall>(st, _) \<in> set obs. st = None \<Longrightarrow> feed obs t = t"
  by (induction obs arbitrary: t) (auto simp: feed_def observe_none)

lemma feed_observed: "(Some h, now) \<in> set obs \<Longrightarrow> ever (feed obs t)"
proof (induction obs arbitrary: t)
  case (Cons o' obs)
  show ?case
  proof (cases "o' = (Some h, now)")
    case True
    then have "feed (o' # obs) t = feed obs (observe (Some h) now t)" by (simp add: feed_def)
    then show ?thesis by (simp add: feed_ever observe_some)
  next
    case False
    with Cons.prems have "(Some h, now) \<in> set obs" by simp
    from Cons.IH [OF this] show ?thesis by (cases o') (simp add: feed_def)
  qed
qed simp

text \<open>Which of the two staleness diagnoses is emitted says whether any read succeeded.\<close>

lemma diagnosis: "ever (feed obs (reset t0 t)) \<longleftrightarrow> (\<exists>h now. (Some h, now) \<in> set obs)"
proof
  assume e: "ever (feed obs (reset t0 t))"
  show "\<exists>h now. (Some h, now) \<in> set obs"
  proof (rule ccontr)
    assume "\<nexists>h now. (Some h, now) \<in> set obs"
    then have "\<And>st now. (st, now) \<in> set obs \<Longrightarrow> st = None" by (metis option.exhaust)
    then have "\<forall>(st, _) \<in> set obs. st = None" by blast
    with e show False by (simp add: feed_silent reset_never)
  qed
qed (auto simp: feed_observed)

lemma silent_child_window:
  "\<forall>(st, _) \<in> set obs. st = None \<Longrightarrow> stale now (feed obs (reset t0 t)) \<Longrightarrow> t0 + window t \<le> now"
  using reset_fresh [of now t0 t] by (simp add: feed_silent) (meson not_le)

end

interpretation tracker_core: liveness_core lt_reset lt_observe lt_is_stale lt_ever_observed lt_stale_after
proof unfold_locales
  show "lt_ever_observed t \<Longrightarrow> lt_ever_observed (lt_observe st now t)" for t st now
    by (cases st) (auto simp: lt_ever_observed_def)
qed (auto simp: lt_reset_def lt_is_stale_def lt_ever_observed_def)

lemma tracker_feed: "tracker_core.feed = lt_observe_all"
  by (intro ext) (simp add: tracker_core.feed_def lt_observe_all_def)

lemma lt_stale_after_observe [simp]: "lt_stale_after (lt_observe st now t) = lt_stale_after t"
  by (cases st) auto

lemma lt_stale_after_reset [simp]: "lt_stale_after (lt_reset now t) = lt_stale_after t"
  by (simp add: lt_reset_def)

text \<open>
  An observation from a pid already seen, with the sequence number already recorded, leaves the
  last instant of progress where it was.
\<close>

lemma lt_observe_frozen:
  assumes "lt_seq t = Some q" and "hbs_seq st = q" and "hbs_pid st \<in> lt_seen t"
  shows "lt_last (lt_observe (Some st) now t) = lt_last t"
    and "lt_seq (lt_observe (Some st) now t) = Some q"
    and "lt_seen (lt_observe (Some st) now t) = lt_seen t"
  using assms by (auto simp: lt_progressed_def)

lemma lt_observe_all_frozen:
  assumes "lt_seq t = Some q"
    and "\<forall>(st, now) \<in> set obs. \<forall>h. st = Some h \<longrightarrow> hbs_seq h = q \<and> hbs_pid h \<in> lt_seen t"
  shows "lt_last (lt_observe_all obs t) = lt_last t \<and>
         lt_stale_after (lt_observe_all obs t) = lt_stale_after t"
  using assms
proof (induction obs arbitrary: t)
  case (Cons o' obs)
  obtain st now where o': "o' = (st, now)" by (cases o')
  show ?case
  proof (cases st)
    case None
    with Cons o' show ?thesis by simp
  next
    case (Some h)
    with Cons.prems o' have h: "hbs_seq h = q" "hbs_pid h \<in> lt_seen t" by auto
    note fr = lt_observe_frozen [OF Cons.prems(1) h, of now]
    have "\<forall>(st', now') \<in> set obs. \<forall>h'. st' = Some h' \<longrightarrow>
            hbs_seq h' = q \<and> hbs_pid h' \<in> lt_seen (lt_observe (Some h) now t)"
      using Cons.prems(2) fr(3) by auto
    from Cons.IH [OF fr(2) this] fr(1) Some o' show ?thesis by (simp del: lt_observe.simps)
  qed
qed simp

section \<open>The relaunch loop\<close>

datatype sup_event =
    ChildSpawned nat
  | ChildExited int
  | SupStop string int
  | HeartbeatStale
  | HeartbeatNeverWritten
  | ChildSigkilled
  | BudgetExhausted string int
  | ChildRelaunching string nat
  | HeartbeatReadFailed
  | ForwardingStop int
  | StopTimeout
  | ForceKill int nat
  | ForceStop int nat
  | ChildStopped int
  | ChildUnreaped

datatype sup_act = Emit sup_event | SendSignal int | SleepFor real | Spawn

record sup_cfg =
  sc_poll_interval :: real
  sc_kill_grace :: real
  sc_max_relaunches :: int

record sup =
  sup_tracker :: tracker
  sup_relaunches :: nat
  sup_spawns :: nat
  sup_trace :: "sup_act list"

text \<open>One loop iteration's answers from the injected collaborators.\<close>

datatype hb_read = ReadRaised | ReadState "hb_state option"

record sup_obs =
  ob_poll :: "int option"
  ob_read :: hb_read
  ob_now :: real
  ob_grace_poll :: "int option"
  ob_spawn_now :: real

definition act :: "sup_act list \<Rightarrow> sup \<Rightarrow> sup" where
  "act as s = s\<lparr>sup_trace := sup_trace s @ as\<rparr>"

definition sup_spawn :: "real \<Rightarrow> sup \<Rightarrow> sup" where
  "sup_spawn now s =
     act [Spawn, Emit (ChildSpawned (Suc (sup_spawns s)))]
       (s\<lparr>sup_spawns := Suc (sup_spawns s), sup_tracker := lt_reset now (sup_tracker s)\<rparr>)"

definition sup_kill :: "sup_cfg \<Rightarrow> int option \<Rightarrow> sup \<Rightarrow> sup" where
  "sup_kill cfg grace_poll s =
     (let s1 = act [SendSignal SIGTERM, SleepFor (sc_kill_grace cfg)] s
      in if grace_poll = None then act [SendSignal SIGKILL, Emit ChildSigkilled] s1 else s1)"

definition claim_relaunch :: "sup_cfg \<Rightarrow> string \<Rightarrow> sup \<Rightarrow> bool \<times> sup" where
  "claim_relaunch cfg reason s =
     (if int (sup_relaunches s) \<ge> sc_max_relaunches cfg
      then (False, act [Emit (BudgetExhausted reason (sc_max_relaunches cfg))] s)
      else (True, act [Emit (ChildRelaunching reason (Suc (sup_relaunches s)))]
                    (s\<lparr>sup_relaunches := Suc (sup_relaunches s)\<rparr>)))"

definition on_child_exit :: "sup_cfg \<Rightarrow> int \<Rightarrow> sup \<Rightarrow> int option \<times> sup" where
  "on_child_exit cfg code s0 =
     (let s = act [Emit (ChildExited code)] s0 in
      if code = 0 then (Some 0, s)
      else if code = PARENT_VANISHED_EXIT_CODE
        then (Some PARENT_VANISHED_EXIT_CODE, act [Emit (SupStop ''child_parent_vanished'' code)] s)
      else if code = PERSIST_FATAL_EXIT_CODE
        then (Some PERSIST_FATAL_EXIT_CODE, act [Emit (SupStop ''persist_fatal'' code)] s)
      else if code \<noteq> WATCHDOG_STALL_EXIT_CODE
        then (Some code, act [Emit (SupStop ''child_error'' code)] s)
      else (case claim_relaunch cfg ''child_exit_stall'' s of
              (False, s') \<Rightarrow> (Some RELAUNCH_BUDGET_EXIT_CODE, s')
            | (True, s') \<Rightarrow> (None, s')))"

definition read_state :: "hb_read \<Rightarrow> sup \<Rightarrow> hb_state option \<times> sup" where
  "read_state r s = (case r of ReadRaised \<Rightarrow> (None, act [Emit HeartbeatReadFailed] s)
                     | ReadState st \<Rightarrow> (st, s))"

definition sup_iter :: "sup_cfg \<Rightarrow> sup_obs \<Rightarrow> sup \<Rightarrow> int option \<times> sup" where
  "sup_iter cfg ob s =
     (case ob_poll ob of
        Some code \<Rightarrow>
          (case on_child_exit cfg code s of
             (Some c, s') \<Rightarrow> (Some c, s')
           | (None, s') \<Rightarrow> (None, sup_spawn (ob_spawn_now ob) s'))
      | None \<Rightarrow>
          (let (st, s1) = read_state (ob_read ob) s;
               s2 = s1\<lparr>sup_tracker := lt_observe st (ob_now ob) (sup_tracker s1)\<rparr>
           in if lt_is_stale (ob_now ob) (sup_tracker s2)
              then (let s3 = act [Emit (if lt_ever_observed (sup_tracker s2) then HeartbeatStale
                                        else HeartbeatNeverWritten)] s2;
                        s4 = sup_kill cfg (ob_grace_poll ob) s3
                    in case claim_relaunch cfg ''heartbeat_stale'' s4 of
                         (False, s5) \<Rightarrow> (Some RELAUNCH_BUDGET_EXIT_CODE, s5)
                       | (True, s5) \<Rightarrow> (None, sup_spawn (ob_spawn_now ob) s5))
              else (None, act [SleepFor (sc_poll_interval cfg)] s2)))"

text \<open>The loop over a script; \<open>None\<close> is "still supervising when the script ends".\<close>

fun sup_loop :: "sup_cfg \<Rightarrow> sup_obs list \<Rightarrow> sup \<Rightarrow> int option \<times> sup" where
  "sup_loop cfg [] s = (None, s)"
| "sup_loop cfg (ob # obs) s =
     (case sup_iter cfg ob s of (Some c, s') \<Rightarrow> (Some c, s') | (None, s') \<Rightarrow> sup_loop cfg obs s')"

definition sup_init :: "real \<Rightarrow> sup" where
  "sup_init stale_after = \<lparr>sup_tracker = lt_init stale_after, sup_relaunches = 0, sup_spawns = 0, sup_trace = []\<rparr>"

definition sup_run :: "sup_cfg \<Rightarrow> real \<Rightarrow> real \<Rightarrow> sup_obs list \<Rightarrow> int option \<times> sup" where
  "sup_run cfg stale_after now0 obs = sup_loop cfg obs (sup_spawn now0 (sup_init stale_after))"

subsection \<open>The loop's invariant\<close>

text \<open>
  Every child was spawned once more than a relaunch was claimed, the relaunches stay inside the
  budget, and the trace holds one \<open>Spawn\<close> per spawn.
\<close>

definition sup_inv :: "sup_cfg \<Rightarrow> sup \<Rightarrow> bool" where
  "sup_inv cfg s \<longleftrightarrow>
     sup_spawns s = Suc (sup_relaunches s) \<and>
     int (sup_relaunches s) \<le> max 0 (sc_max_relaunches cfg) \<and>
     count_list (sup_trace s) Spawn = sup_spawns s"

lemmas sup_step_defs = sup_spawn_def sup_kill_def claim_relaunch_def on_child_exit_def
  read_state_def act_def Let_def

lemma sup_inv_start: "sup_inv cfg (sup_spawn now (sup_init w))"
  by (simp add: sup_inv_def sup_init_def sup_step_defs)

lemma sup_iter_inv: "sup_inv cfg s \<Longrightarrow> sup_inv cfg (snd (sup_iter cfg ob s))"
  by (auto simp: sup_iter_def sup_inv_def sup_step_defs split: option.split hb_read.split)

lemma sup_loop_inv: "sup_inv cfg s \<Longrightarrow> sup_inv cfg (snd (sup_loop cfg obs s))"
proof (induction obs arbitrary: s)
  case (Cons ob obs)
  obtain d s' where it: "sup_iter cfg ob s = (d, s')" by (cases "sup_iter cfg ob s")
  with sup_iter_inv [OF Cons.prems, of ob] have "sup_inv cfg s'" by simp
  with Cons.IH it show ?case by (cases d) auto
qed simp

text \<open>Where a returned code comes from.\<close>

lemma sup_iter_code:
  assumes "sup_iter cfg ob s = (Some c, s')"
  shows "(ob_poll ob = Some c \<and> c \<noteq> WATCHDOG_STALL_EXIT_CODE \<and> sup_relaunches s' = sup_relaunches s)
       \<or> (c = RELAUNCH_BUDGET_EXIT_CODE \<and> int (sup_relaunches s') \<ge> sc_max_relaunches cfg \<and>
          (ob_poll ob = Some WATCHDOG_STALL_EXIT_CODE \<or> ob_poll ob = None))"
  using assms
  by (auto simp: sup_iter_def sup_step_defs exit_codes split: option.splits hb_read.splits if_splits)

lemma sup_iter_exit:
  assumes "ob_poll ob = Some c" and "c \<noteq> WATCHDOG_STALL_EXIT_CODE"
  shows "fst (sup_iter cfg ob s) = Some c"
    and "sup_spawns (snd (sup_iter cfg ob s)) = sup_spawns s"
  using assms by (auto simp: sup_iter_def sup_step_defs)

lemma sup_iter_stall:
  assumes "ob_poll ob = Some WATCHDOG_STALL_EXIT_CODE"
  shows "int (sup_relaunches s) < sc_max_relaunches cfg \<Longrightarrow>
           fst (sup_iter cfg ob s) = None \<and> sup_relaunches (snd (sup_iter cfg ob s)) = Suc (sup_relaunches s)"
    and "int (sup_relaunches s) \<ge> sc_max_relaunches cfg \<Longrightarrow>
           fst (sup_iter cfg ob s) = Some RELAUNCH_BUDGET_EXIT_CODE \<and>
           sup_relaunches (snd (sup_iter cfg ob s)) = sup_relaunches s"
  using assms by (auto simp: sup_iter_def sup_step_defs exit_codes)

text \<open>A child that stalls every time is relaunched up to the budget, then given up.\<close>

lemma sup_loop_stalls:
  assumes "\<forall>ob \<in> set obs. ob_poll ob = Some WATCHDOG_STALL_EXIT_CODE"
    and "sc_max_relaunches cfg = int m" and "sup_relaunches s \<le> m"
    and "m - sup_relaunches s < length obs"
  shows "fst (sup_loop cfg obs s) = Some RELAUNCH_BUDGET_EXIT_CODE \<and>
         sup_relaunches (snd (sup_loop cfg obs s)) = m"
  using assms
proof (induction obs arbitrary: s)
  case (Cons ob obs)
  then have p: "ob_poll ob = Some WATCHDOG_STALL_EXIT_CODE" by simp
  obtain d s' where it: "sup_iter cfg ob s = (d, s')" by (cases "sup_iter cfg ob s")
  show ?case
  proof (cases "sup_relaunches s < m")
    case True
    then have "d = None" "sup_relaunches s' = Suc (sup_relaunches s)"
      using sup_iter_stall(1) [OF p, of s cfg] Cons.prems(2) it by auto
    moreover have "m - Suc (sup_relaunches s) < length obs" using Cons.prems(4) True by simp
    ultimately show ?thesis using Cons.IH [of s'] Cons.prems(1,2) True it by simp
  next
    case False
    then show ?thesis using sup_iter_stall(2) [OF p, of cfg s] Cons.prems(2,3) it by auto
  qed
qed simp

lemma sup_loop_append:
  "sup_loop cfg (xs @ ys) s =
     (case sup_loop cfg xs s of (Some c, s') \<Rightarrow> (Some c, s') | (None, s') \<Rightarrow> sup_loop cfg ys s')"
  by (induction xs arbitrary: s) (auto split: prod.split option.split)

section \<open>Properties\<close>

text \<open>C1: The relaunch budget: however the child, the clock and the heartbeat file behave, the
  supervisor has spawned exactly one more child than it claimed relaunches, never claims more
  relaunches than its budget, and its trace holds one spawn per child.\<close>

theorem supervisor_budget:
  "case sup_run cfg w t0 obs of (_, s) \<Rightarrow>
     sup_spawns s = Suc (sup_relaunches s) \<and>
     int (sup_relaunches s) \<le> max 0 (sc_max_relaunches cfg) \<and>
     count_list (sup_trace s) Spawn = sup_spawns s"
  using sup_loop_inv [OF sup_inv_start, of cfg obs t0 w]
  by (auto simp: sup_run_def sup_inv_def split: prod.split)

text \<open>C34: The exit-code contract: a child that exits with any code but 42 ends the supervisor with
  that very code and no new child; one that exits with 42 is relaunched while the budget lasts
  and then ends it with 44.\<close>

theorem supervisor_exit_contract:
  assumes "sup_run cfg w t0 obs = (None, s)" and "ob_poll ob = Some code"
  shows "case sup_run cfg w t0 (obs @ [ob]) of (d, s') \<Rightarrow>
    if code \<noteq> WATCHDOG_STALL_EXIT_CODE
      then d = Some code \<and> sup_spawns s' = sup_spawns s
    else if sc_max_relaunches cfg \<le> int (sup_relaunches s)
      then d = Some RELAUNCH_BUDGET_EXIT_CODE \<and> sup_spawns s' = sup_spawns s
    else d = None \<and> sup_spawns s' = Suc (sup_spawns s) \<and>
         sup_relaunches s' = Suc (sup_relaunches s)"
  using assms
  by (auto simp: sup_run_def sup_loop_append sup_iter_def sup_step_defs exit_codes)

definition quiet_cfg :: sup_cfg where
  "quiet_cfg = \<lparr>sc_poll_interval = 5, sc_kill_grace = 30, sc_max_relaunches = 2\<rparr>"

definition exits_with :: "int \<Rightarrow> sup_obs" where
  "exits_with c = \<lparr>ob_poll = Some c, ob_read = ReadState None, ob_now = 0, ob_grace_poll = None, ob_spawn_now = 0\<rparr>"

theorem supervisor_exit_contract_witness:
  "fst (sup_run quiet_cfg 60 0 [exits_with 43]) = Some 43"
  using supervisor_exit_contract [of quiet_cfg 60 0 "[]" "sup_spawn 0 (sup_init 60)" "exits_with 43" 43]
  by (simp add: sup_run_def exits_with_def exit_codes split: prod.splits)

text \<open>C16: A stall storm ends: when the child exits with 42 every time, a supervisor with a budget of
  m relaunches claims exactly m and returns 44 as soon as it has seen m + 1 exits.\<close>

theorem supervisor_stall_storm_ends:
  assumes "\<forall>ob \<in> set obs. ob_poll ob = Some WATCHDOG_STALL_EXIT_CODE"
    and "sc_max_relaunches cfg = int m" and "m < length obs"
  shows "fst (sup_run cfg w t0 obs) = Some RELAUNCH_BUDGET_EXIT_CODE \<and>
         sup_relaunches (snd (sup_run cfg w t0 obs)) = m"
proof -
  have "sup_relaunches (sup_spawn t0 (sup_init w)) = 0"
    by (simp add: sup_init_def sup_step_defs)
  then show ?thesis
    unfolding sup_run_def using assms by (intro sup_loop_stalls) auto
qed

theorem supervisor_stall_storm_ends_witness:
  "fst (sup_run quiet_cfg 60 0 [exits_with 42, exits_with 42, exits_with 42]) = Some 44"
  using supervisor_stall_storm_ends [of "[exits_with 42, exits_with 42, exits_with 42]" quiet_cfg 2 60 0]
  by (simp add: exits_with_def quiet_cfg_def exit_codes RELAUNCH_BUDGET_EXIT_CODE_def)

text \<open>C35: A frozen heartbeat cannot buy freshness: once the sequence number stands still, no
  alternation between pids already watched, and no number of failed reads, moves the instant the
  supervisor measures staleness from, so the child is declared stale exactly when it would have
  been without those reads.\<close>

theorem frozen_heartbeat_goes_stale:
  assumes "lt_seq t = Some q"
    and "\<forall>(st, now) \<in> set obs. \<forall>h. st = Some h \<longrightarrow> hbs_seq h = q \<and> hbs_pid h \<in> lt_seen t"
  shows "lt_is_stale now (lt_observe_all obs t) = lt_is_stale now t"
  using lt_observe_all_frozen [OF assms] by (simp add: lt_is_stale_def split: option.split)

definition seen_state :: "int \<Rightarrow> int \<Rightarrow> hb_state" where
  "seen_state q p = \<lparr>hbs_seq = q, hbs_pid = p, hbs_ages = [], hbs_wall_ts = 0\<rparr>"

definition two_writers :: tracker where
  "two_writers = lt_observe_all [(Some (seen_state 5 100), 1), (Some (seen_state 5 200), 2)] (lt_reset 0 (lt_init 60))"

theorem frozen_heartbeat_goes_stale_witness:
  "lt_is_stale 62 (lt_observe_all [(Some (seen_state 5 100), 30), (None, 40), (Some (seen_state 5 200), 50)] two_writers)"
  by (subst frozen_heartbeat_goes_stale [of _ 5])
     (auto simp: two_writers_def seen_state_def lt_reset_def lt_init_def lt_is_stale_def lt_progressed_def)

text \<open>The two staleness diagnoses are told apart correctly: after a spawn, the child counts as
  observed exactly when some read of the heartbeat file returned a state, and while none has, it
  is not declared stale before the whole window has passed.\<close>

theorem staleness_diagnosis:
  "lt_ever_observed (lt_observe_all obs (lt_reset t0 t)) = (\<exists>h now. (Some h, now) \<in> set obs) \<and>
   ((\<forall>(st, _) \<in> set obs. st = None) \<longrightarrow>
      lt_is_stale now (lt_observe_all obs (lt_reset t0 t)) \<longrightarrow> t0 + lt_stale_after t \<le> now)"
  using tracker_core.diagnosis [of obs t0 t] tracker_core.silent_child_window [of obs now t0 t]
  by (simp add: tracker_feed)

theorem staleness_diagnosis_witness:
  "\<not> lt_ever_observed (lt_observe_all [(None, 1), (None, 2)] (lt_reset 0 (lt_init 60)))"
  using staleness_diagnosis [of "[(None, 1), (None, 2)]" 0 "lt_init 60"] by simp

end
