(* ===== verification/Supervisor_Stop.thy ===== *)
theory Supervisor_Stop
  imports Supervisor
begin

text \<open>
  The stop path and the command line of \<open>src/mantis/monitor/supervise.py\<close>: spawning
  through the arming trampoline, the cooperative stop ladder with its bounded waits, the exit
  disposition, the argument split and the merge of command-line overrides over the minted
  thresholds.  What the k-th \<open>child.wait(timeout=grace)\<close> answers is \<open>w k\<close>.
\<close>

section \<open>Spawning the child\<close>

text \<open>\<open>which\<close> is \<open>shutil.which\<close> on this host; the environment copy is not modelled.\<close>

definition spawn_child ::
  "bool \<Rightarrow> (string \<Rightarrow> bool) \<Rightarrow> string \<Rightarrow> string list \<Rightarrow> string list res" where
  "spawn_child main_thread which python argv =
     (if \<not> main_thread then Inl RuntimeError
      else if argv = [] \<or> argv ! 0 = [] then Inl ValueError
      else if \<not> which (argv ! 0) then Inl FileNotFoundError
      else Inr ([python, ''-m'', ''mantis.train.lifecycle.arm_exec'', ''--''] @ argv))"

section \<open>The cooperative stop ladder\<close>

datatype wait_res = WaitCode int | WaitTimeout | WaitStop int

text \<open>
  The first wait loop: \<open>Some code\<close> is a reaped child, \<open>None\<close> a break out of the loop.
  \<open>k\<close> counts the waits, \<open>presses\<close> the operator's signals.
\<close>

function ladder_loop ::
  "(nat \<Rightarrow> wait_res) \<Rightarrow> nat \<Rightarrow> nat \<Rightarrow> sup_act list \<Rightarrow> int option \<times> nat \<times> sup_act list" where
  "ladder_loop w k presses tr =
     (case w k of
        WaitTimeout \<Rightarrow> (None, Suc k, tr @ [Emit StopTimeout])
      | WaitStop sg \<Rightarrow>
          (if Suc presses \<ge> 3 then (None, Suc k, tr @ [Emit (ForceKill sg (Suc presses))])
           else ladder_loop w (Suc k) (Suc presses)
                  (tr @ [Emit (ForceStop sg (Suc presses)), SendSignal SIGTERM]))
      | WaitCode code \<Rightarrow> (Some code, Suc k, tr @ [Emit (ChildStopped code)]))"
  by pat_completeness auto
termination
  by (relation "measure (\<lambda>(w, k, presses, tr). 3 - presses)") auto

declare ladder_loop.simps [simp del]

definition stop_child_cooperatively :: "(nat \<Rightarrow> wait_res) \<Rightarrow> int option \<times> sup_act list" where
  "stop_child_cooperatively w =
     (case ladder_loop w 0 1 [Emit (ForwardingStop SIGTERM), SendSignal SIGTERM] of
        (Some code, _, tr) \<Rightarrow> (Some code, tr)
      | (None, k, tr) \<Rightarrow>
          (let tr1 = tr @ [SendSignal SIGKILL, Emit ChildSigkilled] in
           case w k of
             WaitCode code \<Rightarrow> (Some code, tr1 @ [Emit (ChildStopped code)])
           | _ \<Rightarrow> (None, tr1 @ [Emit ChildUnreaped])))"

text \<open>The ladder unfolded: at most two waits before the kill.\<close>

lemma ladder_loop_2:
  "ladder_loop w (Suc 0) (Suc (Suc 0)) tr =
     (case w (Suc 0) of
        WaitTimeout \<Rightarrow> (None, 2, tr @ [Emit StopTimeout])
      | WaitCode c \<Rightarrow> (Some c, 2, tr @ [Emit (ChildStopped c)])
      | WaitStop sg \<Rightarrow> (None, 2, tr @ [Emit (ForceKill sg 3)]))"
  by (subst ladder_loop.simps) (simp add: numeral_eq_Suc split: wait_res.split)

lemma ladder_loop_1:
  "ladder_loop w 0 1 tr =
     (case w 0 of
        WaitTimeout \<Rightarrow> (None, 1, tr @ [Emit StopTimeout])
      | WaitCode c \<Rightarrow> (Some c, 1, tr @ [Emit (ChildStopped c)])
      | WaitStop sg \<Rightarrow>
          ladder_loop w (Suc 0) (Suc (Suc 0)) (tr @ [Emit (ForceStop sg 2), SendSignal SIGTERM]))"
  by (subst ladder_loop.simps) (simp add: numeral_eq_Suc split: wait_res.split)

section \<open>The exit disposition\<close>

datatype disposition = ExitWith int | DieOf int

definition LADDER_SIGNALS :: "int set" where "LADDER_SIGNALS = {SIGTERM, SIGKILL}"

definition stop_and_exit :: "(nat \<Rightarrow> wait_res) option \<Rightarrow> int \<Rightarrow> disposition \<times> sup_act list" where
  "stop_and_exit child signum =
     (let (code, tr) = (case child of None \<Rightarrow> (None, []) | Some w \<Rightarrow> stop_child_cooperatively w) in
      case code of
        Some c \<Rightarrow>
          (if c > 0 \<or> (c < 0 \<and> - c \<notin> LADDER_SIGNALS)
           then (ExitWith c, tr @ [Emit (SupStop ''child_error'' c)])
           else (DieOf signum, tr @ [Emit (SupStop ''signal'' signum)]))
      | None \<Rightarrow> (DieOf signum, tr @ [Emit (SupStop ''signal'' signum)]))"

section \<open>The command line\<close>

text \<open>\<open>[flags] -- CHILD_ARGV\<close>: split at the first \<open>--\<close>, the rest taken verbatim.\<close>

definition split_argv :: "string list \<Rightarrow> (string list \<times> string list) res" where
  "split_argv args =
     (if ''--'' \<notin> set args then Inl SystemExit
      else (let child = tl (dropWhile (\<lambda>a. a \<noteq> ''--'') args) in
            if child = [] then Inl SystemExit
            else Inr (takeWhile (\<lambda>a. a \<noteq> ''--'') args, child)))"

definition starts_with :: "string \<Rightarrow> string \<Rightarrow> bool" where
  "starts_with p s \<longleftrightarrow> take (length p) s = p"

fun require_config :: "string list \<Rightarrow> unit res" where
  "require_config [] = Inl SystemExit"
| "require_config (flag # rest) =
     (if starts_with ''--config='' flag then Inr ()
      else if flag = ''--config''
        then (if rest \<noteq> [] \<and> \<not> starts_with ''-'' (hd rest) then Inr () else Inl SystemExit)
      else require_config rest)"

text \<open>The four thresholds: the minted value, overridden by a flag, refused when malformed.\<close>

record bounds =
  bd_stale_after :: pyfloat
  bd_poll_interval :: pyfloat
  bd_kill_grace :: pyfloat
  bd_max_relaunches :: int

record overrides =
  ov_stale_after :: "pyfloat option"
  ov_poll_interval :: "pyfloat option"
  ov_kill_grace :: "pyfloat option"
  ov_max_relaunches :: "int option"

definition malformed_bound :: "pyfloat \<Rightarrow> bool" where
  "malformed_bound x \<longleftrightarrow> \<not> isfinite x \<or> pf_less x (Fin 0)"

definition override_of :: "'a option \<Rightarrow> 'a \<Rightarrow> 'a" where
  "override_of supplied minted = (case supplied of Some v \<Rightarrow> v | None \<Rightarrow> minted)"

definition effective_bounds :: "overrides \<Rightarrow> bounds \<Rightarrow> bounds res" where
  "effective_bounds ov minted =
     rbind (case ov_max_relaunches ov of None \<Rightarrow> Inr []
            | Some n \<Rightarrow> rbind (float_of_int n) (\<lambda>x. Inr [Fin x])) (\<lambda>relaunches.
       if \<exists>x \<in> set (List.map_filter id [ov_stale_after ov, ov_poll_interval ov, ov_kill_grace ov] @ relaunches).
            malformed_bound x
       then Inl SystemExit
       else Inr \<lparr>bd_stale_after = override_of (ov_stale_after ov) (bd_stale_after minted),
                 bd_poll_interval = override_of (ov_poll_interval ov) (bd_poll_interval minted),
                 bd_kill_grace = override_of (ov_kill_grace ov) (bd_kill_grace minted),
                 bd_max_relaunches = override_of (ov_max_relaunches ov) (bd_max_relaunches minted)\<rparr>)"

definition config_flag :: "string \<Rightarrow> bool" where
  "config_flag f \<longleftrightarrow> starts_with ''--config='' f \<or> f = ''--config''"

definition config_supplied :: "string \<Rightarrow> string list \<Rightarrow> bool" where
  "config_supplied flag post \<longleftrightarrow> starts_with ''--config='' flag \<or> (post \<noteq> [] \<and> \<not> starts_with ''-'' (hd post))"

lemma require_config_Cons:
  "require_config (f # rest) =
     (if config_flag f then (if config_supplied f rest then Inr () else Inl SystemExit)
      else require_config rest)"
  by (auto simp: config_flag_def config_supplied_def)

declare require_config.simps(2) [simp del]

lemma require_config_skip:
  "\<forall>f \<in> set pre. \<not> config_flag f \<Longrightarrow> require_config (pre @ post) = require_config post"
  by (induction pre) (auto simp: require_config_Cons)

lemma split_argv_Inr:
  assumes "split_argv args = Inr (flags, child)"
  shows "args = flags @ ''--'' # child \<and> ''--'' \<notin> set flags \<and> child \<noteq> []"
proof -
  define dw where "dw = dropWhile (\<lambda>a. a \<noteq> ''--'') args"
  from assms have m: "''--'' \<in> set args" and c: "child = tl dw" "child \<noteq> []"
    and f: "flags = takeWhile (\<lambda>a. a \<noteq> ''--'') args"
    by (auto simp: split_argv_def dw_def Let_def split: if_splits)
  from m have "dw \<noteq> []" by (auto simp: dw_def)
  then have "hd dw = ''--''" unfolding dw_def using hd_dropWhile by blast
  with c \<open>dw \<noteq> []\<close> have "dw = ''--'' # child" by (metis list.collapse)
  moreover have "args = flags @ dw" by (simp add: f dw_def)
  ultimately show ?thesis using c f by (auto dest: set_takeWhileD)
qed

section \<open>Properties\<close>

fun signals_of :: "sup_act list \<Rightarrow> int list" where
  "signals_of [] = []"
| "signals_of (SendSignal s # tr) = s # signals_of tr"
| "signals_of (_ # tr) = signals_of tr"

text \<open>The stop ladder is bounded and escalates in order: it sends SIGTERM first, sends it at most
  twice, sends SIGKILL at most once and only after a timeout or a third operator signal, and a
  child reaped before that is never killed.\<close>

theorem stop_ladder_escalates:
  "signals_of (snd (stop_child_cooperatively w)) =
     (case w 0 of
        WaitCode _ \<Rightarrow> [SIGTERM]
      | WaitTimeout \<Rightarrow> [SIGTERM, SIGKILL]
      | WaitStop _ \<Rightarrow> (case w 1 of
           WaitCode _ \<Rightarrow> [SIGTERM, SIGTERM]
         | _ \<Rightarrow> [SIGTERM, SIGTERM, SIGKILL]))"
  by (simp add: stop_child_cooperatively_def ladder_loop_1 [simplified] ladder_loop_2 Let_def
      split: wait_res.split)

text \<open>The exit disposition after a stop: the supervisor exits with the child's code only when it is
  a diagnosis of the child's own, never 0 and never the echo of the SIGTERM or SIGKILL it sent
  itself; in every other case it dies of the signal it was stopped with.\<close>

theorem stop_exit_disposition:
  "fst (stop_and_exit child signum) =
     (case child of None \<Rightarrow> DieOf signum
      | Some w \<Rightarrow> (case fst (stop_child_cooperatively w) of
           None \<Rightarrow> DieOf signum
         | Some c \<Rightarrow> if c \<in> {0, - 15, - 9} then DieOf signum else ExitWith c))"
  by (auto simp: stop_and_exit_def LADDER_SIGNALS_def SIGTERM_def SIGKILL_def
      split: option.split prod.split)

text \<open>The command line is cut at the first separator and the child's argument vector is taken
  verbatim, separators inside it included; a missing separator or an empty child is refused.\<close>

theorem split_argv_exact:
  "split_argv args = Inr (flags, child) \<longleftrightarrow>
     args = flags @ ''--'' # child \<and> ''--'' \<notin> set flags \<and> child \<noteq> []"
proof
  assume "args = flags @ ''--'' # child \<and> ''--'' \<notin> set flags \<and> child \<noteq> []"
  moreover from this have "\<forall>a \<in> set flags. a \<noteq> ''--''" by auto
  ultimately show "split_argv args = Inr (flags, child)"
    by (simp add: split_argv_def Let_def takeWhile_append2 dropWhile_append2)
qed (rule split_argv_Inr)

text \<open>The first configuration flag decides: flags that name no config are skipped, and the command
  line is accepted exactly when that flag carries its value or is followed by something that is
  not another flag.\<close>

theorem require_config_first_flag:
  assumes "\<forall>f \<in> set pre. \<not> config_flag f" and "config_flag flag"
  shows "require_config (pre @ flag # post) =
           (if config_supplied flag post then Inr () else Inl SystemExit)"
  using assms by (simp add: require_config_skip require_config_Cons)

theorem require_config_first_flag_witness:
  "require_config [''--max-relaunches'', ''3'', ''--config'', ''--heartbeat-file''] = Inl SystemExit"
  using require_config_first_flag [of "[''--max-relaunches'', ''3'']" "''--config''" "[''--heartbeat-file'']"]
  by (simp add: config_flag_def config_supplied_def starts_with_def)

end
