(* ===== verification/Text.thy ===== *)
theory Text
  imports Prelude
begin

text \<open>
  Decimal rendering of integers (\<open>str(i)\<close>), the separator-joined strings the program uses
  as keys, and their injectivity: two keys agree only when their parts do.
\<close>

section \<open>Decimal rendering\<close>

definition digit :: "nat \<Rightarrow> char" where
  "digit d = char_of (48 + d)"

fun str_nat :: "nat \<Rightarrow> string" where
  "str_nat n = (if n < 10 then [digit n] else str_nat (n div 10) @ [digit (n mod 10)])"

declare str_nat.simps [simp del]

definition str_int :: "int \<Rightarrow> string" where
  "str_int i = (if i < 0 then CHR ''-'' # str_nat (nat (- i)) else str_nat (nat i))"

definition digit_chars :: "char set" where
  "digit_chars = digit ` {0..<10}"

lemma of_char_digit: "d < 10 \<Longrightarrow> (of_char (digit d) :: nat) = 48 + d"
  by (simp add: digit_def)

lemma digit_one: "digit (Suc 0) = CHR ''1''"
  by (simp add: digit_def char_of_def bit_Suc_0_iff)

definition undigits :: "string \<Rightarrow> nat" where
  "undigits s = foldl (\<lambda>n c. n * 10 + (of_char c - 48)) 0 s"

lemma undigits_zeros: "undigits (replicate k CHR ''0'' @ s) = undigits s"
  by (induction k) (simp_all add: undigits_def)

lemma undigits_str_nat: "undigits (str_nat n) = n"
proof (induction n rule: str_nat.induct)
  case (1 n)
  show ?case
  proof (cases "n < 10")
    case True
    then show ?thesis by (subst str_nat.simps) (simp add: undigits_def of_char_digit)
  next
    case False
    with 1 have "foldl (\<lambda>n c. n * 10 + (of_char c - 48)) 0 (str_nat (n div 10)) = n div 10"
      by (simp add: undigits_def)
    with False show ?thesis
      by (subst str_nat.simps) (simp add: undigits_def of_char_digit)
  qed
qed

lemma str_nat_inj: "str_nat m = str_nat n \<longleftrightarrow> m = n"
  by (metis undigits_str_nat)

lemma str_nat_chars: "set (str_nat n) \<subseteq> digit_chars"
proof (induction n rule: str_nat.induct)
  case (1 n)
  then show ?case by (subst str_nat.simps) (auto simp: digit_chars_def)
qed

lemma digit_inj: "d < 10 \<Longrightarrow> of_char (digit d) \<in> {48..57::nat}"
  by (simp add: of_char_digit)

lemma not_digit: "(of_char c :: nat) \<notin> {48..57} \<Longrightarrow> c \<notin> digit_chars"
  unfolding digit_chars_def using digit_inj by fastforce

lemma str_nat_no: "(of_char c :: nat) \<notin> {48..57} \<Longrightarrow> c \<notin> set (str_nat n)"
  using not_digit str_nat_chars by blast

lemma str_int_inj: "str_int i = str_int j \<longleftrightarrow> i = j"
proof -
  have m: "CHR ''-'' \<notin> set (str_nat n)" for n by (rule str_nat_no) simp
  then have "str_nat n \<noteq> CHR ''-'' # xs" for n xs by (metis list.set_intros(1))
  then show ?thesis by (auto simp: str_int_def str_nat_inj) metis+
qed

lemma str_int_no:
  "(of_char c :: nat) \<notin> {48..57} \<Longrightarrow> c \<noteq> CHR ''-'' \<Longrightarrow> c \<notin> set (str_int i)"
  by (simp add: str_int_def str_nat_no)

section \<open>Separated strings\<close>

lemma append_sep_inj:
  assumes "x @ c # xs = y @ c # ys" and "c \<notin> set x" and "c \<notin> set y"
  shows "x = y \<and> xs = ys"
  using assms
proof (induction x arbitrary: y)
  case Nil
  then show ?case by (cases y) auto
next
  case (Cons a x)
  then show ?case by (cases y) auto
qed

fun join :: "char \<Rightarrow> string list \<Rightarrow> string" where
  "join c [] = []"
| "join c [s] = s"
| "join c (s # t # ss) = s @ c # join c (t # ss)"

lemma join_inj:
  assumes "join c ss = join c ts" and "length ss = length ts"
    and "\<forall>s \<in> set ss \<union> set ts. c \<notin> set s"
  shows "ss = ts"
  using assms
proof (induction c ss arbitrary: ts rule: join.induct)
  case (1 c)
  then show ?case by simp
next
  case (2 c s)
  then show ?case by (cases ts) auto
next
  case (3 c s t ss)
  then have "length ts = Suc (Suc (length ss))" by simp
  then obtain u v us where ts: "ts = u # v # us" unfolding length_Suc_conv by blast
  from 3 ts have "s @ c # join c (t # ss) = u @ c # join c (v # us)" by simp
  from append_sep_inj [OF this] 3(4) ts
  have "s = u" "join c (t # ss) = join c (v # us)" by auto
  then show ?case using 3(1) [of "v # us"] 3(3,4) ts by auto
qed

section \<open>Coordinate lists\<close>

type_synonym cell = "int \<times> int"

text \<open>\<open>f"{q},{r};"\<close> for every move, concatenated: what \<open>_trajectory_hash\<close> hashes.\<close>

fun moves_text :: "cell list \<Rightarrow> string" where
  "moves_text [] = []"
| "moves_text ((q, r) # ms) = str_int q @ CHR '','' # str_int r @ CHR '';'' # moves_text ms"

lemma moves_text_inj: "moves_text ms = moves_text ns \<longleftrightarrow> ms = ns"
proof
  show "moves_text ms = moves_text ns \<Longrightarrow> ms = ns"
  proof (induction ms arbitrary: ns)
    case Nil
    then show ?case by (cases ns) auto
  next
    case (Cons m ms)
    obtain q r where m: "m = (q, r)" by (cases m)
    with Cons.prems obtain q' r' ns' where ns: "ns = (q', r') # ns'" by (cases ns) auto
    have c: "CHR '','' \<notin> set (str_int i)" and sc: "CHR '';'' \<notin> set (str_int i)" for i
      by (simp_all add: str_int_no)
    from Cons.prems m ns have
      "str_int q @ CHR '','' # str_int r @ CHR '';'' # moves_text ms =
       str_int q' @ CHR '','' # str_int r' @ CHR '';'' # moves_text ns'" by simp
    note e1 = append_sep_inj [OF this c c]
    note e2 = append_sep_inj [OF conjunct2 [OF e1] sc sc]
    from e1 e2 Cons.IH m ns show ?case by (simp add: str_int_inj)
  qed
qed simp

end
