(* ===== verification/Arena.thy ===== *)
theory Arena
  imports Text
begin

text \<open>
  The arena's small authorities: the regime tag (\<open>arena/regime.py\<close>), the ply-cap
  adjudicator (\<open>arena/adjudicate.py\<close>) and the opening books (\<open>arena/books.py\<close>).
  The engine board is Rust code behind a bridge; what the Python asks of it is a record of
  functions \<open>board_ops\<close> over a board type.
\<close>

section \<open>The engine board as the Python sees it\<close>

record 'b board_ops =
  bo_is_legal :: "'b \<Rightarrow> cell \<Rightarrow> bool"
  bo_apply :: "'b \<Rightarrow> cell \<Rightarrow> 'b res"
  bo_check_win :: "'b \<Rightarrow> bool"
  bo_legal_count :: "'b \<Rightarrow> nat"
  bo_current_player :: "'b \<Rightarrow> int"
  bo_winner :: "'b \<Rightarrow> int option"
  bo_has_long_run :: "'b \<Rightarrow> int \<Rightarrow> nat \<Rightarrow> bool"
  bo_winning_moves :: "'b \<Rightarrow> int \<Rightarrow> nat"

section \<open>The regime tag\<close>

record regime_key =
  rk_bot :: string
  rk_variant :: string
  rk_model_sims :: int
  rk_opponent_spec :: string
  rk_opening_book :: string
  rk_deploy_matched :: bool
  rk_encoding :: string

definition regime_parts :: "regime_key \<Rightarrow> string list" where
  "regime_parts k =
     [rk_bot k, rk_variant k, str_int (rk_model_sims k), rk_opponent_spec k, rk_opening_book k,
      if rk_deploy_matched k then ''1'' else ''0'', rk_encoding k]"

definition canonical :: "regime_key \<Rightarrow> string res" where
  "canonical k =
     (if \<exists>part \<in> set (regime_parts k). CHR ''|'' \<in> set part then Inl ValueError
      else Inr (join (CHR ''|'') (regime_parts k)))"

lemma regime_parts_inj: "regime_parts k = regime_parts k' \<Longrightarrow> k = k'"
  by (cases k; cases k') (auto simp: regime_parts_def str_int_inj split: if_splits)

section \<open>Ply-cap adjudication\<close>

datatype outcome = Candidate | Opponent | Drawn

datatype terminal = TerminalWin | TerminalExhausted | TerminalPlyCap | TerminalForfeit

datatype criterion = LongestRun | ImmediateWin

text \<open>The closed set of criterion names; any other name is refused.\<close>

definition criterion_of :: "string \<Rightarrow> criterion option" where
  "criterion_of s = (if s = ''longest_run_margin'' then Some LongestRun
                     else if s = ''immediate_win_margin'' then Some ImmediateWin else None)"

record verdict =
  vd_winner :: outcome
  vd_criterion :: criterion
  vd_margin :: int

record tally =
  ty_adjudicated :: nat
  ty_candidate :: nat
  ty_opponent :: nat
  ty_draw :: nat

record adjudicator =
  adj_criterion :: criterion
  adj_min_margin :: int
  adj_tally :: tally

definition adj_init :: "string \<Rightarrow> int \<Rightarrow> adjudicator res" where
  "adj_init name min_margin = (case criterion_of name of
      None \<Rightarrow> Inl PlyCapCriterionError
    | Some c \<Rightarrow> Inr \<lparr>adj_criterion = c, adj_min_margin = min_margin,
                     adj_tally = \<lparr>ty_adjudicated = 0, ty_candidate = 0, ty_opponent = 0, ty_draw = 0\<rparr>\<rparr>)"

text \<open>The probing loop: lengthen the run while the engine confirms one stone more.\<close>

function longest_run_from :: "(nat \<Rightarrow> bool) \<Rightarrow> nat \<Rightarrow> nat \<Rightarrow> nat" where
  "longest_run_from has_run cap len =
     (if len < cap \<and> has_run (len + 1) then longest_run_from has_run cap (len + 1) else len)"
  by pat_completeness auto
termination
  by (relation "measure (\<lambda>(has_run, cap, len). cap - len)") auto

declare longest_run_from.simps [simp del]

definition longest_run :: "('b, 'x) board_ops_scheme \<Rightarrow> 'b \<Rightarrow> int \<Rightarrow> nat \<Rightarrow> nat" where
  "longest_run ops board player cap = longest_run_from (bo_has_long_run ops board player) cap 0"

definition measure_margin :: "('b, 'x) board_ops_scheme \<Rightarrow> criterion \<Rightarrow> 'b \<Rightarrow> int \<Rightarrow> nat \<Rightarrow> int" where
  "measure_margin ops c board color plies = (case c of
      LongestRun \<Rightarrow> int (longest_run ops board color plies) - int (longest_run ops board (- color) plies)
    | ImmediateWin \<Rightarrow> int (bo_winning_moves ops board color) - int (bo_winning_moves ops board (- color)))"

definition award :: "int \<Rightarrow> int \<Rightarrow> outcome" where
  "award min_margin margin =
     (if margin \<ge> min_margin then Candidate else if - margin \<ge> min_margin then Opponent else Drawn)"

definition count_award :: "outcome \<Rightarrow> tally \<Rightarrow> tally" where
  "count_award w t =
     (let t1 = t\<lparr>ty_adjudicated := Suc (ty_adjudicated t)\<rparr> in
      case w of Candidate \<Rightarrow> t1\<lparr>ty_candidate := Suc (ty_candidate t)\<rparr>
              | Opponent \<Rightarrow> t1\<lparr>ty_opponent := Suc (ty_opponent t)\<rparr>
              | Drawn \<Rightarrow> t1\<lparr>ty_draw := Suc (ty_draw t)\<rparr>)"

definition adjudicate ::
  "('b, 'x) board_ops_scheme \<Rightarrow> 'b \<Rightarrow> int \<Rightarrow> nat \<Rightarrow> adjudicator \<Rightarrow> verdict \<times> adjudicator" where
  "adjudicate ops board color plies a =
     (let margin = measure_margin ops (adj_criterion a) board color plies;
          w = award (adj_min_margin a) margin
      in (\<lparr>vd_winner = w, vd_criterion = adj_criterion a, vd_margin = margin\<rparr>,
          a\<lparr>adj_tally := count_award w (adj_tally a)\<rparr>))"

lemma longest_run_from_bounds:
  "len \<le> cap \<Longrightarrow> longest_run_from p cap len \<le> cap \<and> len \<le> longest_run_from p cap len"
proof (induction p cap len rule: longest_run_from.induct)
  case (1 p cap len)
  then show ?case by (subst (1 2) longest_run_from.simps) (auto dest: Suc_leD)
qed

lemma longest_run_from_spec:
  assumes "len \<le> cap"
  shows "(\<forall>k. len < k \<longrightarrow> k \<le> longest_run_from p cap len \<longrightarrow> p k) \<and>
         (longest_run_from p cap len = cap \<or> \<not> p (Suc (longest_run_from p cap len)))"
  using assms
proof (induction p cap len rule: longest_run_from.induct)
  case (1 p cap len)
  show ?case
  proof (cases "len < cap \<and> p (len + 1)")
    case True
    with "1.IH" have ih: "(\<forall>k. len + 1 < k \<longrightarrow> k \<le> longest_run_from p cap (len + 1) \<longrightarrow> p k) \<and>
         (longest_run_from p cap (len + 1) = cap \<or> \<not> p (Suc (longest_run_from p cap (len + 1))))"
      by simp
    have eq: "longest_run_from p cap len = longest_run_from p cap (len + 1)"
      using True by (subst longest_run_from.simps) simp
    have "p k" if "len < k" "k \<le> longest_run_from p cap len" for k
      using that True ih by (cases "k = len + 1") (auto simp: eq)
    with ih show ?thesis by (simp add: eq)
  next
    case False
    then have "longest_run_from p cap len = len" by (subst longest_run_from.simps) auto
    with False "1.prems" show ?thesis by auto
  qed
qed

lemma award_swap: "0 < m \<Longrightarrow>
   award m (- x) = (case award m x of Candidate \<Rightarrow> Opponent | Opponent \<Rightarrow> Candidate | Drawn \<Rightarrow> Drawn)"
  by (auto simp: award_def)

lemma measure_margin_swap:
  "measure_margin ops c board (- color) plies = - measure_margin ops c board color plies"
  by (cases c) (simp_all add: measure_margin_def)

definition tally_consistent :: "tally \<Rightarrow> bool" where
  "tally_consistent t \<longleftrightarrow> ty_adjudicated t = ty_candidate t + ty_opponent t + ty_draw t"

section \<open>Opening books\<close>

record book_opening =
  op_id :: string
  op_moves :: "cell list"

definition PLAIN_START :: "cell list" where
  "PLAIN_START = [(0, 0)]"

text \<open>
  The manifest maps a book id to its file and pinned digest; \<open>digest\<close> is sha256 and
  \<open>parse\<close> the JSON decoding of a book's bytes.
\<close>

record book_entry =
  be_file :: string
  be_sha256 :: string

record books_dir =
  bd_manifest :: "(string, book_entry) dict option"
  bd_files :: "(string, string) dict"

definition verified_book_bytes :: "(string \<Rightarrow> string) \<Rightarrow> string \<Rightarrow> books_dir \<Rightarrow> string res" where
  "verified_book_bytes digest book_id dir =
     (case bd_manifest dir of None \<Rightarrow> Inl BookError
      | Some books \<Rightarrow>
         (case map_of books book_id of None \<Rightarrow> Inl BookError
          | Some entry \<Rightarrow>
             (case map_of (bd_files dir) (be_file entry) of None \<Rightarrow> Inl BookError
              | Some raw \<Rightarrow> if digest raw \<noteq> be_sha256 entry then Inl BookError else Inr raw)))"

definition book_sha256 :: "(string \<Rightarrow> string) \<Rightarrow> string \<Rightarrow> books_dir \<Rightarrow> string res" where
  "book_sha256 digest book_id dir = rbind (verified_book_bytes digest book_id dir) (\<lambda>raw. Inr (digest raw))"

definition book_openings ::
  "(string \<Rightarrow> string) \<Rightarrow> (string \<Rightarrow> book_opening list) \<Rightarrow> string \<Rightarrow> books_dir \<Rightarrow> book_opening list res" where
  "book_openings digest parse book_id dir =
     rbind (verified_book_bytes digest book_id dir) (\<lambda>raw. Inr (parse raw))"

text \<open>\<open>sample seed n k\<close> is \<open>random.Random(seed).sample(range(n), k)\<close>.\<close>

definition paired_openings ::
  "(string \<Rightarrow> string) \<Rightarrow> (string \<Rightarrow> book_opening list) \<Rightarrow> (int \<Rightarrow> nat \<Rightarrow> nat \<Rightarrow> nat list) \<Rightarrow>
   string \<Rightarrow> int \<Rightarrow> int \<Rightarrow> books_dir \<Rightarrow> book_opening list res" where
  "paired_openings digest parse sample book_id n_pairs seed dir =
     rbind (book_openings digest parse book_id dir) (\<lambda>raw.
       let n = min n_pairs (int (length raw)) in
       if raw = [] then Inr []
       else if n < 0 then Inl ValueError
       else Inr (map (\<lambda>i. raw ! i) (sample seed (length raw) (nat n))))"

text \<open>\<open>shuffled seed n\<close> is \<open>range(n)\<close> after \<open>random.Random(seed).shuffle\<close>.\<close>

definition round_window :: "nat list \<Rightarrow> nat \<Rightarrow> nat \<Rightarrow> nat list" where
  "round_window order width r =
     (let total = length order; start = (r * width) mod total
      in map (\<lambda>i. order ! ((start + i) mod total)) [0..<width])"

definition round_openings ::
  "(string \<Rightarrow> string) \<Rightarrow> (string \<Rightarrow> book_opening list) \<Rightarrow> (int \<Rightarrow> nat \<Rightarrow> nat list) \<Rightarrow>
   string \<Rightarrow> int \<Rightarrow> int \<Rightarrow> int \<Rightarrow> books_dir \<Rightarrow> book_opening list res" where
  "round_openings digest parse shuffled book_id n_pairs seed_base round_index dir =
     (if n_pairs < 0 \<or> round_index < 0 then Inl ValueError
      else rbind (book_openings digest parse book_id dir) (\<lambda>raw.
        let total = length raw in
        if total = 0 then Inr []
        else Inr (map (\<lambda>i. raw ! i)
               (round_window (shuffled seed_base total) (min (nat n_pairs) total) (nat round_index)))))"

lemma mod_neq_close:
  fixes a b n :: nat
  assumes "a < b" and "b - a < n"
  shows "a mod n \<noteq> b mod n"
proof
  assume "a mod n = b mod n"
  then have "n dvd b - a" using assms(1) by (metis less_imp_le_nat mod_eq_dvd_iff_nat)
  with assms show False by (auto dest: dvd_imp_le)
qed

lemma round_window_map:
  "round_window order width r = map (\<lambda>i. order ! ((r * width + i) mod length order)) [0..<width]"
  by (simp add: round_window_def Let_def mod_simps)

lemma round_window_length [simp]: "length (round_window order width r) = width"
  by (simp add: round_window_map)

lemma round_window_distinct:
  assumes "distinct order" and "width \<le> length order"
  shows "distinct (round_window order width r)"
proof (cases "order = []")
  case True
  with assms show ?thesis by (simp add: round_window_map)
next
  case False
  have "inj_on (\<lambda>i. order ! ((r * width + i) mod length order)) {0..<width}"
  proof (rule linorder_inj_onI')
    fix i j assume "i \<in> {0..<width}" "j \<in> {0..<width}" "i < j"
    then have "(r * width + i) mod length order \<noteq> (r * width + j) mod length order"
      using assms(2) by (intro mod_neq_close) auto
    then show "order ! ((r * width + i) mod length order) \<noteq> order ! ((r * width + j) mod length order)"
      using assms(1) False by (simp add: nth_eq_iff_index_eq)
  qed
  then show ?thesis by (simp add: round_window_map distinct_map)
qed

lemma round_window_subset:
  assumes "order \<noteq> []"
  shows "set (round_window order width r) \<subseteq> set order"
  using assms by (auto simp: round_window_map)

lemma round_window_disjoint:
  assumes "distinct order" and "r < r'" and "(r' - r + 1) * width \<le> length order"
  shows "set (round_window order width r) \<inter> set (round_window order width r') = {}"
proof (cases "width = 0")
  case False
  then have ne: "order \<noteq> []" using assms(3) by auto
  have "order ! ((r * width + i) mod length order) \<noteq> order ! ((r' * width + j) mod length order)"
    if "i < width" "j < width" for i j
  proof -
    have "r' * width = r * width + (r' - r) * width"
      using assms(2) by (metis add_mult_distrib le_add_diff_inverse less_imp_le_nat)
    moreover have "width \<le> (r' - r) * width" using assms(2) by (cases "r' - r") auto
    ultimately have "(r * width + i) mod length order \<noteq> (r' * width + j) mod length order"
      using that assms(3) by (intro mod_neq_close) (auto simp: algebra_simps)
    then show ?thesis using assms(1) ne by (simp add: nth_eq_iff_index_eq)
  qed
  then show ?thesis by (auto simp: round_window_map)
qed (simp add: round_window_map)

section \<open>Properties\<close>

text \<open>The canonical regime string identifies the regime: two keys that both render are equal
  exactly when their strings are, so a pool of records with one string holds one regime; a key
  with the separator in a field does not render at all.\<close>

theorem canonical_identifies:
  assumes "canonical k = Inr s" and "canonical k' = Inr s'"
  shows "s = s' \<longleftrightarrow> k = k'"
proof
  assume "s = s'"
  with assms have "join (CHR ''|'') (regime_parts k) = join (CHR ''|'') (regime_parts k')"
    and "\<forall>p \<in> set (regime_parts k) \<union> set (regime_parts k'). CHR ''|'' \<notin> set p"
    by (auto simp: canonical_def split: if_splits)
  moreover have "length (regime_parts k) = length (regime_parts k')" by (simp add: regime_parts_def)
  ultimately show "k = k'" by (blast intro: regime_parts_inj join_inj)
qed (use assms in simp)

definition regime_gate :: "int \<Rightarrow> regime_key" where
  "regime_gate sims = \<lparr>rk_bot = ''deploy'', rk_variant = ''gate'', rk_model_sims = sims,
     rk_opponent_spec = ''best'', rk_opening_book = ''b'', rk_deploy_matched = True, rk_encoding = ''g''\<rparr>"

lemma str_nat_small: "n < 10 \<Longrightarrow> str_nat n = [digit n]"
  by (simp add: str_nat.simps)

theorem canonical_identifies_witness:
  "canonical (regime_gate 1) \<noteq> canonical (regime_gate 2)"
proof -
  have r: "\<exists>s. canonical (regime_gate n) = Inr s" if "n \<in> {1, 2}" for n
    using that str_int_no [of "CHR ''|''" n] by (auto simp: canonical_def regime_parts_def regime_gate_def)
  obtain s s' where "canonical (regime_gate 1) = Inr s" "canonical (regime_gate 2) = Inr s'"
    using r by blast
  with canonical_identifies [OF this] show ?thesis by (auto simp: regime_gate_def)
qed

text \<open>The longest-run probe is exact: for a board whose answer is monotone in the run length, the
  probe returns the largest length the engine confirms, capped at the plies played.\<close>

theorem longest_run_exact:
  assumes "\<And>j k. 1 \<le> j \<Longrightarrow> j \<le> k \<Longrightarrow> bo_has_long_run ops board player k \<Longrightarrow> bo_has_long_run ops board player j"
  shows "longest_run ops board player cap =
           Max {k. k \<le> cap \<and> (k = 0 \<or> bo_has_long_run ops board player k)}"
proof -
  define p where "p = bo_has_long_run ops board player"
  define L where "L = longest_run_from p cap 0"
  have spec: "\<And>k. 0 < k \<Longrightarrow> k \<le> L \<Longrightarrow> p k" "L = cap \<or> \<not> p (Suc L)" "L \<le> cap"
    using longest_run_from_spec [of 0 cap p] longest_run_from_bounds [of 0 cap p] by (auto simp: L_def)
  have "Max {k. k \<le> cap \<and> (k = 0 \<or> p k)} = L"
  proof (rule Max_eqI)
    show "L \<in> {k. k \<le> cap \<and> (k = 0 \<or> p k)}" using spec by (cases "L = 0") auto
    show "k \<le> L" if "k \<in> {k. k \<le> cap \<and> (k = 0 \<or> p k)}" for k
      using that spec(2) assms [of "Suc L" k] by (auto simp: p_def intro: leI dest!: Suc_leI)
  qed auto
  then show ?thesis by (simp add: longest_run_def L_def p_def)
qed

definition two_stone_ops :: "unit board_ops" where
  "two_stone_ops = \<lparr>bo_is_legal = (\<lambda>_ _. True), bo_apply = (\<lambda>b _. Inr b), bo_check_win = (\<lambda>_. False),
     bo_legal_count = (\<lambda>_. 1), bo_current_player = (\<lambda>_. 1), bo_winner = (\<lambda>_. None),
     bo_has_long_run = (\<lambda>_ p k. k \<le> (if p = 1 then 4 else 2)), bo_winning_moves = (\<lambda>_ _. 0)\<rparr>"

theorem longest_run_exact_witness:
  "longest_run two_stone_ops () 1 9 = Max {k. k \<le> 9 \<and> (k = 0 \<or> k \<le> 4)}"
  using longest_run_exact [of two_stone_ops "()" 1 9] by (simp add: two_stone_ops_def)

text \<open>Adjudication is seat-symmetric and counts itself: with a positive minimum margin, judging
  the same board for the other colour negates the margin and swaps the winner, a zero margin is
  never awarded, and the tally stays the sum of its three outcomes.\<close>

theorem adjudication_symmetric:
  assumes "0 < adj_min_margin a" and "tally_consistent (adj_tally a)"
  shows "case (adjudicate ops board color plies a, adjudicate ops board (- color) plies a) of
     ((v, a1), (v', _)) \<Rightarrow>
       vd_margin v' = - vd_margin v \<and>
       (vd_winner v = Candidate \<longleftrightarrow> vd_winner v' = Opponent) \<and>
       (vd_winner v = Opponent \<longleftrightarrow> vd_winner v' = Candidate) \<and>
       (vd_margin v = 0 \<longrightarrow> vd_winner v = Drawn) \<and>
       tally_consistent (adj_tally a1) \<and>
       ty_adjudicated (adj_tally a1) = Suc (ty_adjudicated (adj_tally a))"
  using assms
  by (auto simp: adjudicate_def Let_def measure_margin_swap award_swap tally_consistent_def
      award_def count_award_def split: outcome.splits)

definition armed :: adjudicator where
  "armed = \<lparr>adj_criterion = LongestRun, adj_min_margin = 2,
     adj_tally = \<lparr>ty_adjudicated = 0, ty_candidate = 0, ty_opponent = 0, ty_draw = 0\<rparr>\<rparr>"

theorem adjudication_symmetric_witness:
  "0 < adj_min_margin armed \<and>
   vd_margin (fst (adjudicate two_stone_ops () (- 1) 9 armed)) =
     - vd_margin (fst (adjudicate two_stone_ops () 1 9 armed))"
proof -
  have m: "0 < adj_min_margin armed" and t: "tally_consistent (adj_tally armed)"
    by (simp_all add: armed_def tally_consistent_def)
  show ?thesis
    using adjudication_symmetric [OF m t, of two_stone_ops "()" 1 9] m by (auto split: prod.splits)
qed

text \<open>Eval rounds draw fresh openings: for a shuffle that permutes the book, a round returns
  \<open>min(n_pairs, book)\<close> openings at distinct book positions, and two rounds whose windows fit
  side by side in the book share none; consecutive rounds do when the book holds two rounds.\<close>

theorem round_windows_fresh:
  assumes perm: "distinct (shuffled seed (length raw))" "set (shuffled seed (length raw)) = {0..<length raw}"
    and book: "book_openings digest parse book dir = Inr raw" "raw \<noteq> []"
    and n: "0 \<le> n_pairs" and width: "width = min (nat n_pairs) (length raw)"
    and gap: "r < r'" "(r' - r + 1) * width \<le> length raw"
  shows "\<exists>ws ws'.
     round_openings digest parse shuffled book n_pairs seed (int r) dir = Inr (map ((!) raw) ws) \<and>
     round_openings digest parse shuffled book n_pairs seed (int r') dir = Inr (map ((!) raw) ws') \<and>
     length ws = width \<and> distinct ws \<and> set ws \<subseteq> {0..<length raw} \<and>
     length ws' = width \<and> distinct ws' \<and> set ws \<inter> set ws' = {}"
proof -
  define order where "order = shuffled seed (length raw)"
  have len: "length order = length raw"
    using perm distinct_card [of order] by (simp add: order_def)
  have d: "distinct order" using perm by (simp add: order_def)
  have ne: "order \<noteq> []" using len book(2) by auto
  have "round_openings digest parse shuffled book n_pairs seed (int x) dir =
          Inr (map ((!) raw) (round_window order width x))" for x
    using book n width by (simp add: round_openings_def Let_def order_def)
  then show ?thesis
    using round_window_distinct [OF d] round_window_disjoint [OF d gap(1)] gap(2)
      round_window_subset [OF ne] perm width len
    by (intro exI [of _ "round_window order width r"] exI [of _ "round_window order width r'"])
       (auto simp: order_def)
qed

definition one_book :: books_dir where
  "one_book = \<lparr>bd_manifest = Some [(''b'', \<lparr>be_file = ''f'', be_sha256 = ''raw''\<rparr>)],
               bd_files = [(''f'', ''raw'')]\<rparr>"

definition four_openings :: "book_opening list" where
  "four_openings = map (\<lambda>i. \<lparr>op_id = str_nat i, op_moves = [(0, 0), (int i, 1)]\<rparr>) [0..<4]"

theorem round_windows_fresh_witness:
  "\<exists>ws ws'. round_openings id (\<lambda>_. four_openings) (\<lambda>_ n. rev [0..<n]) ''b'' 2 7 (int 0) one_book =
              Inr (map ((!) four_openings) ws) \<and>
            round_openings id (\<lambda>_. four_openings) (\<lambda>_ n. rev [0..<n]) ''b'' 2 7 (int 1) one_book =
              Inr (map ((!) four_openings) ws') \<and> set ws \<inter> set ws' = {}"
proof -
  have b: "book_openings id (\<lambda>_. four_openings) ''b'' one_book = Inr four_openings"
    by (simp add: book_openings_def verified_book_bytes_def one_book_def)
  have l: "length four_openings = 4" by (simp add: four_openings_def)
  show ?thesis
    using round_windows_fresh [of "\<lambda>_ n. rev [0..<n]" 7 four_openings id "\<lambda>_. four_openings" "''b''" one_book 2 2 0 1] b l
    by (auto simp: four_openings_def)
qed

end
