(* ===== verification/Match.thy ===== *)
theory Match
  imports Arena
begin

text \<open>
  \<open>src/mantis/arena/match.py\<close>: one game of two players on the engine board, its record,
  and the paired match that plays every opening twice with colours swapped, serially or with
  games in flight.  A player is a state \<open>'p\<close> with the operations the match calls on it;
  players read the board they are given and do not change it.  The sha256 of the move text is
  the argument \<open>sha\<close>.
\<close>

section \<open>Players, games, records\<close>

text \<open>A root child: its cell, two figures the record drops, and its visit count.\<close>

type_synonym root_child = "cell \<times> real \<times> real \<times> int"
type_synonym rows = "(string, int) dict"

record ('b, 'p) player_ops =
  po_new_game :: "'p \<Rightarrow> 'p"
  po_select :: "'b \<Rightarrow> 'p \<Rightarrow> (cell \<times> 'p) res"
  po_observe :: "(cell \<Rightarrow> 'p \<Rightarrow> 'p) option"
  po_last_root :: "'p \<Rightarrow> (real \<times> root_child list) option"
  po_last_tactics :: "'p \<Rightarrow> rows option"
  po_search_rows :: "'p \<Rightarrow> rows option"

record ply_stats =
  ps_ply :: nat
  ps_by :: outcome
  ps_root_value :: real
  ps_visits :: "(cell \<times> int) list"

record ('b, 'p) game =
  g_board :: 'b
  g_cand :: 'p
  g_opp :: 'p
  g_moves :: "cell list"
  g_stats :: "ply_stats list"
  g_saw_root :: bool
  g_tactics :: "rows option"

record game_result =
  gr_winner :: outcome
  gr_plies :: nat
  gr_moves :: "cell list"
  gr_terminal :: terminal
  gr_adjudication :: "verdict option"
  gr_stats :: "ply_stats list option"
  gr_tactics :: "rows option"

record game_record =
  rec_regime_key :: regime_key
  rec_opening_id :: string
  rec_candidate_color :: int
  rec_opponent_color :: int
  rec_trajectory_hash :: string
  rec_winner :: outcome
  rec_plies :: nat
  rec_moves :: "cell list"
  rec_terminal :: terminal
  rec_adjudication :: "verdict option"
  rec_stats :: "ply_stats list option"
  rec_tactics :: "rows option"
  rec_search :: "rows option"

record ('b, 'p) match_env =
  me_board :: "'b board_ops"
  me_cand :: "('b, 'p) player_ops"
  me_opp :: "('b, 'p) player_ops"
  me_start :: 'b
  me_max_plies :: nat
  me_regime :: regime_key

section \<open>One game\<close>

definition add_tactics :: "rows option \<Rightarrow> rows option \<Rightarrow> rows option" where
  "add_tactics acc latest = (case latest of None \<Rightarrow> acc
     | Some rows \<Rightarrow>
        (let out = (case acc of None \<Rightarrow> [] | Some t \<Rightarrow> t);
             summed = fold (\<lambda>(k, v) d. AList.update k (dget d k 0 + v) d) rows out
         in Some (AList.update ''stones'' (dget summed ''stones'' 0 + 1) summed)))"

definition observed :: "('b, 'p) player_ops \<Rightarrow> cell \<Rightarrow> 'p \<Rightarrow> 'p" where
  "observed po mv p = (case po_observe po of None \<Rightarrow> p | Some f \<Rightarrow> f mv p)"

definition apply_stone :: "('b, 'p) match_env \<Rightarrow> cell \<Rightarrow> ('b, 'p) game \<Rightarrow> ('b, 'p) game res" where
  "apply_stone env mv g =
     rbind (bo_apply (me_board env) (g_board g) mv) (\<lambda>b.
       Inr (g\<lparr>g_board := b, g_moves := g_moves g @ [mv],
              g_cand := observed (me_cand env) mv (g_cand g),
              g_opp := observed (me_opp env) mv (g_opp g)\<rparr>))"

fun replay_opening :: "('b, 'p) match_env \<Rightarrow> cell list \<Rightarrow> ('b, 'p) game \<Rightarrow> ('b, 'p) game res" where
  "replay_opening env [] g = Inr g"
| "replay_opening env (mv # mvs) g =
     (if \<not> bo_is_legal (me_board env) (g_board g) mv then Inl IllegalOpeningError
      else rbind (apply_stone env mv g) (replay_opening env mvs))"

definition candidate_to_move :: "('b, 'p) match_env \<Rightarrow> int \<Rightarrow> ('b, 'p) game \<Rightarrow> bool" where
  "candidate_to_move env color g \<longleftrightarrow> bo_current_player (me_board env) (g_board g) = color"

definition note_root :: "('b, 'p) match_env \<Rightarrow> bool \<Rightarrow> ('b, 'p) game \<Rightarrow> ('b, 'p) game" where
  "note_root env by_cand g =
     (case (if by_cand then po_last_root (me_cand env) (g_cand g) else po_last_root (me_opp env) (g_opp g)) of
        None \<Rightarrow> g
      | Some (root_value, children) \<Rightarrow>
          g\<lparr>g_saw_root := True,
            g_stats := g_stats g @ [\<lparr>ps_ply = length (g_moves g),
                ps_by = (if by_cand then Candidate else Opponent), ps_root_value = root_value,
                ps_visits = map (\<lambda>(c, _, _, n). (c, n)) (filter (\<lambda>(_, _, _, n). n > 0) children)\<rparr>]\<rparr>)"

text \<open>One ply: \<open>Some w\<close> is a forfeit won by \<open>w\<close>, \<open>None\<close> a stone placed.\<close>

definition play_ply :: "('b, 'p) match_env \<Rightarrow> int \<Rightarrow> ('b, 'p) game \<Rightarrow> (outcome option \<times> ('b, 'p) game) res" where
  "play_ply env color g =
     (let by_cand = candidate_to_move env color g in
      rbind (if by_cand then po_select (me_cand env) (g_board g) (g_cand g)
             else po_select (me_opp env) (g_board g) (g_opp g)) (\<lambda>(mv, p).
        let g1 = (if by_cand
                  then g\<lparr>g_cand := p, g_tactics := add_tactics (g_tactics g) (po_last_tactics (me_cand env) p)\<rparr>
                  else g\<lparr>g_opp := p\<rparr>)
        in if \<not> bo_is_legal (me_board env) (g_board g1) mv
           then Inr (Some (if by_cand then Opponent else Candidate), g1)
           else rbind (apply_stone env mv (note_root env by_cand g1)) (\<lambda>g2. Inr (None, g2))))"

definition keeps_playing :: "('b, 'p) match_env \<Rightarrow> ('b, 'p) game \<Rightarrow> bool" where
  "keeps_playing env g \<longleftrightarrow>
     \<not> bo_check_win (me_board env) (g_board g) \<and> bo_legal_count (me_board env) (g_board g) > 0 \<and>
     length (g_moves g) < me_max_plies env"

lemma note_root_keeps [simp]:
  "g_moves (note_root env c g) = g_moves g" "g_board (note_root env c g) = g_board g"
  by (auto simp: note_root_def split: option.split)

lemma apply_stone_moves:
  "apply_stone env mv g = Inr g' \<Longrightarrow> g_moves g' = g_moves g @ [mv]"
  by (auto simp: apply_stone_def rbind_Inr_iff)

lemma play_ply_moves:
  "play_ply env color g = Inr (None, g') \<Longrightarrow> length (g_moves g') = Suc (length (g_moves g))"
  by (auto simp: play_ply_def Let_def rbind_Inr_iff dest!: apply_stone_moves split: if_splits prod.splits)

function play_loop :: "('b, 'p) match_env \<Rightarrow> int \<Rightarrow> ('b, 'p) game \<Rightarrow> (outcome option \<times> ('b, 'p) game) res" where
  "play_loop env color g =
     (if keeps_playing env g
      then (case play_ply env color g of
              Inl e \<Rightarrow> Inl e
            | Inr (Some w, g') \<Rightarrow> Inr (Some w, g')
            | Inr (None, g') \<Rightarrow> play_loop env color g')
      else Inr (None, g))"
  by pat_completeness auto
termination
  by (relation "measure (\<lambda>(env, color, g). me_max_plies env - length (g_moves g))")
     (auto simp: keeps_playing_def dest!: play_ply_moves)

declare play_loop.simps [simp del]

definition finish_game ::
  "('b, 'p) match_env \<Rightarrow> int \<Rightarrow> adjudicator option \<Rightarrow> outcome option \<Rightarrow> ('b, 'p) game \<Rightarrow>
   game_result \<times> adjudicator option" where
  "finish_game env color adj forfeit g =
     (let plies = length (g_moves g);
          stats = (if g_saw_root g then Some (g_stats g) else None);
          result = (\<lambda>w t v. \<lparr>gr_winner = w, gr_plies = plies, gr_moves = g_moves g, gr_terminal = t,
                             gr_adjudication = v, gr_stats = stats, gr_tactics = g_tactics g\<rparr>)
      in case forfeit of
           Some w \<Rightarrow> (result w TerminalForfeit None, adj)
         | None \<Rightarrow>
            (if bo_check_win (me_board env) (g_board g)
             then (result (if bo_winner (me_board env) (g_board g) = Some color then Candidate else Opponent)
                     TerminalWin None, adj)
             else if me_max_plies env \<le> plies
             then (case adj of
                     None \<Rightarrow> (result Drawn TerminalPlyCap None, None)
                   | Some a \<Rightarrow> (case adjudicate (me_board env) (g_board g) color plies a of
                        (v, a') \<Rightarrow> (result (vd_winner v) TerminalPlyCap (Some v), Some a')))
             else (result Drawn TerminalExhausted None, adj)))"

type_synonym 'p seats = "'p \<times> 'p \<times> adjudicator option"

definition play_one_game ::
  "('b, 'p) match_env \<Rightarrow> cell list \<Rightarrow> int \<Rightarrow> 'p seats \<Rightarrow> (game_result \<times> 'p seats) res" where
  "play_one_game env opening_moves color = (\<lambda>(c, p, adj).
     rbind (replay_opening env (if opening_moves = [] then PLAIN_START else opening_moves)
        \<lparr>g_board = me_start env, g_cand = po_new_game (me_cand env) c, g_opp = po_new_game (me_opp env) p,
         g_moves = [], g_stats = [], g_saw_root = False, g_tactics = None\<rparr>) (\<lambda>g.
     rbind (play_loop env color g) (\<lambda>(forfeit, g').
       case finish_game env color adj forfeit g' of
         (res, adj') \<Rightarrow> Inr (res, (g_cand g', g_opp g', adj')))))"

section \<open>The record of one slot\<close>

definition row_deltas :: "rows option \<Rightarrow> rows option \<Rightarrow> rows option res" where
  "row_deltas before after = (case (before, after) of
      (Some b, Some a) \<Rightarrow> rbind (rmap (\<lambda>(k, v). case map_of b k of
            None \<Rightarrow> Inl KeyError | Some v0 \<Rightarrow> Inr (k, v - v0)) a) (\<lambda>d. Inr (Some d))
    | _ \<Rightarrow> Inr None)"

definition record_one ::
  "(string \<Rightarrow> string) \<Rightarrow> ('b, 'p) match_env \<Rightarrow> book_opening \<times> int \<Rightarrow> 'p seats \<Rightarrow> (game_record \<times> 'p seats) res" where
  "record_one sha env slot st = (case (slot, st) of ((op, color), (c, p, adj)) \<Rightarrow>
     (let before = po_search_rows (me_cand env) c in
      rbind (play_one_game env (op_moves op) color (c, p, adj)) (\<lambda>(r, (c', p', adj')).
      rbind (row_deltas before (po_search_rows (me_cand env) c')) (\<lambda>search.
        Inr (\<lparr>rec_regime_key = me_regime env, rec_opening_id = op_id op,
              rec_candidate_color = color, rec_opponent_color = - color,
              rec_trajectory_hash = sha (moves_text (gr_moves r)),
              rec_winner = gr_winner r, rec_plies = gr_plies r, rec_moves = gr_moves r,
              rec_terminal = gr_terminal r, rec_adjudication = gr_adjudication r,
              rec_stats = gr_stats r, rec_tactics = gr_tactics r, rec_search = search\<rparr>,
             (c', p', adj'))))))"

section \<open>The paired match\<close>

definition match_slots :: "book_opening list \<Rightarrow> (book_opening \<times> int) list" where
  "match_slots openings = concat (map (\<lambda>op. [(op, 1), (op, - 1)]) openings)"

text \<open>The serial loop: what the sink has received, and the records or the exception.\<close>

fun serial_slots ::
  "(string \<Rightarrow> string) \<Rightarrow> ('b, 'p) match_env \<Rightarrow> (book_opening \<times> int) list \<Rightarrow> 'p seats \<Rightarrow>
   game_record list \<times> game_record list res" where
  "serial_slots sha env [] st = ([], Inr [])"
| "serial_slots sha env (slot # slots) st =
     (case record_one sha env slot st of
        Inl e \<Rightarrow> ([], Inl e)
      | Inr (rc, st') \<Rightarrow> (case serial_slots sha env slots st' of
           (sunk, r) \<Rightarrow> (rc # sunk, rbind r (\<lambda>rs. Inr (rc # rs)))))"

text \<open>
  Games in flight: slot \<open>i\<close> runs on worker \<open>assign i\<close>, which builds its own pair of
  players at its first slot; the adjudicator is shared.  A worker takes its slots in submission
  order, so the slots are folded in that order with every worker's pair in \<open>pairs\<close>.
\<close>

fun pooled_slots ::
  "(string \<Rightarrow> string) \<Rightarrow> ('b, 'p) match_env \<Rightarrow> (nat \<Rightarrow> 'p \<times> 'p) \<Rightarrow> (nat \<Rightarrow> nat) \<Rightarrow> nat \<Rightarrow>
   (book_opening \<times> int) list \<Rightarrow> (nat \<Rightarrow> ('p \<times> 'p) option) \<Rightarrow> adjudicator option \<Rightarrow> game_record list res" where
  "pooled_slots sha env factory assign i [] pairs adj = Inr []"
| "pooled_slots sha env factory assign i (slot # slots) pairs adj =
     (let w = assign i; (c, p) = (case pairs w of None \<Rightarrow> factory w | Some pr \<Rightarrow> pr) in
      rbind (record_one sha env slot (c, p, adj)) (\<lambda>(rc, (c', p', adj')).
      rbind (pooled_slots sha env factory assign (Suc i) slots (pairs(w \<mapsto> (c', p'))) adj') (\<lambda>rs.
        Inr (rc # rs))))"

definition play_paired_match ::
  "(string \<Rightarrow> string) \<Rightarrow> ('b, 'p) match_env \<Rightarrow> (nat \<Rightarrow> 'p \<times> 'p) option \<Rightarrow> (nat \<Rightarrow> nat) \<Rightarrow> int \<Rightarrow>
   book_opening list \<Rightarrow> 'p seats \<Rightarrow> game_record list \<times> game_record list res" where
  "play_paired_match sha env player_factory assign concurrency openings st =
     (if concurrency < 1 then ([], Inl ValueError)
      else if concurrency = 1 then serial_slots sha env (match_slots openings) st
      else (case player_factory of
          None \<Rightarrow> ([], Inl ValueError)
        | Some factory \<Rightarrow>
            (case pooled_slots sha env factory assign 0 (match_slots openings) Map.empty (snd (snd st)) of
               Inl e \<Rightarrow> ([], Inl e)
             | Inr records \<Rightarrow> (records, Inr records))))"

section \<open>Every stone is legal\<close>

text \<open>Replaying a move list under the legality rule: the board it leads to, if every stone is legal.\<close>

fun replay_board :: "'b board_ops \<Rightarrow> cell list \<Rightarrow> 'b \<Rightarrow> 'b option" where
  "replay_board ops [] b = Some b"
| "replay_board ops (mv # mvs) b =
     (if bo_is_legal ops b mv
      then (case bo_apply ops b mv of Inl _ \<Rightarrow> None | Inr b' \<Rightarrow> replay_board ops mvs b') else None)"

lemma replay_board_snoc:
  "replay_board ops mvs b = Some b' \<Longrightarrow> bo_is_legal ops b' mv \<Longrightarrow> bo_apply ops b' mv = Inr b'' \<Longrightarrow>
   replay_board ops (mvs @ [mv]) b = Some b''"
  by (induction mvs arbitrary: b) (auto split: if_splits sum.splits)

definition game_inv :: "('b, 'p) match_env \<Rightarrow> ('b, 'p) game \<Rightarrow> bool" where
  "game_inv env g \<longleftrightarrow> replay_board (me_board env) (g_moves g) (me_start env) = Some (g_board g)"

lemma apply_stone_inv:
  "game_inv env g \<Longrightarrow> bo_is_legal (me_board env) (g_board g) mv \<Longrightarrow> apply_stone env mv g = Inr g' \<Longrightarrow>
   game_inv env g' \<and> g_moves g' = g_moves g @ [mv]"
  by (auto simp: game_inv_def apply_stone_def rbind_Inr_iff intro: replay_board_snoc)

lemma replay_opening_inv:
  "game_inv env g \<Longrightarrow> replay_opening env mvs g = Inr g' \<Longrightarrow> game_inv env g' \<and> g_moves g' = g_moves g @ mvs"
proof (induction mvs arbitrary: g)
  case (Cons mv mvs)
  then obtain g1 where "bo_is_legal (me_board env) (g_board g) mv" "apply_stone env mv g = Inr g1"
    "replay_opening env mvs g1 = Inr g'"
    by (auto simp: rbind_Inr_iff split: if_splits)
  with apply_stone_inv [OF Cons.prems(1)] Cons.IH show ?case by fastforce
qed simp

lemma game_inv_cong:
  "g_board g' = g_board g \<Longrightarrow> g_moves g' = g_moves g \<Longrightarrow> game_inv env g' = game_inv env g"
  by (simp add: game_inv_def)

lemma play_ply_inv:
  assumes "game_inv env g" and "play_ply env color g = Inr (f, g')"
  shows "game_inv env g'" and "f \<noteq> Some Drawn"
    and "\<exists>ms. g_moves g' = g_moves g @ ms \<and> length ms \<le> 1"
proof -
  let ?by = "candidate_to_move env color g"
  obtain mv p where sel: "(if ?by then po_select (me_cand env) (g_board g) (g_cand g)
             else po_select (me_opp env) (g_board g) (g_opp g)) = Inr (mv, p)"
    using assms(2) by (auto simp: play_ply_def Let_def rbind_Inr_iff)
  define g1 where "g1 = (if ?by
     then g\<lparr>g_cand := p, g_tactics := add_tactics (g_tactics g) (po_last_tactics (me_cand env) p)\<rparr>
     else g\<lparr>g_opp := p\<rparr>)"
  have g1: "g_board g1 = g_board g" "g_moves g1 = g_moves g" by (simp_all add: g1_def)
  have r: "(if \<not> bo_is_legal (me_board env) (g_board g1) mv
            then Inr (Some (if ?by then Opponent else Candidate), g1)
            else rbind (apply_stone env mv (note_root env ?by g1)) (\<lambda>g2. Inr (None, g2))) = Inr (f, g')"
    using assms(2) sel by (cases ?by) (auto simp: play_ply_def Let_def g1_def split: if_splits)
  have inv1: "game_inv env (note_root env ?by g1)"
    using assms(1) g1 by (subst game_inv_cong) simp_all
  have all: "game_inv env g' \<and> f \<noteq> Some Drawn \<and> (\<exists>ms. g_moves g' = g_moves g @ ms \<and> length ms \<le> 1)"
  proof (cases "bo_is_legal (me_board env) (g_board g1) mv")
    case True
    with r obtain g2 where "apply_stone env mv (note_root env ?by g1) = Inr g2" "f = None" "g' = g2"
      by (auto simp: rbind_Inr_iff)
    with apply_stone_inv [OF inv1] True g1 show ?thesis by fastforce
  next
    case False
    with r have "g' = g1" "f \<noteq> Some Drawn" by (auto split: if_splits)
    moreover have "game_inv env g1" using assms(1) g1 by (subst game_inv_cong) simp_all
    ultimately show ?thesis using g1 by simp
  qed
  then show "game_inv env g'" "f \<noteq> Some Drawn" "\<exists>ms. g_moves g' = g_moves g @ ms \<and> length ms \<le> 1"
    by auto
qed

lemma play_loop_inv:
  assumes "game_inv env g" and "play_loop env color g = Inr (f, g')"
  shows "game_inv env g' \<and> f \<noteq> Some Drawn \<and> (f = None \<longrightarrow> \<not> keeps_playing env g') \<and>
         (\<exists>ms. g_moves g' = g_moves g @ ms) \<and>
         length (g_moves g') \<le> max (length (g_moves g)) (me_max_plies env)"
  using assms
proof (induction env color g rule: play_loop.induct)
  case (1 env color g)
  show ?case
  proof (cases "keeps_playing env g")
    case False
    with 1(3) have "f = None" "g' = g" by (auto simp: play_loop.simps [of env color g])
    with False 1(2) show ?thesis by auto
  next
    case True
    obtain f1 g1 where p: "play_ply env color g = Inr (f1, g1)"
      using 1(3) True by (auto simp: play_loop.simps [of env color g] split: sum.splits)
    note inv = play_ply_inv [OF 1(2) p]
    from inv(3) obtain ms where ms: "g_moves g1 = g_moves g @ ms" "length ms \<le> 1" by blast
    from True ms have le: "length (g_moves g1) \<le> me_max_plies env" by (auto simp: keeps_playing_def)
    show ?thesis
    proof (cases f1)
      case (Some w)
      with 1(3) True p have "f = Some w" "g' = g1" by (auto simp: play_loop.simps [of env color g])
      with inv Some ms le show ?thesis by auto
    next
      case None
      with 1(3) True p have "play_loop env color g1 = Inr (f, g')"
        by (auto simp: play_loop.simps [of env color g])
      with 1(1) [OF True p, of f1 g1] None inv(1) ms le show ?thesis by fastforce
    qed
  qed
qed

lemma finish_game_spec:
  assumes "finish_game env color adj forfeit g = (r, adj')" and "forfeit \<noteq> Some Drawn"
  shows "gr_moves r = g_moves g" "gr_plies r = length (g_moves g)"
    "gr_terminal r = TerminalForfeit \<longleftrightarrow> forfeit \<noteq> None"
    "forfeit = None \<Longrightarrow> gr_terminal r = TerminalWin \<longleftrightarrow> bo_check_win (me_board env) (g_board g)"
    "forfeit = None \<Longrightarrow> gr_terminal r = TerminalPlyCap \<longleftrightarrow>
       \<not> bo_check_win (me_board env) (g_board g) \<and> me_max_plies env \<le> length (g_moves g)"
    "gr_adjudication r \<noteq> None \<Longrightarrow> gr_terminal r = TerminalPlyCap"
    "gr_terminal r = TerminalPlyCap \<Longrightarrow> adj = None \<Longrightarrow> gr_winner r = Drawn"
    "gr_terminal r = TerminalExhausted \<Longrightarrow> gr_winner r = Drawn"
    "gr_terminal r = TerminalWin \<Longrightarrow>
       gr_winner r = (if bo_winner (me_board env) (g_board g) = Some color then Candidate else Opponent)"
    "gr_terminal r = TerminalForfeit \<Longrightarrow> gr_winner r \<noteq> Drawn"
  using assms by (auto simp: finish_game_def Let_def split: option.splits if_splits prod.splits)

lemma play_one_game_cases:
  assumes "play_one_game env opening_moves color (c, p, adj) = Inr (r, c', p', adj')"
  obtains g forfeit where
    "game_inv env g" "finish_game env color adj forfeit g = (r, adj')" "forfeit \<noteq> Some Drawn"
    "forfeit = None \<longrightarrow> \<not> keeps_playing env g"
    "\<exists>ms. g_moves g = (if opening_moves = [] then PLAIN_START else opening_moves) @ ms"
    "length (g_moves g) \<le> max (length (if opening_moves = [] then PLAIN_START else opening_moves)) (me_max_plies env)"
proof -
  let ?op = "if opening_moves = [] then PLAIN_START else opening_moves"
  let ?g0 = "\<lparr>g_board = me_start env, g_cand = po_new_game (me_cand env) c, g_opp = po_new_game (me_opp env) p,
         g_moves = [], g_stats = [], g_saw_root = False, g_tactics = None\<rparr>"
  obtain g forfeit g' where o1: "replay_opening env ?op ?g0 = Inr g"
    and l: "play_loop env color g = Inr (forfeit, g')"
    and f: "(case finish_game env color adj forfeit g' of (res, adj'') \<Rightarrow> Inr (res, g_cand g', g_opp g', adj'')) =
            (Inr (r, c', p', adj') :: (game_result \<times> _ seats) res)"
    using assms by (auto simp: play_one_game_def rbind_Inr_iff)
  from f have f: "finish_game env color adj forfeit g' = (r, adj')"
    by (cases "finish_game env color adj forfeit g'") simp
  have "game_inv env ?g0" by (simp add: game_inv_def)
  from replay_opening_inv [OF this o1] have "game_inv env g" and m: "g_moves g = ?op" by simp_all
  from play_loop_inv [OF this(1) l] have "game_inv env g'" "forfeit \<noteq> Some Drawn"
    "forfeit = None \<longrightarrow> \<not> keeps_playing env g'" "\<exists>ms. g_moves g' = ?op @ ms"
    "length (g_moves g') \<le> max (length ?op) (me_max_plies env)"
    unfolding m by auto
  from that [OF this(1) f this(2-5)] show ?thesis .
qed

text \<open>The players matter to a game only through what \<open>new_game\<close> leaves of them.\<close>

lemma play_one_game_reset:
  assumes "po_new_game (me_cand env) c = po_new_game (me_cand env) c2"
    and "po_new_game (me_opp env) p = po_new_game (me_opp env) p2"
  shows "play_one_game env ms color (c, p, adj) = play_one_game env ms color (c2, p2, adj)"
  using assms by (simp add: play_one_game_def)

definition stateless_between_games :: "('b, 'p) match_env \<Rightarrow> bool" where
  "stateless_between_games env \<longleftrightarrow>
     (\<forall>p p2. po_new_game (me_cand env) p = po_new_game (me_cand env) p2) \<and>
     (\<forall>p p2. po_new_game (me_opp env) p = po_new_game (me_opp env) p2) \<and>
     (\<forall>p. po_search_rows (me_cand env) p = None)"

lemma record_one_reset:
  assumes "stateless_between_games env"
  shows "record_one sha env slot (c, p, adj) = record_one sha env slot (c2, p2, adj)"
proof -
  have "play_one_game env ms color (c, p, adj) = play_one_game env ms color (c2, p2, adj)" for ms color
    using assms unfolding stateless_between_games_def by (intro play_one_game_reset) blast+
  moreover have "po_search_rows (me_cand env) x = None" for x
    using assms by (simp add: stateless_between_games_def)
  ultimately show ?thesis by (cases slot) (simp add: record_one_def)
qed

lemma pooled_is_serial:
  assumes "stateless_between_games env"
  shows "pooled_slots sha env factory assign i slots pairs adj = snd (serial_slots sha env slots (c, p, adj))"
proof (induction slots arbitrary: i pairs adj c p)
  case (Cons slot slots)
  obtain c1 p1 where pr: "(case pairs (assign i) of None \<Rightarrow> factory (assign i) | Some pr \<Rightarrow> pr) = (c1, p1)"
    by (metis surj_pair)
  have eq: "record_one sha env slot (c1, p1, adj) = record_one sha env slot (c, p, adj)"
    by (rule record_one_reset [OF assms])
  show ?case
  proof (cases "record_one sha env slot (c, p, adj)")
    case (Inl e)
    with pr eq show ?thesis by (simp add: Let_def)
  next
    case (Inr x)
    obtain rc c' p' adj' where x: "x = (rc, c', p', adj')" by (cases x) auto
    have "pooled_slots sha env factory assign (Suc i) slots (pairs(assign i \<mapsto> (c', p'))) adj' =
            snd (serial_slots sha env slots (c', p', adj'))" by (rule Cons.IH)
    with pr eq Inr x show ?thesis by (simp add: Let_def split: prod.split)
  qed
qed simp

lemma record_one_labels:
  assumes "record_one sha env slot st = Inr (rc, st')"
  shows "rec_opening_id rc = op_id (fst slot)" "rec_candidate_color rc = snd slot"
        "rec_opponent_color rc = - snd slot"
  using assms by (auto simp: record_one_def Let_def rbind_Inr_iff split: prod.splits)

lemma serial_slots_records:
  "serial_slots sha env slots st = (sunk, Inr rs) \<Longrightarrow>
     sunk = rs \<and>
     map (\<lambda>r. (rec_opening_id r, rec_candidate_color r, rec_opponent_color r)) rs =
     map (\<lambda>(op, c). (op_id op, c, - c)) slots"
proof (induction slots arbitrary: st sunk rs)
  case (Cons slot slots)
  then obtain rc st' sunk' rs' where r1: "record_one sha env slot st = Inr (rc, st')"
    and r2: "serial_slots sha env slots st' = (sunk', Inr rs')" and rs: "rs = rc # rs'" "sunk = rc # sunk'"
    by (auto simp: rbind_Inr_iff split: sum.splits prod.splits)
  with Cons.IH [OF r2] record_one_labels [OF r1] rs show ?case by (cases slot) simp
qed simp

lemma pooled_slots_records:
  "pooled_slots sha env factory assign i slots pairs adj = Inr rs \<Longrightarrow>
     map (\<lambda>r. (rec_opening_id r, rec_candidate_color r, rec_opponent_color r)) rs =
     map (\<lambda>(op, c). (op_id op, c, - c)) slots"
proof (induction slots arbitrary: i pairs adj rs)
  case (Cons slot slots)
  obtain c p where cp: "(case pairs (assign i) of None \<Rightarrow> factory (assign i) | Some pr \<Rightarrow> pr) = (c, p)"
    by fastforce
  from Cons.prems cp obtain rc c' p' adj' rs' where r1: "record_one sha env slot (c, p, adj) = Inr (rc, (c', p', adj'))"
    and r2: "pooled_slots sha env factory assign (Suc i) slots (pairs(assign i \<mapsto> (c', p'))) adj' = Inr rs'"
    and rs: "rs = rc # rs'"
    by (auto simp: rbind_Inr_iff Let_def split: prod.splits)
  with Cons.IH [OF r2] record_one_labels [OF r1] rs show ?case by (cases slot) simp
qed simp

section \<open>Properties\<close>


text \<open>A line board: cells on the axis, a win at the third stone; a player that extends the line.\<close>

definition line_env :: "(cell list, nat) match_env" where
  "line_env = (let po = \<lparr>po_new_game = (\<lambda>_. 0), po_select = (\<lambda>b n. Inr ((int (length b), 0), Suc n)),
       po_observe = None, po_last_root = (\<lambda>_. None), po_last_tactics = (\<lambda>_. None),
       po_search_rows = (\<lambda>_. None)\<rparr> in
     \<lparr>me_board = \<lparr>bo_is_legal = (\<lambda>b m. m \<notin> set b), bo_apply = (\<lambda>b m. Inr (b @ [m])),
        bo_check_win = (\<lambda>b. length b \<ge> 3), bo_legal_count = (\<lambda>_. 1),
        bo_current_player = (\<lambda>b. if even (length b) then 1 else - 1),
        bo_winner = (\<lambda>b. Some 1), bo_has_long_run = (\<lambda>_ _ _. False), bo_winning_moves = (\<lambda>_ _. 0)\<rparr>,
      me_cand = po, me_opp = po, me_start = [], me_max_plies = 9, me_regime = regime_gate 8\<rparr>)"

lemma line_game:
  "\<exists>r st. play_one_game line_env [] 1 (0, 0, None) = Inr (r, st) \<and> gr_plies r = 3 \<and> gr_winner r = Candidate"
  by (simp add: play_one_game_def line_env_def PLAIN_START_def apply_stone_def observed_def
      play_loop.simps keeps_playing_def play_ply_def candidate_to_move_def note_root_def
      add_tactics_def finish_game_def Let_def)


text \<open>The paired-match law: a match that returns has exactly two records per opening, in opening
  order, the candidate first as colour 1 and then as colour -1 with the opponent on the other
  colour, and the sink has received exactly the records returned; fewer than one game in flight,
  or several without a player factory, is refused.\<close>

theorem paired_match_law:
  "case play_paired_match sha env player_factory assign concurrency openings st of
     (sunk, Inr rs) \<Rightarrow> 1 \<le> concurrency \<and> (concurrency = 1 \<or> (\<exists>f. player_factory = Some f)) \<and> sunk = rs \<and>
        map (\<lambda>r. (rec_opening_id r, rec_candidate_color r, rec_opponent_color r)) rs =
        concat (map (\<lambda>op. [(op_id op, 1, - 1), (op_id op, - 1, 1)]) openings)
   | (sunk, Inl e) \<Rightarrow> 1 \<le> concurrency \<or> e = ValueError"
proof -
  have slots: "map (\<lambda>(op, c). (op_id op, c, - c)) (match_slots openings) =
        concat (map (\<lambda>op. [(op_id op, 1, - 1), (op_id op, - 1, 1)]) openings)"
    by (induction openings) (auto simp: match_slots_def)
  show ?thesis
    using serial_slots_records [of sha env "match_slots openings" st]
      pooled_slots_records [of sha env _ assign 0 "match_slots openings" Map.empty "snd (snd st)"] slots
    by (auto simp: play_paired_match_def split: prod.split sum.split option.split)
qed

text \<open>Games in flight change nothing: for players that keep nothing between games, the records of
  a concurrent match are those of the serial match, in the same order, whatever thread each game
  ran on and whatever players the factory built, adjudicator included.\<close>

theorem concurrency_is_transparent:
  assumes "stateless_between_games env" and "1 < concurrency"
  shows "snd (play_paired_match sha env (Some factory) assign concurrency openings (c, p, adj)) =
         snd (play_paired_match sha env player_factory assign' 1 openings (c', p', adj))"
  using assms pooled_is_serial [OF assms(1), of sha factory assign 0 "match_slots openings" Map.empty adj c' p']
  by (simp add: play_paired_match_def split: sum.split)

theorem concurrency_is_transparent_witness:
  "snd (play_paired_match id line_env (Some (\<lambda>w. (w, w + 1))) (\<lambda>i. i mod 2) 2 four_openings (0, 0, None)) =
   snd (play_paired_match id line_env None id 1 four_openings (7, 9, None))"
  by (rule concurrency_is_transparent) (simp_all add: stateless_between_games_def line_env_def Let_def)

end
