(* ===== verification/Eval_Cache.thy ===== *)
theory Eval_Cache
  imports Prelude
begin

text \<open>
  \<open>src/mantis/arena/eval_cache.py\<close>: a deploy player's per-game evaluation cache.  The
  inference engine is the Rust bridge: its three calls are the arguments \<open>positions_of\<close>,
  \<open>leaf_keys\<close> and \<open>infer\<close>.  The stored \<open>array("f")\<close> values are the engine's
  own f32 values, so storing them is exact.
\<close>

section \<open>Entries and the state\<close>

type_synonym cell2 = "int \<times> int"
type_synonym answer = "real list \<times> (cell2 \<times> real) list \<times> real \<times> cell2"
type_synonym entry = "real list \<times> int list \<times> real list \<times> real \<times> cell2"
type_synonym served = "real list list \<times> (cell2 \<times> real) list list \<times> real list \<times> cell2 list"

definition MAX_ENTRIES :: nat where "MAX_ENTRIES = 8192"

record cache_rows =
  cr_calls :: nat
  cr_positions :: nat
  cr_hits :: nat
  cr_served :: nat
  cr_in_batch_repeats :: nat
  cr_all_hit_calls :: nat
  cr_evicted :: nat

record eval_cache =
  gc_entries :: "(string, entry) dict"
  gc_rows :: cache_rows

definition cache_init :: eval_cache where
  "cache_init = \<lparr>gc_entries = [], gc_rows = \<lparr>cr_calls = 0, cr_positions = 0, cr_hits = 0, cr_served = 0,
     cr_in_batch_repeats = 0, cr_all_hit_calls = 0, cr_evicted = 0\<rparr>\<rparr>"

definition cache_new_game :: "eval_cache \<Rightarrow> eval_cache" where
  "cache_new_game st = st\<lparr>gc_entries := []\<rparr>"

definition pick :: "'a list \<Rightarrow> nat \<Rightarrow> 'a res" where
  "pick xs i = (if i < length xs then Inr (xs ! i) else Inl IndexError)"

definition flatten_cells :: "(cell2 \<times> real) list \<Rightarrow> int list" where
  "flatten_cells ov = concat (map (\<lambda>((q, r), _). [q, r]) ov)"

definition pack :: "answer \<Rightarrow> entry" where
  "pack = (\<lambda>(dense, overflow, value, center). (dense, flatten_cells overflow, map snd overflow, value, center))"

definition entry_at :: "served \<Rightarrow> nat \<Rightarrow> entry res" where
  "entry_at = (\<lambda>(dense, overflow, values, centers) i.
     rbind (pick dense i) (\<lambda>d. rbind (pick overflow i) (\<lambda>ov.
     rbind (pick values i) (\<lambda>v. rbind (pick centers i) (\<lambda>c. Inr (pack (d, ov, v, c)))))))"

fun unflatten :: "int list \<Rightarrow> real list \<Rightarrow> (cell2 \<times> real) list res" where
  "unflatten cells [] = Inr []"
| "unflatten (q # r # cells) (p # ps) = rbind (unflatten cells ps) (\<lambda>rest. Inr (((q, r), p) # rest))"
| "unflatten _ (p # ps) = Inl IndexError"

definition unpack :: "entry list \<Rightarrow> served res" where
  "unpack entries =
     rbind (rmap (\<lambda>(d, cells, probs, v, c). unflatten cells probs) entries) (\<lambda>overflow.
       Inr (map (\<lambda>(d, cells, probs, v, c). d) entries, overflow,
            map (\<lambda>(d, cells, probs, v, c). v) entries, map (\<lambda>(d, cells, probs, v, c). c) entries))"

section \<open>One batch\<close>

text \<open>The scan over the batch: hits, the fresh keys with their place in the submission, the submission.\<close>

fun scan_batch ::
  "(string, entry) dict \<Rightarrow> (string \<times> 'p) list \<Rightarrow> nat \<times> (string, nat) dict \<times> 'p list \<Rightarrow>
   nat \<times> (string, nat) dict \<times> 'p list" where
  "scan_batch entries [] acc = acc"
| "scan_batch entries ((key, pos) # rest) (hits, fresh, submit) =
     scan_batch entries rest
       (if map_of entries key \<noteq> None then (Suc hits, fresh, submit)
        else if map_of fresh key = None then (hits, AList.update key (length submit) fresh, submit @ [pos])
        else (hits, fresh, submit))"

fun remember :: "(string \<times> entry) list \<Rightarrow> eval_cache \<Rightarrow> eval_cache" where
  "remember [] st = st"
| "remember ((key, e) # rest) st =
     (let st1 = (if length (gc_entries st) \<ge> MAX_ENTRIES
                 then st\<lparr>gc_entries := tl (gc_entries st),
                         gc_rows := (gc_rows st)\<lparr>cr_evicted := Suc (cr_evicted (gc_rows st))\<rparr>\<rparr>
                 else st)
      in remember rest (st1\<lparr>gc_entries := AList.update key e (gc_entries st1)\<rparr>))"

definition count_batch :: "nat \<Rightarrow> nat \<Rightarrow> nat \<Rightarrow> cache_rows \<Rightarrow> cache_rows" where
  "count_batch n hits fresh r =
     r\<lparr>cr_calls := Suc (cr_calls r), cr_positions := cr_positions r + n, cr_hits := cr_hits r + hits,
       cr_served := cr_served r + fresh,
       cr_in_batch_repeats := cr_in_batch_repeats r + (n - hits - fresh),
       cr_all_hit_calls := cr_all_hit_calls r + (if n \<noteq> 0 \<and> fresh = 0 then 1 else 0)\<rparr>"

definition infer_batch_ls ::
  "('b list \<Rightarrow> 'p list) \<Rightarrow> ('p list \<Rightarrow> string list) \<Rightarrow> ('p list \<Rightarrow> served) \<Rightarrow>
   'b list \<Rightarrow> eval_cache \<Rightarrow> (served \<times> eval_cache) res" where
  "infer_batch_ls positions_of leaf_keys infer boards st =
     (let positions = positions_of boards; keys = leaf_keys positions in
      if length keys \<noteq> length positions then Inl ValueError
      else (case scan_batch (gc_entries st) (zip keys positions) (0, [], []) of (hits, fresh, submit) \<Rightarrow>
        rbind (if submit = [] then Inr []
               else rmap (\<lambda>(key, i). rbind (entry_at (infer submit) i) (\<lambda>e. Inr (key, e))) fresh) (\<lambda>served.
        rbind (rmap (\<lambda>key. case map_of served key of Some e \<Rightarrow> Inr e
                     | None \<Rightarrow> (case map_of (gc_entries st) key of Some e \<Rightarrow> Inr e | None \<Rightarrow> Inl KeyError)) keys) (\<lambda>es.
        rbind (unpack es) (\<lambda>out.
          let st1 = remember served st in
          Inr (out, st1\<lparr>gc_rows := count_batch (length keys) hits (length fresh) (gc_rows st1)\<rparr>))))))"

section \<open>Library lemmas\<close>

lemma unflatten_flatten: "unflatten (flatten_cells ov) (map snd ov) = Inr ov"
  by (induction ov) (auto simp: flatten_cells_def)

definition served_of :: "answer list \<Rightarrow> served" where
  "served_of as = (map (\<lambda>(d, ov, v, c). d) as, map (\<lambda>(d, ov, v, c). ov) as,
                   map (\<lambda>(d, ov, v, c). v) as, map (\<lambda>(d, ov, v, c). c) as)"

lemma entry_at_served_of: "i < length as \<Longrightarrow> entry_at (served_of as) i = Inr (pack (as ! i))"
  by (cases "as ! i") (simp add: entry_at_def served_of_def pick_def)

lemma unpack_packed: "unpack (map pack as) = Inr (served_of as)"
proof -
  have "rmap (\<lambda>(d, cells, probs, v, c). unflatten cells probs) (map pack as) = Inr (map (\<lambda>(d, ov, v, c). ov) as)"
    by (induction as) (auto simp: pack_def unflatten_flatten)
  then show ?thesis
    by (auto simp: unpack_def served_of_def pack_def split: prod.split)
qed

text \<open>What the scan establishes about the submission, from any accumulator that satisfies it.\<close>

definition scan_inv ::
  "(string, entry) dict \<Rightarrow> ('p \<Rightarrow> string) \<Rightarrow> nat \<times> (string, nat) dict \<times> 'p list \<Rightarrow> bool" where
  "scan_inv entries key acc = (case acc of (hits, fresh, submit) \<Rightarrow>
     map fst fresh = map key submit \<and> distinct (map key submit) \<and>
     map snd fresh = [0..<length submit] \<and> dkeys fresh \<inter> dkeys entries = {})"

lemma scan_batch_inv:
  assumes "scan_inv entries key acc" and "\<forall>(k, p) \<in> set kps. k = key p"
  shows "scan_inv entries key (scan_batch entries kps acc)"
  using assms
proof (induction kps arbitrary: acc)
  case (Cons kp kps)
  obtain k p where kp: "kp = (k, p)" by (cases kp)
  obtain hits fresh submit where acc: "acc = (hits, fresh, submit)" by (cases acc)
  from Cons.prems kp have k: "k = key p" by simp
  show ?case
  proof (cases "map_of entries k = None \<and> map_of fresh k = None")
    case True
    then have nk: "k \<notin> set (map fst fresh)" and ne: "k \<notin> dkeys entries" by (auto simp: dkeys_def)
    have "scan_inv entries key (hits, fresh @ [(k, length submit)], submit @ [p])"
      using Cons.prems(1) acc k nk ne by (auto simp: scan_inv_def)
    moreover have "AList.update k (length submit) fresh = fresh @ [(k, length submit)]"
      using nk by (simp add: update_fresh)
    ultimately show ?thesis using Cons.IH Cons.prems(2) kp acc True by simp
  next
    case False
    then have "scan_batch entries (kp # kps) acc =
        scan_batch entries kps (if k \<in> dkeys entries then (Suc hits, fresh, submit) else (hits, fresh, submit))"
      by (auto simp: kp acc)
    moreover have "scan_inv entries key (if k \<in> dkeys entries then (Suc hits, fresh, submit) else (hits, fresh, submit))"
      using Cons.prems(1) by (simp add: acc scan_inv_def)
    ultimately show ?thesis using Cons.IH Cons.prems(2) by simp
  qed
qed simp

text \<open>Every key of the batch is cached or fresh, and hits and fresh keys do not exceed the batch.\<close>

lemma scan_batch_covers:
  assumes "scan_batch entries kps (hits, fresh, submit) = (hits', fresh', submit')"
  shows "fst ` set kps \<subseteq> dkeys entries \<union> dkeys fresh' \<and> dkeys fresh \<subseteq> dkeys fresh' \<and>
         hits' + length fresh' \<le> hits + length fresh + length kps"
  using assms
proof (induction kps arbitrary: hits fresh submit)
  case (Cons kp kps)
  obtain k p where kp: "kp = (k, p)" by (cases kp)
  consider "k \<in> dkeys entries" | "k \<notin> dkeys entries" "k \<notin> dkeys fresh"
    | "k \<notin> dkeys entries" "k \<in> dkeys fresh" by blast
  then show ?case
  proof cases
    case 1
    with Cons.prems have "scan_batch entries kps (Suc hits, fresh, submit) = (hits', fresh', submit')"
      by (simp add: kp)
    from Cons.IH [OF this] 1 show ?thesis by (simp add: kp)
  next
    case 2
    then have l: "length (AList.update k (length submit) fresh) = Suc (length fresh)"
      by (simp add: length_update dkeys_def)
    from 2 Cons.prems have "scan_batch entries kps (hits, AList.update k (length submit) fresh, submit @ [p]) = (hits', fresh', submit')"
      by (simp add: kp)
    from Cons.IH [OF this] l show ?thesis by (auto simp: kp)
  next
    case 3
    with Cons.prems have "scan_batch entries kps (hits, fresh, submit) = (hits', fresh', submit')"
      by (simp add: kp)
    from Cons.IH [OF this] 3 show ?thesis by (auto simp: kp)
  qed
qed simp

lemma remember_length:
  "length (gc_entries st) \<le> MAX_ENTRIES \<Longrightarrow> length (gc_entries (remember kes st)) \<le> MAX_ENTRIES"
proof (induction kes arbitrary: st)
  case (Cons ke kes)
  obtain k e where ke: "ke = (k, e)" by (cases ke)
  let ?st1 = "if length (gc_entries st) \<ge> MAX_ENTRIES
     then st\<lparr>gc_entries := tl (gc_entries st),
             gc_rows := (gc_rows st)\<lparr>cr_evicted := Suc (cr_evicted (gc_rows st))\<rparr>\<rparr> else st"
  have "length (gc_entries ?st1) < MAX_ENTRIES"
    using Cons.prems by (auto simp: MAX_ENTRIES_def)
  then have "length (AList.update k e (gc_entries ?st1)) \<le> MAX_ENTRIES"
    by (simp add: length_update del: if_split split: if_splits)
  with Cons.IH show ?case by (simp add: ke Let_def)
qed simp

lemma set_update_subset: "set (AList.update k v d) \<subseteq> insert (k, v) (set d)"
  by (induction d) auto

lemma remember_entries: "set (gc_entries (remember kes st)) \<subseteq> set kes \<union> set (gc_entries st)"
proof (induction kes arbitrary: st)
  case (Cons ke kes)
  obtain k e where ke: "ke = (k, e)" by (cases ke)
  let ?st1 = "if length (gc_entries st) \<ge> MAX_ENTRIES
     then st\<lparr>gc_entries := tl (gc_entries st),
             gc_rows := (gc_rows st)\<lparr>cr_evicted := Suc (cr_evicted (gc_rows st))\<rparr>\<rparr> else st"
  have "set (gc_entries ?st1) \<subseteq> set (gc_entries st)" by (cases "gc_entries st") auto
  then have "set (AList.update k e (gc_entries ?st1)) \<subseteq> insert (k, e) (set (gc_entries st))"
    using set_update_subset by fastforce
  moreover have "set (gc_entries (remember (ke # kes) st)) \<subseteq>
      set kes \<union> set (AList.update k e (gc_entries ?st1))"
    using Cons.IH [of "?st1\<lparr>gc_entries := AList.update k e (gc_entries ?st1)\<rparr>"] by (simp add: ke Let_def)
  ultimately show ?case by (auto simp: ke)
qed simp

lemma remember_rows:
  "gc_rows (remember kes st) = (gc_rows st)\<lparr>cr_evicted := cr_evicted (gc_rows (remember kes st))\<rparr>"
proof (induction kes arbitrary: st)
  case (Cons ke kes)
  obtain k e where ke: "ke = (k, e)" by (cases ke)
  show ?case by (simp add: ke Let_def) (subst Cons.IH, simp)+
qed simp

section \<open>The cache against an engine that answers by key\<close>

definition keyed_engine ::
  "('b list \<Rightarrow> 'p list) \<Rightarrow> ('p list \<Rightarrow> string list) \<Rightarrow> ('p list \<Rightarrow> served) \<Rightarrow>
   ('b \<Rightarrow> 'p) \<Rightarrow> ('p \<Rightarrow> string) \<Rightarrow> (string \<Rightarrow> answer) \<Rightarrow> bool" where
  "keyed_engine positions_of leaf_keys infer pos key ans \<longleftrightarrow>
     (\<forall>bs. positions_of bs = map pos bs) \<and> (\<forall>ps. leaf_keys ps = map key ps) \<and>
     (\<forall>ps. infer ps = served_of (map (\<lambda>p. ans (key p)) ps))"

definition cache_ok :: "(string \<Rightarrow> answer) \<Rightarrow> eval_cache \<Rightarrow> bool" where
  "cache_ok ans st \<longleftrightarrow> (\<forall>(k, e) \<in> set (gc_entries st). e = pack (ans k)) \<and> length (gc_entries st) \<le> MAX_ENTRIES"

lemma cache_ok_init: "cache_ok ans cache_init" and cache_ok_new_game: "cache_ok ans (cache_new_game st)"
  by (simp_all add: cache_ok_def cache_init_def cache_new_game_def)

lemma cache_ok_lookup: "cache_ok ans st \<Longrightarrow> map_of (gc_entries st) k = Some e \<Longrightarrow> e = pack (ans k)"
  by (auto simp: cache_ok_def dest!: map_of_SomeD)

lemma submission_entries:
  assumes "map fst fresh = map key submit" and "map snd fresh = [0..<length submit]"
    and "infer submit = served_of (map (\<lambda>p. ans (key p)) submit)"
  shows "rmap (\<lambda>(k, i). rbind (entry_at (infer submit) i) (\<lambda>e. Inr (k, e))) fresh =
         Inr (map (\<lambda>(k, i). (k, pack (ans k))) fresh)"
proof (rule rmap_total)
  fix x assume "x \<in> set fresh"
  then obtain n where n: "n < length fresh" "x = fresh ! n" by (auto simp: in_set_conv_nth)
  have len: "length fresh = length submit" using assms(2) by (metis length_map length_upt minus_nat.diff_0)
  have "fst (fresh ! n) = key (submit ! n)" using assms(1) n len by (metis nth_map)
  moreover have "snd (fresh ! n) = n" using assms(2) n len by (metis add_0 nth_map nth_upt)
  ultimately have x: "x = (key (submit ! n), n)" using n by (metis prod.collapse)
  show "(case x of (k, i) \<Rightarrow> rbind (entry_at (infer submit) i) (\<lambda>e. Inr (k, e))) =
        Inr (case x of (k, i) \<Rightarrow> (k, pack (ans k)))"
    using n(1) len unfolding x by (simp add: assms(3) entry_at_served_of)
qed

lemma map_of_map_pack: "map_of (map (\<lambda>(k, i). (k, f k)) d) k = (if k \<in> dkeys d then Some (f k) else None)"
  by (induction d) auto

lemma infer_batch_spec:
  assumes eng: "keyed_engine positions_of leaf_keys infer pos key ans" and ok: "cache_ok ans st"
  shows "\<exists>st' submit hits. infer_batch_ls positions_of leaf_keys infer boards st =
           Inr (infer (map pos boards), st') \<and> cache_ok ans st' \<and>
         distinct (map key submit) \<and> (\<forall>p \<in> set submit. key p \<notin> dkeys (gc_entries st)) \<and>
         hits + length submit \<le> length boards \<and>
         (\<exists>ev. gc_rows st' = count_batch (length boards) hits (length submit) ((gc_rows st)\<lparr>cr_evicted := ev\<rparr>))"
proof -
  define kps where "kps = zip (map key (map pos boards)) (map pos boards)"
  obtain hits fresh submit where sc: "scan_batch (gc_entries st) kps (0, [], []) = (hits, fresh, submit)"
    by (metis prod_cases3)
  have "scan_inv (gc_entries st) key (0, [], [])" by (simp add: scan_inv_def)
  moreover have "\<forall>(k, p) \<in> set kps. k = key p" by (auto simp: kps_def in_set_zip)
  ultimately have inv: "map fst fresh = map key submit" "distinct (map key submit)"
    "map snd fresh = [0..<length submit]" "dkeys fresh \<inter> dkeys (gc_entries st) = {}"
    using scan_batch_inv [of "gc_entries st" key "(0, [], [])" kps] by (auto simp: sc scan_inv_def)
  have len: "length fresh = length submit" using inv(3) by (metis length_map length_upt minus_nat.diff_0)
  have cov: "key ` pos ` set boards \<subseteq> dkeys (gc_entries st) \<union> dkeys fresh"
    "hits + length submit \<le> length boards"
    using scan_batch_covers [OF sc] by (auto simp: len kps_def zip_map_map comp_def zip_same_conv_map image_image)
  have inf: "infer ps = served_of (map (\<lambda>p. ans (key p)) ps)" for ps
    using eng by (simp add: keyed_engine_def)
  let ?served = "map (\<lambda>(k, i). (k, pack (ans k))) fresh"
  have srv: "(if submit = [] then Inr []
       else rmap (\<lambda>(k, i). rbind (entry_at (infer submit) i) (\<lambda>e. Inr (k, e))) fresh) = (Inr ?served :: (string \<times> entry) list res)"
    using submission_entries [of fresh key submit infer ans, OF inv(1,3) inf] len by auto
  have look: "rmap (\<lambda>k. case map_of ?served k of Some e \<Rightarrow> Inr e
       | None \<Rightarrow> (case map_of (gc_entries st) k of Some e \<Rightarrow> Inr e | None \<Rightarrow> Inl KeyError)) (map key (map pos boards)) =
       Inr (map (\<lambda>k. pack (ans k)) (map key (map pos boards)))"
  proof (rule rmap_total)
    fix k assume "k \<in> set (map key (map pos boards))"
    then have "k \<in> dkeys (gc_entries st) \<union> dkeys fresh" using cov by auto
    then show "(case map_of ?served k of Some e \<Rightarrow> Inr e
       | None \<Rightarrow> (case map_of (gc_entries st) k of Some e \<Rightarrow> Inr e | None \<Rightarrow> Inl KeyError)) = Inr (pack (ans k))"
      using cache_ok_lookup [OF ok, of k]
      by (cases "map_of (gc_entries st) k") (auto simp: map_of_map_pack)
  qed
  let ?st1 = "remember ?served st"
  let ?st' = "?st1\<lparr>gc_rows := count_batch (length boards) hits (length submit) (gc_rows ?st1)\<rparr>"
  have up: "unpack (map (\<lambda>k. pack (ans k)) (map key (map pos boards))) = Inr (infer (map pos boards))"
    using unpack_packed [of "map (\<lambda>b. ans (key (pos b))) boards"] by (simp add: inf comp_def)
  have run: "infer_batch_ls positions_of leaf_keys infer boards st = Inr (infer (map pos boards), ?st')"
    using eng by (simp add: infer_batch_ls_def keyed_engine_def Let_def kps_def [symmetric] sc srv look up len del: map_map)
  have "set (gc_entries ?st1) \<subseteq> set ?served \<union> set (gc_entries st)" by (rule remember_entries)
  then have ok': "cache_ok ans ?st'"
    using ok remember_length [of st ?served] by (fastforce simp: cache_ok_def)
  have fr: "\<forall>p \<in> set submit. key p \<notin> dkeys (gc_entries st)"
  proof -
    have "dkeys fresh = set (map key submit)" using inv(1) by (metis dkeys_def list.set_map)
    then show ?thesis using inv(4) by auto
  qed
  obtain ev where ev: "gc_rows ?st1 = (gc_rows st)\<lparr>cr_evicted := ev\<rparr>" using remember_rows by blast
  have rows: "\<exists>ev. gc_rows ?st' = count_batch (length boards) hits (length submit) ((gc_rows st)\<lparr>cr_evicted := ev\<rparr>)"
    by (intro exI [of _ ev]) (simp add: ev)
  show ?thesis using run ok' inv(2) fr cov(2) rows by blast
qed

section \<open>Properties\<close>


definition toy_answer :: "string \<Rightarrow> answer" where
  "toy_answer k = ([real (length k)], [((1, 2), 1 / 2)], 0, (0, 0))"


definition rows_balance :: "cache_rows \<Rightarrow> bool" where
  "rows_balance r \<longleftrightarrow> cr_positions r = cr_hits r + cr_served r + cr_in_batch_repeats r"

text \<open>The cache's rows account for every position: with an engine that answers by key, the balance
  \<open>positions = hits + served + in_batch_repeats\<close> is kept by every batch and by a new game.\<close>

theorem cache_rows_balance:
  assumes "keyed_engine positions_of leaf_keys infer pos key ans" and "cache_ok ans st"
    and "rows_balance (gc_rows st)"
  shows "case infer_batch_ls positions_of leaf_keys infer boards st of
     Inl _ \<Rightarrow> False
   | Inr (_, st') \<Rightarrow> rows_balance (gc_rows st') \<and> rows_balance (gc_rows (cache_new_game st')) \<and>
        cr_positions (gc_rows st') = cr_positions (gc_rows st) + length boards \<and>
        cr_calls (gc_rows st') = Suc (cr_calls (gc_rows st))"
  using infer_batch_spec [OF assms(1,2), of boards] assms(3)
  by (auto simp: count_batch_def rows_balance_def cache_new_game_def)

theorem cache_rows_balance_witness:
  "rows_balance (gc_rows cache_init) \<and>
   (case infer_batch_ls (map id) (map id) (\<lambda>ps. served_of (map toy_answer ps)) [''a'', ''b'', ''a''] cache_init of
      Inl _ \<Rightarrow> False | Inr (_, st') \<Rightarrow> cr_positions (gc_rows st') = 3)"
proof -
  have e: "keyed_engine (map id) (map id) (\<lambda>ps. served_of (map toy_answer ps)) id id toy_answer"
    by (simp add: keyed_engine_def)
  have b: "rows_balance (gc_rows cache_init)" by (simp add: rows_balance_def cache_init_def)
  from cache_rows_balance [OF e cache_ok_init b, of "[''a'', ''b'', ''a'']"] b show ?thesis
    by (auto simp: cache_init_def split: sum.splits)
qed

end
