(* ===== verification/Aggregate.thy ===== *)
theory Aggregate
  imports Arena
begin

text \<open>
  \<open>src/mantis/eval/aggregate.py\<close>: pooling eval game records into rung and gate
  aggregates.  The numpy bootstrap is the argument \<open>boot\<close>, sha256 the argument
  \<open>sha\<close>; every record carries its winner label.
\<close>

section \<open>Records and keys\<close>

record eval_record =
  er_winner :: string
  er_p1 :: "string option"
  er_p2 :: "string option"
  er_candidate_color :: "int option"
  er_trajectory_hash :: "string option"
  er_moves :: "cell list option"
  er_opening_id :: "string option"
  er_regime_key :: "string option"

definition outcome_value :: "eval_record \<Rightarrow> real res" where
  "outcome_value r =
     (if er_winner r = ''p1'' then Inr 1
      else if er_winner r = ''p2'' then Inr 0
      else if er_winner r = ''draw'' then Inr (1 / 2)
      else Inl ValueError)"

definition str_opt :: "string option \<Rightarrow> string" where
  "str_opt x = (case x of None \<Rightarrow> ''None'' | Some s \<Rightarrow> s)"

definition traj_key :: "(string \<Rightarrow> string) \<Rightarrow> eval_record \<Rightarrow> string res" where
  "traj_key sha r =
     (let qualifier = str_opt (er_p1 r) @ ''|'' @ str_opt (er_p2 r) @ ''|'' @
                      str_opt (map_option str_int (er_candidate_color r)) @ ''|''
      in case er_trajectory_hash r of
           Some h \<Rightarrow> Inr (qualifier @ h)
         | None \<Rightarrow> (case er_moves r of None \<Rightarrow> Inl KeyError
                     | Some ms \<Rightarrow> Inr (qualifier @ sha (moves_text ms))))"

definition unit_key :: "(string \<Rightarrow> string) \<Rightarrow> eval_record \<Rightarrow> string res" where
  "unit_key sha r = (case er_opening_id r of
      None \<Rightarrow> traj_key sha r
    | Some op \<Rightarrow> Inr (str_opt (er_p1 r) @ ''|'' @ str_opt (er_p2 r) @ ''|'' @ op))"

section \<open>Grouping\<close>

text \<open>\<open>seen\<close> keeps the first record's outcome for each trajectory key, in first-seen order.\<close>

fun distinct_outcomes_from ::
  "(string \<Rightarrow> string) \<Rightarrow> eval_record list \<Rightarrow> (string, real) dict \<Rightarrow> (string, real) dict res" where
  "distinct_outcomes_from sha [] seen = Inr seen"
| "distinct_outcomes_from sha (r # rs) seen =
     rbind (traj_key sha r) (\<lambda>key.
       if map_of seen key = None
       then rbind (outcome_value r) (\<lambda>v. distinct_outcomes_from sha rs (AList.update key v seen))
       else distinct_outcomes_from sha rs seen)"

definition distinct_outcomes :: "(string \<Rightarrow> string) \<Rightarrow> eval_record list \<Rightarrow> real list res" where
  "distinct_outcomes sha rs = rbind (distinct_outcomes_from sha rs []) (\<lambda>d. Inr (map snd d))"

fun units_from ::
  "(string \<Rightarrow> string) \<Rightarrow> eval_record list \<Rightarrow> (string, real list) dict \<Rightarrow> (string, real list) dict res" where
  "units_from sha [] acc = Inr acc"
| "units_from sha (r # rs) acc =
     rbind (unit_key sha r) (\<lambda>key. rbind (outcome_value r) (\<lambda>v.
       units_from sha rs (AList.update key (dget acc key [] @ [v]) acc)))"

definition mean :: "real list \<Rightarrow> real" where
  "mean xs = sum_list xs / real (length xs)"

definition pair_units :: "(string \<Rightarrow> string) \<Rightarrow> eval_record list \<Rightarrow> real list res" where
  "pair_units sha rs = rbind (units_from sha rs []) (\<lambda>d. Inr (map (\<lambda>(k, vs). mean vs) d))"

fun games_by_pair ::
  "(string \<Rightarrow> string) \<Rightarrow> eval_record list \<Rightarrow> (string option \<times> string option, string list) dict \<Rightarrow>
   (string option \<times> string option, string list) dict res" where
  "games_by_pair sha [] acc = Inr acc"
| "games_by_pair sha (r # rs) acc =
     rbind (traj_key sha r) (\<lambda>key.
       let pair = (er_p1 r, er_p2 r); trajs = dget acc pair [] in
       games_by_pair sha rs (AList.update pair (List.insert key trajs) acc))"

definition distinct_per_pair :: "(string \<Rightarrow> string) \<Rightarrow> eval_record list \<Rightarrow> nat res" where
  "distinct_per_pair sha rs =
     rbind (games_by_pair sha rs []) (\<lambda>d. Inr (if d = [] then 0 else Min (set (map (\<lambda>(k, ts). length ts) d))))"

section \<open>The aggregates\<close>

type_synonym boot = "real list \<Rightarrow> nat \<Rightarrow> real \<Rightarrow> int \<Rightarrow> real \<times> real"

definition pair_bootstrap_wr_ci :: "boot \<Rightarrow> real list \<Rightarrow> nat \<Rightarrow> real \<Rightarrow> int \<Rightarrow> real option \<times> real option" where
  "pair_bootstrap_wr_ci boot xs resamples ci_level seed =
     (if xs = [] then (None, None)
      else (case boot xs resamples ci_level seed of (lo, hi) \<Rightarrow> (Some lo, Some hi)))"

definition count_winner :: "string \<Rightarrow> eval_record list \<Rightarrow> nat" where
  "count_winner w rs = length (filter (\<lambda>r. er_winner r = w) rs)"

record rung_aggregate =
  ra_games :: nat
  ra_wins :: nat
  ra_losses :: nat
  ra_draws :: nat
  ra_wr :: "real option"
  ra_ci_lower :: "real option"
  ra_ci_upper :: "real option"
  ra_eff_n :: nat
  ra_regime_key :: string

definition regimes :: "eval_record list \<Rightarrow> string list" where
  "regimes rs = remdups (List.map_filter er_regime_key rs)"

definition aggregate_rung ::
  "(string \<Rightarrow> string) \<Rightarrow> boot \<Rightarrow> nat option \<Rightarrow> real \<Rightarrow> int \<Rightarrow> eval_record list \<Rightarrow> rung_aggregate res" where
  "aggregate_rung sha boot resamples ci_level seed rs =
     (if rs = [] then Inr \<lparr>ra_games = 0, ra_wins = 0, ra_losses = 0, ra_draws = 0, ra_wr = None,
                          ra_ci_lower = None, ra_ci_upper = None, ra_eff_n = 0, ra_regime_key = []\<rparr>
      else if length (regimes rs) > 1 then Inl MixedRegimeError
      else rbind (distinct_outcomes sha rs) (\<lambda>outcomes.
        let wins = count_winner ''p1'' rs; draws = count_winner ''draw'' rs;
            (lo, hi) = (case resamples of None \<Rightarrow> (None, None)
                        | Some n \<Rightarrow> pair_bootstrap_wr_ci boot outcomes n ci_level seed)
        in Inr \<lparr>ra_games = length rs, ra_wins = wins, ra_losses = count_winner ''p2'' rs, ra_draws = draws,
                ra_wr = Some ((real wins + real draws / 2) / real (length rs)),
                ra_ci_lower = lo, ra_ci_upper = hi, ra_eff_n = length outcomes,
                ra_regime_key = (case regimes rs of [] \<Rightarrow> [] | k # _ \<Rightarrow> k)\<rparr>))"

record gate_cfg =
  gc_bootstrap_resamples :: nat
  gc_seed_base :: int
  gc_min_distinct_per_pair :: nat

record gate_aggregate =
  ga_wr_screen :: "real option"
  ga_wr_confirm :: "real option"
  ga_n_screen :: nat
  ga_n_confirm :: nat
  ga_n_pooled :: nat
  ga_escalated :: bool
  ga_elo_ci_lower :: "real option"
  ga_low_power :: bool
  ga_eff_n :: nat
  ga_promoted :: bool
  ga_wins :: nat
  ga_losses :: int
  ga_draws :: nat

text \<open>\<open>promote\<close> and \<open>checks\<close> are the sequential verdict's decision and check count.\<close>

definition aggregate_gate ::
  "(string \<Rightarrow> string) \<Rightarrow> boot \<Rightarrow> gate_cfg \<Rightarrow> bool \<Rightarrow> nat \<Rightarrow> eval_record list \<Rightarrow> gate_aggregate res" where
  "aggregate_gate sha boot cfg promote checks rs =
     rbind (pair_units sha rs) (\<lambda>units. rbind (distinct_per_pair sha rs) (\<lambda>dpp.
       let n = length rs; wins = count_winner ''p1'' rs; draws = count_winner ''draw'' rs;
           lower = fst (pair_bootstrap_wr_ci boot units (gc_bootstrap_resamples cfg) (95 / 100) (gc_seed_base cfg));
           low_power = dpp < gc_min_distinct_per_pair cfg;
           wr = (if n > 0 then Some ((real wins + real draws / 2) / real n) else None)
       in Inr \<lparr>ga_wr_screen = wr, ga_wr_confirm = wr, ga_n_screen = n, ga_n_confirm = 0, ga_n_pooled = n, ga_escalated = checks > 1,
               ga_elo_ci_lower = (if dpp < 2 then None else map_option (\<lambda>l. l - 1 / 2) lower),
               ga_low_power = low_power, ga_eff_n = length units,
               ga_promoted = (promote \<and> \<not> low_power),
               ga_wins = wins, ga_losses = int n - int wins - int draws, ga_draws = draws\<rparr>))"

section \<open>Library lemmas\<close>

definition labelled :: "eval_record \<Rightarrow> bool" where
  "labelled r \<longleftrightarrow> er_winner r \<in> {''p1'', ''p2'', ''draw''}"

lemma outcome_value_cases:
  "outcome_value r = Inl ValueError \<and> \<not> labelled r \<or>
   (\<exists>v. outcome_value r = Inr v \<and> labelled r \<and> 0 \<le> v \<and> v \<le> 1)"
  by (auto simp: outcome_value_def labelled_def intro: exI [of _ "1 / 2 :: real"])

lemma distinct_outcomes_from_keys:
  assumes "distinct_outcomes_from sha rs seen = Inr d"
  shows "dkeys d = dkeys seen \<union> {k. \<exists>r \<in> set rs. traj_key sha r = Inr k} \<and>
         (distinct (map fst seen) \<longrightarrow> distinct (map fst d)) \<and>
         length d \<le> length seen + length rs \<and>
         (\<forall>k \<in> dkeys seen. map_of d k = map_of seen k)"
  using assms
proof (induction rs arbitrary: seen)
  case (Cons r rs)
  then obtain key where key: "traj_key sha r = Inr key" by (auto simp: rbind_Inr_iff)
  show ?case
  proof (cases "key \<in> dkeys seen")
    case True
    with Cons.prems key have "distinct_outcomes_from sha rs seen = Inr d" by simp
    from Cons.IH [OF this] True key show ?thesis by auto
  next
    case False
    with Cons.prems key obtain v where v: "distinct_outcomes_from sha rs (AList.update key v seen) = Inr d"
      by (auto simp: rbind_Inr_iff)
    have l: "length (AList.update key v seen) = Suc (length seen)"
      using False by (simp add: length_update dkeys_def)
    have m: "map_of (AList.update key v seen) k = map_of seen k" if "k \<in> dkeys seen" for k
      using False that by (auto simp: update_conv')
    from Cons.IH [OF v] l m key show ?thesis by (auto simp: distinct_update)
  qed
qed simp

lemma distinct_outcomes_from_seen:
  assumes "traj_key sha r = Inr k" and "k \<in> dkeys seen"
  shows "distinct_outcomes_from sha (r # rs) seen = distinct_outcomes_from sha rs seen"
  using assms by simp

lemma distinct_outcomes_from_append:
  "distinct_outcomes_from sha (rs @ rs') seen =
     rbind (distinct_outcomes_from sha rs seen) (distinct_outcomes_from sha rs')"
proof (induction rs arbitrary: seen)
  case (Cons r rs)
  then show ?case by (cases "traj_key sha r"; cases "outcome_value r") auto
qed simp

lemma count_winner_partition:
  "\<forall>r \<in> set rs. labelled r \<Longrightarrow>
     count_winner ''p1'' rs + count_winner ''p2'' rs + count_winner ''draw'' rs = length rs"
  by (induction rs) (auto simp: count_winner_def labelled_def)

lemma sum_outcomes:
  "\<forall>r \<in> set rs. labelled r \<Longrightarrow>
     (\<Sum>r\<leftarrow>rs. projr (outcome_value r)) = real (count_winner ''p1'' rs) + real (count_winner ''draw'' rs) / 2"
  by (induction rs) (auto simp: count_winner_def labelled_def outcome_value_def)

text \<open>The pair units: their legs are exactly the records' outcomes, regrouped.\<close>

lemma sum_update:
  fixes f :: "'v \<Rightarrow> real"
  shows "distinct (map fst d) \<Longrightarrow> (\<Sum>(k', x)\<leftarrow>AList.update k v d. f x) =
     (\<Sum>(k', x)\<leftarrow>d. f x) + f v - (case map_of d k of None \<Rightarrow> 0 | Some x \<Rightarrow> f x)"
proof (induction d)
  case (Cons p d)
  show ?case
  proof (cases "fst p = k")
    case True
    then show ?thesis by (cases p) simp
  next
    case False
    with Cons show ?thesis by (cases p) auto
  qed
qed simp

lemma units_from_totals:
  assumes "units_from sha rs acc = Inr d" and "distinct (map fst acc)"
  shows "distinct (map fst d) \<and> (\<forall>r \<in> set rs. labelled r) \<and>
    (\<Sum>(k, vs)\<leftarrow>d. sum_list vs) = (\<Sum>(k, vs)\<leftarrow>acc. sum_list vs) + (\<Sum>r\<leftarrow>rs. projr (outcome_value r)) \<and>
    (\<Sum>(k, vs)\<leftarrow>d. real (length vs)) = (\<Sum>(k, vs)\<leftarrow>acc. real (length vs)) + real (length rs)"
  using assms
proof (induction rs arbitrary: acc)
  case (Cons r rs)
  from Cons.prems obtain key v where kv: "unit_key sha r = Inr key" "outcome_value r = Inr v"
    and u: "units_from sha rs (AList.update key (dget acc key [] @ [v]) acc) = Inr d"
    by (auto simp: rbind_Inr_iff)
  let ?acc = "AList.update key (dget acc key [] @ [v]) acc"
  have "distinct (map fst ?acc)" using Cons.prems(2) by (simp add: distinct_update)
  note ih = Cons.IH [OF u this]
  have "(\<Sum>(k, vs)\<leftarrow>?acc. sum_list vs) = (\<Sum>(k, vs)\<leftarrow>acc. sum_list vs) + v"
    using sum_update [OF Cons.prems(2), of sum_list key "dget acc key [] @ [v]"]
    by (cases "map_of acc key") (simp_all add: dget_def del: map_of_None_dkeys)
  moreover have "(\<Sum>(k, vs)\<leftarrow>?acc. real (length vs)) = (\<Sum>(k, vs)\<leftarrow>acc. real (length vs)) + 1"
    using sum_update [OF Cons.prems(2), of "\<lambda>x. real (length x)" key "dget acc key [] @ [v]"]
    by (cases "map_of acc key") (simp_all add: dget_def del: map_of_None_dkeys)
  moreover have "labelled r" using outcome_value_cases [of r] kv by auto
  ultimately show ?case using ih kv by simp
qed simp

lemma pair_units_unfold:
  "pair_units sha rs = Inr us \<longleftrightarrow> (\<exists>d. units_from sha rs [] = Inr d \<and> us = map (\<lambda>(k, vs). mean vs) d)"
  by (auto simp: pair_units_def rbind_Inr_iff)

section \<open>Properties\<close>

text \<open>A rung aggregate never pools regimes and counts honestly: records naming two regimes are
  refused; otherwise, for records with a valid label, wins, losses and draws partition the games,
  the win rate is draw-aware, and the effective sample size is the number of distinct games.\<close>

theorem aggregate_rung_honest:
  assumes "rs \<noteq> []"
  shows "case aggregate_rung sha boot resamples ci seed rs of
     Inl e \<Rightarrow> (e = MixedRegimeError \<longleftrightarrow> card {k. \<exists>r \<in> set rs. er_regime_key r = Some k} > 1)
   | Inr a \<Rightarrow> card {k. \<exists>r \<in> set rs. er_regime_key r = Some k} \<le> 1 \<and>
       ra_games a = length rs \<and>
       ((\<forall>r \<in> set rs. labelled r) \<longrightarrow> ra_wins a + ra_losses a + ra_draws a = ra_games a) \<and>
       ra_wr a = Some ((real (ra_wins a) + real (ra_draws a) / 2) / real (ra_games a)) \<and>
       ra_eff_n a = card {k. \<exists>r \<in> set rs. traj_key sha r = Inr k} \<and> ra_eff_n a \<le> ra_games a"
proof -
  have "set (regimes rs) = {k. \<exists>r \<in> set rs. er_regime_key r = Some k}"
    by (force simp: regimes_def List.map_filter_def)
  then have c: "card {k. \<exists>r \<in> set rs. er_regime_key r = Some k} = length (regimes rs)"
    by (metis distinct_card distinct_remdups regimes_def)
  have e: "traj_key sha r \<noteq> Inl MixedRegimeError" "outcome_value r \<noteq> Inl MixedRegimeError" for r
    by (auto simp: traj_key_def outcome_value_def Let_def split: option.splits)
  then have "distinct_outcomes_from sha rs seen \<noteq> Inl MixedRegimeError" for seen
    by (induction rs arbitrary: seen) (auto simp: rbind_def split: sum.splits)
  then have ne: "distinct_outcomes sha rs \<noteq> Inl MixedRegimeError"
    by (auto simp: distinct_outcomes_def rbind_def split: sum.splits)
  show ?thesis
  proof (cases "distinct_outcomes sha rs")
    case (Inl x)
    with ne assms c show ?thesis by (auto simp: aggregate_rung_def)
  next
    case (Inr os)
    then obtain d where d: "distinct_outcomes_from sha rs [] = Inr d" "os = map snd d"
      by (auto simp: distinct_outcomes_def rbind_Inr_iff)
    from distinct_outcomes_from_keys [OF d(1)]
    have "length os = card {k. \<exists>r \<in> set rs. traj_key sha r = Inr k}" "length os \<le> length rs"
      using d(2) card_dkeys [of d] by simp_all
    with Inr assms c show ?thesis
      by (auto simp: aggregate_rung_def Let_def count_winner_partition split: prod.split)
  qed
qed

definition arena_rec :: "string \<Rightarrow> string \<Rightarrow> int \<Rightarrow> string \<Rightarrow> eval_record" where
  "arena_rec w op c h = \<lparr>er_winner = w, er_p1 = Some ''cand'', er_p2 = Some ''best'', er_candidate_color = Some c,
     er_trajectory_hash = Some h, er_moves = None, er_opening_id = Some op, er_regime_key = Some ''r''\<rparr>"

theorem aggregate_rung_honest_witness:
  "\<exists>a. aggregate_rung id (\<lambda>_ _ _ _. (0, 1)) None 0 0
         [arena_rec ''p1'' ''o1'' 1 ''h1'', arena_rec ''p1'' ''o1'' 1 ''h1'', arena_rec ''draw'' ''o1'' (-1) ''h1''] = Inr a \<and>
       ra_eff_n a = card {k. \<exists>r \<in> set [arena_rec ''p1'' ''o1'' 1 ''h1'', arena_rec ''p1'' ''o1'' 1 ''h1'',
                              arena_rec ''draw'' ''o1'' (-1) ''h1'']. traj_key id r = Inr k}"
proof -
  let ?rs = "[arena_rec ''p1'' ''o1'' 1 ''h1'', arena_rec ''p1'' ''o1'' 1 ''h1'', arena_rec ''draw'' ''o1'' (-1) ''h1'']"
  have "\<exists>a. aggregate_rung id (\<lambda>_ _ _ _. (0, 1)) None 0 0 ?rs = Inr a"
    by (simp add: aggregate_rung_def distinct_outcomes_def arena_rec_def traj_key_def Let_def regimes_def
        List.map_filter_def outcome_value_def rbind_def split: sum.split)
  then obtain a where a: "aggregate_rung id (\<lambda>_ _ _ _. (0, 1)) None 0 0 ?rs = Inr a" by blast
  from aggregate_rung_honest [of ?rs id "\<lambda>_ _ _ _. (0, 1)" None 0 0] a show ?thesis by auto
qed

text \<open>Copies of a game are one observation: appending a record whose trajectory key some pooled
  record already has changes neither the distinct outcomes nor, therefore, the effective sample
  size, whatever the copy's own result says.\<close>

theorem copies_count_once:
  assumes "r0 \<in> set rs" and "traj_key sha r0 = Inr k" and "traj_key sha r = Inr k"
  shows "distinct_outcomes sha (rs @ [r]) = distinct_outcomes sha rs"
proof (cases "distinct_outcomes_from sha rs []")
  case (Inr d)
  from distinct_outcomes_from_keys [OF Inr] assms(1,2) have "k \<in> dkeys d" by auto
  with Inr assms(3) show ?thesis by (simp add: distinct_outcomes_def distinct_outcomes_from_append)
qed (simp add: distinct_outcomes_def distinct_outcomes_from_append)

theorem copies_count_once_witness:
  "distinct_outcomes id ([arena_rec ''p1'' ''o1'' 1 ''h1''] @ [arena_rec ''p2'' ''o2'' 1 ''h1'']) =
   distinct_outcomes id [arena_rec ''p1'' ''o1'' 1 ''h1'']"
  by (rule copies_count_once [of "arena_rec ''p1'' ''o1'' 1 ''h1''" _ _ "''cand|best|1|h1''"])
     (simp_all add: arena_rec_def traj_key_def Let_def str_opt_def str_int_def str_nat_small digit_one)

text \<open>The gate's pair units measure the pooled win rate: when every opening pair has the same
  number of legs, the mean of the pair scores the sequential test reads equals the draw-aware win
  rate the gate aggregate publishes.\<close>

theorem pair_units_mean_is_winrate:
  assumes "units_from sha rs [] = Inr d" and "pair_units sha rs = Inr us" and "rs \<noteq> []"
    and "\<forall>(k, vs) \<in> set d. length vs = legs"
    and "aggregate_gate sha boot cfg promote checks rs = Inr a"
  shows "ga_wr_confirm a = Some (mean us)"
proof -
  note tot = units_from_totals [OF assms(1)]
  have us: "us = map (\<lambda>(k, vs). mean vs) d" using assms(1,2) by (simp add: pair_units_unfold)
  have len: "(\<Sum>(k, vs)\<leftarrow>d. real (length vs)) = real legs * real (length d)"
    using assms(4) by (induction d) (auto simp: algebra_simps)
  with tot have n: "real legs * real (length d) = real (length rs)" by simp
  then have pos: "legs > 0" "d \<noteq> []" using assms(3) by (auto intro: gr0I)
  have "(\<Sum>u\<leftarrow>us. u) = (\<Sum>(k, vs)\<leftarrow>d. sum_list vs) / real legs"
    using assms(4) unfolding us by (induction d) (auto simp: mean_def add_divide_distrib)
  then have "mean us = (\<Sum>(k, vs)\<leftarrow>d. sum_list vs) / (real legs * real (length d))"
    by (simp add: mean_def us)
  also have "\<dots> = (real (count_winner ''p1'' rs) + real (count_winner ''draw'' rs) / 2) / real (length rs)"
    using tot sum_outcomes [of rs] by (simp add: n)
  finally show ?thesis using assms(3,5)
    by (auto simp: aggregate_gate_def rbind_Inr_iff Let_def)
qed

definition paired_recs :: "eval_record list" where
  "paired_recs = [arena_rec ''p1'' ''o1'' 1 ''h1'', arena_rec ''draw'' ''o1'' (-1) ''h2'',
                  arena_rec ''p2'' ''o2'' 1 ''h3'', arena_rec ''p1'' ''o2'' (-1) ''h4'']"

lemma paired_recs_units:
  "units_from id paired_recs [] = Inr [(''cand|best|o1'', [1, 1 / 2]), (''cand|best|o2'', [0, 1])]"
  by (simp add: paired_recs_def arena_rec_def unit_key_def outcome_value_def str_opt_def dget_def)

theorem pair_units_mean_is_winrate_witness:
  "\<exists>a. aggregate_gate id (\<lambda>_ _ _ _. (0, 1)) \<lparr>gc_bootstrap_resamples = 10, gc_seed_base = 1, gc_min_distinct_per_pair = 2\<rparr>
        True 1 paired_recs = Inr a \<and> ga_wr_confirm a = Some (mean [3 / 4, 1 / 2])"
proof -
  let ?cfg = "\<lparr>gc_bootstrap_resamples = 10, gc_seed_base = 1, gc_min_distinct_per_pair = 2\<rparr>"
  have u: "pair_units id paired_recs = Inr [3 / 4, 1 / 2]"
    by (simp add: pair_units_unfold paired_recs_units mean_def)
  have "\<exists>a. aggregate_gate id (\<lambda>_ _ _ _. (0, 1)) ?cfg True 1 paired_recs = Inr a"
    using u by (simp add: aggregate_gate_def distinct_per_pair_def paired_recs_def arena_rec_def traj_key_def Let_def)
  then obtain a where a: "aggregate_gate id (\<lambda>_ _ _ _. (0, 1)) ?cfg True 1 paired_recs = Inr a" by blast
  have l: "\<forall>(k, vs) \<in> set [(''cand|best|o1'', [1, 1 / 2 :: real]), (''cand|best|o2'', [0, 1])]. length vs = 2"
    by simp
  from pair_units_mean_is_winrate [OF paired_recs_units u _ l a] a show ?thesis
    by (simp add: paired_recs_def)
qed

end
