(* ===== verification/Sequential.thy ===== *)
theory Sequential
  imports Aggregate
begin

text \<open>
  \<open>src/mantis/eval/sequential.py\<close>, the sequential promotion gate, and
  \<open>src/mantis/eval/floor_gate.py\<close>, the strength floor before it.  Floats are reals, the
  logarithm is \<open>ln\<close>.  \<open>play first last\<close> is the injected \<open>play_pairs\<close>: the
  records of opening pairs \<open>first .. last - 1\<close>, or an exception.
\<close>

section \<open>The rule's values\<close>

definition GSPRT_MIN_PAIRS :: int where "GSPRT_MIN_PAIRS = 2"
definition SD_FLOOR :: real where "SD_FLOOR = 5 / 100"

datatype at_max_rule = Sign | Promote

record gate_spec =
  gs_mu0 :: real
  gs_mu1 :: real
  gs_alpha :: real
  gs_beta :: real
  gs_check_every_pairs :: int
  gs_min_pairs :: int
  gs_max_pairs :: int
  gs_at_max_pairs :: at_max_rule

definition valid_spec :: "gate_spec \<Rightarrow> bool" where
  "valid_spec g \<longleftrightarrow>
     0 < gs_mu0 g \<and> gs_mu0 g < gs_mu1 g \<and> gs_mu1 g < 1 \<and>
     0 < gs_alpha g \<and> gs_alpha g < 1 \<and> 0 < gs_beta g \<and> gs_beta g < 1 \<and>
     1 \<le> gs_check_every_pairs g \<and>
     GSPRT_MIN_PAIRS \<le> gs_min_pairs g \<and> gs_min_pairs g \<le> gs_max_pairs g"

definition make_spec ::
  "real \<Rightarrow> real \<Rightarrow> real \<Rightarrow> real \<Rightarrow> int \<Rightarrow> int \<Rightarrow> int \<Rightarrow> string \<Rightarrow> gate_spec res" where
  "make_spec mu0 mu1 alpha beta every lo hi rule =
     (if rule \<noteq> ''sign'' \<and> rule \<noteq> ''promote'' then Inl ValueError
      else (let g = \<lparr>gs_mu0 = mu0, gs_mu1 = mu1, gs_alpha = alpha, gs_beta = beta,
                gs_check_every_pairs = every, gs_min_pairs = lo, gs_max_pairs = hi,
                gs_at_max_pairs = (if rule = ''sign'' then Sign else Promote)\<rparr>
            in if valid_spec g then Inr g else Inl ValueError))"

section \<open>The statistic and the decision\<close>

definition llr_bounds :: "real \<Rightarrow> real \<Rightarrow> real \<times> real" where
  "llr_bounds alpha beta = (ln (beta / (1 - alpha)), ln ((1 - beta) / alpha))"

definition stdev :: "real list \<Rightarrow> real" where
  "stdev xs = sqrt ((\<Sum>x\<leftarrow>xs. (x - mean xs)\<^sup>2) / (real (length xs) - 1))"

definition gsprt_llr :: "real list \<Rightarrow> real \<Rightarrow> real \<Rightarrow> real res" where
  "gsprt_llr scores mu0 mu1 =
     (if int (length scores) < GSPRT_MIN_PAIRS then Inl ValueError
      else (let sd = max (stdev scores) SD_FLOOR;
                t = (mean scores - 1 / 2) / sd;
                t0 = (mu0 - 1 / 2) / sd;
                t1 = (mu1 - 1 / 2) / sd
            in Inr (1 / 2 * real (length scores) * ln ((1 + (t - t0)\<^sup>2) / (1 + (t - t1)\<^sup>2)))))"

datatype decision = Accept | Reject | Continue

definition gsprt_decision :: "real \<Rightarrow> real \<Rightarrow> real \<Rightarrow> bool \<Rightarrow> at_max_rule \<Rightarrow> decision" where
  "gsprt_decision llr lower upper at_max rule =
     (if llr \<ge> upper then Accept
      else if llr \<le> lower then Reject
      else if at_max then (if rule = Promote then Accept else if llr > 0 then Accept else Reject)
      else Continue)"

section \<open>The gate loop\<close>

datatype stopped = StoppedAccept | StoppedReject | StoppedMax

record seq_verdict =
  sv_promote :: bool
  sv_stopped :: stopped
  sv_llr :: real
  sv_pairs_played :: int
  sv_checks :: nat
  sv_lower :: real
  sv_upper :: real

type_synonym player = "int \<Rightarrow> int \<Rightarrow> eval_record list res"

definition seq_result ::
  "gate_spec \<Rightarrow> real \<Rightarrow> decision \<Rightarrow> bool \<Rightarrow> int \<Rightarrow> nat \<Rightarrow> seq_verdict" where
  "seq_result spec llr dec at_max played checks =
     (let (lower, upper) = llr_bounds (gs_alpha spec) (gs_beta spec) in
      \<lparr>sv_promote = (dec = Accept),
       sv_stopped = (if at_max \<and> \<not> (llr \<ge> upper \<or> llr \<le> lower) then StoppedMax
                     else if dec = Accept then StoppedAccept else StoppedReject),
       sv_llr = llr, sv_pairs_played = played, sv_checks = checks, sv_lower = lower, sv_upper = upper\<rparr>)"

text \<open>One check: play to \<open>next_end\<close>, read the statistic, decide.\<close>

definition gate_check ::
  "(string \<Rightarrow> string) \<Rightarrow> player \<Rightarrow> gate_spec \<Rightarrow> eval_record list \<Rightarrow> int \<Rightarrow> int \<Rightarrow>
   (eval_record list \<times> real \<times> decision) res" where
  "gate_check sha play spec records played next_end =
     rbind (play played next_end) (\<lambda>batch. let records' = records @ batch in
     rbind (pair_units sha records') (\<lambda>units.
     rbind (gsprt_llr units (gs_mu0 spec) (gs_mu1 spec)) (\<lambda>llr.
       let (lower, upper) = llr_bounds (gs_alpha spec) (gs_beta spec) in
       Inr (records', llr, gsprt_decision llr lower upper (next_end \<ge> gs_max_pairs spec) (gs_at_max_pairs spec)))))"

text \<open>The \<open>while True\<close> loop; \<open>None\<close> would be a loop that never returns.\<close>

partial_function (option) gate_loop ::
  "(string \<Rightarrow> string) \<Rightarrow> player \<Rightarrow> gate_spec \<Rightarrow> eval_record list \<Rightarrow> int \<Rightarrow> int \<Rightarrow> nat \<Rightarrow>
   (eval_record list \<times> seq_verdict) res option" where
  "gate_loop sha play spec records played next_end checks =
     (case gate_check sha play spec records played next_end of
        Inl e \<Rightarrow> Some (Inl e)
      | Inr (records', llr, dec) \<Rightarrow>
          (if dec = Continue
           then gate_loop sha play spec records' next_end
                  (min (next_end + gs_check_every_pairs spec) (gs_max_pairs spec)) (Suc checks)
           else Some (Inr (records', seq_result spec llr dec (next_end \<ge> gs_max_pairs spec) next_end (Suc checks)))))"

definition run_sequential_gate ::
  "(string \<Rightarrow> string) \<Rightarrow> player \<Rightarrow> gate_spec \<Rightarrow> (eval_record list \<times> seq_verdict) res option" where
  "run_sequential_gate sha play spec = gate_loop sha play spec [] 0 (gs_min_pairs spec) 0"

section \<open>The strength floor\<close>

record floor_spec =
  fs_min_decisive_rate :: real
  fs_min_winrate :: real

record probe_game =
  pg_terminal :: terminal
  pg_winner :: outcome

record floor_verdict =
  fv_passed :: bool
  fv_games :: nat
  fv_decisive_games :: nat
  fv_decisive_rate :: real
  fv_wins :: real
  fv_draws :: nat
  fv_winrate :: real
  fv_min_decisive_rate :: real
  fv_min_winrate :: real
  fv_failed_bars :: "string list"

definition probe_measurements :: "probe_game list \<Rightarrow> nat \<times> nat \<times> real \<times> nat" where
  "probe_measurements rs =
     (let draws = length (filter (\<lambda>r. pg_winner r = Drawn) rs) in
      (length rs, length (filter (\<lambda>r. pg_terminal r \<noteq> TerminalPlyCap) rs),
       real (length (filter (\<lambda>r. pg_winner r = Candidate) rs)) + real draws / 2, draws))"

definition evaluate_strength_floor :: "probe_game list \<Rightarrow> floor_spec \<Rightarrow> floor_verdict" where
  "evaluate_strength_floor rs spec =
     (let (games, decisive, wins, draws) = probe_measurements rs;
          decisive_rate = (if games \<noteq> 0 then real decisive / real games else 0);
          winrate = (if games \<noteq> 0 then wins / real games else 0);
          failed = (if games \<le> 0 then [''no_probe_games''] else []) @
                   (if decisive_rate < fs_min_decisive_rate spec then [''decisive_rate''] else []) @
                   (if winrate < fs_min_winrate spec then [''winrate''] else [])
      in \<lparr>fv_passed = (failed = []), fv_games = games, fv_decisive_games = decisive,
          fv_decisive_rate = decisive_rate, fv_wins = wins, fv_draws = draws, fv_winrate = winrate,
          fv_min_decisive_rate = fs_min_decisive_rate spec, fv_min_winrate = fs_min_winrate spec,
          fv_failed_bars = failed\<rparr>)"

section \<open>Library lemmas\<close>

text \<open>A chain of contiguous batches from one pair index to another.\<close>

fun chain :: "int \<Rightarrow> (int \<times> int) list \<Rightarrow> int \<Rightarrow> bool" where
  "chain a [] b \<longleftrightarrow> a = b"
| "chain a ((x, y) # steps) b \<longleftrightarrow> x = a \<and> x < y \<and> chain y steps b"

definition batch_of :: "player \<Rightarrow> int \<times> int \<Rightarrow> eval_record list" where
  "batch_of play = (\<lambda>(a, b). projr (play a b))"

text \<open>What a returned verdict says about its statistic.\<close>

definition verdict_ok :: "(string \<Rightarrow> string) \<Rightarrow> gate_spec \<Rightarrow> eval_record list \<Rightarrow> seq_verdict \<Rightarrow> bool" where
  "verdict_ok sha spec recs v \<longleftrightarrow>
     (\<exists>us. pair_units sha recs = Inr us \<and> gsprt_llr us (gs_mu0 spec) (gs_mu1 spec) = Inr (sv_llr v)) \<and>
     (sv_lower v, sv_upper v) = llr_bounds (gs_alpha spec) (gs_beta spec) \<and>
     (case sv_stopped v of
        StoppedAccept \<Rightarrow> sv_promote v \<and> sv_upper v \<le> sv_llr v
      | StoppedReject \<Rightarrow> \<not> sv_promote v \<and> sv_llr v \<le> sv_lower v
      | StoppedMax \<Rightarrow> gs_max_pairs spec \<le> sv_pairs_played v \<and> sv_lower v < sv_llr v \<and> sv_llr v < sv_upper v \<and>
          (sv_promote v \<longleftrightarrow> gs_at_max_pairs spec = Promote \<or> 0 < sv_llr v))"

lemma gate_check_Inr:
  assumes "gate_check sha play spec records played next_end = Inr (recs, llr, dec)"
  shows "play played next_end = Inr (batch_of play (played, next_end)) \<and>
         recs = records @ batch_of play (played, next_end) \<and>
         (\<exists>us. pair_units sha recs = Inr us \<and> gsprt_llr us (gs_mu0 spec) (gs_mu1 spec) = Inr llr) \<and>
         dec = gsprt_decision llr (fst (llr_bounds (gs_alpha spec) (gs_beta spec)))
                 (snd (llr_bounds (gs_alpha spec) (gs_beta spec))) (next_end \<ge> gs_max_pairs spec) (gs_at_max_pairs spec)"
  using assms by (cases "llr_bounds (gs_alpha spec) (gs_beta spec)")
    (auto simp: gate_check_def rbind_Inr_iff Let_def batch_of_def)

lemma gsprt_decision_continue: "gsprt_decision llr lo hi at_max rule = Continue \<Longrightarrow> \<not> at_max"
  by (auto simp: gsprt_decision_def split: if_splits)

lemma seq_result_ok:
  assumes "\<exists>us. pair_units sha recs = Inr us \<and> gsprt_llr us (gs_mu0 spec) (gs_mu1 spec) = Inr llr"
    and "dec = gsprt_decision llr (fst (llr_bounds (gs_alpha spec) (gs_beta spec)))
           (snd (llr_bounds (gs_alpha spec) (gs_beta spec))) (played \<ge> gs_max_pairs spec) (gs_at_max_pairs spec)"
    and "dec \<noteq> Continue"
  shows "verdict_ok sha spec recs (seq_result spec llr dec (played \<ge> gs_max_pairs spec) played checks)"
  using assms
  by (auto simp: verdict_ok_def seq_result_def Let_def gsprt_decision_def split: prod.splits if_splits)

text \<open>What a run of the loop from \<open>played\<close> may return.\<close>

definition loop_ok ::
  "(string \<Rightarrow> string) \<Rightarrow> player \<Rightarrow> gate_spec \<Rightarrow> eval_record list \<Rightarrow> int \<Rightarrow> int \<Rightarrow> nat \<Rightarrow>
   eval_record list \<Rightarrow> seq_verdict \<Rightarrow> bool" where
  "loop_ok sha play spec records played next_end checks recs v \<longleftrightarrow>
     verdict_ok sha spec recs v \<and> next_end \<le> sv_pairs_played v \<and> sv_pairs_played v \<le> gs_max_pairs spec \<and>
     (\<exists>steps. chain played steps (sv_pairs_played v) \<and>
        recs = records @ concat (map (batch_of play) steps) \<and> sv_checks v = checks + length steps)"

lemma loop_ok_stop:
  assumes "verdict_ok sha spec recs v" "recs = records @ batch_of play (played, next_end)"
    "sv_pairs_played v = next_end" "sv_checks v = Suc checks" "played < next_end" "next_end \<le> gs_max_pairs spec"
  shows "loop_ok sha play spec records played next_end checks recs v"
  unfolding loop_ok_def using assms by (intro conjI exI [of _ "[(played, next_end)]"]) simp_all

lemma loop_ok_step:
  assumes "loop_ok sha play spec (records @ batch_of play (played, next_end)) next_end n (Suc checks) recs v"
    and "played < next_end" and "next_end \<le> n"
  shows "loop_ok sha play spec records played next_end checks recs v"
proof -
  from assms(1) obtain steps where "chain next_end steps (sv_pairs_played v)"
    "recs = records @ batch_of play (played, next_end) @ concat (map (batch_of play) steps)"
    "sv_checks v = Suc checks + length steps"
    by (auto simp: loop_ok_def)
  with assms show ?thesis
    unfolding loop_ok_def by (intro conjI exI [of _ "(played, next_end) # steps"]) simp_all
qed

lemma gate_loop_total:
  assumes v: "valid_spec spec" and "played < next_end" "next_end \<le> gs_max_pairs spec"
  shows "\<exists>r. gate_loop sha play spec records played next_end checks = Some r \<and>
     (\<forall>recs v. r = Inr (recs, v) \<longrightarrow> loop_ok sha play spec records played next_end checks recs v)"
  using assms(2,3)
proof (induction "nat (gs_max_pairs spec - next_end)" arbitrary: records played next_end checks rule: less_induct)
  case less
  show ?case
  proof (cases "gate_check sha play spec records played next_end")
    case (Inl e)
    then show ?thesis by (simp add: gate_loop.simps)
  next
    case (Inr x)
    obtain recs llr dec where x: "x = (recs, llr, dec)" by (cases x)
    note chk = gate_check_Inr [OF Inr [unfolded x]]
    show ?thesis
    proof (cases "dec = Continue")
      case False
      define v where "v = seq_result spec llr dec (next_end \<ge> gs_max_pairs spec) next_end (Suc checks)"
      have run: "gate_loop sha play spec records played next_end checks = Some (Inr (recs, v))"
        using Inr x False by (simp add: gate_loop.simps v_def)
      have "verdict_ok sha spec recs v" unfolding v_def using chk False by (intro seq_result_ok) blast+
      then have "loop_ok sha play spec records played next_end checks recs v"
        using chk less.prems by (intro loop_ok_stop) (simp_all add: v_def seq_result_def split: prod.split)
      with run show ?thesis by simp
    next
      case True
      with chk have "\<not> next_end \<ge> gs_max_pairs spec" by (metis gsprt_decision_continue)
      then have lt: "next_end < gs_max_pairs spec" by simp
      define n where "n = min (next_end + gs_check_every_pairs spec) (gs_max_pairs spec)"
      have n: "next_end < n" "n \<le> gs_max_pairs spec" using v lt by (auto simp: valid_spec_def n_def)
      then have "nat (gs_max_pairs spec - n) < nat (gs_max_pairs spec - next_end)" by linarith
      from less.hyps [OF this n, of recs "Suc checks"] obtain r where
        r: "gate_loop sha play spec recs next_end n (Suc checks) = Some r"
        and q: "\<forall>recs' v. r = Inr (recs', v) \<longrightarrow> loop_ok sha play spec recs next_end n (Suc checks) recs' v"
        by blast
      have "gate_loop sha play spec records played next_end checks = Some r"
        using Inr x True r by (subst gate_loop.simps) (simp add: n_def)
      moreover have "\<forall>recs' v. r = Inr (recs', v) \<longrightarrow> loop_ok sha play spec records played next_end checks recs' v"
        using q chk less.prems n by (auto intro: loop_ok_step)
      ultimately show ?thesis by blast
    qed
  qed
qed

lemma gsprt_llr_sign:
  assumes "gsprt_llr scores mu0 mu1 = Inr llr" and "mu0 < mu1"
  shows "0 < llr \<longleftrightarrow> (mu0 + mu1) / 2 < mean scores"
proof -
  define sd where "sd = max (stdev scores) SD_FLOOR"
  define t t0 t1 where "t = (mean scores - 1 / 2) / sd" and "t0 = (mu0 - 1 / 2) / sd" and "t1 = (mu1 - 1 / 2) / sd"
  note ts = t_def t0_def t1_def
  have sd: "0 < sd" by (simp add: sd_def SD_FLOOR_def)
  from assms(1) have n: "0 < real (length scores)"
    and llr: "llr = 1 / 2 * real (length scores) * ln ((1 + (t - t0)\<^sup>2) / (1 + (t - t1)\<^sup>2))"
    by (auto simp: gsprt_llr_def GSPRT_MIN_PAIRS_def Let_def sd_def ts split: if_splits)
  have pos: "0 < 1 + (t - t1)\<^sup>2" "0 < 1 + (t - t0)\<^sup>2" by (simp_all add: add_pos_nonneg)
  have "0 < llr \<longleftrightarrow> 0 < ln ((1 + (t - t0)\<^sup>2) / (1 + (t - t1)\<^sup>2))"
    using n by (simp add: llr zero_less_mult_iff)
  also have "\<dots> \<longleftrightarrow> (t - t1)\<^sup>2 < (t - t0)\<^sup>2"
    using pos by (subst ln_gt_zero_iff) (auto simp: divide_less_eq less_divide_eq)
  also have "\<dots> \<longleftrightarrow> 0 < (t1 - t0) * (2 * t - t0 - t1)"
    by (auto simp: power2_eq_square algebra_simps)
  also have "\<dots> \<longleftrightarrow> t0 + t1 < 2 * t"
  proof -
    have "t0 < t1" using assms(2) sd by (simp add: t0_def t1_def divide_strict_right_mono)
    then show ?thesis by (auto simp: zero_less_mult_iff)
  qed
  also have "\<dots> \<longleftrightarrow> (mu0 + mu1) / 2 < mean scores"
  proof -
    have "t0 + t1 = (mu0 + mu1 - 1) / sd" "2 * t = (2 * mean scores - 1) / sd"
      by (simp_all add: ts add_divide_distrib [symmetric])
    then have "t0 + t1 < 2 * t \<longleftrightarrow> mu0 + mu1 - 1 < 2 * mean scores - 1"
      using sd by (simp add: divide_less_cancel)
    then show ?thesis by auto
  qed
  finally show ?thesis .
qed

section \<open>Properties\<close>

text \<open>C5: The sequential gate always ends: for every spec the constructor accepts and whatever the
  injected games return or raise, the loop stops with an exception or a verdict; a verdict was
  reached between the minimum and the maximum number of pairs, over contiguous batches that play
  every pair index from 0 exactly once, one check per batch, and its reported reason agrees with
  the statistic of exactly those records.\<close>

theorem sequential_gate_terminates:
  assumes "valid_spec spec"
  shows "\<exists>r. run_sequential_gate sha play spec = Some r \<and>
     (\<forall>recs v. r = Inr (recs, v) \<longrightarrow>
        verdict_ok sha spec recs v \<and>
        gs_min_pairs spec \<le> sv_pairs_played v \<and> sv_pairs_played v \<le> gs_max_pairs spec \<and>
        (\<exists>steps. chain 0 steps (sv_pairs_played v) \<and> recs = concat (map (batch_of play) steps) \<and>
           sv_checks v = length steps))"
  using gate_loop_total [OF assms, of 0 "gs_min_pairs spec" sha play "[]" 0] assms
  by (auto simp: run_sequential_gate_def valid_spec_def GSPRT_MIN_PAIRS_def loop_ok_def)

definition tiny_spec :: gate_spec where
  "tiny_spec = \<lparr>gs_mu0 = 9 / 20, gs_mu1 = 11 / 20, gs_alpha = 1 / 20, gs_beta = 1 / 20,
     gs_check_every_pairs = 1, gs_min_pairs = 2, gs_max_pairs = 2, gs_at_max_pairs = Sign\<rparr>"

lemma tiny_spec_valid: "valid_spec tiny_spec"
  by (simp add: valid_spec_def tiny_spec_def GSPRT_MIN_PAIRS_def)

definition drawn_pairs :: player where
  "drawn_pairs a b = Inr [arena_rec ''draw'' ''o1'' 1 ''h1'', arena_rec ''draw'' ''o2'' 1 ''h2'']"

theorem sequential_gate_terminates_witness:
  "\<exists>r. run_sequential_gate id drawn_pairs tiny_spec = Some r"
  using sequential_gate_terminates [OF tiny_spec_valid, of id drawn_pairs] by blast

text \<open>C26: At the cap the sign rule is a midpoint test: a gate that ran out of pairs undecided under the
  rule \<open>sign\<close> promotes exactly when the mean opening-pair score of all its records is above the
  middle of the band from mu0 to mu1.\<close>

theorem capped_gate_is_midpoint_test:
  assumes "valid_spec spec" and "gs_at_max_pairs spec = Sign"
    and "run_sequential_gate sha play spec = Some (Inr (recs, v))" and "sv_stopped v = StoppedMax"
  shows "\<exists>us. pair_units sha recs = Inr us \<and>
           (sv_promote v \<longleftrightarrow> (gs_mu0 spec + gs_mu1 spec) / 2 < mean us)"
proof -
  from gate_loop_total [OF assms(1), of 0 "gs_min_pairs spec" sha play "[]" 0] assms(1,3)
  have ok: "verdict_ok sha spec recs v"
    by (auto simp: run_sequential_gate_def valid_spec_def GSPRT_MIN_PAIRS_def loop_ok_def)
  then obtain us where us: "pair_units sha recs = Inr us" "gsprt_llr us (gs_mu0 spec) (gs_mu1 spec) = Inr (sv_llr v)"
    by (auto simp: verdict_ok_def)
  have "gs_mu0 spec < gs_mu1 spec" using assms(1) by (simp add: valid_spec_def)
  with gsprt_llr_sign [OF us(2)] us(1) ok assms(2,4) show ?thesis by (auto simp: verdict_ok_def)
qed

lemma tiny_run:
  "\<exists>recs v. run_sequential_gate id drawn_pairs tiny_spec = Some (Inr (recs, v)) \<and>
     sv_stopped v = StoppedMax \<and> \<not> sv_promote v"
proof -
  have u: "pair_units id [arena_rec ''draw'' ''o1'' 1 ''h1'', arena_rec ''draw'' ''o2'' 1 ''h2''] = Inr [1 / 2, 1 / 2]"
    by (simp add: pair_units_def arena_rec_def unit_key_def outcome_value_def str_opt_def dget_def mean_def)
  have l: "gsprt_llr [1 / 2, 1 / 2] (9 / 20) (11 / 20) = Inr 0"
    by (simp add: gsprt_llr_def GSPRT_MIN_PAIRS_def mean_def stdev_def SD_FLOOR_def Let_def power2_eq_square)
  have b: "fst (llr_bounds (1 / 20) (1 / 20)) < 0" "0 < snd (llr_bounds (1 / 20) (1 / 20))"
    by (simp_all add: llr_bounds_def ln_less_zero_iff)
  have "gate_check id drawn_pairs tiny_spec [] 0 2 =
     Inr ([arena_rec ''draw'' ''o1'' 1 ''h1'', arena_rec ''draw'' ''o2'' 1 ''h2''], 0, Reject)"
    using u l b by (cases "llr_bounds (1 / 20) (1 / 20)")
      (simp add: gate_check_def drawn_pairs_def tiny_spec_def gsprt_decision_def Let_def)
  then show ?thesis using b
    by (cases "llr_bounds (1 / 20) (1 / 20)")
      (simp add: run_sequential_gate_def gate_loop.simps tiny_spec_def seq_result_def Let_def)
qed

theorem capped_gate_is_midpoint_test_witness:
  "\<exists>recs v us. run_sequential_gate id drawn_pairs tiny_spec = Some (Inr (recs, v)) \<and>
     pair_units id recs = Inr us \<and> \<not> 1 / 2 < mean us"
proof -
  obtain recs v where r: "run_sequential_gate id drawn_pairs tiny_spec = Some (Inr (recs, v))"
    "sv_stopped v = StoppedMax" "\<not> sv_promote v" using tiny_run by blast
  have "gs_at_max_pairs tiny_spec = Sign" by (simp add: tiny_spec_def)
  from capped_gate_is_midpoint_test [OF tiny_spec_valid this r(1,2)] r show ?thesis
    by (auto simp: tiny_spec_def)
qed

text \<open>The strength floor is exactly its two bars: a probe passes when it has games, enough of them
  decisive and enough draw-aware wins; the failed bars name what missed; and a probe of capped
  draws never passes a positive decisiveness bar, however low the win-rate bar.\<close>

theorem strength_floor_exact:
  "case evaluate_strength_floor rs spec of v \<Rightarrow>
     (fv_passed v \<longleftrightarrow> rs \<noteq> [] \<and>
        fs_min_decisive_rate spec * real (length rs) \<le> real (length (filter (\<lambda>r. pg_terminal r \<noteq> TerminalPlyCap) rs)) \<and>
        fs_min_winrate spec * real (length rs) \<le>
          real (length (filter (\<lambda>r. pg_winner r = Candidate) rs)) + real (length (filter (\<lambda>r. pg_winner r = Drawn) rs)) / 2) \<and>
     (fv_passed v \<longleftrightarrow> fv_failed_bars v = []) \<and>
     (0 < fs_min_decisive_rate spec \<longrightarrow> (\<forall>r \<in> set rs. pg_terminal r = TerminalPlyCap) \<longrightarrow> \<not> fv_passed v)"
proof (cases "rs = []")
  case True
  then show ?thesis by (simp add: evaluate_strength_floor_def probe_measurements_def Let_def)
next
  case False
  then have n: "0 < real (length rs)" by simp
  have "filter (\<lambda>r. pg_terminal r \<noteq> TerminalPlyCap) rs = []" if "\<forall>r \<in> set rs. pg_terminal r = TerminalPlyCap"
    using that by (induction rs) auto
  then show ?thesis using False n
    by (auto simp: evaluate_strength_floor_def probe_measurements_def Let_def not_less pos_le_divide_eq
        divide_less_eq mult.commute)
qed

theorem strength_floor_exact_witness:
  "\<not> fv_passed (evaluate_strength_floor [\<lparr>pg_terminal = TerminalPlyCap, pg_winner = Drawn\<rparr>]
       \<lparr>fs_min_decisive_rate = 1 / 2, fs_min_winrate = 0\<rparr>)"
  using strength_floor_exact [of "[\<lparr>pg_terminal = TerminalPlyCap, pg_winner = Drawn\<rparr>]"
      "\<lparr>fs_min_decisive_rate = 1 / 2, fs_min_winrate = 0\<rparr>"] by simp

end
