(* ===== verification/Py_Values.thy ===== *)
theory Py_Values
  imports Text
begin

text \<open>
  What the Python built-ins do to decoded JSON values (truth testing, comparison with an integer,
  \<open>int(v)\<close>, \<open>dict(v)\<close>, \<open>.get\<close>), and the actions of the stateful components: a state
  transformer that may raise, where what was done before the exception stays done.
\<close>

section \<open>Built-ins on JSON values\<close>

fun truthy :: "json \<Rightarrow> bool" where
  "truthy JNull = False"
| "truthy (JBool b) = b"
| "truthy (JInt i) = (i \<noteq> 0)"
| "truthy (JFloat x) = (x \<noteq> Fin 0)"
| "truthy (JStr s) = (s \<noteq> [])"
| "truthy (JList js) = (js \<noteq> [])"
| "truthy (JObj d) = (d \<noteq> [])"

text \<open>\<open>v == i\<close> for an integer \<open>i\<close>: booleans and floats compare as numbers.\<close>

fun equals_int :: "json \<Rightarrow> int \<Rightarrow> bool" where
  "equals_int (JBool b) i = ((if b then 1 else 0) = i)"
| "equals_int (JInt j) i = (j = i)"
| "equals_int (JFloat (Fin x)) i = (x = of_int i)"
| "equals_int _ i = False"

text \<open>\<open>int(s)\<close> of an ASCII string: surrounding white space, a sign, digits with single underscores between.\<close>

definition white :: "char \<Rightarrow> bool" where
  "white c \<longleftrightarrow> c \<in> {CHR '' '', CHR 0x09, CHR 0x0A, CHR 0x0B, CHR 0x0C, CHR 0x0D}"

definition strip :: "string \<Rightarrow> string" where
  "strip s = rev (dropWhile white (rev (dropWhile white s)))"

definition is_digit :: "char \<Rightarrow> bool" where
  "is_digit c \<longleftrightarrow> 48 \<le> (of_char c :: nat) \<and> (of_char c :: nat) \<le> 57"

fun digit_run :: "string \<Rightarrow> string option" where
  "digit_run [] = None"
| "digit_run [c] = (if is_digit c then Some [c] else None)"
| "digit_run (c # d # s) =
     (if \<not> is_digit c then None
      else map_option (Cons c) (if d = CHR ''_'' then digit_run s else digit_run (d # s)))"

definition int_of_str :: "string \<Rightarrow> int res" where
  "int_of_str s =
     (let t = strip s;
          (sign, body) = (case t of [] \<Rightarrow> (1, []) | c # cs \<Rightarrow>
             if c = CHR ''-'' then (- 1, cs) else if c = CHR ''+'' then (1, cs) else (1, t))
      in case digit_run body of None \<Rightarrow> Inl ValueError | Some ds \<Rightarrow> Inr (sign * int (undigits ds)))"

fun py_int :: "json \<Rightarrow> int res" where
  "py_int (JBool b) = Inr (if b then 1 else 0)"
| "py_int (JInt i) = Inr i"
| "py_int (JFloat (Fin x)) = Inr (trunc x)"
| "py_int (JFloat NaN) = Inl ValueError"
| "py_int (JFloat _) = Inl OverflowError"
| "py_int (JStr s) = int_of_str s"
| "py_int _ = Inl TypeError"

text \<open>\<open>v.get(k, default)\<close>: only a mapping has it.\<close>

fun py_get :: "json \<Rightarrow> string \<Rightarrow> json \<Rightarrow> json res" where
  "py_get (JObj d) k dflt = Inr (dget d k dflt)"
| "py_get _ k dflt = Inl AttributeError"

text \<open>\<open>d[k]\<close> on a dictionary.\<close>

definition subscript :: "(string, 'v) dict \<Rightarrow> string \<Rightarrow> 'v res" where
  "subscript d k = (case map_of d k of None \<Rightarrow> Inl KeyError | Some v \<Rightarrow> Inr v)"

text \<open>\<open>dict(v)\<close>: a copy of a mapping, or a mapping from a list of pairs with string keys.\<close>

fun pairs_of :: "json list \<Rightarrow> (string, json) dict \<Rightarrow> (string, json) dict res" where
  "pairs_of [] d = Inr d"
| "pairs_of (JList [JStr k, v] # js) d = pairs_of js (AList.update k v d)"
| "pairs_of (_ # js) d = Inl TypeError"

fun py_dict :: "json \<Rightarrow> (string, json) dict res" where
  "py_dict (JObj d) = Inr d"
| "py_dict (JList js) = pairs_of js []"
| "py_dict (JStr s) = (if s = [] then Inr [] else Inl ValueError)"
| "py_dict _ = Inl TypeError"

text \<open>\<open>{**d, **e}\<close>: the later value wins, a key keeps its first place.\<close>

definition merge :: "('k, 'v) dict \<Rightarrow> ('k, 'v) dict \<Rightarrow> ('k, 'v) dict" where
  "merge d e = fold (\<lambda>(k, v) acc. AList.update k v acc) e d"

lemma merge_fresh: "map_of e k = None \<Longrightarrow> map_of (merge d e) k = map_of d k"
proof (induction e arbitrary: d)
  case (Cons p e)
  then show ?case by (cases p) (auto simp: merge_def update_conv' simp del: map_of_None_dkeys split: if_splits)
qed (simp add: merge_def)

section \<open>Actions\<close>

type_synonym ('s, 'a) act = "'s \<Rightarrow> 'a res \<times> 's"

definition ret :: "'a \<Rightarrow> ('s, 'a) act" where "ret a s = (Inr a, s)"

definition lift :: "'a res \<Rightarrow> ('s, 'a) act" where "lift r s = (r, s)"

definition abind :: "('s, 'a) act \<Rightarrow> ('a \<Rightarrow> ('s, 'b) act) \<Rightarrow> ('s, 'b) act" where
  "abind m f s = (case m s of (Inl e, s') \<Rightarrow> (Inl e, s') | (Inr a, s') \<Rightarrow> f a s')"

definition modify :: "('s \<Rightarrow> 's) \<Rightarrow> ('s, unit) act" where "modify f s = (Inr (), f s)"

definition gets :: "('s \<Rightarrow> 'a) \<Rightarrow> ('s, 'a) act" where "gets f s = (Inr (f s), s)"

definition catching :: "('s, 'a) act \<Rightarrow> (py_exc \<Rightarrow> ('s, 'a) act) \<Rightarrow> ('s, 'a) act" where
  "catching m h s = (case m s of (Inl e, s') \<Rightarrow> h e s' | (Inr a, s') \<Rightarrow> (Inr a, s'))"

named_theorems act_defs

declare ret_def [act_defs] lift_def [act_defs] abind_def [act_defs] modify_def [act_defs] gets_def [act_defs] catching_def [act_defs]

text \<open>
  An action that moves the state only along a relation: the interface through which the components prove
  what no operation of theirs can undo.
\<close>

definition moves :: "('s \<Rightarrow> 's \<Rightarrow> bool) \<Rightarrow> ('s, 'a) act \<Rightarrow> bool" where
  "moves R m \<longleftrightarrow> (\<forall>s. R s (snd (m s)))"

lemma moves_run: "moves R m \<Longrightarrow> m s = (r, t) \<Longrightarrow> R s t"
  unfolding moves_def by (metis snd_conv)

locale state_order =
  fixes R :: "'s \<Rightarrow> 's \<Rightarrow> bool"
  assumes stay: "R s s"
    and follow: "R s t \<Longrightarrow> R t u \<Longrightarrow> R s u"
begin

lemma moves_ret: "moves R (ret a)"
  and moves_lift: "moves R (lift r)"
  and moves_gets: "moves R (gets f)"
  by (simp_all add: moves_def act_defs stay)

lemma moves_modify: "(\<And>s. R s (f s)) \<Longrightarrow> moves R (modify f)"
  by (simp add: moves_def modify_def)

lemma moves_abind: "moves R m \<Longrightarrow> (\<And>a. moves R (f a)) \<Longrightarrow> moves R (abind m f)"
  unfolding moves_def abind_def by (auto split: prod.split sum.split) (metis follow snd_conv)+

lemma moves_catching: "moves R m \<Longrightarrow> (\<And>e. moves R (h e)) \<Longrightarrow> moves R (catching m h)"
  unfolding moves_def catching_def by (auto split: prod.split sum.split) (metis follow snd_conv)+

lemma moves_if: "(b \<Longrightarrow> moves R m) \<Longrightarrow> (\<not> b \<Longrightarrow> moves R n) \<Longrightarrow> moves R (if b then m else n)"
  by simp

lemma moves_option: "moves R m \<Longrightarrow> (\<And>a. moves R (f a)) \<Longrightarrow> moves R (case x of None \<Rightarrow> m | Some a \<Rightarrow> f a)"
  by (cases x) simp_all

lemma moves_prod: "(\<And>a b. moves R (f a b)) \<Longrightarrow> moves R (case x of (a, b) \<Rightarrow> f a b)"
  by (cases x) simp

lemma moves_let: "(\<And>a. moves R (f a)) \<Longrightarrow> moves R (let a = x in f a)"
  by simp

lemmas moves_rules = moves_ret moves_lift moves_gets moves_abind moves_catching moves_if moves_option
  moves_prod moves_let

end

lemma abind_Inr_iff: "abind m f s = (Inr b, t) \<longleftrightarrow> (\<exists>a u. m s = (Inr a, u) \<and> f a u = (Inr b, t))"
  by (auto simp: abind_def split: prod.splits sum.splits)

end
