(* ===== verification/Rounds.thy ===== *)
theory Rounds
  imports Py_Values
begin

text \<open>
  The result contract of an eval round (\<open>src/mantis/eval/errors.py\<close>, the result half of
  \<open>src/mantis/eval/rounds.py\<close>) and its one promotion decision
  (\<open>src/mantis/eval/promote.py\<close>).  A round result is the insertion-ordered mapping the code
  builds; an \<open>EvalBrokenReason\<close> is a \<open>StrEnum\<close> member, so in the mapping it is its
  wire string.
\<close>

section \<open>Why a round broke\<close>

datatype broken_reason =
    JOIN_TIMEOUT | ROUND_TIMEOUT | KILLED | EXIT_NONZERO | RESULT_MISSING | RESULT_INVALID
  | ROUND_COMPLETION_ERROR | ABANDONED

fun wire :: "broken_reason \<Rightarrow> string" where
  "wire JOIN_TIMEOUT = ''join_timeout''"
| "wire ROUND_TIMEOUT = ''round_timeout''"
| "wire KILLED = ''killed''"
| "wire EXIT_NONZERO = ''exit_nonzero''"
| "wire RESULT_MISSING = ''result_missing''"
| "wire RESULT_INVALID = ''result_invalid''"
| "wire ROUND_COMPLETION_ERROR = ''round_completion_error''"
| "wire ABANDONED = ''abandoned''"

definition reasons :: "broken_reason list" where
  "reasons = [JOIN_TIMEOUT, ROUND_TIMEOUT, KILLED, EXIT_NONZERO, RESULT_MISSING, RESULT_INVALID,
     ROUND_COMPLETION_ERROR, ABANDONED]"

text \<open>\<open>EvalBrokenReason(raw)\<close>.\<close>

definition parse_reason :: "string \<Rightarrow> broken_reason res" where
  "parse_reason raw = (case find (\<lambda>r. wire r = raw) reasons of None \<Rightarrow> Inl ValueError | Some r \<Rightarrow> Inr r)"

definition reason_value :: "broken_reason option \<Rightarrow> json" where
  "reason_value r = (case r of None \<Rightarrow> JNull | Some x \<Rightarrow> JStr (wire x))"

lemma reason_value_JNull [simp]: "reason_value r = JNull \<longleftrightarrow> r = None"
  by (simp add: reason_value_def split: option.split)

section \<open>The gate's partial sidecar\<close>

definition GATE_STREAM_FIELDS :: "string list" where
  "GATE_STREAM_FIELDS = [''rule'', ''pairs_played'', ''stopped'', ''llr'', ''wr_confirm'', ''n_pooled'', ''promoted'', ''wall_sec'']"

fun gate_stream_fields :: "json \<Rightarrow> json res" where
  "gate_stream_fields JNull = Inr JNull"
| "gate_stream_fields gate = rbind (rmap (\<lambda>name. rbind (py_get gate name JNull) (\<lambda>v. Inr (name, v))) GATE_STREAM_FIELDS)
     (\<lambda>d. Inr (JObj d))"

definition write_partial_gate :: "int \<Rightarrow> (string, json) dict \<Rightarrow> json" where
  "write_partial_gate step gate_result = JObj [(''step'', JInt step), (''phase'', JStr ''gate''), (''gate'', JObj gate_result)]"

definition read_partial_gate :: "file_read \<Rightarrow> int \<Rightarrow> (string, json) dict option" where
  "read_partial_gate f step = (case f of
      Decoded (JObj raw) \<Rightarrow>
        (if \<not> equals_int (dget raw ''step'' JNull) step then None
         else (case dget raw ''gate'' JNull of
                 JObj gate \<Rightarrow> if map_of gate ''promoted'' = None then None else Some gate
               | _ \<Rightarrow> None))
    | _ \<Rightarrow> None)"

section \<open>The worker's result and the round's result\<close>

definition REQUIRED_RESULT_KEYS :: "string list" where
  "REQUIRED_RESULT_KEYS = [''step'', ''gate'', ''rungs'', ''skipped_rungs'', ''random'', ''worker_pid'']"

fun validate_worker_result :: "json \<Rightarrow> (string, json) dict res" where
  "validate_worker_result (JObj raw) =
     (if \<forall>key \<in> set REQUIRED_RESULT_KEYS. map_of raw key \<noteq> None then Inr raw else Inl ResultContractError)"
| "validate_worker_result _ = Inl ResultContractError"

definition setdefault :: "string \<Rightarrow> json \<Rightarrow> (string, json) dict \<Rightarrow> (string, json) dict" where
  "setdefault k v d = (if map_of d k = None then d @ [(k, v)] else d)"

text \<open>A gate result is \<open>None\<close>, a mapping, a dataclass instance (its fields) or something else.\<close>

datatype gate_arg = GateNone | GateMapping "(string, json) dict" | GateDataclass "(string, json) dict" | GateOther

fun gate_result_to_mapping :: "gate_arg \<Rightarrow> json res" where
  "gate_result_to_mapping GateNone = Inr JNull"
| "gate_result_to_mapping GateOther = Inl TypeError"
| "gate_result_to_mapping (GateMapping d) =
     Inr (JObj (setdefault ''deploy_matched'' (JBool True) (setdefault ''reason'' (JStr []) d)))"
| "gate_result_to_mapping (GateDataclass d) =
     Inr (JObj (setdefault ''deploy_matched'' (JBool True) (setdefault ''reason'' (JStr []) d)))"

fun gate_result_promoted :: "gate_arg \<Rightarrow> bool" where
  "gate_result_promoted GateNone = False"
| "gate_result_promoted GateOther = False"
| "gate_result_promoted (GateMapping d) = truthy (dget d ''promoted'' (JBool False))"
| "gate_result_promoted (GateDataclass d) = truthy (dget d ''promoted'' (JBool False))"

fun gate_of_json :: "json \<Rightarrow> gate_arg" where
  "gate_of_json JNull = GateNone"
| "gate_of_json (JObj d) = GateMapping d"
| "gate_of_json _ = GateOther"

record result_terms =
  rt_step :: int
  rt_round_id :: string
  rt_gate :: gate_arg
  rt_wall_sec :: real
  rt_reason :: "broken_reason option"
  rt_detail :: json
  rt_random_wr :: json
  rt_worker_pid :: json
  rt_candidate_path :: json
  rt_strength_floor :: json
  rt_partial :: bool

definition optional_key :: "string \<Rightarrow> json \<Rightarrow> (string, json) dict" where
  "optional_key k v = (if v = JNull then [] else [(k, v)])"

definition build_round_result :: "result_terms \<Rightarrow> (string, json) dict res" where
  "build_round_result t =
     (let promoted = (rt_reason t = None \<or> rt_partial t) \<and> gate_result_promoted (rt_gate t) in
      rbind (gate_result_to_mapping (rt_gate t)) (\<lambda>gate.
      rbind (if rt_strength_floor t = JNull then Inr JNull
             else rbind (py_dict (rt_strength_floor t)) (\<lambda>d. Inr (JObj d))) (\<lambda>floor.
        Inr ([(''step'', JInt (rt_step t)), (''round_id'', JStr (rt_round_id t)), (''promoted'', JBool promoted),
              (''promoted_step'', if promoted then JInt (rt_step t) else JNull),
              (''wr_random'', rt_random_wr t), (''eval_round_wall_sec'', JFloat (Fin (rt_wall_sec t))),
              (''eval_broken_reason'', reason_value (rt_reason t)), (''eval_broken_detail'', rt_detail t),
              (''gate_verdict_partial'', JBool (rt_partial t)), (''gate'', gate)]
             @ optional_key ''worker_pid'' (rt_worker_pid t)
             @ optional_key ''candidate_snapshot_path'' (rt_candidate_path t)
             @ optional_key ''strength_floor'' floor))))"

section \<open>The deploy tag\<close>

text \<open>
  The collaborators of \<open>DeployTagHooks\<close>: the snapshot loader (a state dictionary or an
  exception), the guarded load into the best-model slot (the slot after it, and whether it
  raised), and \<open>save_anchor\<close>, atomic on disk.
\<close>

record ('m, 'sd) deploy_hooks =
  dh_load_snapshot :: "json \<Rightarrow> 'sd res"
  dh_empty :: 'sd
  dh_guarded_load :: "'m \<Rightarrow> 'sd \<Rightarrow> 'm \<times> unit res"
  dh_save_anchor :: "'m \<Rightarrow> int \<Rightarrow> unit res"

record 'm deploy_tag =
  dt_best_model :: 'm
  dt_best_step :: "int option"
  dt_disk :: "('m \<times> int) option"

definition load_best :: "('m, 'sd) deploy_hooks \<Rightarrow> 'sd \<Rightarrow> ('m deploy_tag, unit) act" where
  "load_best h sd st = (case dh_guarded_load h (dt_best_model st) sd of (m, r) \<Rightarrow> (r, st\<lparr>dt_best_model := m\<rparr>))"

definition save_best :: "('m, 'sd) deploy_hooks \<Rightarrow> int \<Rightarrow> ('m deploy_tag, unit) act" where
  "save_best h step st = (case dh_save_anchor h (dt_best_model st) step of
      Inl e \<Rightarrow> (Inl e, st)
    | Inr _ \<Rightarrow> (Inr (), st\<lparr>dt_disk := Some (dt_best_model st, step)\<rparr>))"

definition apply_gate_decision ::
  "('m, 'sd) deploy_hooks \<Rightarrow> (string, json) dict \<Rightarrow> ('m deploy_tag, int option) act" where
  "apply_gate_decision h result =
     abind (lift (subscript result ''eval_broken_reason'')) (\<lambda>reason.
       if \<not> truthy (dget result ''promoted'' JNull) then ret None
       else if reason \<noteq> JNull \<and> \<not> truthy (dget result ''gate_verdict_partial'' JNull) then ret None
       else
         abind (lift (rbind (subscript result ''step'') py_int)) (\<lambda>step.
         let snapshot_path = dget result ''candidate_snapshot_path'' JNull in
         abind (lift (if truthy snapshot_path then dh_load_snapshot h snapshot_path else Inr (dh_empty h))) (\<lambda>sd.
         abind (load_best h sd) (\<lambda>_.
         abind (save_best h step) (\<lambda>_.
         abind (modify (\<lambda>st. st\<lparr>dt_best_step := Some step\<rparr>)) (\<lambda>_. ret (Some step)))))))"

section \<open>Library lemmas\<close>

lemma parse_wire [simp]: "parse_reason (wire r) = Inr r"
  by (cases r) (simp_all add: parse_reason_def reasons_def)

lemma wire_inj: "wire r = wire r' \<longleftrightarrow> r = r'"
  by (metis parse_wire sum.inject(2))

lemma parse_reason_iff: "parse_reason s = Inr r \<longleftrightarrow> s = wire r"
proof
  assume "parse_reason s = Inr r"
  then have "find (\<lambda>r. wire r = s) reasons = Some r"
    by (simp add: parse_reason_def split: option.splits)
  then show "s = wire r" by (auto simp: find_Some_iff)
qed simp

text \<open>The keys a consumer reads in a built result.\<close>

lemma build_round_result_form:
  assumes "build_round_result t = Inr result"
  shows "\<exists>promoted_step gate floor.
    result = [(''step'', JInt (rt_step t)), (''round_id'', JStr (rt_round_id t)),
      (''promoted'', JBool ((rt_reason t = None \<or> rt_partial t) \<and> gate_result_promoted (rt_gate t))),
      (''promoted_step'', promoted_step), (''wr_random'', rt_random_wr t),
      (''eval_round_wall_sec'', JFloat (Fin (rt_wall_sec t))),
      (''eval_broken_reason'', reason_value (rt_reason t)), (''eval_broken_detail'', rt_detail t),
      (''gate_verdict_partial'', JBool (rt_partial t)), (''gate'', gate)]
     @ optional_key ''worker_pid'' (rt_worker_pid t)
     @ optional_key ''candidate_snapshot_path'' (rt_candidate_path t)
     @ optional_key ''strength_floor'' floor \<and> (floor = JNull) = (rt_strength_floor t = JNull)"
proof -
  let ?floor = "if rt_strength_floor t = JNull then Inr JNull
     else rbind (py_dict (rt_strength_floor t)) (\<lambda>d. Inr (JObj d))"
  from assms obtain gate floor where "gate_result_to_mapping (rt_gate t) = Inr gate" and fl: "?floor = Inr floor"
    unfolding build_round_result_def Let_def rbind_Inr_iff by blast
  have "(floor = JNull) = (rt_strength_floor t = JNull)"
    using fl by (auto simp: rbind_Inr_iff split: if_splits)
  with assms fl \<open>gate_result_to_mapping (rt_gate t) = Inr gate\<close> show ?thesis
    unfolding build_round_result_def Let_def
    by (intro exI [of _ "if (rt_reason t = None \<or> rt_partial t) \<and> gate_result_promoted (rt_gate t)
          then JInt (rt_step t) else JNull"] exI [of _ gate] exI [of _ floor]) simp
qed

lemma build_round_result_keys:
  assumes "build_round_result t = Inr result"
  shows "map_of result ''eval_broken_reason'' = Some (reason_value (rt_reason t))"
    "map_of result ''promoted'' = Some (JBool ((rt_reason t = None \<or> rt_partial t) \<and> gate_result_promoted (rt_gate t)))"
    "map_of result ''gate_verdict_partial'' = Some (JBool (rt_partial t))"
    "map_of result ''step'' = Some (JInt (rt_step t))"
    "map_of result ''round_id'' = Some (JStr (rt_round_id t))"
    "dget result ''candidate_snapshot_path'' JNull = rt_candidate_path t"
    "(''strength_floor'' \<in> dkeys result) = (rt_strength_floor t \<noteq> JNull)"
proof -
  obtain ps g f where r: "result = [(''step'', JInt (rt_step t)), (''round_id'', JStr (rt_round_id t)),
      (''promoted'', JBool ((rt_reason t = None \<or> rt_partial t) \<and> gate_result_promoted (rt_gate t))),
      (''promoted_step'', ps), (''wr_random'', rt_random_wr t),
      (''eval_round_wall_sec'', JFloat (Fin (rt_wall_sec t))),
      (''eval_broken_reason'', reason_value (rt_reason t)), (''eval_broken_detail'', rt_detail t),
      (''gate_verdict_partial'', JBool (rt_partial t)), (''gate'', g)]
     @ optional_key ''worker_pid'' (rt_worker_pid t)
     @ optional_key ''candidate_snapshot_path'' (rt_candidate_path t)
     @ optional_key ''strength_floor'' f" and f: "(f = JNull) = (rt_strength_floor t = JNull)"
    using build_round_result_form [OF assms] by blast
  show "map_of result ''eval_broken_reason'' = Some (reason_value (rt_reason t))"
    "map_of result ''promoted'' = Some (JBool ((rt_reason t = None \<or> rt_partial t) \<and> gate_result_promoted (rt_gate t)))"
    "map_of result ''gate_verdict_partial'' = Some (JBool (rt_partial t))"
    "map_of result ''step'' = Some (JInt (rt_step t))"
    "map_of result ''round_id'' = Some (JStr (rt_round_id t))" by (simp_all add: r)
  show "dget result ''candidate_snapshot_path'' JNull = rt_candidate_path t"
    by (simp add: r dget_def optional_key_def)
  show "(''strength_floor'' \<in> dkeys result) = (rt_strength_floor t \<noteq> JNull)"
    using f by (simp add: r optional_key_def)
qed

text \<open>The decision's two halves: refused without touching the tag, or taken.\<close>

lemma apply_refused:
  assumes "map_of result ''eval_broken_reason'' = Some reason"
    and "\<not> (truthy (dget result ''promoted'' JNull) \<and> (reason = JNull \<or> truthy (dget result ''gate_verdict_partial'' JNull)))"
  shows "apply_gate_decision h result st = (Inr None, st)"
  using assms by (auto simp: apply_gate_decision_def subscript_def act_defs)

lemma apply_taken:
  assumes "apply_gate_decision h result st = (r, st')" "map_of result ''eval_broken_reason'' = Some reason"
    and "truthy (dget result ''promoted'' JNull)" "reason = JNull \<or> truthy (dget result ''gate_verdict_partial'' JNull)"
    and step: "map_of result ''step'' = Some (JInt step)"
  shows "case r of
      Inl _ \<Rightarrow> dt_best_step st' = dt_best_step st \<and> dt_disk st' = dt_disk st
    | Inr s \<Rightarrow> s = Some step \<and> dt_best_step st' = Some step \<and>
        (\<exists>sd. (if truthy (dget result ''candidate_snapshot_path'' JNull)
               then dh_load_snapshot h (dget result ''candidate_snapshot_path'' JNull) = Inr sd else sd = dh_empty h) \<and>
              dh_guarded_load h (dt_best_model st) sd = (dt_best_model st', Inr ())) \<and>
        dt_disk st' = Some (dt_best_model st', step)"
proof -
  let ?path = "dget result ''candidate_snapshot_path'' JNull"
  let ?sd = "if truthy ?path then dh_load_snapshot h ?path else Inr (dh_empty h)"
  have run: "apply_gate_decision h result st =
     abind (lift ?sd) (\<lambda>sd. abind (load_best h sd) (\<lambda>_. abind (save_best h step)
       (\<lambda>_. abind (modify (\<lambda>st. st\<lparr>dt_best_step := Some step\<rparr>)) (\<lambda>_. ret (Some step))))) st"
    using assms(2-5) by (cases "reason = JNull") (simp_all add: apply_gate_decision_def subscript_def abind_def lift_def)
  show ?thesis
  proof (cases ?sd)
    case (Inl e)
    then show ?thesis using run assms(1) by (simp add: abind_def lift_def)
  next
    case (Inr sd)
    obtain m res where g: "dh_guarded_load h (dt_best_model st) sd = (m, res)" by fastforce
    show ?thesis using run assms(1) Inr g
      by (cases res; cases "dh_save_anchor h m step")
        (auto simp: act_defs load_best_def save_best_def split: if_splits)
  qed
qed

section \<open>Properties\<close>

text \<open>C12: The deploy tag never moves off a broken round: deciding on a round's result advances the tag
  exactly when the child's gate promoted and the round is clean or its verdict was persisted before
  the break.  An advance puts the evaluated candidate into the best-model slot and on disk under the
  round's own step; an exception on the way leaves the recorded step and the anchor on disk alone.\<close>

theorem gate_decision_moves_tag:
  assumes "build_round_result t = Inr result" and "apply_gate_decision h result st = (r, st')"
  shows "if gate_result_promoted (rt_gate t) \<and> (rt_reason t = None \<or> rt_partial t)
     then (case r of
         Inl _ \<Rightarrow> dt_best_step st' = dt_best_step st \<and> dt_disk st' = dt_disk st
       | Inr s \<Rightarrow> s = Some (rt_step t) \<and> dt_best_step st' = Some (rt_step t) \<and>
           (\<exists>sd. (if truthy (rt_candidate_path t) then dh_load_snapshot h (rt_candidate_path t) = Inr sd
                  else sd = dh_empty h) \<and>
                 dh_guarded_load h (dt_best_model st) sd = (dt_best_model st', Inr ())) \<and>
           dt_disk st' = Some (dt_best_model st', rt_step t))
     else r = Inr None \<and> st' = st"
proof -
  note keys = build_round_result_keys [OF assms(1)]
  have d: "dget result ''promoted'' JNull = JBool ((rt_reason t = None \<or> rt_partial t) \<and> gate_result_promoted (rt_gate t))"
    "dget result ''gate_verdict_partial'' JNull = JBool (rt_partial t)"
    using keys(2,3) by (simp_all add: dget_def)
  show ?thesis
  proof (cases "gate_result_promoted (rt_gate t) \<and> (rt_reason t = None \<or> rt_partial t)")
    case True
    with d have "truthy (dget result ''promoted'' JNull)"
      "reason_value (rt_reason t) = JNull \<or> truthy (dget result ''gate_verdict_partial'' JNull)" by auto
    from apply_taken [OF assms(2) keys(1) this keys(4), unfolded keys(6)] True show ?thesis by presburger
  next
    case False
    then have "apply_gate_decision h result st = (Inr None, st)"
      using d by (intro apply_refused [OF keys(1)]) auto
    then have "r = Inr None \<and> st' = st" using assms(2) by simp
    with False show ?thesis by (simp only: if_False)
  qed
qed

definition clean_round :: result_terms where
  "clean_round = \<lparr>rt_step = 500, rt_round_id = ''r000001_500'', rt_gate = GateMapping [(''promoted'', JBool True)],
     rt_wall_sec = 12, rt_reason = None, rt_detail = JNull, rt_random_wr = JNull, rt_worker_pid = JInt 7,
     rt_candidate_path = JStr ''c.pt'', rt_strength_floor = JNull, rt_partial = False\<rparr>"

definition demo_hooks :: "(string, string) deploy_hooks" where
  "demo_hooks = \<lparr>dh_load_snapshot = (\<lambda>p. Inr ''weights''), dh_empty = [], dh_guarded_load = (\<lambda>m sd. (sd, Inr ())),
     dh_save_anchor = (\<lambda>m s. Inr ())\<rparr>"

theorem gate_decision_moves_tag_witness:
  "\<exists>result st'. build_round_result clean_round = Inr result \<and>
     apply_gate_decision demo_hooks result \<lparr>dt_best_model = ''old'', dt_best_step = None, dt_disk = None\<rparr> =
       (Inr (Some 500), st') \<and> dt_disk st' = Some (''weights'', 500)"
proof -
  obtain result where b: "build_round_result clean_round = Inr result"
    by (simp add: build_round_result_def clean_round_def Let_def)
  let ?st = "\<lparr>dt_best_model = ''old'', dt_best_step = None, dt_disk = None\<rparr>"
  have a: "apply_gate_decision demo_hooks result ?st =
      (Inr (Some 500), \<lparr>dt_best_model = ''weights'', dt_best_step = Some 500, dt_disk = Some (''weights'', 500)\<rparr>)"
    using b by (auto simp: build_round_result_def clean_round_def optional_key_def Let_def apply_gate_decision_def
        subscript_def dget_def act_defs demo_hooks_def load_best_def save_best_def)
  from gate_decision_moves_tag [OF b a] a b show ?thesis by (auto simp: clean_round_def demo_hooks_def)
qed

text \<open>Whatever mapping reaches the decision: without its \<open>eval_broken_reason\<close> key it is refused
  with a \<open>KeyError\<close> and the tag untouched, and the tag moves only on a mapping that says
  \<open>promoted\<close> and is clean or carries a partial verdict.\<close>

theorem gate_decision_reads_reason_first:
  "case apply_gate_decision h result st of (r, st') \<Rightarrow>
     (case map_of result ''eval_broken_reason'' of
        None \<Rightarrow> r = Inl KeyError \<and> st' = st
      | Some reason \<Rightarrow>
          (truthy (dget result ''promoted'' JNull) \<and> (reason = JNull \<or> truthy (dget result ''gate_verdict_partial'' JNull)))
          \<or> (r = Inr None \<and> st' = st))"
proof (cases "map_of result ''eval_broken_reason''")
  case None
  then show ?thesis by (simp add: apply_gate_decision_def subscript_def act_defs del: map_of_None_dkeys)
next
  case (Some reason)
  show ?thesis
  proof (cases "truthy (dget result ''promoted'' JNull) \<and>
      (reason = JNull \<or> truthy (dget result ''gate_verdict_partial'' JNull))")
    case True
    then show ?thesis using Some by (auto split: prod.split)
  next
    case False
    then show ?thesis using apply_refused [OF Some False, of h st] Some by simp
  qed
qed

text \<open>The partial sidecar gives back the verdict it was written with, to the step it was written
  for and to no other; an unreadable, foreign or verdict-less file is no verdict.\<close>

theorem partial_gate_roundtrip:
  "read_partial_gate (Decoded (write_partial_gate step gate)) step' =
     (if step' = step \<and> ''promoted'' \<in> dkeys gate then Some gate else None) \<and>
   read_partial_gate Unreadable step' = None \<and> read_partial_gate Undecodable step' = None"
  by (auto simp: read_partial_gate_def write_partial_gate_def dget_def)

end
