(* ===== verification/Round_Spec.thy ===== *)
theory Round_Spec
  imports Prelude
begin

text \<open>
  The round specification of \<open>src/mantis/eval/rounds.py\<close>: what crosses the process seam
  between the trainer and its eval child.  A frozen dataclass instance is a Python value
  \<open>PObj\<close> with its class name and its fields in declaration order; \<open>asdict\<close>,
  \<open>cls(**payload)\<close> and the JSON codec are written over those values, so what a field holds
  on the far side (a typed instance or a raw mapping) is visible in the model, as it is in the
  code, which checks no types.
\<close>

section \<open>Python values and dataclasses\<close>

datatype pyval =
    PNull | PBool bool | PInt int | PFloat pyfloat | PStr string | PList "pyval list"
  | PDict "(string \<times> pyval) list"
  | PObj string "(string \<times> pyval) list"

record dclass =
  dc_name :: string
  dc_fields :: "(string \<times> pyval option) list"

text \<open>\<open>dataclasses.asdict\<close>.\<close>

primrec asdict :: "pyval \<Rightarrow> pyval" where
  "asdict PNull = PNull"
| "asdict (PBool b) = PBool b"
| "asdict (PInt i) = PInt i"
| "asdict (PFloat x) = PFloat x"
| "asdict (PStr s) = PStr s"
| "asdict (PList vs) = PList (map asdict vs)"
| "asdict (PDict d) = PDict (map (map_prod id asdict) d)"
| "asdict (PObj c fs) = PDict (map (map_prod id asdict) fs)"

text \<open>\<open>cls(**kwargs)\<close>: an unknown name or a missing field without a default is a \<open>TypeError\<close>.\<close>

fun field_value :: "(string \<times> pyval) list \<Rightarrow> string \<times> pyval option \<Rightarrow> (string \<times> pyval) res" where
  "field_value kwargs (f, dflt) = (case (map_of kwargs f, dflt) of
      (Some v, _) \<Rightarrow> Inr (f, v)
    | (None, Some v) \<Rightarrow> Inr (f, v)
    | (None, None) \<Rightarrow> Inl TypeError)"

definition construct :: "dclass \<Rightarrow> (string \<times> pyval) list \<Rightarrow> pyval res" where
  "construct cls kwargs =
     (if \<exists>k \<in> set (map fst kwargs). k \<notin> set (map fst (dc_fields cls)) then Inl TypeError
      else rbind (rmap (field_value kwargs) (dc_fields cls)) (\<lambda>fs. Inr (PObj (dc_name cls) fs)))"

definition spread :: "dclass \<Rightarrow> pyval \<Rightarrow> pyval res" where
  "spread cls payload = (case payload of PDict d \<Rightarrow> construct cls d | _ \<Rightarrow> Inl TypeError)"

definition is_instance :: "dclass \<Rightarrow> pyval \<Rightarrow> bool" where
  "is_instance cls v = (case v of PObj c fs \<Rightarrow> c = dc_name cls | _ \<Rightarrow> False)"

text \<open>\<open>json.dumps\<close> refuses an instance; \<open>json.loads\<close> gives plain values back.\<close>

fun to_json :: "pyval \<Rightarrow> json res" and to_json_list :: "pyval list \<Rightarrow> json list res"
  and to_json_dict :: "(string \<times> pyval) list \<Rightarrow> (string \<times> json) list res" where
  "to_json PNull = Inr JNull"
| "to_json (PBool b) = Inr (JBool b)"
| "to_json (PInt i) = Inr (JInt i)"
| "to_json (PFloat x) = Inr (JFloat x)"
| "to_json (PStr s) = Inr (JStr s)"
| "to_json (PList vs) = rbind (to_json_list vs) (\<lambda>js. Inr (JList js))"
| "to_json (PDict d) = rbind (to_json_dict d) (\<lambda>js. Inr (JObj js))"
| "to_json (PObj c fs) = Inl TypeError"
| "to_json_list [] = Inr []"
| "to_json_list (v # vs) = rbind (to_json v) (\<lambda>j. rbind (to_json_list vs) (\<lambda>js. Inr (j # js)))"
| "to_json_dict [] = Inr []"
| "to_json_dict ((k, v) # d) = rbind (to_json v) (\<lambda>j. rbind (to_json_dict d) (\<lambda>js. Inr ((k, j) # js)))"

primrec of_json :: "json \<Rightarrow> pyval" where
  "of_json JNull = PNull"
| "of_json (JBool b) = PBool b"
| "of_json (JInt i) = PInt i"
| "of_json (JFloat x) = PFloat x"
| "of_json (JStr s) = PStr s"
| "of_json (JList js) = PList (map of_json js)"
| "of_json (JObj js) = PDict (map (map_prod id of_json) js)"

section \<open>The classes\<close>

definition required :: "string list \<Rightarrow> (string \<times> pyval option) list" where
  "required fs = map (\<lambda>f. (f, None)) fs"

definition GameRecordTarget :: dclass where
  "GameRecordTarget = \<lparr>dc_name = ''GameRecordTarget'', dc_fields = required [''record_dir'', ''run_id'']\<rparr>"

definition PlyCapAdjudicationSpec :: dclass where
  "PlyCapAdjudicationSpec = \<lparr>dc_name = ''PlyCapAdjudicationSpec'', dc_fields = required [''criterion'', ''min_margin'']\<rparr>"

definition StrengthFloorSpec :: dclass where
  "StrengthFloorSpec = \<lparr>dc_name = ''StrengthFloorSpec'',
     dc_fields = required [''probe_games'', ''min_decisive_rate'', ''min_winrate'']\<rparr>"

definition FusedGraphCapsSpec :: dclass where
  "FusedGraphCapsSpec = \<lparr>dc_name = ''FusedGraphCapsSpec'', dc_fields = required [''max_fused_edges'', ''max_fused_nodes'']\<rparr>"

definition InferenceBatchingSpec :: dclass where
  "InferenceBatchingSpec = \<lparr>dc_name = ''InferenceBatchingSpec'',
     dc_fields = required [''inference_batch_size'', ''inference_max_wait_ms'']\<rparr>"

definition PuctConstants :: dclass where
  "PuctConstants = \<lparr>dc_name = ''PuctConstants'',
     dc_fields = required [''c_puct'', ''fpu_reduction'', ''quiescence_enabled'', ''quiescence_blend_2'']\<rparr>"

definition RungJob :: dclass where
  "RungJob = \<lparr>dc_name = ''RungJob'', dc_fields = required [''name'', ''bot'', ''variant'', ''opponent_sims'',
     ''opening_book'', ''deploy_matched'', ''games'', ''bootstrap_resamples'', ''bootstrap_ci_level'', ''bootstrap_seed'']\<rparr>"

definition GateSpec :: dclass where
  "GateSpec = \<lparr>dc_name = ''GateSpec'', dc_fields = required [''stride'', ''deploy_sims'', ''opening_book'',
     ''bootstrap_resamples'', ''min_distinct_per_pair'', ''seed_base'', ''run_gate'', ''sequential'']\<rparr>"

definition round_fields :: "string list" where
  "round_fields = [''round_id'', ''round_index'', ''step'', ''candidate_snapshot'', ''best_snapshot'', ''best_step'',
     ''encoding'', ''worker_device'', ''gate'', ''rung_jobs'', ''random_floor_games'', ''random_model_sims'',
     ''seed_base'', ''round_timeout_sec'', ''result_path'', ''progress_path'', ''game_record'',
     ''ply_cap_adjudication'', ''strength_floor'', ''fused_graph_caps'', ''leaf_build_threads'',
     ''bucket_floor_nodes'', ''leaf_batch_size'', ''max_plies'', ''c_visit'', ''c_scale'', ''q_rescale'',
     ''search_kind'', ''gumbel_m'', ''tactics'', ''puct'', ''inference_batching'', ''concurrency'', ''rung_concurrency'']"

definition RoundSpec :: dclass where
  "RoundSpec = \<lparr>dc_name = ''RoundSpec'',
     dc_fields = required round_fields @ [(''allocator_posture'', Some PNull), (''rung_model_sims'', Some PNull)]\<rparr>"

definition REHYDRATED_SPEC_FIELDS :: "(string \<times> dclass) list" where
  "REHYDRATED_SPEC_FIELDS =
     [(''ply_cap_adjudication'', PlyCapAdjudicationSpec), (''strength_floor'', StrengthFloorSpec),
      (''fused_graph_caps'', FusedGraphCapsSpec), (''inference_batching'', InferenceBatchingSpec),
      (''game_record'', GameRecordTarget), (''puct'', PuctConstants)]"

section \<open>Across the seam\<close>

text \<open>Iterating a value: a list's elements, a string's characters, a mapping's keys.\<close>

definition rehydrate :: "dclass \<Rightarrow> pyval \<Rightarrow> pyval res" where
  "rehydrate cls payload =
     (if payload = PNull \<or> is_instance cls payload then Inr payload else spread cls payload)"

definition item :: "(string \<times> pyval) list \<Rightarrow> string \<Rightarrow> pyval res" where
  "item d k = (case map_of d k of None \<Rightarrow> Inl KeyError | Some v \<Rightarrow> Inr v)"

definition elements :: "pyval \<Rightarrow> pyval list res" where
  "elements v = (case v of PList vs \<Rightarrow> Inr vs | PStr s \<Rightarrow> Inr (map (\<lambda>c. PStr [c]) s)
     | PDict d \<Rightarrow> Inr (map (PStr \<circ> fst) d) | _ \<Rightarrow> Inl TypeError)"

lemma elements_PList [simp]: "elements (PList vs) = Inr vs"
  by (simp add: elements_def)

fun rehydrate_fields :: "(string \<times> dclass) list \<Rightarrow> (string \<times> pyval) list \<Rightarrow> (string \<times> pyval) list res" where
  "rehydrate_fields [] d = Inr d"
| "rehydrate_fields ((f, cls) # rest) d =
     rbind (item d f) (\<lambda>v. rbind (rehydrate cls v) (\<lambda>v'. rehydrate_fields rest (AList.update f v' d)))"

definition from_dict :: "(string \<times> pyval) list \<Rightarrow> pyval res" where
  "from_dict payload =
     rbind (item payload ''gate'') (\<lambda>g. rbind (spread GateSpec g) (\<lambda>gate.
     rbind (item payload ''rung_jobs'') (\<lambda>js.
     rbind (elements js) (\<lambda>raw_jobs. rbind (rmap (spread RungJob) raw_jobs) (\<lambda>jobs.
     rbind (rehydrate_fields REHYDRATED_SPEC_FIELDS
              (AList.update ''rung_jobs'' (PList jobs) (AList.update ''gate'' gate payload))) (construct RoundSpec))))))"

text \<open>What the parent writes and the child reads: \<open>json.dumps(spec.to_dict())\<close> and back.\<close>

definition seam :: "pyval \<Rightarrow> pyval res" where
  "seam spec = rbind (to_json (asdict spec)) (\<lambda>j. case of_json j of PDict d \<Rightarrow> from_dict d | _ \<Rightarrow> Inl TypeError)"

section \<open>Library lemmas\<close>

primrec plain :: "pyval \<Rightarrow> bool" where
  "plain PNull = True"
| "plain (PBool b) = True"
| "plain (PInt i) = True"
| "plain (PFloat x) = True"
| "plain (PStr s) = True"
| "plain (PList vs) = list_all id (map plain vs)"
| "plain (PDict d) = list_all (\<lambda>p. snd p) (map (map_prod id plain) d)"
| "plain (PObj c fs) = False"

lemma plain_asdict [simp]: "plain (asdict v)"
  by (induction v) (auto simp: list_all_iff)

lemma asdict_plain [simp]: "plain v \<Longrightarrow> asdict v = v"
proof (induction v)
  case (PList vs) then show ?case by (auto simp: list_all_iff intro: map_idI)
next
  case (PDict d) then show ?case by (fastforce simp: list_all_iff intro!: map_idI)
qed auto

lemma json_plain:
  "plain v \<Longrightarrow> \<exists>j. to_json v = Inr j \<and> of_json j = v"
  "list_all plain vs \<Longrightarrow> \<exists>js. to_json_list vs = Inr js \<and> map of_json js = vs"
  "list_all (\<lambda>p. plain (snd p)) d \<Longrightarrow> \<exists>js. to_json_dict d = Inr js \<and> map (map_prod id of_json) js = d"
  by (induction v and vs and d rule: to_json_to_json_list_to_json_dict.induct)
    (fastforce simp: list_all_iff)+

lemma seam_is_from_dict:
  "seam (PObj c fs) = from_dict (map (map_prod id asdict) fs)"
proof -
  obtain j where j: "to_json (asdict (PObj c fs)) = Inr j" "of_json j = asdict (PObj c fs)"
    using json_plain(1) [OF plain_asdict] by blast
  then show ?thesis by (simp add: seam_def)
qed

lemma map_of_asdict: "map_of (map (map_prod id asdict) fs) f = map_option asdict (map_of fs f)"
  by (induction fs) auto

lemma construct_fields:
  assumes "\<And>f dflt. (f, dflt) \<in> set (dc_fields cls) \<Longrightarrow> map_of kwargs f = Some (h f)"
    and "dkeys kwargs \<subseteq> fst ` set (dc_fields cls)"
  shows "construct cls kwargs = Inr (PObj (dc_name cls) (map (\<lambda>p. (fst p, h (fst p))) (dc_fields cls)))"
proof -
  have "rmap (field_value kwargs) (dc_fields cls) = Inr (map (\<lambda>p. (fst p, h (fst p))) (dc_fields cls))"
    by (rule rmap_total) (auto simp: assms(1))
  moreover have "\<not> (\<exists>k \<in> set (map fst kwargs). k \<notin> set (map fst (dc_fields cls)))"
    using assms(2) by (auto simp: dkeys_def)
  ultimately show ?thesis by (simp add: construct_def)
qed

definition instance_ok :: "dclass \<Rightarrow> pyval \<Rightarrow> bool" where
  "instance_ok cls v \<longleftrightarrow> (\<exists>fs. v = PObj (dc_name cls) fs \<and> map fst fs = map fst (dc_fields cls) \<and>
     (\<forall>p \<in> set fs. plain (snd p)))"

lemma dict_ext:
  assumes "distinct (map fst fs)" "map fst fs = map fst gs" "\<And>f. f \<in> fst ` set fs \<Longrightarrow> map_of fs f = Some (h f)"
  shows "map (\<lambda>p. (fst p, h (fst p))) gs = fs"
proof -
  have "map (\<lambda>p. (fst p, h (fst p))) gs = map (\<lambda>f. (f, h f)) (map fst fs)"
    by (simp add: assms(2))
  also have "\<dots> = map (\<lambda>p. (fst p, h (fst p))) fs" by simp
  also have "\<dots> = fs"
  proof (rule map_idI)
    fix p assume p: "p \<in> set fs"
    then have "map_of fs (fst p) = Some (snd p)" using assms(1) by (intro map_of_is_SomeI) simp_all
    moreover have "map_of fs (fst p) = Some (h (fst p))" using p assms(3) by simp
    ultimately show "(fst p, h (fst p)) = p" by (cases p) simp
  qed
  finally show ?thesis .
qed

lemma construct_same:
  assumes "distinct (map fst (dc_fields cls))" "map fst fs = map fst (dc_fields cls)"
    and kw: "\<And>f. f \<in> fst ` set fs \<Longrightarrow> map_of kwargs f = map_of fs f" "dkeys kwargs \<subseteq> fst ` set fs"
  shows "construct cls kwargs = Inr (PObj (dc_name cls) fs)"
proof -
  have ks: "fst ` set fs = fst ` set (dc_fields cls)" using assms(2) by (metis list.set_map)
  let ?h = "\<lambda>f. the (map_of fs f)"
  have m: "map_of fs f = Some (?h f)" if "f \<in> fst ` set fs" for f
    using that by (metis domI dom_map_of_conv_image_fst option.exhaust_sel domIff)
  have "construct cls kwargs = Inr (PObj (dc_name cls) (map (\<lambda>p. (fst p, ?h (fst p))) (dc_fields cls)))"
    using m kw ks by (intro construct_fields) force+
  also have "map (\<lambda>p. (fst p, ?h (fst p))) (dc_fields cls) = fs"
    using m assms(1,2) by (intro dict_ext) auto
  finally show ?thesis .
qed

lemma spread_asdict:
  assumes "instance_ok cls v" "distinct (map fst (dc_fields cls))"
  shows "spread cls (asdict v) = Inr v"
proof -
  from assms(1) obtain fs where v: "v = PObj (dc_name cls) fs" "map fst fs = map fst (dc_fields cls)"
    and pl: "\<forall>p \<in> set fs. plain (snd p)" by (auto simp: instance_ok_def)
  have "map (map_prod id asdict) fs = fs" using pl by (intro map_idI) (auto simp: map_prod_def split: prod.split)
  with v assms(2) show ?thesis by (simp add: spread_def construct_same dkeys_def)
qed

lemma construct_typed:
  assumes "construct cls kwargs = Inr v"
  shows "\<exists>fs. v = PObj (dc_name cls) fs \<and> map fst fs = map fst (dc_fields cls) \<and>
     (\<forall>f x. map_of kwargs f = Some x \<and> f \<in> fst ` set (dc_fields cls) \<longrightarrow> map_of fs f = Some x)"
proof -
  obtain fs where v: "v = PObj (dc_name cls) fs" and fs: "rmap (field_value kwargs) (dc_fields cls) = Inr fs"
    using assms by (auto simp: construct_def rbind_Inr_iff split: if_splits)
  have "map fst fs = map fst cs \<and> (\<forall>f x. map_of kwargs f = Some x \<and> f \<in> fst ` set cs \<longrightarrow> map_of fs f = Some x)"
    if "rmap (field_value kwargs) cs = Inr fs" for cs fs
    using that
  proof (induction cs arbitrary: fs)
    case (Cons c cs)
    then obtain y ys where y: "field_value kwargs c = Inr y" and ys: "rmap (field_value kwargs) cs = Inr ys" "fs = y # ys"
      by (auto simp: rbind_Inr_iff)
    from y have "fst y = fst c" "\<And>x. map_of kwargs (fst c) = Some x \<Longrightarrow> snd y = x"
      by (cases c; auto split: option.splits)+
    with Cons.IH [OF ys(1)] ys(2) show ?case by (cases y) auto
  qed simp
  with fs v show ?thesis by blast
qed

section \<open>A round's specification arrives as it was sent\<close>

definition typed_fields :: "(string \<times> dclass) list" where
  "typed_fields = (''gate'', GateSpec) # REHYDRATED_SPEC_FIELDS"

definition round_spec_ok :: "(string \<times> pyval) list \<Rightarrow> bool" where
  "round_spec_ok fs \<longleftrightarrow> map fst fs = map fst (dc_fields RoundSpec) \<and>
     (\<exists>g. map_of fs ''gate'' = Some g \<and> instance_ok GateSpec g) \<and>
     (\<exists>jobs. map_of fs ''rung_jobs'' = Some (PList jobs) \<and> (\<forall>job \<in> set jobs. instance_ok RungJob job)) \<and>
     (\<forall>(f, cls) \<in> set REHYDRATED_SPEC_FIELDS. \<exists>v. map_of fs f = Some v \<and> (v = PNull \<or> instance_ok cls v)) \<and>
     (\<forall>(f, v) \<in> set fs. f \<notin> fst ` set typed_fields \<and> f \<noteq> ''rung_jobs'' \<longrightarrow> plain v)"

lemma distinct_fields:
  "distinct (map fst (dc_fields RoundSpec))" "distinct (map fst (dc_fields GateSpec))"
  "distinct (map fst (dc_fields RungJob))"
  "(f, cls) \<in> set REHYDRATED_SPEC_FIELDS \<Longrightarrow> distinct (map fst (dc_fields cls))"
  by (auto simp: RoundSpec_def round_fields_def required_def GateSpec_def RungJob_def REHYDRATED_SPEC_FIELDS_def
      GameRecordTarget_def PlyCapAdjudicationSpec_def StrengthFloorSpec_def FusedGraphCapsSpec_def
      InferenceBatchingSpec_def PuctConstants_def)

lemma rehydrate_asdict:
  assumes "v = PNull \<or> instance_ok cls v" "distinct (map fst (dc_fields cls))"
  shows "rehydrate cls (asdict v) = Inr v"
proof (cases "v = PNull")
  case False
  then have v: "instance_ok cls v" using assms(1) by blast
  then obtain fs where "asdict v = PDict fs" by (auto simp: instance_ok_def)
  then have "asdict v \<noteq> PNull" "\<not> is_instance cls (asdict v)" by (simp_all add: is_instance_def)
  then show ?thesis using spread_asdict [OF v assms(2)] by (simp add: rehydrate_def)
qed (simp add: rehydrate_def)

text \<open>
  Rehydrating fields one after the other: from a dictionary that holds the flattened fields, the
  listed ones get their typed values back and nothing else moves.
\<close>

lemma rehydrate_fields_asdict:
  assumes "\<And>f cls. (f, cls) \<in> set rs \<Longrightarrow> \<exists>v. map_of fs f = Some v \<and> (v = PNull \<or> instance_ok cls v) \<and>
             map_of d f = Some (asdict v) \<and> distinct (map fst (dc_fields cls))"
    and "distinct (map fst rs)"
  shows "\<exists>d'. rehydrate_fields rs d = Inr d' \<and> dkeys d' = dkeys d \<and>
     (\<forall>f. map_of d' f = (if f \<in> fst ` set rs then map_of fs f else map_of d f))"
  using assms
proof (induction rs arbitrary: d)
  case (Cons r rs)
  obtain f cls where r: "r = (f, cls)" by (cases r)
  from Cons.prems(1) [of f cls] r obtain v where v: "map_of fs f = Some v" "v = PNull \<or> instance_ok cls v"
    "map_of d f = Some (asdict v)" "distinct (map fst (dc_fields cls))" by auto
  let ?d = "AList.update f v d"
  have "\<exists>d'. rehydrate_fields rs ?d = Inr d' \<and> dkeys d' = dkeys ?d \<and>
     (\<forall>g. map_of d' g = (if g \<in> fst ` set rs then map_of fs g else map_of ?d g))"
  proof (rule Cons.IH)
    fix g c assume gc: "(g, c) \<in> set rs"
    then have "g \<noteq> f" using Cons.prems(2) r by force
    then show "\<exists>v. map_of fs g = Some v \<and> (v = PNull \<or> instance_ok c v) \<and>
             map_of ?d g = Some (asdict v) \<and> distinct (map fst (dc_fields c))"
      using Cons.prems(1) [of g c] gc by (auto simp: update_conv')
  qed (use Cons.prems(2) in simp)
  moreover have "f \<in> dkeys d" using v(3) by (rule map_of_Some_dkeys)
  moreover have "rehydrate_fields (r # rs) d = rehydrate_fields rs ?d"
    using v rehydrate_asdict [OF v(2,4)] by (simp add: r item_def)
  ultimately show ?case using v(1) by (auto simp: r update_conv' insert_absorb)
qed auto

lemma rehydrated_names: "distinct (map fst REHYDRATED_SPEC_FIELDS)" "''gate'' \<notin> fst ` set REHYDRATED_SPEC_FIELDS"
  "''rung_jobs'' \<notin> fst ` set REHYDRATED_SPEC_FIELDS"
  by (simp_all add: REHYDRATED_SPEC_FIELDS_def)

text \<open>The seam loses nothing: the round specification the parent serialises is rebuilt by the child
  field for field, with the gate, every rung job and every armed posture typed again and every
  disarmed one still \<open>None\<close>.\<close>

theorem round_spec_roundtrip:
  assumes "round_spec_ok fs"
  shows "seam (PObj ''RoundSpec'' fs) = Inr (PObj ''RoundSpec'' fs)"
proof -
  let ?d = "map (map_prod id asdict) fs"
  note ok = assms [unfolded round_spec_ok_def]
  from ok obtain g jobs where g: "map_of fs ''gate'' = Some g" "instance_ok GateSpec g"
    and jobs: "map_of fs ''rung_jobs'' = Some (PList jobs)" "\<forall>job \<in> set jobs. instance_ok RungJob job" by blast
  have "rmap (spread RungJob) (map asdict jobs) = Inr jobs"
    using jobs(2) by (induction jobs) (auto simp: spread_asdict distinct_fields)
  note steps = this spread_asdict [OF g(2) distinct_fields(2)]
  let ?u = "AList.update ''rung_jobs'' (PList jobs) (AList.update ''gate'' g ?d)"
  have "\<exists>d'. rehydrate_fields REHYDRATED_SPEC_FIELDS ?u = Inr d' \<and> dkeys d' = dkeys ?u \<and>
     (\<forall>f. map_of d' f = (if f \<in> fst ` set REHYDRATED_SPEC_FIELDS then map_of fs f else map_of ?u f))"
  proof (rule rehydrate_fields_asdict)
    fix f cls assume fc: "(f, cls) \<in> set REHYDRATED_SPEC_FIELDS"
    then obtain v where "map_of fs f = Some v" "v = PNull \<or> instance_ok cls v" using ok by blast
    moreover have "f \<noteq> ''gate''" "f \<noteq> ''rung_jobs''" using fc rehydrated_names by force+
    ultimately show "\<exists>v. map_of fs f = Some v \<and> (v = PNull \<or> instance_ok cls v) \<and>
         map_of ?u f = Some (asdict v) \<and> distinct (map fst (dc_fields cls))"
      using distinct_fields(4) [OF fc] by (auto simp: update_conv' map_of_asdict)
  qed (rule rehydrated_names(1))
  then obtain d' where d': "rehydrate_fields REHYDRATED_SPEC_FIELDS ?u = Inr d'" "dkeys d' = dkeys ?u"
    and m: "\<And>f. map_of d' f = (if f \<in> fst ` set REHYDRATED_SPEC_FIELDS then map_of fs f else map_of ?u f)" by blast
  have same: "map_of d' f = map_of fs f" if "f \<in> fst ` set fs" for f
  proof -
    from that obtain v where v: "map_of fs f = Some v" by (metis domI dom_map_of_conv_image_fst option.exhaust domIff)
    have "plain v" if "f \<notin> fst ` set REHYDRATED_SPEC_FIELDS" "f \<noteq> ''gate''" "f \<noteq> ''rung_jobs''"
      using ok that map_of_SomeD [OF v] by (auto simp: typed_fields_def)
    then show ?thesis using v g(1) jobs(1) by (auto simp: m update_conv' map_of_asdict)
  qed
  have in_fs: "''gate'' \<in> dkeys fs" "''rung_jobs'' \<in> dkeys fs"
    using map_of_Some_dkeys [OF g(1)] map_of_Some_dkeys [OF jobs(1)] by auto
  have "dkeys ?d = dkeys fs" by (force simp: dkeys_def)
  then have "dkeys d' = dkeys fs" using d'(2) in_fs by (simp add: insert_absorb)
  then have "dkeys d' = fst ` set fs" by (simp add: dkeys_def)
  then have "construct RoundSpec d' = Inr (PObj ''RoundSpec'' fs)"
    using construct_same [OF distinct_fields(1), of fs d'] ok same by (simp add: RoundSpec_def)
  then show ?thesis using g(1) jobs(1) steps d'(1)
    by (simp add: seam_is_from_dict from_dict_def item_def map_of_asdict)
qed

definition sample_round :: "(string \<times> pyval) list" where
  "sample_round =
     map (\<lambda>f. (f,
        if f = ''gate'' then PObj ''GateSpec'' (map (\<lambda>(g, _). (g, PInt 4)) (dc_fields GateSpec))
        else if f = ''rung_jobs'' then PList [PObj ''RungJob'' (map (\<lambda>(g, _). (g, PStr ''strix'')) (dc_fields RungJob))]
        else if f = ''game_record'' then PObj ''GameRecordTarget'' [(''record_dir'', PStr ''games''), (''run_id'', PStr ''r1'')]
        else if f = ''strength_floor'' then PObj ''StrengthFloorSpec''
           [(''probe_games'', PInt 8), (''min_decisive_rate'', PFloat (Fin 0)), (''min_winrate'', PFloat (Fin 1))]
        else if f \<in> fst ` set REHYDRATED_SPEC_FIELDS then PNull
        else if f = ''tactics'' then PDict [(''depth'', PInt 3)] else PInt 1)) (map fst (dc_fields RoundSpec))"

lemma sample_round_ok: "round_spec_ok sample_round"
  by (simp add: round_spec_ok_def sample_round_def RoundSpec_def round_fields_def required_def typed_fields_def
      REHYDRATED_SPEC_FIELDS_def instance_ok_def GateSpec_def RungJob_def StrengthFloorSpec_def GameRecordTarget_def)

theorem round_spec_roundtrip_witness: "seam (PObj ''RoundSpec'' sample_round) = Inr (PObj ''RoundSpec'' sample_round)"
  by (rule round_spec_roundtrip [OF sample_round_ok])

lemma spread_inst: "spread cls x = Inr v \<Longrightarrow> is_instance cls v"
  using construct_typed [of cls _ v] by (auto simp: spread_def is_instance_def split: pyval.splits)

lemma rehydrate_inst: "rehydrate cls v = Inr v' \<Longrightarrow> v' = PNull \<or> is_instance cls v'"
  using spread_inst by (auto simp: rehydrate_def split: if_splits)

lemma rehydrate_fields_inst:
  assumes "rehydrate_fields rs d = Inr d'" "distinct (map fst rs)"
  shows "(\<forall>f. f \<notin> fst ` set rs \<longrightarrow> map_of d' f = map_of d f) \<and>
      list_all (\<lambda>(f, cls). \<exists>v. map_of d' f = Some v \<and> (v = PNull \<or> is_instance cls v)) rs"
  using assms
proof (induction rs arbitrary: d)
  case (Cons r rest)
  obtain f cls where r: "r = (f, cls)" by (cases r)
  with Cons.prems obtain w w' where w: "rehydrate cls w = Inr w'"
    "rehydrate_fields rest (AList.update f w' d) = Inr d'" by (auto simp: rbind_Inr_iff)
  note ih = Cons.IH [OF w(2)]
  have "map_of d' f = Some w'" using ih Cons.prems(2) r by (simp add: update_conv')
  with ih Cons.prems(2) rehydrate_inst [OF w(1)] show ?case by (auto simp: r update_conv')
qed simp



end
