(* ===== verification/Pipeline.thy ===== *)
theory Pipeline
  imports Rounds Round_Spec
begin

text \<open>
  \<open>src/mantis/eval/pipeline.py\<close>: kicking an eval round, finalising it once, and handing its
  result to the coordinator.  A round's in-flight record is an entry of \<open>pl_rounds\<close> (its place
  there is the identity of the dictionary), the child process and the files it leaves are an entry
  of \<open>pl_children\<close>, the sink's events are \<open>pl_events\<close>.  Snapshot writing, the spawn
  itself and the removal of left-over files are not modelled.
\<close>

section \<open>Bounded joins and the drain budget\<close>

definition JOIN_TIMEOUT_CEILING_SEC :: real where "JOIN_TIMEOUT_CEILING_SEC = 86400"
definition FINALIZE_WAIT_FLOOR_SEC :: real where "FINALIZE_WAIT_FLOOR_SEC = 5"

fun bounded_join_timeout :: "pyfloat \<Rightarrow> real" where
  "bounded_join_timeout (Fin t) = max 0 (min t JOIN_TIMEOUT_CEILING_SEC)"
| "bounded_join_timeout _ = JOIN_TIMEOUT_CEILING_SEC"

text \<open>The second finaliser's wait on the first.\<close>

definition finalize_wait_sec :: "pyfloat \<Rightarrow> real" where
  "finalize_wait_sec kill_grace = max (bounded_join_timeout kill_grace) FINALIZE_WAIT_FLOOR_SEC"

record drain_caps =
  dc_drain_timeout :: real
  dc_safety_factor :: real
  dc_hard_cap :: real
  dc_terminal_cap :: real

definition drain_budget_sec :: "drain_caps \<Rightarrow> real" where
  "drain_budget_sec caps = min (dc_drain_timeout caps * dc_safety_factor caps) (dc_hard_cap caps)"

datatype proc_call = Join real | Terminate | Kill

text \<open>The calls made on the process, and the reason; \<open>alive\<close> is its answer after the first join.\<close>

definition drain_or_kill :: "bool \<Rightarrow> pyfloat \<Rightarrow> pyfloat \<Rightarrow> proc_call list \<times> broken_reason option" where
  "drain_or_kill alive budget_sec grace =
     (if \<not> alive then ([Join (bounded_join_timeout budget_sec)], None)
      else ([Join (bounded_join_timeout budget_sec), Terminate, Join (bounded_join_timeout grace), Kill,
             Join (bounded_join_timeout grace)], Some JOIN_TIMEOUT))"

section \<open>State\<close>

text \<open>The child's last progress row: the last line that is a JSON mapping.\<close>

datatype progress_line = Blank | Garbage | Row json

fun last_row :: "progress_line list \<Rightarrow> json" where
  "last_row [] = JNull"
| "last_row (Row (JObj d) # lines) = JObj d"
| "last_row (_ # lines) = last_row lines"

definition read_progress :: "progress_line list option \<Rightarrow> json" where
  "read_progress f = (case f of None \<Rightarrow> JNull | Some lines \<Rightarrow> last_row (rev lines))"

record inflight =
  if_round_id :: string
  if_step :: int
  if_t0 :: real
  if_round_idx :: nat
  if_candidate_path :: string
  if_spec :: pyval
  if_finalized :: bool
  if_done :: bool
  if_result :: "(string, json) dict option"

record child =
  ch_alive :: bool
  ch_exitcode :: "int option"
  ch_result :: "file_read option"
  ch_partial :: file_read
  ch_progress :: "progress_line list option"

record pl =
  pl_counter :: nat
  pl_inflight :: "nat option"
  pl_rounds :: "inflight list"
  pl_children :: "child list"
  pl_mailbox :: "(string, json) dict list"
  pl_suppressed :: nat
  pl_floor_checked :: nat
  pl_floor_skipped :: nat
  pl_events :: "(string, json) dict list"

definition pl_init :: pl where
  "pl_init = \<lparr>pl_counter = 0, pl_inflight = None, pl_rounds = [], pl_children = [], pl_mailbox = [],
     pl_suppressed = 0, pl_floor_checked = 0, pl_floor_skipped = 0, pl_events = []\<rparr>"

definition emit :: "(string, json) dict \<Rightarrow> (pl, unit) act" where
  "emit payload = modify (\<lambda>st. st\<lparr>pl_events := pl_events st @ [payload]\<rparr>)"

definition emit_round_started :: "string \<Rightarrow> int \<Rightarrow> bool \<Rightarrow> real \<Rightarrow> (pl, unit) act" where
  "emit_round_started round_id step gate_scheduled ts =
     emit [(''event'', JStr ''eval_round_started''), (''round_id'', JStr round_id), (''step'', JInt step),
           (''gate_scheduled'', JBool gate_scheduled), (''ts'', JFloat (Fin ts))]"

definition emit_round_complete :: "inflight \<Rightarrow> real \<Rightarrow> json \<Rightarrow> json \<Rightarrow> json \<Rightarrow> json \<Rightarrow> (pl, unit) act" where
  "emit_round_complete fl wall_sec games_total promoted gate progress =
     abind (lift (gate_stream_fields gate)) (\<lambda>g.
       emit [(''event'', JStr ''eval_round_complete''), (''round_id'', JStr (if_round_id fl)), (''step'', JInt (if_step fl)),
             (''wall_sec'', JFloat (Fin wall_sec)), (''games_total'', games_total), (''promoted'', promoted),
             (''gate'', g), (''progress'', progress)])"

definition emit_round_skipped_busy :: "int \<Rightarrow> string \<Rightarrow> (pl, unit) act" where
  "emit_round_skipped_busy step in_flight =
     emit [(''event'', JStr ''eval_round_skipped_busy''), (''step'', JInt step), (''in_flight_round_id'', JStr in_flight)]"

definition named_event :: "string \<Rightarrow> inflight \<Rightarrow> (string, json) dict" where
  "named_event ev fl = [(''event'', JStr ev), (''round_id'', JStr (if_round_id fl)), (''step'', JInt (if_step fl))]"

definition emit_strength_floor :: "inflight \<Rightarrow> json \<Rightarrow> nat \<Rightarrow> nat \<Rightarrow> (pl, unit) act" where
  "emit_strength_floor fl verdict checked_total skipped_total =
     abind (lift (py_dict verdict)) (\<lambda>d.
       emit (merge (merge (named_event ''eval_strength_floor'' fl) d)
          [(''checked_total'', JInt (int checked_total)), (''skipped_total'', JInt (int skipped_total))]))"

definition emit_ply_cap_adjudication :: "inflight \<Rightarrow> json \<Rightarrow> (pl, unit) act" where
  "emit_ply_cap_adjudication fl adjudication =
     abind (lift (py_dict adjudication)) (\<lambda>d. emit (merge (named_event ''eval_ply_cap_adjudication'' fl) d))"

definition emit_device_memory :: "inflight \<Rightarrow> json \<Rightarrow> (pl, unit) act" where
  "emit_device_memory fl device_memory =
     abind (lift (py_dict device_memory)) (\<lambda>d.
       emit (named_event ''eval_round_device_memory'' fl @ [(''device_memory'', JObj d)]))"

section \<open>Kicking a round\<close>

text \<open>The evaluation section and the pipeline's own constants, as the spec's fields take them.\<close>

record pl_cfg =
  pc_gate_stride :: int
  pc_gate_fields :: "(string \<times> pyval) list"
  pc_fixed_fields :: "(string \<times> pyval) list"
  pc_round_timeout_sec :: real
  pc_kill_grace :: pyfloat
  pc_spool_dir :: string
  pc_work_dir :: string
  pc_caps :: drain_caps

definition pad6 :: "nat \<Rightarrow> string" where
  "pad6 n = replicate (6 - length (str_nat n)) (CHR ''0'') @ str_nat n"

definition round_id_of :: "nat \<Rightarrow> int \<Rightarrow> bool \<Rightarrow> string" where
  "round_id_of idx step terminal = ''r'' @ pad6 idx @ ''_'' @ str_int step @ (if terminal then ''_terminal'' else [])"

definition path_in :: "string \<Rightarrow> string \<Rightarrow> string \<Rightarrow> string" where
  "path_in dir round_id suffix = dir @ ''/'' @ round_id @ suffix"

text \<open>\<open>round_idx % stride == 0\<close>; a zero stride raises.\<close>

definition gate_scheduled :: "pl_cfg \<Rightarrow> bool \<Rightarrow> nat \<Rightarrow> bool \<Rightarrow> bool res" where
  "gate_scheduled cfg has_best round_idx terminal =
     (if \<not> has_best then Inr False
      else if pc_gate_stride cfg = 0 then Inl ZeroDivisionError
      else Inr (int round_idx mod pc_gate_stride cfg = 0 \<or> terminal))"

text \<open>
  \<open>_build_round_spec\<close>: the round's own fields beside the run's fixed ones (the deploy head's
  search terms, the postures, the batching geometry, each resolved once in the parent).
\<close>

definition build_round_spec ::
  "pl_cfg \<Rightarrow> int \<Rightarrow> bool \<Rightarrow> string \<Rightarrow> nat \<Rightarrow> bool \<Rightarrow> (pyval \<times> bool \<times> string) res" where
  "build_round_spec cfg step has_best round_id round_idx terminal =
     (let candidate = path_in (pc_spool_dir cfg) round_id ''_candidate.pt'';
          best = path_in (pc_spool_dir cfg) round_id ''_best.pt'' in
      rbind (gate_scheduled cfg has_best round_idx terminal) (\<lambda>run_gate.
      rbind (construct GateSpec (AList.update ''run_gate'' (PBool run_gate)
               (AList.update ''stride'' (PInt (pc_gate_stride cfg)) (pc_gate_fields cfg)))) (\<lambda>gate.
      rbind (construct RoundSpec
        ([(''round_id'', PStr round_id), (''round_index'', PInt (int round_idx)), (''step'', PInt step),
          (''candidate_snapshot'', PStr candidate), (''best_snapshot'', if has_best then PStr best else PNull),
          (''best_step'', PNull), (''gate'', gate), (''rung_jobs'', PList []),
          (''round_timeout_sec'', PFloat (Fin (pc_round_timeout_sec cfg))),
          (''result_path'', PStr (path_in (pc_work_dir cfg) round_id ''_result.json'')),
          (''progress_path'', PStr (path_in (pc_work_dir cfg) round_id ''_progress.txt'')),
          (''rung_concurrency'', PInt 1)] @ pc_fixed_fields cfg)) (\<lambda>spec.
        Inr (spec, run_gate, candidate)))))"

text \<open>The round counter is advanced and read, then the spec is built: an exception leaves the counter advanced.\<close>

definition next_round_idx :: "(pl, nat) act" where
  "next_round_idx st = (Inr (Suc (pl_counter st)), st\<lparr>pl_counter := Suc (pl_counter st)\<rparr>)"

definition new_inflight :: "string \<Rightarrow> int \<Rightarrow> nat \<Rightarrow> real \<Rightarrow> pyval \<Rightarrow> string \<Rightarrow> inflight" where
  "new_inflight round_id step idx now spec candidate =
     \<lparr>if_round_id = round_id, if_step = step, if_t0 = now, if_round_idx = idx, if_candidate_path = candidate,
      if_spec = spec, if_finalized = False, if_done = False, if_result = None\<rparr>"

definition new_child :: child where
  "new_child = \<lparr>ch_alive = True, ch_exitcode = None, ch_result = None, ch_partial = Unreadable, ch_progress = None\<rparr>"

text \<open>Spawning is refused off the main thread; the new round's place in \<open>pl_rounds\<close> is returned.\<close>

definition spawn_round :: "bool \<Rightarrow> inflight \<Rightarrow> (pl, nat) act" where
  "spawn_round main_thread fl st =
     (if \<not> main_thread then (Inl RuntimeError, st)
      else (Inr (length (pl_rounds st)), st\<lparr>pl_rounds := pl_rounds st @ [fl], pl_children := pl_children st @ [new_child]\<rparr>))"

datatype kick = Busy string | Kicked string

definition kick_round :: "pl_cfg \<Rightarrow> bool \<Rightarrow> int \<Rightarrow> bool \<Rightarrow> real \<Rightarrow> real \<Rightarrow> (pl, kick) act" where
  "kick_round cfg main_thread step has_best now ts =
     abind next_round_idx (\<lambda>idx. let round_id = round_id_of idx step False in
     abind (lift (build_round_spec cfg step has_best round_id idx False)) (\<lambda>(spec, gate_on, candidate).
     abind (spawn_round main_thread (new_inflight round_id step idx now spec candidate)) (\<lambda>i.
     abind (modify (\<lambda>st. st\<lparr>pl_inflight := Some i\<rparr>)) (\<lambda>_.
     abind (emit_round_started round_id step gate_on ts) (\<lambda>_. ret (Kicked round_id))))))"

definition run_evaluation :: "pl_cfg \<Rightarrow> bool \<Rightarrow> int \<Rightarrow> bool \<Rightarrow> real \<Rightarrow> real \<Rightarrow> (pl, kick) act" where
  "run_evaluation cfg main_thread step has_best now ts st =
     (case pl_inflight st of
        Some i \<Rightarrow> (let id = if_round_id (pl_rounds st ! i) in
          abind (emit_round_skipped_busy step id) (\<lambda>_. ret (Busy id)) st)
      | None \<Rightarrow> kick_round cfg main_thread step has_best now ts st)"

definition restore_round_state :: "int \<Rightarrow> (pl, unit) act" where
  "restore_round_state round_counter st =
     (if round_counter < 0 then (Inl ValueError, st)
      else if round_counter < int (pl_counter st) then (Inl ValueError, st)
      else (Inr (), st\<lparr>pl_counter := nat round_counter\<rparr>))"

section \<open>The mailbox\<close>

definition poll_completed :: "(pl, (string, json) dict option) act" where
  "poll_completed st = (case pl_mailbox st of
      [] \<Rightarrow> (Inr None, st)
    | r # rs \<Rightarrow> (Inr (Some r), st\<lparr>pl_mailbox := rs\<rparr>))"

datatype drained = NoResult | OneResult "(string, json) dict" | Batch "(string, json) dict list"

definition take_mailbox :: "(pl, drained) act" where
  "take_mailbox st = (Inr (case pl_mailbox st of [] \<Rightarrow> NoResult | [r] \<Rightarrow> OneResult r | rs \<Rightarrow> Batch rs),
     st\<lparr>pl_mailbox := []\<rparr>)"

section \<open>The result of a finished round\<close>

text \<open>
  \<open>show_exc\<close> stands for \<open>repr(exc)\<close>, whose text includes the exception's own message.
\<close>

fun exc_name :: "py_exc \<Rightarrow> string" where
  "exc_name ValueError = ''ValueError''"
| "exc_name TypeError = ''TypeError''"
| "exc_name KeyError = ''KeyError''"
| "exc_name IndexError = ''IndexError''"
| "exc_name AttributeError = ''AttributeError''"
| "exc_name RuntimeError = ''RuntimeError''"
| "exc_name OverflowError = ''OverflowError''"
| "exc_name OSError = ''OSError''"
| "exc_name FileNotFoundError = ''FileNotFoundError''"
| "exc_name SystemExit = ''SystemExit''"
| "exc_name ZeroDivisionError = ''ZeroDivisionError''"
| "exc_name IllegalOpeningError = ''IllegalOpeningError''"
| "exc_name BookError = ''BookError''"
| "exc_name MixedRegimeError = ''MixedRegimeError''"
| "exc_name PlyCapCriterionError = ''PlyCapCriterionError''"
| "exc_name ResultContractError = ''ResultContractError''"
| "exc_name RunIdError = ''RunIdError''"
| "exc_name BundleError = ''BundleError''"
| "exc_name GraphContractError = ''GraphContractError''"
| "exc_name ConfigError = ''ConfigError''"

definition broken_result ::
  "inflight \<Rightarrow> child \<Rightarrow> broken_reason \<Rightarrow> real \<Rightarrow> string \<Rightarrow> (string \<times> string) option \<Rightarrow> (pl, (string, json) dict) act" where
  "broken_result fl ch reason wall_sec phase failure =
     (let partial = read_partial_gate (ch_partial ch) (if_step fl);
          gate = (case partial of None \<Rightarrow> GateNone | Some g \<Rightarrow> GateMapping g) in
      abind (emit ([(''event'', JStr ''eval_broken''), (''round_id'', JStr (if_round_id fl)), (''step'', JInt (if_step fl)),
               (''reason'', JStr (wire reason)), (''exit_code'', case ch_exitcode ch of None \<Rightarrow> JNull | Some c \<Rightarrow> JInt c),
               (''phase'', JStr phase), (''partial_gate'', JBool (partial \<noteq> None))]
             @ (case failure of None \<Rightarrow> [] | Some (cls, detail) \<Rightarrow>
                  [(''exception_class'', JStr cls), (''detail'', JStr detail)]))) (\<lambda>_.
      abind (lift (build_round_result \<lparr>rt_step = if_step fl, rt_round_id = if_round_id fl, rt_gate = gate,
               rt_wall_sec = wall_sec, rt_reason = Some reason,
               rt_detail = (case failure of None \<Rightarrow> JNull | Some (_, detail) \<Rightarrow> JStr detail), rt_random_wr = JNull,
               rt_worker_pid = JNull, rt_candidate_path = JStr (if_candidate_path fl), rt_strength_floor = JNull,
               rt_partial = (partial \<noteq> None)\<rparr>)) (\<lambda>result.
      abind (lift (subscript result ''promoted'')) (\<lambda>promoted.
      abind (emit_round_complete fl wall_sec JNull (JBool (truthy promoted))
               (case partial of None \<Rightarrow> JNull | Some g \<Rightarrow> JObj g) (read_progress (ch_progress ch))) (\<lambda>_.
        ret result)))))"

definition emit_posture_events :: "inflight \<Rightarrow> (string, json) dict \<Rightarrow> (pl, unit) act" where
  "emit_posture_events fl raw =
     (let floor_raw = dget raw ''strength_floor'' JNull; adjudication = dget raw ''ply_cap_adjudication'' JNull in
      abind (if floor_raw = JNull then ret ()
             else abind (modify (\<lambda>st. st\<lparr>pl_floor_checked := Suc (pl_floor_checked st)\<rparr>)) (\<lambda>_.
                  abind (lift (py_get floor_raw ''passed'' (JBool False))) (\<lambda>passed.
                  abind (if truthy passed then ret ()
                         else modify (\<lambda>st. st\<lparr>pl_floor_skipped := Suc (pl_floor_skipped st)\<rparr>)) (\<lambda>_.
                  abind (gets (\<lambda>st. (pl_floor_checked st, pl_floor_skipped st))) (\<lambda>(checked, skipped).
                  emit_strength_floor fl floor_raw checked skipped))))) (\<lambda>_.
      if adjudication = JNull then ret () else emit_ply_cap_adjudication fl adjudication))"

text \<open>\<open>int(v or 0)\<close>, and the games a round played.\<close>

definition int_or_0 :: "json \<Rightarrow> int res" where
  "int_or_0 v = (if truthy v then py_int v else Inr 0)"

definition or_value :: "json \<Rightarrow> json \<Rightarrow> json" where
  "or_value a b = (if truthy a then a else b)"

definition games_total :: "(string, json) dict \<Rightarrow> int res" where
  "games_total raw =
     (let gate_raw = dget raw ''gate'' JNull; floor_raw = dget raw ''strength_floor'' JNull;
          random_raw = or_value (dget raw ''random'' JNull) (JObj [(''games'', JInt 0), (''wr'', JNull)]) in
      rbind (rbind (py_get random_raw ''games'' (JInt 0)) int_or_0) (\<lambda>n_random.
      rbind (if truthy gate_raw
             then rbind (py_get gate_raw ''n_pooled'' JNull) (\<lambda>p.
                  if truthy p then py_int p
                  else rbind (py_get gate_raw ''n_screen'' JNull) int_or_0)
             else Inr 0) (\<lambda>n_gate.
      rbind (if truthy floor_raw then rbind (py_get floor_raw ''games'' (JInt 0)) int_or_0 else Inr 0) (\<lambda>n_floor.
        Inr (n_random + n_gate + n_floor)))))"

definition success_result :: "inflight \<Rightarrow> child \<Rightarrow> (string, json) dict \<Rightarrow> real \<Rightarrow> (pl, (string, json) dict) act" where
  "success_result fl ch raw wall_sec =
     (let gate_raw = dget raw ''gate'' JNull;
          random_raw = or_value (dget raw ''random'' JNull) (JObj [(''games'', JInt 0), (''wr'', JNull)]) in
      abind (lift (games_total raw)) (\<lambda>total_games.
      abind (lift (py_get random_raw ''wr'' JNull)) (\<lambda>wr.
      abind (lift (build_round_result \<lparr>rt_step = if_step fl, rt_round_id = if_round_id fl, rt_gate = gate_of_json gate_raw,
               rt_wall_sec = wall_sec, rt_reason = None, rt_detail = JNull, rt_random_wr = wr,
               rt_worker_pid = dget raw ''worker_pid'' JNull, rt_candidate_path = JStr (if_candidate_path fl),
               rt_strength_floor = dget raw ''strength_floor'' JNull, rt_partial = False\<rparr>)) (\<lambda>result.
      abind (lift (subscript result ''promoted'')) (\<lambda>promoted.
      abind (emit_round_complete fl wall_sec (JInt total_games) (if truthy gate_raw then promoted else JNull)
               gate_raw (read_progress (ch_progress ch))) (\<lambda>_.
      abind (let device_memory = dget raw ''device_memory'' JNull in
             if device_memory = JNull then ret () else emit_device_memory fl device_memory) (\<lambda>_.
      abind (emit_posture_events fl raw) (\<lambda>_. ret result))))))))"

definition read_worker_result :: "inflight \<Rightarrow> child \<Rightarrow> real \<Rightarrow> (pl, (string, json) dict) act" where
  "read_worker_result fl ch wall_sec = (case ch_result ch of
      None \<Rightarrow> broken_result fl ch RESULT_MISSING wall_sec ''worker_exit'' None
    | Some (Decoded v) \<Rightarrow> (case validate_worker_result v of
          Inl _ \<Rightarrow> broken_result fl ch RESULT_INVALID wall_sec ''worker_exit'' None
        | Inr raw \<Rightarrow> success_result fl ch raw wall_sec)
    | Some _ \<Rightarrow> broken_result fl ch RESULT_INVALID wall_sec ''worker_exit'' None)"

definition phase_of :: "broken_reason \<Rightarrow> string" where
  "phase_of r = (if r = ROUND_TIMEOUT then ''round_timeout'' else if r = ABANDONED then ''abandon'' else ''drain'')"

text \<open>The body of \<open>_finalize_round\<close> after the latch, with its catch-all.\<close>

definition finalize_route :: "inflight \<Rightarrow> child \<Rightarrow> broken_reason option \<Rightarrow> real \<Rightarrow> (pl, (string, json) dict) act" where
  "finalize_route fl ch escalated wall_sec =
     (case escalated of
        Some r \<Rightarrow> broken_result fl ch r wall_sec (phase_of r) None
      | None \<Rightarrow> (case ch_exitcode ch of
            Some c \<Rightarrow> if c \<noteq> 0 then broken_result fl ch (if c < 0 then KILLED else EXIT_NONZERO) wall_sec ''worker_exit'' None
                      else read_worker_result fl ch wall_sec
          | None \<Rightarrow> read_worker_result fl ch wall_sec))"

definition finalize_body ::
  "(py_exc \<Rightarrow> string) \<Rightarrow> inflight \<Rightarrow> child \<Rightarrow> broken_reason option \<Rightarrow> real \<Rightarrow> (pl, (string, json) dict) act" where
  "finalize_body show_exc fl ch escalated wall_sec =
     catching (finalize_route fl ch escalated wall_sec)
       (\<lambda>e. broken_result fl ch ROUND_COMPLETION_ERROR wall_sec ''round_completion'' (Some (exc_name e, show_exc e)))"

section \<open>Finalising once\<close>

text \<open>The test-and-set of the latch: true for the finaliser that owns the round from here on.\<close>

definition claim_round :: "nat \<Rightarrow> pl \<Rightarrow> bool \<times> pl" where
  "claim_round i st = (let fl = pl_rounds st ! i in
     if if_finalized fl
     then (False, st\<lparr>pl_suppressed := Suc (pl_suppressed st),
             pl_events := pl_events st @
               [named_event ''eval_round_double_finalize_suppressed'' fl
                @ [(''suppressed_total'', JInt (int (Suc (pl_suppressed st))))]]\<rparr>)
     else (True, st\<lparr>pl_rounds := (pl_rounds st)[i := fl\<lparr>if_finalized := True\<rparr>]\<rparr>))"

text \<open>The owner's end: the slot is freed, the result posted and kept on the round, under one lock.\<close>

definition publish_round :: "nat \<Rightarrow> (string, json) dict \<Rightarrow> pl \<Rightarrow> pl" where
  "publish_round i result st =
     st\<lparr>pl_inflight := None, pl_mailbox := pl_mailbox st @ [result],
        pl_rounds := (pl_rounds st)[i := (pl_rounds st ! i)\<lparr>if_result := Some result, if_done := True\<rparr>]\<rparr>"

definition finish_round :: "(py_exc \<Rightarrow> string) \<Rightarrow> nat \<Rightarrow> broken_reason option \<Rightarrow> real \<Rightarrow> pl \<Rightarrow> pl" where
  "finish_round show_exc i escalated now st =
     (let fl = pl_rounds st ! i in
      case finalize_body show_exc fl (pl_children st ! i) escalated (max (now - if_t0 fl) 0) st of
        (Inr result, st') \<Rightarrow> publish_round i result st'
      | (Inl _, st') \<Rightarrow> st'\<lparr>pl_rounds := (pl_rounds st')[i := (pl_rounds st' ! i)\<lparr>if_done := True\<rparr>]\<rparr>)"

text \<open>
  \<open>_finalize_round\<close>: the owner finishes the round; a second finaliser waits (bounded) and gets
  what the round holds by then.
\<close>

definition finalize_round ::
  "(py_exc \<Rightarrow> string) \<Rightarrow> nat \<Rightarrow> broken_reason option \<Rightarrow> real \<Rightarrow> pl \<Rightarrow> (string, json) dict option \<times> pl" where
  "finalize_round show_exc i escalated now st =
     (case claim_round i st of
        (True, st1) \<Rightarrow> (let st2 = finish_round show_exc i escalated now st1 in (if_result (pl_rounds st2 ! i), st2))
      | (False, st1) \<Rightarrow> (if_result (pl_rounds st1 ! i), st1))"

section \<open>The operations around it\<close>

text \<open>One turn of the poller that finds \<open>i\<close> in flight.\<close>

definition poll_turn :: "pl_cfg \<Rightarrow> (py_exc \<Rightarrow> string) \<Rightarrow> real \<Rightarrow> pl \<Rightarrow> pl" where
  "poll_turn cfg show_exc now st = (case pl_inflight st of
      None \<Rightarrow> st
    | Some i \<Rightarrow>
        if \<not> ch_alive (pl_children st ! i) then snd (finalize_round show_exc i None now st)
        else if now - if_t0 (pl_rounds st ! i) > pc_round_timeout_sec cfg
        then snd (finalize_round show_exc i (Some ROUND_TIMEOUT) now st)
        else st)"

text \<open>\<open>stays_alive\<close>: the worker still runs when the drain budget is spent.\<close>

definition drain_pending :: "pl_cfg \<Rightarrow> (py_exc \<Rightarrow> string) \<Rightarrow> bool \<Rightarrow> real \<Rightarrow> (pl, drained) act" where
  "drain_pending cfg show_exc stays_alive now st = (case pl_inflight st of
      None \<Rightarrow> take_mailbox st
    | Some i \<Rightarrow>
        let reason = (if ch_alive (pl_children st ! i)
                      then snd (drain_or_kill stays_alive (Fin (drain_budget_sec (pc_caps cfg))) (pc_kill_grace cfg))
                      else None)
        in take_mailbox (snd (finalize_round show_exc i reason now st)))"

definition abandon_pending :: "(py_exc \<Rightarrow> string) \<Rightarrow> real \<Rightarrow> (pl, drained) act" where
  "abandon_pending show_exc now st = (case pl_inflight st of
      None \<Rightarrow> take_mailbox st
    | Some i \<Rightarrow>
        if \<not> ch_alive (pl_children st ! i) then take_mailbox (snd (finalize_round show_exc i None now st))
        else take_mailbox (snd (finalize_round show_exc i (Some ABANDONED) now
               (st\<lparr>pl_events := pl_events st @
                   [named_event ''eval_round_abandoned'' (pl_rounds st ! i) @ [(''reason'', JStr ''resumable_stop'')]]\<rparr>))))"

definition start_terminal :: "pl_cfg \<Rightarrow> bool \<Rightarrow> int \<Rightarrow> bool \<Rightarrow> real \<Rightarrow> real \<Rightarrow> (pl, nat) act" where
  "start_terminal cfg main_thread step has_best now ts =
     abind next_round_idx (\<lambda>idx. let round_id = round_id_of idx step True in
     abind (lift (build_round_spec cfg step has_best round_id idx True)) (\<lambda>(spec, gate_on, candidate).
     abind (spawn_round main_thread (new_inflight round_id step idx now spec candidate)) (\<lambda>i.
     abind (emit_round_started round_id step gate_on ts) (\<lambda>_. ret i))))"

definition run_terminal_sync ::
  "pl_cfg \<Rightarrow> (py_exc \<Rightarrow> string) \<Rightarrow> bool \<Rightarrow> int \<Rightarrow> bool \<Rightarrow> bool \<Rightarrow> real \<Rightarrow> real \<Rightarrow> (pl, (string, json) dict option) act" where
  "run_terminal_sync cfg show_exc main_thread step has_best stays_alive now ts =
     abind (start_terminal cfg main_thread step has_best now ts) (\<lambda>i st.
       case finalize_round show_exc i
              (snd (drain_or_kill stays_alive (Fin (dc_terminal_cap (pc_caps cfg))) (pc_kill_grace cfg))) now st of
         (r, st') \<Rightarrow> (Inr r, st'))"

section \<open>Library lemmas: what finalising touches\<close>

definition core :: "pl \<Rightarrow> nat \<times> nat option \<times> inflight list \<times> child list \<times> (string, json) dict list \<times> nat" where
  "core st = (pl_counter st, pl_inflight st, pl_rounds st, pl_children st, pl_mailbox st, pl_suppressed st)"

definition keeps_core :: "(pl, 'a) act \<Rightarrow> bool" where
  "keeps_core m \<longleftrightarrow> (\<forall>st. core (snd (m st)) = core st)"

named_theorems keeps

lemma keeps_ret [keeps]: "keeps_core (ret a)"
  and keeps_lift [keeps]: "keeps_core (lift r)"
  and keeps_emit [keeps]: "keeps_core (emit p)"
  and keeps_checked [keeps]: "keeps_core (modify (\<lambda>st. st\<lparr>pl_floor_checked := Suc (pl_floor_checked st)\<rparr>))"
  and keeps_skipped [keeps]: "keeps_core (modify (\<lambda>st. st\<lparr>pl_floor_skipped := Suc (pl_floor_skipped st)\<rparr>))"
  by (simp_all add: keeps_core_def act_defs emit_def core_def)

lemma keeps_gets [keeps]: "keeps_core (gets f)"
  by (simp add: keeps_core_def gets_def)

lemma keeps_abind [keeps]:
  assumes "keeps_core m" "\<And>a. keeps_core (f a)"
  shows "keeps_core (abind m f)"
  unfolding keeps_core_def
proof
  fix st
  obtain r st' where m: "m st = (r, st')" by fastforce
  with assms(1) have "core st' = core st" by (auto simp: keeps_core_def dest: spec [of _ st])
  with m assms(2) show "core (snd (abind m f st)) = core st"
    by (cases r) (simp_all add: abind_def keeps_core_def)
qed

lemma keeps_catching [keeps]:
  assumes "keeps_core m" "\<And>e. keeps_core (h e)"
  shows "keeps_core (catching m h)"
  unfolding keeps_core_def
proof
  fix st
  obtain r st' where m: "m st = (r, st')" by fastforce
  with assms(1) have "core st' = core st" by (auto simp: keeps_core_def dest: spec [of _ st])
  with m assms(2) show "core (snd (catching m h st)) = core st"
    by (cases r) (simp_all add: catching_def keeps_core_def)
qed

lemma keeps_pair [keeps]: "(\<And>a b. keeps_core (f a b)) \<Longrightarrow> keeps_core (case p of (a, b) \<Rightarrow> f a b)"
  by (cases p) simp

lemma keeps_if [keeps]: "keeps_core m \<Longrightarrow> keeps_core n \<Longrightarrow> keeps_core (if b then m else n)"
  by simp

lemma keeps_complete [keeps]: "keeps_core (emit_round_complete fl w g p gate pr)"
  unfolding emit_round_complete_def by (intro keeps)

lemma keeps_posture [keeps]: "keeps_core (emit_posture_events fl raw)"
  unfolding emit_posture_events_def emit_strength_floor_def emit_ply_cap_adjudication_def Let_def
  by (intro keeps)

lemma keeps_success [keeps]: "keeps_core (success_result fl ch raw w)"
  unfolding success_result_def emit_device_memory_def Let_def by (intro keeps)

lemma gate_stream_fields_ok: "\<exists>g. gate_stream_fields JNull = Inr g" "\<exists>g. gate_stream_fields (JObj d) = Inr g"
  by (simp_all add: GATE_STREAM_FIELDS_def)

lemma broken_result_ok:
  "\<exists>result ev. broken_result fl ch r w ph failure st = (Inr result, st\<lparr>pl_events := pl_events st @ ev\<rparr>) \<and>
     map_of result ''eval_broken_reason'' = Some (JStr (wire r)) \<and>
     map_of result ''round_id'' = Some (JStr (if_round_id fl)) \<and>
     map_of result ''promoted'' = Some (JBool (case read_partial_gate (ch_partial ch) (if_step fl) of
        None \<Rightarrow> False | Some g \<Rightarrow> truthy (dget g ''promoted'' (JBool False))))"
proof -
  let ?partial = "read_partial_gate (ch_partial ch) (if_step fl)"
  let ?gate = "case ?partial of None \<Rightarrow> GateNone | Some g \<Rightarrow> GateMapping g"
  let ?t = "\<lparr>rt_step = if_step fl, rt_round_id = if_round_id fl, rt_gate = ?gate,
       rt_wall_sec = w, rt_reason = Some r,
       rt_detail = (case failure of None \<Rightarrow> JNull | Some (_, detail) \<Rightarrow> JStr detail), rt_random_wr = JNull,
       rt_worker_pid = JNull, rt_candidate_path = JStr (if_candidate_path fl), rt_strength_floor = JNull,
       rt_partial = (?partial \<noteq> None)\<rparr>"
  have "\<exists>j. gate_result_to_mapping ?gate = Inr j" by (cases ?partial) simp_all
  then obtain result where b: "build_round_result ?t = Inr result" by (auto simp: build_round_result_def Let_def)
  note keys = build_round_result_keys [OF b]
  obtain g where g: "gate_stream_fields (case ?partial of None \<Rightarrow> JNull | Some g \<Rightarrow> JObj g) = Inr g"
    using gate_stream_fields_ok by (cases ?partial) auto
  have "\<exists>ev. broken_result fl ch r w ph failure st = (Inr result, st\<lparr>pl_events := pl_events st @ ev\<rparr>)"
    using b keys(2) g unfolding broken_result_def Let_def
    by (simp add: act_defs emit_def emit_round_complete_def subscript_def) (rule exI, rule refl)
  then show ?thesis using keys by (cases ?partial) (auto simp: reason_value_def)
qed

lemma keeps_broken [keeps]: "keeps_core (broken_result fl ch r w ph failure)"
  unfolding keeps_core_def
proof
  fix st show "core (snd (broken_result fl ch r w ph failure st)) = core st"
    using broken_result_ok [of fl ch r w ph failure st] by (auto simp: core_def)
qed

lemma success_result_built:
  assumes "success_result fl ch raw w st = (Inr result, st')"
  shows "\<exists>t. build_round_result t = Inr result \<and> rt_reason t = None \<and> rt_partial t = False \<and>
     rt_step t = if_step fl \<and> rt_round_id t = if_round_id fl \<and> rt_gate t = gate_of_json (dget raw ''gate'' JNull)"
  using assms unfolding success_result_def Let_def abind_Inr_iff
  by (auto simp: lift_def ret_def)

text \<open>What the body promises: a result whatever the child left behind, with the reason of the route taken.\<close>

definition route_reason :: "broken_reason option \<Rightarrow> child \<Rightarrow> broken_reason option \<Rightarrow> bool" where
  "route_reason escalated ch r = (case escalated of
      Some e \<Rightarrow> r = Some e
    | None \<Rightarrow>
       (case ch_exitcode ch of
          Some c \<Rightarrow> if c < 0 then r = Some KILLED else if 0 < c then r = Some EXIT_NONZERO else True
        | None \<Rightarrow> True) \<and>
       (if ch_exitcode ch = None \<or> ch_exitcode ch = Some 0
        then (case ch_result ch of
                None \<Rightarrow> r = Some RESULT_MISSING
              | Some (Decoded (JObj raw)) \<Rightarrow>
                  if set REQUIRED_RESULT_KEYS \<subseteq> dkeys raw then r = None \<or> r = Some ROUND_COMPLETION_ERROR
                  else r = Some RESULT_INVALID
              | Some _ \<Rightarrow> r = Some RESULT_INVALID)
        else True))"

definition finalized_ok :: "inflight \<Rightarrow> child \<Rightarrow> broken_reason option \<Rightarrow> (string, json) dict \<Rightarrow> bool" where
  "finalized_ok fl ch escalated result \<longleftrightarrow> (\<exists>r. route_reason escalated ch r \<and>
     map_of result ''eval_broken_reason'' = Some (reason_value r) \<and>
     map_of result ''round_id'' = Some (JStr (if_round_id fl)) \<and>
     (case r of
        None \<Rightarrow> (\<exists>raw. ch_result ch = Some (Decoded (JObj raw)) \<and> map_of result ''promoted'' =
             Some (JBool (gate_result_promoted (gate_of_json (dget raw ''gate'' JNull)))))
      | Some _ \<Rightarrow> map_of result ''promoted'' = Some (JBool (case read_partial_gate (ch_partial ch) (if_step fl) of
             None \<Rightarrow> False | Some g \<Rightarrow> truthy (dget g ''promoted'' (JBool False))))))"

lemma broken_finalized_ok:
  assumes "route_reason escalated ch (Some r)"
  shows "\<exists>result st'. broken_result fl ch r w ph failure st = (Inr result, st') \<and> finalized_ok fl ch escalated result"
proof -
  from broken_result_ok [of fl ch r w ph failure st] obtain result ev where
    b: "broken_result fl ch r w ph failure st = (Inr result, st\<lparr>pl_events := pl_events st @ ev\<rparr>)"
    and k: "map_of result ''eval_broken_reason'' = Some (JStr (wire r))"
      "map_of result ''round_id'' = Some (JStr (if_round_id fl))"
      "map_of result ''promoted'' = Some (JBool (case read_partial_gate (ch_partial ch) (if_step fl) of
        None \<Rightarrow> False | Some g \<Rightarrow> truthy (dget g ''promoted'' (JBool False))))" by blast
  have "finalized_ok fl ch escalated result"
    unfolding finalized_ok_def using assms k by (intro exI [of _ "Some r"]) (simp add: reason_value_def)
  with b show ?thesis by blast
qed

lemma success_finalized_ok:
  assumes "success_result fl ch raw w st = (Inr result, st')" "ch_result ch = Some (Decoded (JObj raw))"
    and "route_reason escalated ch None"
  shows "finalized_ok fl ch escalated result"
proof -
  obtain t where t: "build_round_result t = Inr result" "rt_reason t = None" "rt_partial t = False"
    "rt_round_id t = if_round_id fl" "rt_gate t = gate_of_json (dget raw ''gate'' JNull)"
    using success_result_built [OF assms(1)] by blast
  show ?thesis unfolding finalized_ok_def
    using build_round_result_keys [OF t(1)] t assms(2,3) by (intro exI [of _ None]) simp
qed

lemma validate_ok:
  "validate_worker_result v = Inr raw \<longleftrightarrow> v = JObj raw \<and> set REQUIRED_RESULT_KEYS \<subseteq> dkeys raw"
  by (cases v) (auto simp: subset_iff)

lemma keeps_finalize: "keeps_core (finalize_body show_exc fl ch escalated wall_sec)"
  unfolding finalize_body_def finalize_route_def read_worker_result_def
  by (intro keeps | simp split: option.split file_read.split sum.split add: keeps)+

lemma read_result_route:
  assumes "ch_exitcode ch = None \<or> ch_exitcode ch = Some 0"
  shows "(\<exists>result st'. read_worker_result fl ch w st = (Inr result, st') \<and> finalized_ok fl ch None result) \<or>
     (\<exists>e st'. read_worker_result fl ch w st = (Inl e, st') \<and> route_reason None ch (Some ROUND_COMPLETION_ERROR))"
proof (cases "\<exists>raw. ch_result ch = Some (Decoded (JObj raw)) \<and> set REQUIRED_RESULT_KEYS \<subseteq> dkeys raw")
  case True
  then obtain raw where raw: "ch_result ch = Some (Decoded (JObj raw))" "set REQUIRED_RESULT_KEYS \<subseteq> dkeys raw"
    by blast
  then have "read_worker_result fl ch w = success_result fl ch raw w"
    using validate_ok [of "JObj raw" raw] by (simp add: read_worker_result_def del: validate_worker_result.simps)
  moreover have "route_reason None ch None" "route_reason None ch (Some ROUND_COMPLETION_ERROR)"
    using assms raw by (auto simp: route_reason_def)
  ultimately show ?thesis using success_finalized_ok [OF _ raw(1)]
    by (cases "success_result fl ch raw w st"; cases "fst (success_result fl ch raw w st)") auto
next
  case False
  let ?r = "if ch_result ch = None then RESULT_MISSING else RESULT_INVALID"
  have "read_worker_result fl ch w = broken_result fl ch ?r w ''worker_exit'' None"
    using False validate_ok
    by (auto simp: read_worker_result_def simp del: validate_worker_result.simps split: option.split file_read.split sum.split)
  moreover have "route_reason None ch (Some ?r)"
    using assms False by (auto simp: route_reason_def split: option.split file_read.split json.split)
  ultimately show ?thesis using broken_finalized_ok [of None ch ?r fl] by simp
qed

lemma finalize_route_result:
  "(\<exists>result st'. finalize_route fl ch escalated w st = (Inr result, st') \<and> finalized_ok fl ch escalated result) \<or>
   (\<exists>e st'. finalize_route fl ch escalated w st = (Inl e, st') \<and> route_reason escalated ch (Some ROUND_COMPLETION_ERROR))"
proof (cases escalated)
  case (Some r)
  then show ?thesis using broken_finalized_ok [of escalated ch r fl] by (simp add: route_reason_def finalize_route_def)
next
  case None
  show ?thesis
  proof (cases "ch_exitcode ch = None \<or> ch_exitcode ch = Some 0")
    case False
    then obtain c where "ch_exitcode ch = Some c" "c \<noteq> 0" by auto
    then show ?thesis
      using None broken_finalized_ok [of escalated ch "if c < 0 then KILLED else EXIT_NONZERO" fl]
      by (simp add: route_reason_def finalize_route_def)
  next
    case True
    then have "finalize_route fl ch escalated w = read_worker_result fl ch w"
      using None by (auto simp: finalize_route_def)
    with read_result_route [OF True, of fl w st] None show ?thesis by simp
  qed
qed

lemma finalize_total:
  "\<exists>result st'. finalize_body show_exc fl ch escalated wall_sec st = (Inr result, st') \<and>
     core st' = core st \<and> finalized_ok fl ch escalated result"
proof -
  have "\<exists>result st'. finalize_body show_exc fl ch escalated wall_sec st = (Inr result, st') \<and>
      finalized_ok fl ch escalated result"
    using finalize_route_result [of fl ch escalated wall_sec st]
  proof (elim disjE exE conjE)
    fix e st'
    assume m: "finalize_route fl ch escalated wall_sec st = (Inl e, st')"
      and r: "route_reason escalated ch (Some ROUND_COMPLETION_ERROR)"
    show ?thesis using broken_finalized_ok [OF r, of fl] unfolding finalize_body_def by (simp add: catching_def m)
  qed (auto simp: finalize_body_def catching_def)
  then show ?thesis using keeps_finalize unfolding keeps_core_def by (metis snd_conv)
qed

text \<open>Every finaliser gets a result: whatever the child's exit code and files, and whatever exception
  reading them raises, the body of \<open>_finalize_round\<close> returns a round result that names the round,
  carries the reason of the route taken, and promotes only on the child's own gate verdict (its
  result on the clean route, its partial sidecar on every broken one).\<close>

theorem finalize_always_results:
  "\<exists>result st'. finalize_body show_exc fl ch escalated wall_sec st = (Inr result, st') \<and>
     core st' = core st \<and> finalized_ok fl ch escalated result"
  by (rule finalize_total)

text \<open>Every wait the close-out makes on a worker is bounded: \<open>drain_or_kill\<close> joins only for
  finite, non-negative times of at most a day, a second finaliser waits at least five seconds and at
  most a day, the worker is terminated before it is killed, and a reason is named exactly
  when the worker outlived its budget.\<close>

theorem drain_is_bounded:
  "case drain_or_kill alive budget_sec grace of (calls, reason) \<Rightarrow>
     (\<forall>t. Join t \<in> set calls = (t \<in> {bounded_join_timeout budget_sec} \<union> (if alive then {bounded_join_timeout grace} else {}))) \<and>
     (\<forall>p. 0 \<le> bounded_join_timeout p \<and> bounded_join_timeout p \<le> 86400 \<and>
          5 \<le> finalize_wait_sec p \<and> finalize_wait_sec p \<le> 86400) \<and>
     filter (\<lambda>c. c \<in> {Terminate, Kill}) calls = (if alive then [Terminate, Kill] else []) \<and>
     reason = (if alive then Some JOIN_TIMEOUT else None)"
proof -
  have "0 \<le> bounded_join_timeout p \<and> bounded_join_timeout p \<le> 86400 \<and>
      5 \<le> finalize_wait_sec p \<and> finalize_wait_sec p \<le> 86400" for p
    by (cases p) (simp_all add: JOIN_TIMEOUT_CEILING_SEC_def FINALIZE_WAIT_FLOOR_SEC_def finalize_wait_sec_def)
  then show ?thesis by (auto simp: drain_or_kill_def)
qed

end
