(* ===== verification/Pipeline_Threads.thy ===== *)
theory Pipeline_Threads
  imports Pipeline
begin

text \<open>
  The pipeline under its two threads: the trainer's main thread (kicks, drains, polls the mailbox,
  runs the terminal round) and the poller (finalises what is in flight).  A step is one section the
  code runs under its lock, or one body between two of them, so every interleaving of the two
  threads and of the worker's own exit is a sequence of steps.
\<close>

section \<open>Threads and steps\<close>

text \<open>
  Where a thread stands: \<open>Holding i\<close> has read the round in flight into its local variable,
  \<open>Finalizing i r\<close> owns the latch and runs the body, \<open>Waiting i\<close> lost the latch.
\<close>

datatype pc = Idle | Holding nat | Finalizing nat "broken_reason option" | Waiting nat

record sys =
  s_pl :: pl
  s_main :: pc
  s_poller :: pc
  s_delivered :: "(string, json) dict list"

definition sys_init :: sys where
  "sys_init = \<lparr>s_pl = pl_init, s_main = Idle, s_poller = Idle, s_delivered = []\<rparr>"

fun results_of :: "drained \<Rightarrow> (string, json) dict list" where
  "results_of NoResult = []"
| "results_of (OneResult r) = [r]"
| "results_of (Batch rs) = rs"

definition after_claim :: "nat \<Rightarrow> broken_reason option \<Rightarrow> bool \<Rightarrow> pc" where
  "after_claim i escalated won = (if won then Finalizing i escalated else Waiting i)"

text \<open>
  \<open>strict\<close> says that a terminal round only starts with nothing in flight, which is what
  \<open>close_out\<close> establishes by draining first; without it the code itself sets no such guard.
\<close>

inductive pl_step :: "pl_cfg \<Rightarrow> (py_exc \<Rightarrow> string) \<Rightarrow> bool \<Rightarrow> sys \<Rightarrow> sys \<Rightarrow> bool"
  for cfg :: pl_cfg and show_exc :: "py_exc \<Rightarrow> string" and strict :: bool where
  kick: "s_main s = Idle \<Longrightarrow> run_evaluation cfg True step has_best now ts (s_pl s) = (r, p) \<Longrightarrow>
     pl_step cfg show_exc strict s (s\<lparr>s_pl := p\<rparr>)"
| terminal: "s_main s = Idle \<Longrightarrow> strict \<longrightarrow> pl_inflight (s_pl s) = None \<Longrightarrow>
     start_terminal cfg True step has_best now ts (s_pl s) = (r, p) \<Longrightarrow>
     pl_step cfg show_exc strict s (s\<lparr>s_pl := p, s_main := (case r of Inr i \<Rightarrow> Holding i | Inl _ \<Rightarrow> Idle)\<rparr>)"
| child_exits: "i < length (pl_children (s_pl s)) \<Longrightarrow> ch_alive (pl_children (s_pl s) ! i) \<Longrightarrow>
     pl_step cfg show_exc strict s (s\<lparr>s_pl := (s_pl s)\<lparr>pl_children := (pl_children (s_pl s))[i := ch]\<rparr>\<rparr>)"
| main_reads: "s_main s = Idle \<Longrightarrow> pl_inflight (s_pl s) = Some i \<Longrightarrow>
     pl_step cfg show_exc strict s (s\<lparr>s_main := Holding i\<rparr>)"
| poller_reads: "s_poller s = Idle \<Longrightarrow> pl_inflight (s_pl s) = Some i \<Longrightarrow>
     pl_step cfg show_exc strict s (s\<lparr>s_poller := Holding i\<rparr>)"
| poller_loops: "s_poller s = Holding i \<Longrightarrow> pl_step cfg show_exc strict s (s\<lparr>s_poller := Idle\<rparr>)"
| main_claims: "s_main s = Holding i \<Longrightarrow>
     if escalated = None then \<not> ch_alive (pl_children (s_pl s) ! i) else escalated \<in> {Some JOIN_TIMEOUT, Some ABANDONED} \<Longrightarrow>
     claim_round i (s_pl s) = (won, p) \<Longrightarrow>
     pl_step cfg show_exc strict s (s\<lparr>s_pl := p, s_main := after_claim i escalated won\<rparr>)"
| poller_claims: "s_poller s = Holding i \<Longrightarrow>
     if escalated = None then \<not> ch_alive (pl_children (s_pl s) ! i) else escalated = Some ROUND_TIMEOUT \<Longrightarrow>
     claim_round i (s_pl s) = (won, p) \<Longrightarrow>
     pl_step cfg show_exc strict s (s\<lparr>s_pl := p, s_poller := after_claim i escalated won\<rparr>)"
| main_finishes: "s_main s = Finalizing i escalated \<Longrightarrow>
     pl_step cfg show_exc strict s (s\<lparr>s_pl := finish_round show_exc i escalated now (s_pl s), s_main := Idle\<rparr>)"
| poller_finishes: "s_poller s = Finalizing i escalated \<Longrightarrow>
     pl_step cfg show_exc strict s (s\<lparr>s_pl := finish_round show_exc i escalated now (s_pl s), s_poller := Idle\<rparr>)"
| main_waited: "s_main s = Waiting i \<Longrightarrow> pl_step cfg show_exc strict s (s\<lparr>s_main := Idle\<rparr>)"
| poller_waited: "s_poller s = Waiting i \<Longrightarrow> pl_step cfg show_exc strict s (s\<lparr>s_poller := Idle\<rparr>)"
| polls: "s_main s = Idle \<Longrightarrow> poll_completed (s_pl s) = (Inr (Some r), p) \<Longrightarrow>
     pl_step cfg show_exc strict s (s\<lparr>s_pl := p, s_delivered := s_delivered s @ [r]\<rparr>)"
| drains: "s_main s = Idle \<Longrightarrow> take_mailbox (s_pl s) = (Inr d, p) \<Longrightarrow>
     pl_step cfg show_exc strict s (s\<lparr>s_pl := p, s_delivered := s_delivered s @ results_of d\<rparr>)"
| restores: "s_main s = Idle \<Longrightarrow> restore_round_state n (s_pl s) = (r, p) \<Longrightarrow>
     pl_step cfg show_exc strict s (s\<lparr>s_pl := p\<rparr>)"

inductive pl_reach :: "pl_cfg \<Rightarrow> (py_exc \<Rightarrow> string) \<Rightarrow> bool \<Rightarrow> sys \<Rightarrow> bool"
  for cfg :: pl_cfg and show_exc :: "py_exc \<Rightarrow> string" and strict :: bool where
  start: "pl_reach cfg show_exc strict sys_init"
| more: "pl_reach cfg show_exc strict s \<Longrightarrow> pl_step cfg show_exc strict s s' \<Longrightarrow> pl_reach cfg show_exc strict s'"

section \<open>Effects of the operations on the rounds\<close>

definition same_rounds :: "pl \<Rightarrow> pl \<Rightarrow> bool" where
  "same_rounds p q \<longleftrightarrow> pl_rounds q = pl_rounds p \<and> length (pl_children q) = length (pl_children p) \<and>
     pl_inflight q = pl_inflight p \<and> pl_mailbox q = pl_mailbox p \<and> pl_counter p \<le> pl_counter q"

definition new_round :: "bool \<Rightarrow> pl \<Rightarrow> pl \<Rightarrow> bool" where
  "new_round terminal p q \<longleftrightarrow> (\<exists>fl. pl_rounds q = pl_rounds p @ [fl] \<and>
     length (pl_children q) = Suc (length (pl_children p)) \<and> pl_mailbox q = pl_mailbox p \<and>
     pl_counter q = Suc (pl_counter p) \<and> if_round_idx fl = pl_counter q \<and>
     (\<exists>step. if_round_id fl = round_id_of (pl_counter q) step terminal) \<and>
     \<not> if_finalized fl \<and> if_result fl = None)"

lemma spec_then_spawn:
  assumes "abind (lift (build_round_spec cfg step has_best round_id idx t)) (\<lambda>(spec, gate_on, candidate).
      abind (spawn_round True (new_inflight round_id step idx now spec candidate)) (\<lambda>i. f i gate_on)) st = (r, p)"
  shows "(\<exists>e. r = Inl e \<and> p = st) \<or>
     (\<exists>fl gate_on. f (length (pl_rounds st)) gate_on
         (st\<lparr>pl_rounds := pl_rounds st @ [fl], pl_children := pl_children st @ [new_child]\<rparr>) = (r, p) \<and>
       if_round_id fl = round_id \<and> if_round_idx fl = idx \<and> \<not> if_finalized fl \<and> if_result fl = None)"
  using assms by (cases "build_round_spec cfg step has_best round_id idx t")
    (auto simp: act_defs spawn_round_def new_inflight_def split: prod.splits)

lemma run_evaluation_effect:
  assumes "run_evaluation cfg True step has_best now ts p = (r, q)"
  shows "same_rounds p q \<or>
    (pl_inflight p = None \<and> new_round False p q \<and> pl_inflight q = Some (length (pl_rounds p)))"
proof (cases "pl_inflight p")
  case (Some i)
  then show ?thesis using assms
    by (auto simp: run_evaluation_def Let_def emit_round_skipped_busy_def emit_def act_defs same_rounds_def)
next
  case None
  let ?p = "p\<lparr>pl_counter := Suc (pl_counter p)\<rparr>"
  have "abind (lift (build_round_spec cfg step has_best (round_id_of (Suc (pl_counter p)) step False) (Suc (pl_counter p)) False))
      (\<lambda>(spec, gate_on, candidate).
      abind (spawn_round True (new_inflight (round_id_of (Suc (pl_counter p)) step False) step (Suc (pl_counter p)) now spec candidate))
       (\<lambda>i. abind (modify (\<lambda>st. st\<lparr>pl_inflight := Some i\<rparr>)) (\<lambda>_.
            abind (emit_round_started (round_id_of (Suc (pl_counter p)) step False) step gate_on ts)
             (\<lambda>_. ret (Kicked (round_id_of (Suc (pl_counter p)) step False)))))) ?p = (r, q)"
    using assms None by (simp add: run_evaluation_def kick_round_def next_round_idx_def abind_def [of next_round_idx] Let_def)
  from spec_then_spawn [OF this] None show ?thesis
    by (auto simp: act_defs emit_round_started_def emit_def same_rounds_def new_round_def)
qed

lemma start_terminal_effect:
  assumes "start_terminal cfg True step has_best now ts p = (r, q)"
  shows "(same_rounds p q \<and> (\<exists>e. r = Inl e)) \<or>
    (new_round True p q \<and> pl_inflight q = pl_inflight p \<and> r = Inr (length (pl_rounds p)))"
proof -
  let ?p = "p\<lparr>pl_counter := Suc (pl_counter p)\<rparr>"
  have "abind (lift (build_round_spec cfg step has_best (round_id_of (Suc (pl_counter p)) step True) (Suc (pl_counter p)) True))
      (\<lambda>(spec, gate_on, candidate).
      abind (spawn_round True (new_inflight (round_id_of (Suc (pl_counter p)) step True) step (Suc (pl_counter p)) now spec candidate))
       (\<lambda>i. abind (emit_round_started (round_id_of (Suc (pl_counter p)) step True) step gate_on ts) (\<lambda>_. ret i))) ?p = (r, q)"
    using assms by (simp add: start_terminal_def next_round_idx_def abind_def [of next_round_idx] Let_def)
  from spec_then_spawn [OF this] show ?thesis
    by (auto simp: act_defs emit_round_started_def emit_def same_rounds_def new_round_def)
qed

section \<open>The once-only specification\<close>

text \<open>
  What the rounds go through, without their contents: how many were spawned, which one is in
  flight, which latches are taken, and the order in which results were posted.
\<close>

record book =
  bk_spawned :: nat
  bk_flight :: "nat option"
  bk_claimed :: "nat set"
  bk_posts :: "nat list"
  bk_main :: pc
  bk_poller :: pc

definition book_init :: book where
  "book_init = \<lparr>bk_spawned = 0, bk_flight = None, bk_claimed = {}, bk_posts = [], bk_main = Idle, bk_poller = Idle\<rparr>"

inductive bk_step :: "bool \<Rightarrow> book \<Rightarrow> book \<Rightarrow> bool" for strict :: bool where
  bk_stays: "bk_step strict b b"
| bk_kick: "bk_main b = Idle \<Longrightarrow> bk_flight b = None \<Longrightarrow>
     bk_step strict b (b\<lparr>bk_spawned := Suc (bk_spawned b), bk_flight := Some (bk_spawned b)\<rparr>)"
| bk_terminal: "bk_main b = Idle \<Longrightarrow> strict \<longrightarrow> bk_flight b = None \<Longrightarrow>
     bk_step strict b (b\<lparr>bk_spawned := Suc (bk_spawned b), bk_main := Holding (bk_spawned b)\<rparr>)"
| bk_main_reads: "bk_main b = Idle \<Longrightarrow> bk_flight b = Some i \<Longrightarrow> bk_step strict b (b\<lparr>bk_main := Holding i\<rparr>)"
| bk_poller_reads: "bk_poller b = Idle \<Longrightarrow> bk_flight b = Some i \<Longrightarrow> bk_step strict b (b\<lparr>bk_poller := Holding i\<rparr>)"
| bk_poller_loops: "bk_poller b = Holding i \<Longrightarrow> bk_step strict b (b\<lparr>bk_poller := Idle\<rparr>)"
| bk_main_claims: "bk_main b = Holding i \<Longrightarrow>
     bk_step strict b (b\<lparr>bk_claimed := insert i (bk_claimed b), bk_main := after_claim i esc (i \<notin> bk_claimed b)\<rparr>)"
| bk_poller_claims: "bk_poller b = Holding i \<Longrightarrow>
     bk_step strict b (b\<lparr>bk_claimed := insert i (bk_claimed b), bk_poller := after_claim i esc (i \<notin> bk_claimed b)\<rparr>)"
| bk_main_posts: "bk_main b = Finalizing i esc \<Longrightarrow>
     bk_step strict b (b\<lparr>bk_flight := None, bk_posts := bk_posts b @ [i], bk_main := Idle\<rparr>)"
| bk_poller_posts: "bk_poller b = Finalizing i esc \<Longrightarrow>
     bk_step strict b (b\<lparr>bk_flight := None, bk_posts := bk_posts b @ [i], bk_poller := Idle\<rparr>)"
| bk_main_waited: "bk_main b = Waiting i \<Longrightarrow> bk_step strict b (b\<lparr>bk_main := Idle\<rparr>)"
| bk_poller_waited: "bk_poller b = Waiting i \<Longrightarrow> bk_step strict b (b\<lparr>bk_poller := Idle\<rparr>)"

inductive_cases bk_stepE: "bk_step strict b b'"

inductive bk_reach :: "bool \<Rightarrow> book \<Rightarrow> bool" for strict :: bool where
  bk_start: "bk_reach strict book_init"
| bk_more: "bk_reach strict b \<Longrightarrow> bk_step strict b b' \<Longrightarrow> bk_reach strict b'"

fun at_round :: "pc \<Rightarrow> nat option" where
  "at_round Idle = None"
| "at_round (Holding i) = Some i"
| "at_round (Finalizing i _) = Some i"
| "at_round (Waiting i) = Some i"

fun owns :: "pc \<Rightarrow> nat option" where
  "owns (Finalizing i _) = Some i"
| "owns _ = None"

lemma at_round_after_claim [simp]: "at_round (after_claim i esc won) = Some i"
  and owns_after_claim [simp]: "owns (after_claim i esc won) = (if won then Some i else None)"
  and waiting_after_claim [simp]: "after_claim i esc won = Waiting j \<longleftrightarrow> \<not> won \<and> i = j"
  by (simp_all add: after_claim_def)

definition book_ok :: "book \<Rightarrow> bool" where
  "book_ok b \<longleftrightarrow> bk_claimed b \<subseteq> {..<bk_spawned b} \<and> set (bk_posts b) \<subseteq> bk_claimed b \<and> distinct (bk_posts b) \<and>
     (\<forall>i. bk_flight b = Some i \<longrightarrow> i < bk_spawned b \<and> i \<notin> set (bk_posts b)) \<and>
     (\<forall>i. at_round (bk_main b) = Some i \<or> at_round (bk_poller b) = Some i \<longrightarrow> i < bk_spawned b) \<and>
     (\<forall>i. owns (bk_main b) = Some i \<or> owns (bk_poller b) = Some i \<longrightarrow> i \<in> bk_claimed b \<and> i \<notin> set (bk_posts b)) \<and>
     (\<forall>i. owns (bk_main b) = Some i \<longrightarrow> owns (bk_poller b) \<noteq> Some i) \<and>
     (\<forall>i. bk_main b = Waiting i \<or> bk_poller b = Waiting i \<longrightarrow> i \<in> bk_claimed b)"

lemma book_ok_step: "book_ok b \<Longrightarrow> bk_step strict b b' \<Longrightarrow> book_ok b'"
  by (erule bk_stepE; simp add: book_ok_def) (auto simp: less_Suc_eq)

lemma book_reach_ok: "bk_reach strict b \<Longrightarrow> book_ok b"
proof (induction rule: bk_reach.induct)
  case bk_start
  show ?case by (simp add: book_ok_def book_init_def)
qed (rule book_ok_step)

text \<open>With terminal rounds started on a drained pipeline, a round not posted yet is the one in
  flight, or the terminal round the main thread is busy with.\<close>

definition book_strict :: "book \<Rightarrow> bool" where
  "book_strict b \<longleftrightarrow>
     (\<forall>i < bk_spawned b. i \<notin> set (bk_posts b) \<longrightarrow>
        bk_flight b = Some i \<or>
        (bk_flight b = None \<and> at_round (bk_main b) = Some i \<and> (owns (bk_main b) = Some i \<or> i \<notin> bk_claimed b))) \<and>
     (\<forall>i. at_round (bk_poller b) = Some i \<and> i \<notin> set (bk_posts b) \<longrightarrow> bk_flight b = Some i)"

lemma book_strict_step: "book_ok b \<Longrightarrow> book_strict b \<Longrightarrow> bk_step True b b' \<Longrightarrow> book_strict b'"
proof (erule bk_stepE, goal_cases)
  case 2 then show ?case by (simp add: book_ok_def book_strict_def less_Suc_eq) metis
next
  case 3 then show ?case by (auto simp: book_ok_def book_strict_def less_Suc_eq)
next
  case 4 then show ?case by (auto simp: book_ok_def book_strict_def)
next
  case 5 then show ?case by (simp add: book_ok_def book_strict_def)
next
  case 6 then show ?case by (simp add: book_ok_def book_strict_def)
next
  case (7 i esc)
  have "bk_flight b = Some j \<or> (bk_flight b = None \<and> j = i \<and> i \<notin> bk_claimed b)"
    if "j < bk_spawned b" "j \<notin> set (bk_posts b)" for j
    using 7 that by (auto simp: book_strict_def)
  note pending = this
  have "\<forall>j. at_round (bk_poller b) = Some j \<and> j \<notin> set (bk_posts b) \<longrightarrow> bk_flight b = Some j"
    using 7 by (simp add: book_strict_def)
  with 7(3,4) show ?case unfolding book_strict_def by (auto dest: pending)
next
  case (8 i esc)
  have "i \<in> set (bk_posts b) \<or> bk_flight b = Some i" using 8 by (auto simp: book_strict_def)
  with 8 show ?case by (auto simp: book_strict_def)
next
  case (9 i esc)
  then have i: "i \<notin> set (bk_posts b)" "i < bk_spawned b" by (auto simp: book_ok_def)
  have pending: "bk_flight b = Some k \<or> (bk_flight b = None \<and> k = i)"
    if "k < bk_spawned b" "k \<notin> set (bk_posts b)" for k
    using 9 that by (auto simp: book_strict_def)
  have "j = i" if "j < bk_spawned b" "j \<notin> set (bk_posts b)" for j
    using pending [OF that] pending [OF i(2,1)] by auto
  moreover have "j = i" if "at_round (bk_poller b) = Some j" "j \<notin> set (bk_posts b)" for j
    using calculation that 9 by (auto simp: book_ok_def)
  ultimately show ?case using 9 by (auto simp: book_strict_def)
next
  case (10 i esc)
  then have i: "i \<notin> set (bk_posts b)" "bk_flight b = Some i" by (auto simp: book_ok_def book_strict_def)
  have "j = i" if "j < bk_spawned b" "j \<notin> set (bk_posts b)" for j
    using 10 i that by (auto simp: book_strict_def)
  then show ?case using 10 by (auto simp: book_strict_def)
next
  case (11 i)
  then have "i \<in> bk_claimed b" by (simp add: book_ok_def)
  with 11 have "bk_flight b = Some j" if "j < bk_spawned b" "j \<notin> set (bk_posts b)" for j
    using that by (auto simp: book_strict_def)
  with 11 show ?case by (simp add: book_strict_def)
next
  case (12 i) then show ?case by (simp add: book_ok_def book_strict_def)
qed simp

lemma book_reach_strict: "bk_reach True b \<Longrightarrow> book_strict b"
proof (induction rule: bk_reach.induct)
  case bk_start
  show ?case by (simp add: book_strict_def book_init_def)
next
  case (bk_more b b')
  then show ?case using book_strict_step book_reach_ok by blast
qed

section \<open>The pipeline implements it\<close>

definition posted_of :: "pl \<Rightarrow> nat \<Rightarrow> (string, json) dict option" where
  "posted_of p i = (if i < length (pl_rounds p) then if_result (pl_rounds p ! i) else None)"

definition claimed_of :: "pl \<Rightarrow> nat set" where
  "claimed_of p = {i. i < length (pl_rounds p) \<and> if_finalized (pl_rounds p ! i)}"

text \<open>Names: round \<open>i\<close> is named after its own index, indices increase, and a posted result carries its name.\<close>

definition names_ok :: "pl \<Rightarrow> bool" where
  "names_ok p \<longleftrightarrow> sorted_wrt (<) (map if_round_idx (pl_rounds p)) \<and>
     (\<forall>fl \<in> set (pl_rounds p). if_round_idx fl \<le> pl_counter p \<and>
        (\<exists>step t. if_round_id fl = round_id_of (if_round_idx fl) step t)) \<and>
     (\<forall>fl \<in> set (pl_rounds p). \<forall>r. if_result fl = Some r \<longrightarrow> map_of r ''round_id'' = Some (JStr (if_round_id fl)))"

definition implements :: "sys \<Rightarrow> book \<Rightarrow> bool" where
  "implements s b \<longleftrightarrow> (let p = s_pl s in
     bk_spawned b = length (pl_rounds p) \<and> bk_flight b = pl_inflight p \<and> bk_claimed b = claimed_of p \<and>
     bk_main b = s_main s \<and> bk_poller b = s_poller s \<and>
     map (posted_of p) (bk_posts b) = map Some (s_delivered s @ pl_mailbox p) \<and>
     (\<forall>i. i \<in> set (bk_posts b) \<longleftrightarrow> (\<exists>r. posted_of p i = Some r)) \<and> names_ok p)"

lemma same_rounds_view:
  assumes "same_rounds p q"
  shows "posted_of q = posted_of p" "claimed_of q = claimed_of p" "names_ok p \<Longrightarrow> names_ok q"
    "length (pl_rounds q) = length (pl_rounds p)" "pl_inflight q = pl_inflight p" "pl_mailbox q = pl_mailbox p"
  using assms by (auto simp: same_rounds_def posted_of_def claimed_of_def names_ok_def fun_eq_iff)

lemma posted_of_new: "new_round t p q \<Longrightarrow> posted_of q = posted_of p"
  and claimed_of_new: "new_round t p q \<Longrightarrow> claimed_of q = claimed_of p"
  by (auto simp: new_round_def posted_of_def claimed_of_def nth_append less_Suc_eq fun_eq_iff)

lemma names_ok_new: "new_round t p q \<Longrightarrow> names_ok p \<Longrightarrow> names_ok q"
  by (fastforce simp: new_round_def names_ok_def sorted_wrt_append)

lemma names_ok_update:
  assumes "names_ok p" "i < length (pl_rounds p)" and q: "pl_rounds q = (pl_rounds p)[i := fl]" "pl_counter q = pl_counter p"
    and "if_round_idx fl = if_round_idx (pl_rounds p ! i)" "if_round_id fl = if_round_id (pl_rounds p ! i)"
    and "\<And>r. if_result fl = Some r \<Longrightarrow> map_of r ''round_id'' = Some (JStr (if_round_id fl))"
  shows "names_ok q"
proof -
  have "map if_round_idx (pl_rounds q) = map if_round_idx (pl_rounds p)"
    using q(1) assms(2,5) by (simp add: map_update list_update_same_conv)
  moreover have old: "f = fl \<or> f \<in> set (pl_rounds p)" if "f \<in> set (pl_rounds q)" for f
    using that q(1) set_update_subset_insert [of "pl_rounds p" i fl] by auto
  moreover have "if_round_idx f \<le> pl_counter q \<and> (\<exists>step t. if_round_id f = round_id_of (if_round_idx f) step t)"
    if "f \<in> set (pl_rounds q)" for f
    using old [OF that] assms nth_mem [OF assms(2)] by (auto simp: names_ok_def)
  moreover have "map_of r ''round_id'' = Some (JStr (if_round_id f))"
    if "f \<in> set (pl_rounds q)" "if_result f = Some r" for f r
    using old [OF that(1)] that(2) assms(1,7) by (auto simp: names_ok_def)
  ultimately show ?thesis using assms(1) by (simp add: names_ok_def)
qed

lemma claim_effect:
  assumes "claim_round i p = (won, q)" "i < length (pl_rounds p)"
  shows "won \<longleftrightarrow> i \<notin> claimed_of p" "claimed_of q = insert i (claimed_of p)" "posted_of q = posted_of p"
    "length (pl_rounds q) = length (pl_rounds p)" "pl_inflight q = pl_inflight p" "pl_mailbox q = pl_mailbox p"
    "names_ok p \<Longrightarrow> names_ok q"
proof -
  let ?fl = "pl_rounds p ! i"
  consider "if_finalized ?fl" | "\<not> if_finalized ?fl" "q = p\<lparr>pl_rounds := (pl_rounds p)[i := ?fl\<lparr>if_finalized := True\<rparr>]\<rparr>"
    using assms(1) by (auto simp: claim_round_def Let_def split: if_splits)
  note two = this
  show "won \<longleftrightarrow> i \<notin> claimed_of p" "length (pl_rounds q) = length (pl_rounds p)" "pl_inflight q = pl_inflight p"
    "pl_mailbox q = pl_mailbox p" "claimed_of q = insert i (claimed_of p)" "posted_of q = posted_of p"
    using assms by (auto simp: claim_round_def Let_def claimed_of_def posted_of_def nth_list_update fun_eq_iff split: if_splits)
  show "names_ok q" if n: "names_ok p"
    using two
  proof cases
    case 1
    then show ?thesis using assms(1) that by (auto simp: claim_round_def Let_def names_ok_def)
  next
    case 2
    have "if_result ?fl = Some r \<Longrightarrow> map_of r ''round_id'' = Some (JStr (if_round_id ?fl))" for r
      using n assms(2) by (auto simp: names_ok_def)
    with 2 n assms(2) show ?thesis
      by (intro names_ok_update [of p i q "?fl\<lparr>if_finalized := True\<rparr>"]) simp_all
  qed
qed

lemma finish_effect:
  assumes "i < length (pl_rounds p)"
  shows "\<exists>result. claimed_of (finish_round show_exc i esc now p) = claimed_of p \<and>
     posted_of (finish_round show_exc i esc now p) = (posted_of p)(i := Some result) \<and>
     length (pl_rounds (finish_round show_exc i esc now p)) = length (pl_rounds p) \<and>
     pl_inflight (finish_round show_exc i esc now p) = None \<and>
     pl_mailbox (finish_round show_exc i esc now p) = pl_mailbox p @ [result] \<and>
     (names_ok p \<longrightarrow> names_ok (finish_round show_exc i esc now p))"
proof -
  let ?fl = "pl_rounds p ! i"
  obtain result q where f: "finalize_body show_exc ?fl (pl_children p ! i) esc (max (now - if_t0 ?fl) 0) p = (Inr result, q)"
    and c: "core q = core p" and ok: "finalized_ok ?fl (pl_children p ! i) esc result"
    using finalize_total [of show_exc ?fl "pl_children p ! i" esc "max (now - if_t0 ?fl) 0" p] by blast
  let ?q = "publish_round i result q"
  let ?fl' = "?fl\<lparr>if_result := Some result, if_done := True\<rparr>"
  have q: "pl_rounds ?q = (pl_rounds p)[i := ?fl']" "pl_counter ?q = pl_counter p"
    "pl_mailbox ?q = pl_mailbox p @ [result]" "pl_inflight ?q = None"
    using c by (simp_all add: core_def publish_round_def)
  have id: "map_of result ''round_id'' = Some (JStr (if_round_id ?fl))"
    using ok by (auto simp: finalized_ok_def)
  have "names_ok ?q" if "names_ok p"
    using that assms id q(1,2) by (intro names_ok_update [of p i ?q ?fl']) simp_all
  moreover have "claimed_of ?q = claimed_of p" "posted_of ?q = (posted_of p)(i := Some result)"
    using q(1) assms by (auto simp: claimed_of_def posted_of_def nth_list_update fun_eq_iff)
  moreover have "finish_round show_exc i esc now p = ?q" using f by (simp add: finish_round_def Let_def)
  ultimately show ?thesis using q by (intro exI [of _ result]) simp
qed

lemma untouched_view [simp]:
  "posted_of (p\<lparr>pl_children := cs\<rparr>) = posted_of p" "posted_of (p\<lparr>pl_mailbox := m\<rparr>) = posted_of p"
  "claimed_of (p\<lparr>pl_children := cs\<rparr>) = claimed_of p" "claimed_of (p\<lparr>pl_mailbox := m\<rparr>) = claimed_of p"
  "names_ok (p\<lparr>pl_children := cs\<rparr>) = names_ok p" "names_ok (p\<lparr>pl_mailbox := m\<rparr>) = names_ok p"
  by (simp_all add: posted_of_def claimed_of_def names_ok_def fun_eq_iff)

lemma implements_children:
  "implements s b \<Longrightarrow> implements (s\<lparr>s_pl := (s_pl s)\<lparr>pl_children := cs\<rparr>\<rparr>) b"
  by (simp add: implements_def Let_def)

lemma implements_init: "implements sys_init book_init"
  by (simp add: implements_def sys_init_def pl_init_def book_init_def posted_of_def claimed_of_def names_ok_def Let_def)

lemma implements_bound:
  assumes "implements s b" "book_ok b"
  shows "at_round (s_main s) = Some i \<Longrightarrow> i < length (pl_rounds (s_pl s))"
    "at_round (s_poller s) = Some i \<Longrightarrow> i < length (pl_rounds (s_pl s))"
    "owns (s_main s) = Some i \<Longrightarrow> posted_of (s_pl s) i = None"
    "owns (s_poller s) = Some i \<Longrightarrow> posted_of (s_pl s) i = None"
  using assms by (auto simp: implements_def book_ok_def Let_def)

text \<open>Every step of the pipeline is a step of the specification, or leaves it where it is.\<close>

lemma post_implements:
  assumes "implements s b" "i < length (pl_rounds (s_pl s))" "posted_of (s_pl s) i = None"
  shows "implements (s\<lparr>s_pl := finish_round show_exc i esc now (s_pl s), s_main := m, s_poller := w\<rparr>)
    (b\<lparr>bk_flight := None, bk_posts := bk_posts b @ [i], bk_main := m, bk_poller := w\<rparr>)"
proof -
  obtain result where f: "claimed_of (finish_round show_exc i esc now (s_pl s)) = claimed_of (s_pl s)"
     "posted_of (finish_round show_exc i esc now (s_pl s)) = (posted_of (s_pl s))(i := Some result)"
     "length (pl_rounds (finish_round show_exc i esc now (s_pl s))) = length (pl_rounds (s_pl s))"
     "pl_inflight (finish_round show_exc i esc now (s_pl s)) = None"
     "pl_mailbox (finish_round show_exc i esc now (s_pl s)) = pl_mailbox (s_pl s) @ [result]"
     "names_ok (s_pl s) \<longrightarrow> names_ok (finish_round show_exc i esc now (s_pl s))"
    using finish_effect [OF assms(2)] by blast
  have new: "i \<notin> set (bk_posts b)" using assms(1,3) by (auto simp: implements_def Let_def)
  then have "map ((posted_of (s_pl s))(i := Some result)) (bk_posts b) = map (posted_of (s_pl s)) (bk_posts b)"
    by (auto intro: map_cong)
  then show ?thesis using assms(1) f unfolding implements_def Let_def by simp
qed

lemma claim_implements:
  assumes "implements s b" "claim_round i (s_pl s) = (won, p)" "i < length (pl_rounds (s_pl s))"
  shows "implements (s\<lparr>s_pl := p, s_main := m, s_poller := w\<rparr>)
    (b\<lparr>bk_claimed := insert i (bk_claimed b), bk_main := m, bk_poller := w\<rparr>) \<and> won = (i \<notin> bk_claimed b)"
  using assms(1) claim_effect [OF assms(2,3)] by (simp add: implements_def Let_def)

lemma spawn_implements:
  assumes "implements s b" "new_round t (s_pl s) q"
  shows "implements (s\<lparr>s_pl := q, s_main := m\<rparr>)
    (b\<lparr>bk_spawned := Suc (bk_spawned b), bk_flight := pl_inflight q, bk_main := m\<rparr>)"
  using assms posted_of_new [OF assms(2)] claimed_of_new [OF assms(2)] names_ok_new [OF assms(2)]
  unfolding implements_def Let_def new_round_def by auto

text \<open>Writing back the value a field already has changes nothing.\<close>

lemma keep:
  "bk_main b = m \<Longrightarrow> b\<lparr>bk_spawned := n, bk_flight := f, bk_main := m\<rparr> = b\<lparr>bk_spawned := n, bk_flight := f\<rparr>"
  "bk_flight b = f \<Longrightarrow> b\<lparr>bk_spawned := n, bk_flight := f, bk_main := m\<rparr> = b\<lparr>bk_spawned := n, bk_main := m\<rparr>"
  "bk_poller b = w \<Longrightarrow> b\<lparr>bk_claimed := c, bk_main := m, bk_poller := w\<rparr> = b\<lparr>bk_claimed := c, bk_main := m\<rparr>"
  "bk_main b = m \<Longrightarrow> b\<lparr>bk_claimed := c, bk_main := m, bk_poller := w\<rparr> = b\<lparr>bk_claimed := c, bk_poller := w\<rparr>"
  "bk_poller b = w \<Longrightarrow> b\<lparr>bk_flight := f, bk_posts := ps, bk_main := m, bk_poller := w\<rparr> = b\<lparr>bk_flight := f, bk_posts := ps, bk_main := m\<rparr>"
  "bk_main b = m \<Longrightarrow> b\<lparr>bk_flight := f, bk_posts := ps, bk_main := m, bk_poller := w\<rparr> = b\<lparr>bk_flight := f, bk_posts := ps, bk_poller := w\<rparr>"
  "s_poller s = w \<Longrightarrow> s\<lparr>s_pl := p, s_main := m, s_poller := w\<rparr> = s\<lparr>s_pl := p, s_main := m\<rparr>"
  "s_main s = m \<Longrightarrow> s\<lparr>s_pl := p, s_main := m, s_poller := w\<rparr> = s\<lparr>s_pl := p, s_poller := w\<rparr>"
  "s_main s = m \<Longrightarrow> s\<lparr>s_pl := p, s_main := m\<rparr> = s\<lparr>s_pl := p\<rparr>"
  by (cases b; cases s; simp)+

lemma step_implements:
  assumes "pl_step cfg show_exc strict s s'" "implements s b" "book_ok b"
  shows "\<exists>b'. bk_step strict b b' \<and> implements s' b'"
proof -
  note pcs = assms(2) [unfolded implements_def Let_def]
  note bound = implements_bound [OF assms(2,3)]
  from assms(1) show ?thesis
  proof cases
    case (kick step has_best now ts r p)
    from run_evaluation_effect [OF kick(3)] show ?thesis
    proof
      assume e: "same_rounds (s_pl s) p"
      then have "implements s' b" using assms(2) same_rounds_view [OF e] kick(1) by (simp add: implements_def Let_def)
      then show ?thesis using bk_stays by blast
    next
      assume e: "pl_inflight (s_pl s) = None \<and> new_round False (s_pl s) p \<and> pl_inflight p = Some (length (pl_rounds (s_pl s)))"
      have "bk_step strict b (b\<lparr>bk_spawned := Suc (bk_spawned b), bk_flight := Some (bk_spawned b)\<rparr>)"
        using pcs kick(2) e by (intro bk_kick) simp_all
      moreover have "implements s' (b\<lparr>bk_spawned := Suc (bk_spawned b), bk_flight := Some (bk_spawned b)\<rparr>)"
        using spawn_implements [OF assms(2), of False p "s_main s"] e kick(1) pcs by (simp add: keep)
      ultimately show ?thesis by blast
    qed
  next
    case (terminal step has_best now ts r p)
    from start_terminal_effect [OF terminal(4)] show ?thesis
    proof
      assume e: "same_rounds (s_pl s) p \<and> (\<exists>e. r = Inl e)"
      then have "implements s' b" using assms(2) same_rounds_view [of "s_pl s" p] terminal(1,2)
        by (auto simp: implements_def Let_def)
      then show ?thesis using bk_stays by blast
    next
      assume e: "new_round True (s_pl s) p \<and> pl_inflight p = pl_inflight (s_pl s) \<and> r = Inr (length (pl_rounds (s_pl s)))"
      have "bk_step strict b (b\<lparr>bk_spawned := Suc (bk_spawned b), bk_main := Holding (bk_spawned b)\<rparr>)"
        using pcs terminal(2,3) by (intro bk_terminal) simp_all
      moreover have "implements s' (b\<lparr>bk_spawned := Suc (bk_spawned b), bk_main := Holding (bk_spawned b)\<rparr>)"
        using spawn_implements [OF assms(2), of True p "Holding (bk_spawned b)"] e terminal(1) pcs by (simp add: keep)
      ultimately show ?thesis by blast
    qed
  next
    case (child_exits i ch)
    then have "implements s' b" using implements_children [OF assms(2)] by simp
    then show ?thesis using bk_stays by blast
  next
    case (main_reads i)
    then show ?thesis using pcs
      by (intro exI [of _ "b\<lparr>bk_main := Holding i\<rparr>"] conjI bk_main_reads) (simp_all add: implements_def Let_def)
  next
    case (poller_reads i)
    then show ?thesis using pcs
      by (intro exI [of _ "b\<lparr>bk_poller := Holding i\<rparr>"] conjI bk_poller_reads) (simp_all add: implements_def Let_def)
  next
    case (poller_loops i)
    then show ?thesis using pcs
      by (intro exI [of _ "b\<lparr>bk_poller := Idle\<rparr>"] conjI bk_poller_loops) (simp_all add: implements_def Let_def)
  next
    case (main_claims i escalated won p)
    let ?b = "b\<lparr>bk_claimed := insert i (bk_claimed b), bk_main := after_claim i escalated (i \<notin> bk_claimed b)\<rparr>"
    have "bk_step strict b ?b" using pcs main_claims(2) by (intro bk_main_claims) simp
    moreover have "implements s' ?b"
      using claim_implements [OF assms(2) main_claims(4), where m = "after_claim i escalated won" and w = "s_poller s"] bound(1) main_claims(1,2) pcs
      by (auto simp add: keep)
    ultimately show ?thesis by blast
  next
    case (poller_claims i escalated won p)
    let ?b = "b\<lparr>bk_claimed := insert i (bk_claimed b), bk_poller := after_claim i escalated (i \<notin> bk_claimed b)\<rparr>"
    have "bk_step strict b ?b" using pcs poller_claims(2) by (intro bk_poller_claims) simp
    moreover have "implements s' ?b"
      using claim_implements [OF assms(2) poller_claims(4), where m = "s_main s" and w = "after_claim i escalated won"] bound(2) poller_claims(1,2) pcs
      by (auto simp add: keep)
    ultimately show ?thesis by blast
  next
    case (main_finishes i escalated now)
    let ?b = "b\<lparr>bk_flight := None, bk_posts := bk_posts b @ [i], bk_main := Idle\<rparr>"
    have "bk_step strict b ?b" using pcs main_finishes(2) by (intro bk_main_posts) simp
    moreover have "implements s' ?b"
      using post_implements [OF assms(2), where i = i and show_exc = show_exc and esc = escalated and now = now and m = Idle and w = "s_poller s"] bound(1,3) main_finishes pcs by (simp add: keep)
    ultimately show ?thesis by blast
  next
    case (poller_finishes i escalated now)
    let ?b = "b\<lparr>bk_flight := None, bk_posts := bk_posts b @ [i], bk_poller := Idle\<rparr>"
    have "bk_step strict b ?b" using pcs poller_finishes(2) by (intro bk_poller_posts) simp
    moreover have "implements s' ?b"
      using post_implements [OF assms(2), where i = i and show_exc = show_exc and esc = escalated and now = now and m = "s_main s" and w = Idle] bound(2,4) poller_finishes pcs by (simp add: keep)
    ultimately show ?thesis by blast
  next
    case (main_waited i)
    then show ?thesis using pcs
      by (intro exI [of _ "b\<lparr>bk_main := Idle\<rparr>"] conjI bk_main_waited) (simp_all add: implements_def Let_def)
  next
    case (poller_waited i)
    then show ?thesis using pcs
      by (intro exI [of _ "b\<lparr>bk_poller := Idle\<rparr>"] conjI bk_poller_waited) (simp_all add: implements_def Let_def)
  next
    case (polls r p)
    then have "implements s' b" using assms(2)
      by (auto simp: implements_def Let_def poll_completed_def split: list.splits)
    then show ?thesis using bk_stays by blast
  next
    case (drains d p)
    then have "implements s' b" using assms(2)
      by (auto simp: implements_def Let_def take_mailbox_def split: list.splits)
    then show ?thesis using bk_stays by blast
  next
    case (restores n r p)
    then have "same_rounds (s_pl s) p" by (auto simp: restore_round_state_def same_rounds_def split: if_splits)
    then have "implements s' b" using assms(2) same_rounds_view [of "s_pl s" p] restores(1)
      by (simp add: implements_def Let_def)
    then show ?thesis using bk_stays by blast
  qed
qed

lemma reach_implements: "pl_reach cfg show_exc strict s \<Longrightarrow> \<exists>b. bk_reach strict b \<and> implements s b"
proof (induction rule: pl_reach.induct)
  case start
  show ?case using bk_start implements_init by blast
next
  case (more s s')
  then show ?case using step_implements book_reach_ok bk_more by metis
qed

section \<open>Round ids\<close>

lemma underscore_no_digit: "CHR ''_'' \<notin> digit_chars"
proof
  assume "CHR ''_'' \<in> digit_chars"
  then obtain d where "d < 10" "digit d = CHR ''_''" by (auto simp: digit_chars_def)
  then have "48 + d = (of_char (CHR ''_'') :: nat)" by (metis of_char_digit)
  with \<open>d < 10\<close> show False by simp
qed

lemma pad6_chars: "CHR ''_'' \<notin> set (pad6 n)"
  using str_nat_chars [of n] underscore_no_digit by (auto simp: pad6_def)

lemma round_id_idx: "round_id_of i s t = round_id_of j s' t' \<Longrightarrow> i = j"
proof -
  have pre: "takeWhile (\<lambda>c. c \<noteq> CHR ''_'') (tl (round_id_of n s t)) = pad6 n" for n s t
  proof -
    have "takeWhile (\<lambda>c. c \<noteq> CHR ''_'') (pad6 n) = pad6 n"
      using pad6_chars [of n] by (auto simp: takeWhile_eq_all_conv)
    then show ?thesis by (simp add: round_id_of_def takeWhile_tail)
  qed
  have un: "undigits (pad6 n) = n" for n
    by (simp add: pad6_def undigits_zeros undigits_str_nat)
  assume "round_id_of i s t = round_id_of j s' t'"
  with pre [of i s t] pre [of j s' t'] have "pad6 i = pad6 j" by metis
  with un show "i = j" by metis
qed

lemma round_ids_distinct:
  assumes "names_ok p" "i < length (pl_rounds p)" "j < length (pl_rounds p)"
    and "if_round_id (pl_rounds p ! i) = if_round_id (pl_rounds p ! j)"
  shows "i = j"
proof -
  have "if_round_idx (pl_rounds p ! i) = if_round_idx (pl_rounds p ! j)"
    using assms nth_mem [OF assms(2)] nth_mem [OF assms(3)] unfolding names_ok_def by (metis round_id_idx)
  moreover have "if_round_idx (pl_rounds p ! a) < if_round_idx (pl_rounds p ! b)"
    if "a < b" "b < length (pl_rounds p)" for a b
    using assms(1) that by (auto simp: names_ok_def sorted_wrt_map sorted_wrt_iff_nth_less)
  ultimately show ?thesis using assms(2,3) by (metis nat_neq_iff order_less_irrefl)
qed

section \<open>Properties\<close>

text \<open>C2: Once only, under every interleaving: however the trainer's thread, the poller and the worker's
  exit interleave, no two results posted to the mailbox or already handed out name the same round, and
  there are exactly as many of them as rounds with a result, so no round is promoted twice.\<close>

theorem rounds_post_once:
  assumes "pl_reach cfg show_exc strict s"
  shows "distinct (map (\<lambda>r. map_of r ''round_id'') (s_delivered s @ pl_mailbox (s_pl s))) \<and>
    length (s_delivered s @ pl_mailbox (s_pl s)) = card {i. \<exists>r. posted_of (s_pl s) i = Some r}"
proof -
  let ?p = "s_pl s" and ?out = "s_delivered s @ pl_mailbox (s_pl s)"
  obtain b where r: "bk_reach strict b" "implements s b" using reach_implements [OF assms] by blast
  have d: "distinct (bk_posts b)" using book_reach_ok [OF r(1)] by (simp add: book_ok_def)
  have posts: "map (posted_of ?p) (bk_posts b) = map Some ?out"
    "set (bk_posts b) = {i. \<exists>r. posted_of ?p i = Some r}" "names_ok ?p"
    using r(2) by (auto simp: implements_def Let_def)
  have name: "map_of r ''round_id'' = Some (JStr (if_round_id (pl_rounds ?p ! i)))" if "posted_of ?p i = Some r" for i r
    using that posts(3) by (auto simp: names_ok_def posted_of_def split: if_splits)
  have "?out = map the (map (posted_of ?p) (bk_posts b))" by (simp only: posts(1) map_map) simp
  moreover have "map_of (the (posted_of ?p i)) ''round_id'' = Some (JStr (if_round_id (pl_rounds ?p ! i)))"
    if "i \<in> set (bk_posts b)" for i
    using that posts(2) name by auto
  ultimately have names: "map (\<lambda>r. map_of r ''round_id'') ?out =
      map (\<lambda>i. Some (JStr (if_round_id (pl_rounds ?p ! i)))) (bk_posts b)"
    by simp
  have "inj_on (\<lambda>i. Some (JStr (if_round_id (pl_rounds ?p ! i)))) (set (bk_posts b))"
    using round_ids_distinct [OF posts(3)] posts(2) by (auto simp: inj_on_def posted_of_def split: if_splits)
  with d names have "distinct (map (\<lambda>r. map_of r ''round_id'') ?out)" by (simp only: distinct_map)
  moreover have "length ?out = card {i. \<exists>r. posted_of ?p i = Some r}"
    using posts(1,2) distinct_card [OF d] by (metis length_map)
  ultimately show ?thesis ..
qed

text \<open>C15: Nothing is lost: when terminal rounds start on a drained pipeline, as \<open>close_out\<close> arranges, at
  most one round at a time has no result yet, and once the main thread is idle with nothing in flight
  every round ever kicked has its result in the mailbox or handed out.\<close>

theorem no_round_is_lost:
  assumes "pl_reach cfg show_exc True s"
  shows "card {i. i < length (pl_rounds (s_pl s)) \<and> posted_of (s_pl s) i = None} \<le> 1 \<and>
    (s_main s = Idle \<and> pl_inflight (s_pl s) = None \<longrightarrow>
     length (s_delivered s @ pl_mailbox (s_pl s)) = length (pl_rounds (s_pl s)))"
proof -
  let ?p = "s_pl s" and ?out = "s_delivered s @ pl_mailbox (s_pl s)"
  obtain b where r: "bk_reach True b" "implements s b" using reach_implements [OF assms] by blast
  note ok = book_reach_ok [OF r(1)] and st = book_reach_strict [OF r(1)]
  note i = r(2) [unfolded implements_def Let_def]
  let ?open = "{i. i < length (pl_rounds ?p) \<and> posted_of ?p i = None}"
  have pend: "bk_flight b = Some j \<or> (bk_flight b = None \<and> at_round (bk_main b) = Some j)" if "j \<in> ?open" for j
    using st i that by (auto simp: book_strict_def)
  then have "j = k" if "j \<in> ?open" "k \<in> ?open" for j k
    using that by (metis option.distinct(1) option.inject)
  then have "card ?open \<le> 1" by (simp add: card_le_Suc0_iff_eq)
  moreover have "length ?out = length (pl_rounds ?p)" if "s_main s = Idle" "pl_inflight ?p = None"
  proof -
    have "posted_of ?p j \<noteq> None" if "j < length (pl_rounds ?p)" for j
      using pend [of j] i that \<open>s_main s = Idle\<close> \<open>pl_inflight ?p = None\<close> by auto
    then have "set (bk_posts b) = {..<length (pl_rounds ?p)}"
      using i by (auto simp: posted_of_def split: if_splits)
    moreover have "distinct (bk_posts b)" using ok by (simp add: book_ok_def)
    ultimately have "length (bk_posts b) = length (pl_rounds ?p)" by (metis card_lessThan distinct_card)
    then show ?thesis using i by (metis length_map)
  qed
  ultimately show ?thesis by auto
qed

text \<open>A run: a round is kicked, its worker exits, the poller finalises it.\<close>

definition demo_cfg :: pl_cfg where
  "demo_cfg = \<lparr>pc_gate_stride = 1, pc_gate_fields = map (\<lambda>(f, _). (f, PInt 1)) (dc_fields GateSpec),
     pc_fixed_fields = map (\<lambda>(f, _). (f, PInt 1)) (dc_fields RoundSpec), pc_round_timeout_sec = 60,
     pc_kill_grace = Fin 5, pc_spool_dir = ''spool'', pc_work_dir = ''work'',
     pc_caps = \<lparr>dc_drain_timeout = 1, dc_safety_factor = 2, dc_hard_cap = 3, dc_terminal_cap = 4\<rparr>\<rparr>"

lemma construct_total:
  assumes "\<And>f dflt. (f, dflt) \<in> set (dc_fields cls) \<Longrightarrow> f \<in> dkeys kwargs" "dkeys kwargs \<subseteq> fst ` set (dc_fields cls)"
  shows "\<exists>v. construct cls kwargs = Inr v"
  using construct_fields [of cls kwargs "\<lambda>f. the (map_of kwargs f)"] assms
  by (metis map_of_None_dkeys option.exhaust_sel)

lemma dkeys_const: "dkeys (map (\<lambda>(f, _). (f, c)) fs) = fst ` set fs"
  by (auto simp: dkeys_def image_image case_prod_beta)

lemma demo_spec: "\<exists>spec. build_round_spec demo_cfg 500 True (round_id_of 1 500 False) 1 False = Inr spec"
proof -
  have run: "gate_scheduled demo_cfg True 1 False = Inr True" by (simp add: gate_scheduled_def demo_cfg_def)
  have "\<exists>g. construct GateSpec (AList.update ''run_gate'' (PBool True)
      (AList.update ''stride'' (PInt 1) (pc_gate_fields demo_cfg))) = Inr g"
    by (rule construct_total) (auto simp: demo_cfg_def dkeys_const GateSpec_def required_def)
  then obtain g where g: "construct GateSpec (AList.update ''run_gate'' (PBool True)
      (AList.update ''stride'' (PInt (pc_gate_stride demo_cfg)) (pc_gate_fields demo_cfg))) = Inr g"
    by (auto simp: demo_cfg_def)
  have names: "{''round_id'', ''round_index'', ''step'', ''candidate_snapshot'', ''best_snapshot'', ''best_step'', ''gate'',
      ''rung_jobs'', ''round_timeout_sec'', ''result_path'', ''progress_path'', ''rung_concurrency''}
      \<subseteq> fst ` set (dc_fields RoundSpec)"
    by (simp add: RoundSpec_def round_fields_def required_def)
  have any: "\<exists>v. construct RoundSpec (xs @ pc_fixed_fields demo_cfg) = Inr v" if "dkeys xs \<subseteq> fst ` set (dc_fields RoundSpec)" for xs
    by (rule construct_total) (use that in \<open>force simp: demo_cfg_def dkeys_const\<close>)+
  have all: "\<exists>v. construct RoundSpec ([(''round_id'', a1), (''round_index'', a2), (''step'', a3),
      (''candidate_snapshot'', a4), (''best_snapshot'', a5), (''best_step'', a6), (''gate'', a7), (''rung_jobs'', a8),
      (''round_timeout_sec'', a9), (''result_path'', b1), (''progress_path'', b2), (''rung_concurrency'', b3)]
      @ pc_fixed_fields demo_cfg) = Inr v" for a1 a2 a3 a4 a5 a6 a7 a8 a9 b1 b2 b3
    by (rule any) (use names in simp)
  have ok: "\<exists>v. m = Inr v \<Longrightarrow> \<exists>w. rbind m (\<lambda>x. Inr (f x)) = Inr w" for m :: "pyval res" and f :: "pyval \<Rightarrow> pyval \<times> bool \<times> string"
    by (metis rbind_simps(2))
  show ?thesis unfolding build_round_spec_def Let_def
    by (simp only: run g rbind_simps) (rule ok, rule all)
qed

lemma demo_kick:
  "\<exists>r p. run_evaluation demo_cfg True 500 True 0 0 pl_init = (r, p) \<and> pl_inflight p = Some 0 \<and>
     length (pl_rounds p) = 1 \<and> length (pl_children p) = 1 \<and> ch_alive (pl_children p ! 0) \<and> \<not> if_finalized (pl_rounds p ! 0)"
  using demo_spec
  by (auto simp: run_evaluation_def kick_round_def pl_init_def next_round_idx_def act_defs Let_def spawn_round_def
      new_inflight_def new_child_def emit_round_started_def emit_def)

lemma demo_suppressed:
  "run_evaluation demo_cfg True 500 True 0 0 pl_init = (r, p) \<Longrightarrow> pl_suppressed p = 0"
  using demo_spec
  by (auto simp: run_evaluation_def kick_round_def pl_init_def next_round_idx_def act_defs Let_def spawn_round_def
      emit_round_started_def emit_def)

lemma demo_run:
  "\<exists>s. pl_reach demo_cfg exc_name True s \<and> s_main s = Idle \<and> pl_inflight (s_pl s) = None \<and> length (pl_rounds (s_pl s)) = 1"
proof -
  let ?step = "pl_step demo_cfg exc_name True" and ?dead = "new_child\<lparr>ch_alive := False, ch_exitcode := Some 0\<rparr>"
  obtain r p where k: "run_evaluation demo_cfg True 500 True 0 0 pl_init = (r, p)" and p: "pl_inflight p = Some 0"
    "length (pl_rounds p) = 1" "length (pl_children p) = 1" "ch_alive (pl_children p ! 0)" "\<not> if_finalized (pl_rounds p ! 0)"
    using demo_kick by blast
  let ?s1 = "sys_init\<lparr>s_pl := p\<rparr>"
  let ?p2 = "p\<lparr>pl_children := (pl_children p)[0 := ?dead]\<rparr>"
  let ?s2 = "sys_init\<lparr>s_pl := ?p2\<rparr>" and ?s3 = "sys_init\<lparr>s_pl := ?p2, s_poller := Holding 0\<rparr>"
  obtain p4 where p4: "claim_round 0 ?p2 = (True, p4)" using p by (simp add: claim_round_def Let_def)
  then have l4: "length (pl_rounds p4) = 1" using p(2,5) by (auto simp: claim_round_def Let_def)
  let ?s4 = "sys_init\<lparr>s_pl := p4, s_poller := Finalizing 0 None\<rparr>"
  let ?s5 = "sys_init\<lparr>s_pl := finish_round exc_name 0 None 9 p4, s_poller := Idle\<rparr>"
  have "pl_reach demo_cfg exc_name True ?s1"
    using k by (intro more [OF start] kick [where s = sys_init]) (simp_all add: sys_init_def)
  moreover have "?step ?s1 ?s2" using child_exits [where s = ?s1 and i = 0 and ch = ?dead and strict = True] p by simp
  moreover have "?step ?s2 ?s3" using poller_reads [of ?s2 0 demo_cfg exc_name True] p by (simp add: sys_init_def)
  moreover have "?step ?s3 ?s4"
    using poller_claims [where s = ?s3 and i = 0 and escalated = None and won = True and p = p4 and strict = True] p p4
    by (simp add: after_claim_def)
  moreover have "?step ?s4 ?s5"
    using poller_finishes [where s = ?s4 and i = 0 and escalated = None and now = 9 and strict = True] by simp
  ultimately have "pl_reach demo_cfg exc_name True ?s5" by (meson more)
  moreover have "pl_inflight (s_pl ?s5) = None" "length (pl_rounds (s_pl ?s5)) = 1" "s_main ?s5 = Idle"
    using finish_effect [of 0 p4 exc_name None 9] l4 by (auto simp: sys_init_def)
  ultimately show ?thesis by blast
qed

theorem rounds_post_once_witness:
  "\<exists>s. pl_reach demo_cfg exc_name True s \<and> length (pl_rounds (s_pl s)) = 1 \<and>
     distinct (map (\<lambda>r. map_of r ''round_id'') (s_delivered s @ pl_mailbox (s_pl s)))"
  using demo_run rounds_post_once by blast

theorem no_round_is_lost_witness:
  "\<exists>s. pl_reach demo_cfg exc_name True s \<and> length (s_delivered s @ pl_mailbox (s_pl s)) = 1"
proof -
  obtain s where s: "pl_reach demo_cfg exc_name True s" "s_main s = Idle" "pl_inflight (s_pl s) = None"
    "length (pl_rounds (s_pl s)) = 1" using demo_run by blast
  from no_round_is_lost [OF s(1)] s(2-4) have "length (s_delivered s @ pl_mailbox (s_pl s)) = 1" by simp
  with s(1) show ?thesis by blast
qed

text \<open>The reason of an abandoned round is a race: there is a run in which the main thread abandons
  the round in flight (its claim is for \<open>ABANDONED\<close>), the poller sees the terminated worker
  first and finalises it, and the round is posted as \<open>killed\<close>.\<close>

theorem abandon_may_report_killed:
  "\<exists>s r. pl_reach demo_cfg exc_name True s \<and> s_main s = Waiting 0 \<and> pl_suppressed (s_pl s) = 1 \<and>
     pl_mailbox (s_pl s) = [r] \<and> map_of r ''eval_broken_reason'' = Some (JStr (wire KILLED))"
proof -
  let ?step = "pl_step demo_cfg exc_name True" and ?dead = "new_child\<lparr>ch_alive := False, ch_exitcode := Some (- 15)\<rparr>"
  obtain r p where k: "run_evaluation demo_cfg True 500 True 0 0 pl_init = (r, p)" and p: "pl_inflight p = Some 0"
    "length (pl_rounds p) = 1" "length (pl_children p) = 1" "ch_alive (pl_children p ! 0)" "\<not> if_finalized (pl_rounds p ! 0)"
    "same_rounds pl_init p \<or> new_round False pl_init p" "pl_suppressed p = 0"
    using demo_kick run_evaluation_effect demo_suppressed by metis
  let ?p2 = "p\<lparr>pl_children := (pl_children p)[0 := ?dead]\<rparr>"
  let ?s1 = "\<lparr>s_pl = p, s_main = Idle, s_poller = Idle, s_delivered = []\<rparr>" and ?s2 = "\<lparr>s_pl = p, s_main = Holding 0, s_poller = Idle, s_delivered = []\<rparr>"
  let ?s3 = "\<lparr>s_pl = p, s_main = Holding 0, s_poller = Holding 0, s_delivered = []\<rparr>"
  let ?s4 = "\<lparr>s_pl = ?p2, s_main = Holding 0, s_poller = Holding 0, s_delivered = []\<rparr>"
  let ?p5 = "?p2\<lparr>pl_rounds := (pl_rounds p)[0 := (pl_rounds p ! 0)\<lparr>if_finalized := True\<rparr>]\<rparr>"
  have c5: "claim_round 0 ?p2 = (True, ?p5)" using p by (simp add: claim_round_def Let_def)
  let ?s5 = "\<lparr>s_pl = ?p5, s_main = Holding 0, s_poller = Finalizing 0 None, s_delivered = []\<rparr>"
  obtain p6 where c6: "claim_round 0 ?p5 = (False, p6)" and p6: "pl_suppressed p6 = 1" "pl_rounds p6 = pl_rounds ?p5"
    "pl_children p6 = pl_children ?p5" "pl_mailbox p6 = pl_mailbox p"
    using p by (auto simp: claim_round_def Let_def)
  let ?s6 = "\<lparr>s_pl = p6, s_main = Waiting 0, s_poller = Finalizing 0 None, s_delivered = []\<rparr>"
  let ?s7 = "\<lparr>s_pl = finish_round exc_name 0 None 9 p6, s_main = Waiting 0, s_poller = Idle, s_delivered = []\<rparr>"
  have "pl_reach demo_cfg exc_name True ?s1"
    using k more [OF start kick [where s = sys_init and cfg = demo_cfg and r = r and p = p]] by (simp add: sys_init_def)
  moreover have "?step ?s1 ?s2" using main_reads [where s = ?s1 and i = 0] p by (simp add: sys_init_def)
  moreover have "?step ?s2 ?s3" using poller_reads [where s = ?s2 and i = 0] p by (simp add: sys_init_def)
  moreover have "?step ?s3 ?s4" using child_exits [where s = ?s3 and i = 0 and ch = ?dead and strict = True] p by simp
  moreover have "?step ?s4 ?s5"
    using poller_claims [where s = ?s4 and i = 0 and escalated = None and won = True and p = ?p5 and strict = True] p c5
    by (simp add: after_claim_def)
  moreover have "?step ?s5 ?s6"
    using main_claims [where s = ?s5 and i = 0 and escalated = "Some ABANDONED" and won = False and p = p6 and strict = True] c6
    by (simp add: after_claim_def)
  moreover have "?step ?s6 ?s7"
    using poller_finishes [where s = ?s6 and i = 0 and escalated = None and now = 9 and strict = True] by simp
  ultimately have reach: "pl_reach demo_cfg exc_name True ?s7" by (meson more)
  let ?fl = "pl_rounds p6 ! 0"
  obtain res q where f: "finalize_body exc_name ?fl (pl_children p6 ! 0) None (max (9 - if_t0 ?fl) 0) p6 = (Inr res, q)"
    and c: "core q = core p6" and ok: "finalized_ok ?fl (pl_children p6 ! 0) None res"
    using finalize_total [of exc_name ?fl "pl_children p6 ! 0" None "max (9 - if_t0 ?fl) 0" p6] by blast
  have "pl_children p6 ! 0 = ?dead" using p6(3) p(3) by simp
  with ok have "map_of res ''eval_broken_reason'' = Some (JStr (wire KILLED))"
    by (auto simp: finalized_ok_def route_reason_def reason_value_def)
  moreover have "finish_round exc_name 0 None 9 p6 = publish_round 0 res q" using f by (simp add: finish_round_def Let_def)
  moreover have "pl_mailbox p = []" using p(6) by (auto simp: same_rounds_def new_round_def pl_init_def)
  ultimately show ?thesis using reach c p6
    by (intro exI [of _ ?s7] exI [of _ res]) (simp add: core_def publish_round_def)
qed

end
