(* ===== verification/Rules.thy ===== *)
theory Rules
  imports Py_Values
begin

text \<open>
  \<open>src/mantis/monitor/rules.py\<close>: the training-step WARN rules and the two hard-abort checks of the
  self-play monitor.  A payload is a JSON-like mapping.  A fired rule's message is an \<open>alert\<close> with
  the numbers the text is formatted from.
\<close>

section \<open>Numbers in a payload\<close>

fun number :: "json \<Rightarrow> pyfloat option" where
  "number (JBool b) = Some (Fin (if b then 1 else 0))"
| "number (JInt i) = Some (Fin (of_int i))"
| "number (JFloat x) = Some x"
| "number _ = None"

text \<open>\<open>v < bound\<close> and \<open>math.isfinite(v)\<close>: a non-number is a \<open>TypeError\<close>.\<close>

definition below :: "json \<Rightarrow> real \<Rightarrow> bool res" where
  "below v bound = (case number v of None \<Rightarrow> Inl TypeError | Some x \<Rightarrow> Inr (pf_less x (Fin bound)))"

fun math_isfinite :: "json \<Rightarrow> bool res" where
  "math_isfinite (JInt i) = rbind (float_of_int i) (\<lambda>_. Inr True)"
| "math_isfinite (JBool _) = Inr True"
| "math_isfinite (JFloat x) = Inr (isfinite x)"
| "math_isfinite _ = Inl TypeError"

fun is_number :: "json \<Rightarrow> bool" where
  "is_number (JBool _) = True"
| "is_number (JInt _) = True"
| "is_number (JFloat _) = True"
| "is_number _ = False"

fun is_bool :: "json \<Rightarrow> bool" where
  "is_bool (JBool _) = True"
| "is_bool _ = False"

section \<open>The WARN rules\<close>

record monitor_cfg =
  mc_entropy_min :: real
  mc_collapse_nats :: real
  mc_grad_norm_max :: real
  mc_loss_window :: int
  mc_axis_warn :: real
  mc_axis_alert :: real

type_synonym payload = "(string, json) dict"

datatype alert =
    EntropyCollapse json | SelfplayEntropyCollapse json | GradNormNonfinite json | GradNormSpike json
  | LossIncreased int | NonfiniteLoss json

definition WARN_RULE_NAMES :: "string list" where
  "WARN_RULE_NAMES = [''entropy_collapse'', ''selfplay_entropy_collapse'', ''grad_norm_spike'',
     ''loss_increase_window'', ''nonfinite_loss'']"

definition WARN_RULE_INPUTS :: "(string, string list) dict" where
  "WARN_RULE_INPUTS = [(''entropy_collapse'', [''policy_entropy'']), (''selfplay_entropy_collapse'', [''policy_entropy_selfplay'']),
     (''grad_norm_spike'', [''grad_norm'']), (''loss_increase_window'', []), (''nonfinite_loss'', [''loss_total''])]"

definition rule_input_absent :: "string \<Rightarrow> payload \<Rightarrow> bool" where
  "rule_input_absent name p = (let keys = dget WARN_RULE_INPUTS name [] in
     keys \<noteq> [] \<and> (\<forall>key \<in> set keys. dget p key JNull = JNull))"

definition check_entropy_collapse :: "payload \<Rightarrow> monitor_cfg \<Rightarrow> alert option res" where
  "check_entropy_collapse p cfg = (let ent = dget p ''policy_entropy'' JNull in
     if ent = JNull then Inr None
     else rbind (below ent (mc_entropy_min cfg)) (\<lambda>b. Inr (if b then Some (EntropyCollapse ent) else None)))"

definition check_selfplay_entropy_collapse :: "payload \<Rightarrow> monitor_cfg \<Rightarrow> alert option res" where
  "check_selfplay_entropy_collapse p cfg = (let ent = dget p ''policy_entropy_selfplay'' JNull in
     if ent = JNull \<or> \<not> is_number ent then Inr None
     else rbind (math_isfinite ent) (\<lambda>fin. if \<not> fin then Inr None
     else rbind (below ent (mc_collapse_nats cfg)) (\<lambda>b. Inr (if b then Some (SelfplayEntropyCollapse ent) else None))))"

definition check_grad_norm_spike :: "payload \<Rightarrow> monitor_cfg \<Rightarrow> alert option res" where
  "check_grad_norm_spike p cfg = (let gn = dget p ''grad_norm'' JNull in
     if gn = JNull then Inr None
     else rbind (math_isfinite gn) (\<lambda>fin.
       if \<not> fin then Inr (Some (GradNormNonfinite gn))
       else Inr (if (case number gn of Some x \<Rightarrow> pf_less (Fin (mc_grad_norm_max cfg)) x | None \<Rightarrow> False)
                 then Some (GradNormSpike gn) else None)))"

definition check_nonfinite_loss :: "payload \<Rightarrow> alert option res" where
  "check_nonfinite_loss p = (let loss = dget p ''loss_total'' JNull in
     if loss = JNull \<or> is_bool loss \<or> \<not> is_number loss then Inr None
     else rbind (math_isfinite loss) (\<lambda>fin. Inr (if fin then None else Some (NonfiniteLoss loss))))"

text \<open>The last \<open>n\<close> elements; \<open>xs[-n:]\<close> for a positive \<open>n\<close>.\<close>

definition last_n :: "nat \<Rightarrow> 'a list \<Rightarrow> 'a list" where
  "last_n n xs = drop (length xs - n) xs"

fun strictly_up :: "pyfloat list \<Rightarrow> bool" where
  "strictly_up (a # b # xs) = (pf_less a b \<and> strictly_up (b # xs))"
| "strictly_up _ = True"

definition check_loss_increase_window :: "pyfloat list \<Rightarrow> monitor_cfg \<Rightarrow> alert option" where
  "check_loss_increase_window w cfg = (let n = mc_loss_window cfg in
     if int (length w) \<le> n then None
     else if strictly_up (if 0 < n + 1 then last_n (nat (n + 1)) w else drop (nat (- n - 1)) w) then Some (LossIncreased n) else None)"

record warn_state =
  ws_window :: "pyfloat list"
  ws_skips :: "(string, nat) dict"
  ws_events :: "(string \<times> alert \<times> json) list"

definition no_skips :: "(string, nat) dict" where
  "no_skips = map (\<lambda>n. (n, 0)) WARN_RULE_NAMES"

definition skip_rule :: "string \<Rightarrow> (string, nat) dict \<Rightarrow> (string, nat) dict" where
  "skip_rule name d = AList.update name (Suc (dget d name 0)) d"

definition skips_of :: "(string, nat) dict \<Rightarrow> string \<Rightarrow> nat" where
  "skips_of d name = dget d name 0"

fun push_loss :: "json \<Rightarrow> pyfloat list \<Rightarrow> pyfloat list res" where
  "push_loss (JInt i) w = rbind (float_of_int i) (\<lambda>x. Inr (w @ [Fin x]))"
| "push_loss (JFloat (Fin x)) w = Inr (w @ [Fin x])"
| "push_loss _ w = Inr w"

fun route_alerts :: "payload \<Rightarrow> json \<Rightarrow> (string \<times> alert option) list \<Rightarrow> warn_state \<Rightarrow> alert list \<times> warn_state" where
  "route_alerts p step [] st = ([], st)"
| "route_alerts p step ((name, message) # rest) st =
     (let st1 = (if rule_input_absent name p then st\<lparr>ws_skips := skip_rule name (ws_skips st)\<rparr> else st) in
      case message of
        None \<Rightarrow> route_alerts p step rest st1
      | Some a \<Rightarrow> (case route_alerts p step rest (st1\<lparr>ws_events := ws_events st1 @ [(name, a, step)]\<rparr>) of
           (fired, st2) \<Rightarrow> (a # fired, st2)))"

definition emit_training_step_alerts :: "payload \<Rightarrow> monitor_cfg \<Rightarrow> (warn_state, alert list) act" where
  "emit_training_step_alerts p cfg =
     abind (gets ws_window) (\<lambda>w0.
     abind (lift (push_loss (dget p ''loss_total'' JNull) w0)) (\<lambda>w.
     abind (modify (\<lambda>st. st\<lparr>ws_window := w\<rparr>)) (\<lambda>_.
     abind (lift (check_entropy_collapse p cfg)) (\<lambda>r1.
     abind (lift (check_selfplay_entropy_collapse p cfg)) (\<lambda>r2.
     abind (lift (check_grad_norm_spike p cfg)) (\<lambda>r3.
     abind (lift (check_nonfinite_loss p)) (\<lambda>r5 st.
       (case route_alerts p (dget p ''step'' JNull)
          (zip WARN_RULE_NAMES [r1, r2, r3, check_loss_increase_window w cfg, r5]) st of
          (fired, st') \<Rightarrow> (Inr fired, st')))))))))"

section \<open>The hard-abort checks\<close>

definition check_ply_cap_attractor :: "real \<Rightarrow> int \<Rightarrow> real \<Rightarrow> int \<Rightarrow> int \<Rightarrow> bool" where
  "check_ply_cap_attractor observed_rate current_step rate window_games min_step \<longleftrightarrow>
     \<not> (rate \<le> 0 \<or> window_games \<le> 0 \<or> current_step < min_step) \<and> rate < observed_rate"

definition check_draw_rate_collapse :: "pyfloat list \<Rightarrow> int \<Rightarrow> real \<Rightarrow> nat \<Rightarrow> int \<Rightarrow> bool" where
  "check_draw_rate_collapse history current_step threshold consec min_step \<longleftrightarrow>
     \<not> (threshold \<le> 0 \<or> consec = 0 \<or> length history < consec) \<and> \<not> current_step < min_step \<and>
     (\<forall>v \<in> set (last_n consec history). pf_le (Fin threshold) v)"

section \<open>Library lemmas\<close>

lemma length_last_n [simp]: "length (last_n n xs) = min n (length xs)"
  by (simp add: last_n_def)

lemma last_n_append: "n \<le> length ys \<Longrightarrow> last_n n (xs @ ys) = last_n n ys"
  by (simp add: last_n_def)

lemma last_n_last_n: "n \<le> m \<Longrightarrow> last_n n (last_n m xs) = last_n n xs"
  unfolding last_n_def drop_drop by (rule arg_cong [where f = "\<lambda>k. drop k xs"]) auto

lemma last_n_snoc: "0 < n \<Longrightarrow> last_n n (xs @ [x]) = last_n (n - 1) xs @ [x]"
  by (cases n) (simp_all add: last_n_def)

interpretation warn_skips: counter_registry no_skips skip_rule skips_of
proof
  fix l show "skips_of no_skips l = 0"
    by (simp add: skips_of_def no_skips_def dget_def WARN_RULE_NAMES_def)
qed (simp add: skips_of_def skip_rule_def)

definition absent_rules :: "payload \<Rightarrow> (string \<times> alert option) list \<Rightarrow> string list" where
  "absent_rules p rs = filter (\<lambda>n. rule_input_absent n p) (map fst rs)"

lemma route_alerts_effect:
  "route_alerts p step rs st = (fired, st') \<Longrightarrow>
     fired = List.map_filter snd rs \<and> ws_window st' = ws_window st \<and>
     ws_skips st' = fold skip_rule (absent_rules p rs) (ws_skips st) \<and>
     ws_events st' = ws_events st @ map (\<lambda>x. (fst x, the (snd x), step)) (filter (\<lambda>x. snd x \<noteq> None) rs)"
proof (induction p step rs st arbitrary: fired rule: route_alerts.induct)
  case (2 p step name message rest st)
  let ?st1 = "if rule_input_absent name p then st\<lparr>ws_skips := skip_rule name (ws_skips st)\<rparr> else st"
  show ?case
  proof (cases message)
    case None
    with 2 show ?thesis by (auto simp: Let_def absent_rules_def map_filter_def)
  next
    case (Some a)
    then obtain f' where f: "route_alerts p step rest (?st1\<lparr>ws_events := ws_events ?st1 @ [(name, a, step)]\<rparr>) = (f', st')"
      "fired = a # f'" using 2(3) by (auto simp: Let_def split: prod.splits)
    from 2(2) [OF refl Some f(1)] f(2) Some show ?thesis
      by (auto simp: absent_rules_def map_filter_def)
  qed
qed (simp add: absent_rules_def map_filter_def)

lemma fired_set: "length ns = length ms \<Longrightarrow> set (List.map_filter snd (zip ns ms)) = {a. Some a \<in> set ms}"
  by (induction rule: list_induct2) (auto simp: map_filter_def)

lemma count_list_filter_distinct:
  "distinct xs \<Longrightarrow> count_list (filter P xs) x = (if x \<in> set xs \<and> P x then 1 else 0)"
  by (induction xs) auto

definition float_payload :: "payload \<Rightarrow> bool" where
  "float_payload p \<longleftrightarrow> (\<forall>k \<in> {''policy_entropy'', ''policy_entropy_selfplay'', ''grad_norm'', ''loss_total''}.
     dget p k JNull = JNull \<or> (\<exists>x. dget p k JNull = JFloat x))"

text \<open>The WARN rules never go quiet by accident: on a payload of floats the emitter raises nothing,
  appends exactly the finite losses to the window, announces every non-finite loss and every non-finite
  gradient norm, and counts for each rule exactly the steps at which its input was absent.\<close>

theorem warn_rules_speak:
  assumes "float_payload p"
  shows "\<exists>fired st'. emit_training_step_alerts p cfg st = (Inr fired, st') \<and>
    ws_window st' = ws_window st @ (case dget p ''loss_total'' JNull of JFloat (Fin x) \<Rightarrow> [Fin x] | _ \<Rightarrow> []) \<and>
    (\<forall>x. dget p ''loss_total'' JNull = JFloat x \<and> \<not> isfinite x \<longrightarrow> NonfiniteLoss (JFloat x) \<in> set fired) \<and>
    (\<forall>x. dget p ''grad_norm'' JNull = JFloat x \<and> \<not> isfinite x \<longrightarrow> GradNormNonfinite (JFloat x) \<in> set fired) \<and>
    (\<forall>name. skips_of (ws_skips st') name = skips_of (ws_skips st) name +
       (if name \<in> set WARN_RULE_NAMES \<and> rule_input_absent name p then 1 else 0)) \<and>
    map (\<lambda>(_, a, _). a) (drop (length (ws_events st)) (ws_events st')) = fired"
proof -
  have fl: "dget p k JNull = JNull \<or> (\<exists>x. dget p k JNull = JFloat x)"
    if "k \<in> {''policy_entropy'', ''policy_entropy_selfplay'', ''grad_norm'', ''loss_total''}" for k
    using assms that unfolding float_payload_def by blast
  obtain r1 where r1: "check_entropy_collapse p cfg = Inr r1"
    using fl [of "''policy_entropy''"] by (auto simp: check_entropy_collapse_def below_def)
  have "\<exists>r2. check_selfplay_entropy_collapse p cfg = Inr r2"
    using fl [of "''policy_entropy_selfplay''"]
    by (auto simp: check_selfplay_entropy_collapse_def below_def Let_def cong: if_cong)
  then obtain r2 where r2: "check_selfplay_entropy_collapse p cfg = Inr r2" ..
  have "\<exists>r3. check_grad_norm_spike p cfg = Inr r3"
    using fl [of "''grad_norm''"] by (auto simp: check_grad_norm_spike_def Let_def cong: if_cong)
  then obtain r3 where r3: "check_grad_norm_spike p cfg = Inr r3" ..
  then have n3: "\<And>x. dget p ''grad_norm'' JNull = JFloat x \<Longrightarrow> \<not> isfinite x \<Longrightarrow> r3 = Some (GradNormNonfinite (JFloat x))"
    by (simp add: check_grad_norm_spike_def)
  have "\<exists>r5. check_nonfinite_loss p = Inr r5"
    using fl [of "''loss_total''"] by (auto simp: check_nonfinite_loss_def Let_def cong: if_cong)
  then obtain r5 where r5: "check_nonfinite_loss p = Inr r5" ..
  then have n5: "\<And>x. dget p ''loss_total'' JNull = JFloat x \<Longrightarrow> \<not> isfinite x \<Longrightarrow> r5 = Some (NonfiniteLoss (JFloat x))"
    by (simp add: check_nonfinite_loss_def)
  let ?w = "ws_window st @ (case dget p ''loss_total'' JNull of JFloat (Fin x) \<Rightarrow> [Fin x] | _ \<Rightarrow> [])"
  have w: "push_loss (dget p ''loss_total'' JNull) (ws_window st) = Inr ?w"
    using fl [of "''loss_total''"] by (auto split: pyfloat.split)
  let ?rs = "zip WARN_RULE_NAMES [r1, r2, r3, check_loss_increase_window ?w cfg, r5]"
  obtain fired st' where route: "route_alerts p (dget p ''step'' JNull) ?rs (st\<lparr>ws_window := ?w\<rparr>) = (fired, st')"
    by fastforce
  have run: "emit_training_step_alerts p cfg st = (Inr fired, st')"
    by (simp add: emit_training_step_alerts_def act_defs w r1 r2 r3 r5 route)
  note eff = route_alerts_effect [OF route]
  have skips: "count_list (absent_rules p ?rs) name =
      (if name \<in> set WARN_RULE_NAMES \<and> rule_input_absent name p then 1 else 0)" for name
  proof -
    have "map fst ?rs = WARN_RULE_NAMES" "distinct WARN_RULE_NAMES" by (simp_all add: WARN_RULE_NAMES_def)
    then show ?thesis by (simp add: absent_rules_def count_list_filter_distinct)
  qed
  have fired: "set fired = {a. Some a \<in> {r1, r2, r3, check_loss_increase_window ?w cfg, r5}}"
  proof -
    have "length WARN_RULE_NAMES = length [r1, r2, r3, check_loss_increase_window ?w cfg, r5]"
      by (simp add: WARN_RULE_NAMES_def)
    with eff show ?thesis by (simp add: fired_set)
  qed
  have loud: "\<forall>x. dget p ''loss_total'' JNull = JFloat x \<and> \<not> isfinite x \<longrightarrow> NonfiniteLoss (JFloat x) \<in> set fired"
    "\<forall>x. dget p ''grad_norm'' JNull = JFloat x \<and> \<not> isfinite x \<longrightarrow> GradNormNonfinite (JFloat x) \<in> set fired"
    using n3 n5 unfolding fired by blast+
  have "map (\<lambda>(_, a, _). a) (drop (length (ws_events st)) (ws_events st')) = fired"
    using eff by (simp add: map_filter_def comp_def)
  moreover have "skips_of (ws_skips st') name = skips_of (ws_skips st) name +
       (if name \<in> set WARN_RULE_NAMES \<and> rule_input_absent name p then 1 else 0)" for name
    using eff skips by (simp add: warn_skips.reading_fold)
  moreover have "ws_window st' = ?w" using eff by simp
  ultimately show ?thesis using run loud by blast
qed

theorem warn_rules_speak_witness:
  "float_payload [(''loss_total'', JFloat NaN), (''grad_norm'', JFloat (Fin 1))] \<and>
   (\<exists>fired st'. emit_training_step_alerts [(''loss_total'', JFloat NaN), (''grad_norm'', JFloat (Fin 1))]
       \<lparr>mc_entropy_min = 1, mc_collapse_nats = 1, mc_grad_norm_max = 10, mc_loss_window = 3,
         mc_axis_warn = 1 / 2, mc_axis_alert = 3 / 4\<rparr>
       \<lparr>ws_window = [], ws_skips = no_skips, ws_events = []\<rparr> = (Inr fired, st') \<and> NonfiniteLoss (JFloat NaN) \<in> set fired)"
proof -
  let ?p = "[(''loss_total'', JFloat NaN), (''grad_norm'', JFloat (Fin 1))] :: payload"
  have "float_payload ?p" by (simp add: float_payload_def dget_def)
  moreover have "dget ?p ''loss_total'' JNull = JFloat NaN" by (simp add: dget_def)
  ultimately show ?thesis using warn_rules_speak [of ?p] by (metis isfinite.simps(4))
qed

end
