(* ===== verification/Budget.thy ===== *)
theory Budget
  imports Prelude
begin

text \<open>
  \<open>src/mantis/train/mixing.py\<close> (\<open>_steps_budget\<close>, the number of training steps a burst of new
  self-play games pays for) and \<open>pooled_draw_rate\<close> of
  \<open>src/mantis/train/coordinator/config.py\<close>.  Floats are reals, so \<open>round(x, 9)\<close> rounds the exact
  value, ties to even.
\<close>

section \<open>The steps budget\<close>

definition round_half_even :: "real \<Rightarrow> int" where
  "round_half_even x = (let d = x - of_int \<lfloor>x\<rfloor> in
     if d < 1 / 2 \<or> (d = 1 / 2 \<and> even \<lfloor>x\<rfloor>) then \<lfloor>x\<rfloor> else \<lfloor>x\<rfloor> + 1)"

definition round9 :: "real \<Rightarrow> real" where
  "round9 x = of_int (round_half_even (x * 10 ^ 9)) / 10 ^ 9"

definition budget_ratio :: "real \<Rightarrow> real option \<Rightarrow> real" where
  "budget_ratio training_steps_per_game fill =
     (case fill of None \<Rightarrow> training_steps_per_game | Some f \<Rightarrow> training_steps_per_game * min 1 f)"

definition steps_budget :: "int \<Rightarrow> real \<Rightarrow> int \<Rightarrow> real \<Rightarrow> real option \<Rightarrow> int \<times> real" where
  "steps_budget new_games training_steps_per_game max_train_burst carry fill =
     (let ratio = budget_ratio training_steps_per_game fill;
          sum = round9 (carry + of_int new_games * ratio);
          want = \<lfloor>sum\<rfloor>
      in (min (if fill \<noteq> None then want else max 1 want) max_train_burst, sum - of_int want))"

definition pooled_draw_rate :: "int \<times> int \<Rightarrow> int \<Rightarrow> real option res" where
  "pooled_draw_rate counts N_pool_min = (case counts of (draws, completed) \<Rightarrow>
     if completed < N_pool_min then Inr None
     else if completed = 0 then Inl ZeroDivisionError
     else Inr (Some (of_int draws / of_int completed)))"

section \<open>Rounding\<close>

lemma round_half_even_error: "\<bar>of_int (round_half_even x) - x\<bar> \<le> 1 / 2"
  unfolding round_half_even_def Let_def by (auto simp: abs_le_iff)

lemma round_half_even_of_int [simp]: "round_half_even (of_int i) = i"
  by (simp add: round_half_even_def)

lemma round_half_even_lower: "of_int i \<le> x \<Longrightarrow> i \<le> round_half_even x"
proof -
  assume "of_int i \<le> x"
  then have "i \<le> \<lfloor>x\<rfloor>" by (simp add: le_floor_iff)
  then show ?thesis by (simp add: round_half_even_def Let_def)
qed

lemma round_half_even_upper:
  assumes "x \<le> of_int i" shows "round_half_even x \<le> i"
proof -
  have le: "\<lfloor>x\<rfloor> \<le> i" using assms by linarith
  show ?thesis
  proof (cases "\<lfloor>x\<rfloor> = i")
    case True
    then have "x = of_int i" using assms by linarith
    then show ?thesis by simp
  next
    case False
    with le show ?thesis by (simp add: round_half_even_def Let_def)
  qed
qed

lemma round9_error: "\<bar>round9 x - x\<bar> \<le> 1 / (2 * 10 ^ 9)"
  using round_half_even_error [of "x * 10 ^ 9"] unfolding round9_def by (simp add: abs_le_iff field_simps)

lemma round9_lower: "of_int i \<le> x \<Longrightarrow> of_int i \<le> round9 x"
proof -
  assume "of_int i \<le> x"
  then have "of_int (i * 10 ^ 9) \<le> x * 10 ^ 9" by simp
  then have "i * 10 ^ 9 \<le> round_half_even (x * 10 ^ 9)" by (rule round_half_even_lower)
  then have "real_of_int (i * 10 ^ 9) \<le> of_int (round_half_even (x * 10 ^ 9))" by (simp only: of_int_le_iff)
  then show ?thesis by (simp add: round9_def field_simps)
qed

lemma round9_upper: "x \<le> of_int i \<Longrightarrow> round9 x \<le> of_int i"
proof -
  assume "x \<le> of_int i"
  then have "x * 10 ^ 9 \<le> of_int (i * 10 ^ 9)" by simp
  then have "round_half_even (x * 10 ^ 9) \<le> i * 10 ^ 9" by (rule round_half_even_upper)
  then have "of_int (round_half_even (x * 10 ^ 9)) \<le> real_of_int (i * 10 ^ 9)" by (simp only: of_int_le_iff)
  then show ?thesis by (simp add: round9_def field_simps)
qed

section \<open>One burst\<close>

lemma carry_in_unit: "snd (steps_budget g r b c f) \<in> {0 ..< 1}"
  unfolding steps_budget_def Let_def by (auto simp: algebra_simps) linarith+

lemma budget_capped: "fst (steps_budget g r b c f) \<le> b"
  by (simp add: steps_budget_def Let_def)

lemma budget_positive: "1 \<le> b \<Longrightarrow> 1 \<le> fst (steps_budget g r b c None)"
  by (simp add: steps_budget_def Let_def)

text \<open>A burst the ceiling does not cut and the floor of one step does not lift.\<close>

definition unclipped :: "real \<Rightarrow> int \<Rightarrow> int \<times> real option \<Rightarrow> bool" where
  "unclipped r b x \<longleftrightarrow> (case x of (g, f) \<Rightarrow>
     of_int g * budget_ratio r f + 1 \<le> of_int b \<and> (f = None \<longrightarrow> 1 \<le> of_int g * budget_ratio r f))"

lemma unclipped_accounts:
  assumes "unclipped r b (g, f)" "0 \<le> c" "c < 1"
  shows "\<bar>of_int (fst (steps_budget g r b c f)) + snd (steps_budget g r b c f)
            - (c + of_int g * budget_ratio r f)\<bar> \<le> 1 / (2 * 10 ^ 9)"
proof -
  let ?x = "c + of_int g * budget_ratio r f"
  have "round9 ?x \<le> of_int b" by (rule round9_upper) (use assms in \<open>simp add: unclipped_def\<close>)
  then have "\<lfloor>round9 ?x\<rfloor> \<le> b" by linarith
  moreover have "1 \<le> \<lfloor>round9 ?x\<rfloor>" if "f = None"
    using round9_lower [of 1 ?x] that assms by (simp add: unclipped_def le_floor_iff)
  ultimately have "of_int (fst (steps_budget g r b c f)) + snd (steps_budget g r b c f) = round9 ?x"
    by (auto simp: steps_budget_def Let_def)
  then show ?thesis using round9_error [of ?x] by simp
qed

section \<open>A run of bursts\<close>

fun budget_run :: "real \<Rightarrow> int \<Rightarrow> real \<Rightarrow> (int \<times> real option) list \<Rightarrow> int \<times> real" where
  "budget_run r b c [] = (0, c)"
| "budget_run r b c ((g, f) # xs) = (case steps_budget g r b c f of
     (n, c') \<Rightarrow> (case budget_run r b c' xs of (m, c'') \<Rightarrow> (n + m, c'')))"

definition steps_owed :: "real \<Rightarrow> (int \<times> real option) list \<Rightarrow> real" where
  "steps_owed r xs = (\<Sum>(g, f) \<leftarrow> xs. of_int g * budget_ratio r f)"

lemma budget_run_accounts:
  assumes "0 \<le> c" "c < 1" "list_all (unclipped r b) xs"
  shows "\<bar>of_int (fst (budget_run r b c xs)) + snd (budget_run r b c xs) - (c + steps_owed r xs)\<bar>
           \<le> real (length xs) / (2 * 10 ^ 9) \<and> 0 \<le> snd (budget_run r b c xs) \<and> snd (budget_run r b c xs) < 1"
  using assms
proof (induction xs arbitrary: c)
  case Nil
  then show ?case by (simp add: steps_owed_def)
next
  case (Cons x xs)
  obtain g f where x: "x = (g, f)" by (cases x)
  obtain n c' where s: "steps_budget g r b c f = (n, c')" by fastforce
  obtain m c'' where t: "budget_run r b c' xs = (m, c'')" by fastforce
  have "unclipped r b (g, f)" "list_all (unclipped r b) xs" using Cons.prems(3) by (simp_all add: x)
  from unclipped_accounts [OF this(1) Cons.prems(1,2)] have one: "\<bar>of_int n + c' - (c + of_int g * budget_ratio r f)\<bar> \<le> 1 / (2 * 10 ^ 9)"
    by (simp add: s)
  have "0 \<le> c'" "c' < 1" using carry_in_unit [of g r b c f] by (simp_all add: s)
  from Cons.IH [OF this \<open>list_all (unclipped r b) xs\<close>]
  have ih: "\<bar>of_int m + c'' - (c' + steps_owed r xs)\<bar> \<le> real (length xs) / (2 * 10 ^ 9)" "0 \<le> c''" "c'' < 1"
    by (simp_all add: t)
  have "steps_owed r (x # xs) = of_int g * budget_ratio r f + steps_owed r xs"
    by (simp add: steps_owed_def x)
  moreover have "real (length (x # xs)) / (2 * 10 ^ 9) = 1 / (2 * 10 ^ 9) + real (length xs) / (2 * 10 ^ 9)"
    by (simp add: field_simps)
  ultimately have "\<bar>of_int (n + m) + c'' - (c + steps_owed r (x # xs))\<bar> \<le> real (length (x # xs)) / (2 * 10 ^ 9)"
    using one ih(1) by (simp only: of_int_add abs_le_iff) linarith
  then show ?case using ih(2,3) by (simp add: x s t)
qed

text \<open>C38: The sample-reuse ratio holds over a whole run: as long as no burst is cut by the burst ceiling
  or lifted to the one-step minimum, the steps paid for after any sequence of bursts differ from the steps
  owed by the games (the ratio, scaled by the ring's fill on the ramp) by less than one step plus half a
  billionth per burst - the carry makes fractional ratios exact in the long run.\<close>

theorem budget_keeps_ratio:
  assumes "list_all (unclipped r b) xs"
  shows "\<bar>of_int (fst (budget_run r b 0 xs)) - steps_owed r xs\<bar> < 1 + real (length xs) / (2 * 10 ^ 9)"
  using budget_run_accounts [OF _ _ assms, of 0] unfolding abs_le_iff abs_less_iff by simp

theorem budget_keeps_ratio_witness:
  "fst (budget_run (5 / 2) 8 0 [(1, None), (1, None), (2, Some (1 / 2))]) = 7 \<and>
   list_all (unclipped (5 / 2) 8) [(1, None), (1, None), (2, Some (1 / 2))] \<and>
   \<bar>of_int (fst (budget_run (5 / 2) 8 0 [(1, None), (1, None), (2, Some (1 / 2))]))
      - steps_owed (5 / 2) [(1, None), (1, None), (2, Some (1 / 2))]\<bar> < 1 + 3 / (2 * 10 ^ 9)"
proof -
  let ?xs = "[(1, None), (1, None), (2, Some (1 / 2))] :: (int \<times> real option) list"
  have r: "round9 (5 / 2) = 5 / 2" "round9 3 = 3"
    by (simp_all add: round9_def round_half_even_def)
  have "fst (budget_run (5 / 2) 8 0 ?xs) = 7"
    by (simp add: steps_budget_def Let_def budget_ratio_def r)
  moreover have u: "list_all (unclipped (5 / 2) 8) ?xs"
    by (simp add: unclipped_def budget_ratio_def)
  ultimately show ?thesis using budget_keeps_ratio [OF u] by simp
qed

end
