(* ===== verification/Axis.thy ===== *)
theory Axis
  imports Text
begin

text \<open>
  \<open>src/mantis/train/axis_distribution.py\<close>: for each hex axis the fraction of adjacent stone pairs of
  one colour, over completed games; and the axis payload of \<open>src/mantis/train/events.py\<close>.
\<close>

definition AXES :: "cell list" where
  "AXES = [(1, 0), (0, 1), (1, - 1)]"

definition AXIS_LABELS :: "string list" where
  "AXIS_LABELS = [''axis_q'', ''axis_r'', ''axis_s'']"

definition ply_is_p1 :: "nat \<Rightarrow> bool" where
  "ply_is_p1 ply \<longleftrightarrow> ply = 0 \<or> ((ply - 1) div 2) mod 2 = 1"

definition assign_colors :: "cell list \<Rightarrow> (cell, int) dict" where
  "assign_colors history = fold (\<lambda>(ply, pos) d. AList.update pos (if ply_is_p1 ply then 1 else - 1) d)
     (enumerate 0 history) []"

definition neighbour :: "cell \<Rightarrow> cell \<Rightarrow> cell" where
  "neighbour axis p = (fst p + fst axis, snd p + snd axis)"

definition axis_pairs :: "cell \<Rightarrow> (cell, int) dict \<Rightarrow> (int \<times> int) list" where
  "axis_pairs axis d = List.map_filter (\<lambda>(p, c). map_option (\<lambda>c'. (c, c')) (map_of d (neighbour axis p))) d"

definition pair_counts :: "cell \<Rightarrow> cell list list \<Rightarrow> nat \<times> nat" where
  "pair_counts axis games = (let pairs = concat (map (\<lambda>g. if length g < 2 then [] else axis_pairs axis (assign_colors g)) games)
     in (length (filter (\<lambda>(c, c'). c' = c) pairs), length pairs))"

definition fraction :: "nat \<times> nat \<Rightarrow> real" where
  "fraction st = (if snd st > 0 then real (fst st) / real (snd st) else 0)"

text \<open>\<open>np.argmax\<close>: the first index of a largest entry.\<close>

fun argmax_from :: "nat \<Rightarrow> nat \<Rightarrow> real \<Rightarrow> real list \<Rightarrow> nat" where
  "argmax_from i best v [] = best"
| "argmax_from i best v (x # xs) = (if v < x then argmax_from (Suc i) i x xs else argmax_from (Suc i) best v xs)"

fun argmax :: "real list \<Rightarrow> nat" where
  "argmax [] = 0"
| "argmax (x # xs) = argmax_from 1 0 x xs"

record axis_fractions =
  ax_fracs :: "real list"
  ax_max :: string

definition compute_axis_fractions :: "cell list list \<Rightarrow> axis_fractions" where
  "compute_axis_fractions games =
     (let counts = map (\<lambda>axis. pair_counts axis games) AXES;
          fracs = map fraction counts;
          max_idx = (if list_ex (\<lambda>st. 0 < snd st) counts then argmax fracs else 0)
      in \<lparr>ax_fracs = fracs, ax_max = AXIS_LABELS ! max_idx\<rparr>)"

datatype axis_band = BandOk | BandWarn | BandAlert

definition band_of :: "real \<Rightarrow> real \<Rightarrow> real list \<Rightarrow> axis_band" where
  "band_of axis_warn axis_alert fracs = (let max_frac = foldr max fracs 0 in
     if axis_alert \<le> max_frac then BandAlert else if axis_warn \<le> max_frac then BandWarn else BandOk)"

section \<open>The fractions are fractions\<close>

lemma pair_counts_le: "fst (pair_counts axis games) \<le> snd (pair_counts axis games)"
  by (simp add: pair_counts_def Let_def)

lemma fraction_unit: "fst st \<le> snd st \<Longrightarrow> 0 \<le> fraction st \<and> fraction st \<le> 1"
  by (simp add: fraction_def)

lemma fractions_unit: "x \<in> set (ax_fracs (compute_axis_fractions games)) \<Longrightarrow> 0 \<le> x \<and> x \<le> 1"
  using fraction_unit [OF pair_counts_le] by (auto simp: compute_axis_fractions_def Let_def)

lemma argmax_from_bound: "best < i \<Longrightarrow> argmax_from i best v xs < i + length xs"
  by (induction i best v xs rule: argmax_from.induct) auto

lemma axis_max_labelled: "ax_max (compute_axis_fractions games) \<in> set AXIS_LABELS"
proof -
  have "argmax (map fraction (map (\<lambda>axis. pair_counts axis games) AXES)) < 3"
    using argmax_from_bound [of 0 1] by (simp add: AXES_def)
  then have "AXIS_LABELS ! (if b then argmax (map fraction (map (\<lambda>axis. pair_counts axis games) AXES)) else 0) \<in> set AXIS_LABELS" for b
    by (intro nth_mem) (simp add: AXIS_LABELS_def)
  then show ?thesis unfolding compute_axis_fractions_def Let_def by simp
qed

text \<open>Moving a game on the board moves no fraction.\<close>

definition shift :: "cell \<Rightarrow> cell \<Rightarrow> cell" where
  "shift v p = (fst p + fst v, snd p + snd v)"

lemma shift_eq_iff [simp]: "shift v p = shift v q \<longleftrightarrow> p = q"
  by (auto simp: shift_def prod_eq_iff)

lemma neighbour_shift: "neighbour axis (shift v p) = shift v (neighbour axis p)"
  by (simp add: neighbour_def shift_def)

abbreviation shift_keys :: "cell \<Rightarrow> (cell, int) dict \<Rightarrow> (cell, int) dict" where
  "shift_keys v d \<equiv> map (\<lambda>(p, c). (shift v p, c)) d"

lemma update_shift: "AList.update (shift v p) c (shift_keys v d) = shift_keys v (AList.update p c d)"
  by (induction d) auto

lemma map_of_shift: "map_of (shift_keys v d) (shift v p) = map_of d p"
  by (induction d) auto

lemma assign_colors_shift: "assign_colors (map (shift v) g) = shift_keys v (assign_colors g)"
proof -
  have "fold (\<lambda>(ply, pos) d. AList.update pos (if ply_is_p1 ply then 1 else - 1) d) (enumerate n (map (shift v) g)) (shift_keys v d)
      = shift_keys v (fold (\<lambda>(ply, pos) d. AList.update pos (if ply_is_p1 ply then 1 else - 1) d) (enumerate n g) d)" for n d
    by (induction g arbitrary: n d) (simp_all add: update_shift)
  from this [of 0 "[]"] show ?thesis by (simp add: assign_colors_def)
qed

lemma axis_pairs_shift: "axis_pairs axis (shift_keys v d) = axis_pairs axis d"
proof -
  have "List.map_filter (\<lambda>(p, c). map_option (\<lambda>c'. (c, c')) (map_of (shift_keys v d) (neighbour axis p))) (shift_keys v e)
      = List.map_filter (\<lambda>(p, c). map_option (\<lambda>c'. (c, c')) (map_of d (neighbour axis p))) e" for e
    by (induction e) (auto simp: List.map_filter_simps neighbour_shift map_of_shift split: option.split)
  then show ?thesis by (simp add: axis_pairs_def)
qed

lemma axis_translation_invariant: "compute_axis_fractions (map (map (shift v)) games) = compute_axis_fractions games"
proof -
  have "pair_counts axis (map (map (shift v)) games) = pair_counts axis games" for axis
    by (simp add: pair_counts_def comp_def assign_colors_shift axis_pairs_shift cong: if_cong)
  then show ?thesis by (simp add: compute_axis_fractions_def)
qed

end
