(* ===== verification/Bundle.thy ===== *)
theory Bundle
  imports Py_Values "HOL-Library.List_Lexorder" "HOL-Library.Char_ord" "HOL-Library.Sublist"
begin

text \<open>
  \<open>src/mantis/train/bundle.py\<close>: the resume bundle - checkpoint, ring and sidecar, published by a
  manifest written last, and the pruning of old bundles.

  The checkpoint directory is a dictionary from file names to contents, in directory order.  A file is
  the JSON document it decodes to, or bytes that are no JSON text; \<open>sha\<close> and \<open>size\<close> are the file
  hash and \<open>st_size\<close>.  Every operation that changes the directory is one step of the \<open>disk\<close>: it
  consumes the next answer of the fault script (\<open>True\<close> raises \<open>OSError\<close>) and records the directory it
  leaves, so the recorded directories are the states a crash can leave behind.  An in-place writer leaves
  a torn file before the full one.  What an \<open>fsync\<close> adds against power loss is not modelled; that it can
  fail is.
\<close>

lemma rmap_cong: "(\<And>x. x \<in> set xs \<Longrightarrow> f x = g x) \<Longrightarrow> rmap f xs = rmap g xs"
  by (induction xs) simp_all

section \<open>The directory\<close>

datatype content = Blob string | Doc json

type_synonym files = "(string, content) dict"

record disk =
  dk_files :: files
  dk_faults :: "bool list"
  dk_crash :: "files list"

definition disk_step :: "(files \<Rightarrow> files) \<Rightarrow> (disk, unit) act" where
  "disk_step f d = (case dk_faults d of
     True # fs \<Rightarrow> (Inl OSError, d\<lparr>dk_faults := fs\<rparr>)
   | fs \<Rightarrow> (Inr (), d\<lparr>dk_files := f (dk_files d), dk_faults := tl fs, dk_crash := dk_crash d @ [f (dk_files d)]\<rparr>))"

definition put_file :: "string \<Rightarrow> content \<Rightarrow> (disk, unit) act" where
  "put_file name c = disk_step (AList.update name c)"

definition fsync :: "(disk, unit) act" where
  "fsync = disk_step id"

definition rename_over :: "string \<Rightarrow> string \<Rightarrow> content \<Rightarrow> (disk, unit) act" where
  "rename_over tmp target c = disk_step (\<lambda>fs. AList.update target c (AList.delete tmp fs))"

text \<open>\<open>unlink(missing_ok=True)\<close>; without it an absent file raises.\<close>

definition unlink_missing_ok :: "string \<Rightarrow> (disk, unit) act" where
  "unlink_missing_ok name = disk_step (AList.delete name)"

definition unlink :: "string \<Rightarrow> (disk, unit) act" where
  "unlink name = abind (gets dk_files) (\<lambda>fs. if map_of fs name = None then lift (Inl FileNotFoundError)
     else disk_step (AList.delete name))"

definition is_file :: "string \<Rightarrow> (disk, bool) act" where
  "is_file name = gets (\<lambda>d. map_of (dk_files d) name \<noteq> None)"

section \<open>Names\<close>

definition BUNDLE_VERSION :: int where "BUNDLE_VERSION = 1"
definition BUNDLE_SUFFIX :: string where "BUNDLE_SUFFIX = ''.bundle.json''"
definition RING_SUFFIX :: string where "RING_SUFFIX = ''.ring.bin''"
definition SIDECAR_SUFFIX :: string where "SIDECAR_SUFFIX = ''.resume.json''"

definition manifest_path_for :: "string \<Rightarrow> string" where "manifest_path_for ckpt = ckpt @ BUNDLE_SUFFIX"
definition ring_path_for :: "string \<Rightarrow> string" where "ring_path_for ckpt = ckpt @ RING_SUFFIX"
definition sidecar_path_for :: "string \<Rightarrow> string" where "sidecar_path_for ckpt = ckpt @ SIDECAR_SUFFIX"

text \<open>\<open>Path(name).stem\<close>.\<close>

definition stem :: "string \<Rightarrow> string" where
  "stem name = (let ext = takeWhile (\<lambda>c. c \<noteq> CHR ''.'') (rev name);
       base = rev (drop (Suc (length ext)) (rev name))
     in if ext = [] \<or> base = [] then name else base)"

definition is_hex :: "char \<Rightarrow> bool" where
  "is_hex c \<longleftrightarrow> is_digit c \<or> (97 \<le> (of_char c :: nat) \<and> (of_char c :: nat) \<le> 102)"

text \<open>\<open>^.+_(\\d{8})_[0-9a-f]+$\<close> on an ASCII stem.\<close>

definition step_of :: "string \<Rightarrow> int option" where
  "step_of path = (let r = rev (stem path); h = takeWhile is_hex r; t = drop (length h) r;
       ds = take 8 (drop 1 t); t' = drop 9 t
     in if h \<noteq> [] \<and> t \<noteq> [] \<and> hd t = CHR ''_'' \<and> length ds = 8 \<and> list_all is_digit ds \<and>
           t' \<noteq> [] \<and> hd t' = CHR ''_'' \<and> tl t' \<noteq> []
        then Some (int (undigits (rev ds))) else None)"

section \<open>Manifests\<close>

record member =
  bm_name :: string
  bm_sha256 :: string
  bm_bytes :: int

record manifest =
  mf_version :: json
  mf_run_id :: string
  mf_step :: int
  mf_checkpoint :: member
  mf_ring :: "member option"
  mf_sidecar :: member

definition members :: "manifest \<Rightarrow> member list" where
  "members m = mf_checkpoint m # (case mf_ring m of None \<Rightarrow> [] | Some r \<Rightarrow> [r]) @ [mf_sidecar m]"

definition member_to_dict :: "member \<Rightarrow> json" where
  "member_to_dict b = JObj [(''name'', JStr (bm_name b)), (''sha256'', JStr (bm_sha256 b)), (''bytes'', JInt (bm_bytes b))]"

definition manifest_to_dict :: "manifest \<Rightarrow> json" where
  "manifest_to_dict m = JObj [(''version'', mf_version m), (''run_id'', JStr (mf_run_id m)), (''step'', JInt (mf_step m)),
     (''checkpoint'', member_to_dict (mf_checkpoint m)),
     (''ring'', case mf_ring m of None \<Rightarrow> JNull | Some r \<Rightarrow> member_to_dict r),
     (''sidecar'', member_to_dict (mf_sidecar m))]"

text \<open>\<open>str(v)\<close>; the text of floats and containers is \<open>show\<close>.\<close>

fun py_str :: "(json \<Rightarrow> string) \<Rightarrow> json \<Rightarrow> string" where
  "py_str shows (JStr s) = s"
| "py_str shows (JInt i) = str_int i"
| "py_str shows (JBool b) = (if b then ''True'' else ''False'')"
| "py_str shows JNull = ''None''"
| "py_str shows v = shows v"

text \<open>\<open>except (KeyError, TypeError, ValueError)\<close>: re-raised by name.\<close>

definition malformed :: "py_exc \<Rightarrow> 'a res \<Rightarrow> 'a res" where
  "malformed named r = (case r of Inl e \<Rightarrow> if e \<in> {KeyError, TypeError, ValueError} then Inl named else Inl e | Inr a \<Rightarrow> Inr a)"

definition member_of_dict :: "(json \<Rightarrow> string) \<Rightarrow> json \<Rightarrow> member res" where
  "member_of_dict shows v = (case v of JObj d \<Rightarrow> malformed BundleError
       (rbind (subscript d ''name'') (\<lambda>n. rbind (subscript d ''sha256'') (\<lambda>h.
        rbind (subscript d ''bytes'') (\<lambda>b. rbind (py_int b) (\<lambda>i.
          Inr \<lparr>bm_name = py_str shows n, bm_sha256 = py_str shows h, bm_bytes = i\<rparr>)))))
   | _ \<Rightarrow> Inl BundleError)"

definition manifest_of_dict :: "(json \<Rightarrow> string) \<Rightarrow> json \<Rightarrow> manifest res" where
  "manifest_of_dict shows v = (case v of JObj d \<Rightarrow>
       if \<not> equals_int (dget d ''version'' JNull) BUNDLE_VERSION then Inl BundleError
       else malformed BundleError
         (rbind (subscript d ''ring'') (\<lambda>ring_raw.
          rbind (subscript d ''run_id'') (\<lambda>run_id.
          rbind (subscript d ''step'') (\<lambda>step. rbind (py_int step) (\<lambda>i.
          rbind (subscript d ''checkpoint'') (\<lambda>c. rbind (member_of_dict shows c) (\<lambda>ckpt.
          rbind (if ring_raw = JNull then Inr None else rbind (member_of_dict shows ring_raw) (\<lambda>r. Inr (Some r))) (\<lambda>ring.
          rbind (subscript d ''sidecar'') (\<lambda>sc. rbind (member_of_dict shows sc) (\<lambda>side.
            Inr \<lparr>mf_version = dget d ''version'' JNull, mf_run_id = py_str shows run_id, mf_step = i,
                 mf_checkpoint = ckpt, mf_ring = ring, mf_sidecar = side\<rparr>))))))))))
   | _ \<Rightarrow> Inl BundleError)"

definition read_manifest :: "(json \<Rightarrow> string) \<Rightarrow> files \<Rightarrow> string \<Rightarrow> manifest res" where
  "read_manifest shows fs name = (case map_of fs name of
     None \<Rightarrow> Inl FileNotFoundError
   | Some (Blob _) \<Rightarrow> Inl BundleError
   | Some (Doc v) \<Rightarrow> manifest_of_dict shows v)"

record hasher =
  hs_sha :: "content \<Rightarrow> string"
  hs_size :: "content \<Rightarrow> int"
  hs_show :: "json \<Rightarrow> string"

definition verify_member :: "hasher \<Rightarrow> files \<Rightarrow> member \<Rightarrow> unit res" where
  "verify_member hs fs b = (case map_of fs (bm_name b) of
     None \<Rightarrow> Inl BundleError
   | Some c \<Rightarrow> if hs_size hs c \<noteq> bm_bytes b then Inl BundleError
       else if hs_sha hs c \<noteq> bm_sha256 b then Inl BundleError else Inr ())"

definition verify_bundle :: "hasher \<Rightarrow> files \<Rightarrow> manifest \<Rightarrow> unit res" where
  "verify_bundle hs fs m = rbind (rmap (verify_member hs fs) (members m)) (\<lambda>_. Inr ())"

section \<open>The complete bundles of a directory\<close>

definition manifest_names :: "files \<Rightarrow> string list" where
  "manifest_names fs = filter (\<lambda>n. suffix BUNDLE_SUFFIX n) (map fst fs)"

definition read_and_verify :: "hasher \<Rightarrow> files \<Rightarrow> string \<Rightarrow> manifest res" where
  "read_and_verify hs fs name = rbind (read_manifest (hs_show hs) fs name) (\<lambda>m.
     rbind (verify_bundle hs fs m) (\<lambda>_. Inr m))"

definition skipped :: "py_exc \<Rightarrow> bool" where
  "skipped e \<longleftrightarrow> e \<in> {BundleError, OSError, FileNotFoundError}"

fun collect_bundles :: "hasher \<Rightarrow> files \<Rightarrow> string list \<Rightarrow> manifest list res" where
  "collect_bundles hs fs [] = Inr []"
| "collect_bundles hs fs (n # ns) = (case read_and_verify hs fs n of
     Inl e \<Rightarrow> if skipped e then collect_bundles hs fs ns else Inl e
   | Inr m \<Rightarrow> rbind (collect_bundles hs fs ns) (\<lambda>ms. Inr (m # ms)))"

definition complete_bundles :: "hasher \<Rightarrow> files \<Rightarrow> manifest list res" where
  "complete_bundles hs fs = rbind (collect_bundles hs fs (sort (manifest_names fs))) (\<lambda>ms. Inr (sort_key mf_step ms))"

definition newest_complete_bundle :: "hasher \<Rightarrow> files \<Rightarrow> manifest option res" where
  "newest_complete_bundle hs fs = rbind (complete_bundles hs fs) (\<lambda>ms. Inr (if ms = [] then None else Some (last ms)))"

section \<open>Publishing\<close>

definition member_of :: "hasher \<Rightarrow> string \<Rightarrow> (disk, member) act" where
  "member_of hs name = abind (gets dk_files) (\<lambda>fs. case map_of fs name of
     None \<Rightarrow> lift (Inl FileNotFoundError)
   | Some c \<Rightarrow> ret \<lparr>bm_name = name, bm_sha256 = hs_sha hs c, bm_bytes = hs_size hs c\<rparr>)"

text \<open>Fsync of the file (which must open), then of its directory.\<close>

definition atomic_publish_existing :: "string \<Rightarrow> (disk, unit) act" where
  "atomic_publish_existing name = abind (is_file name) (\<lambda>there.
     if \<not> there then lift (Inl FileNotFoundError) else abind fsync (\<lambda>_. fsync))"

definition atomic_write :: "string \<Rightarrow> string \<Rightarrow> content \<Rightarrow> (disk, unit) act" where
  "atomic_write tmp target c =
     abind (catching
       (abind (put_file tmp (Blob [])) (\<lambda>_. abind (put_file tmp c) (\<lambda>_. abind fsync (\<lambda>_. rename_over tmp target c))))
       (\<lambda>e. abind (unlink_missing_ok tmp) (\<lambda>_. lift (Inl e)))) (\<lambda>_. fsync)"

text \<open>The Rust ring writer writes in place.\<close>

definition write_ring_file :: "content \<Rightarrow> content \<Rightarrow> string \<Rightarrow> (disk, unit) act" where
  "write_ring_file torn full path = abind (put_file path torn) (\<lambda>_. put_file path full)"

text \<open>The ring and the sidecar are written and every member is hashed.\<close>

definition gather_members ::
  "hasher \<Rightarrow> string \<Rightarrow> (string \<Rightarrow> (disk, unit) act) option \<Rightarrow> string option \<Rightarrow>
   (string \<Rightarrow> (disk, unit) act) \<Rightarrow> string \<Rightarrow> (disk, member \<times> member option \<times> member) act" where
  "gather_members hs ckpt write_ring ring_path write_sidecar sidecar_path =
     abind (case (write_ring, ring_path) of
            (Some w, Some rp) \<Rightarrow> abind (w rp) (\<lambda>_. abind (atomic_publish_existing rp) (\<lambda>_.
               abind (member_of hs rp) (\<lambda>b. ret (Some b))))
          | _ \<Rightarrow> ret None) (\<lambda>ring.
       abind (write_sidecar sidecar_path) (\<lambda>_.
       abind (atomic_publish_existing sidecar_path) (\<lambda>_.
       abind (member_of hs ckpt) (\<lambda>c. abind (member_of hs sidecar_path) (\<lambda>sd. ret (c, ring, sd))))))"

definition manifest_for :: "string \<Rightarrow> int \<Rightarrow> member \<times> member option \<times> member \<Rightarrow> manifest" where
  "manifest_for run_id step parts = (case parts of (c, ring, sd) \<Rightarrow>
     \<lparr>mf_version = JInt BUNDLE_VERSION, mf_run_id = run_id, mf_step = step, mf_checkpoint = c,
      mf_ring = ring, mf_sidecar = sd\<rparr>)"

definition publish_bundle ::
  "hasher \<Rightarrow> string \<Rightarrow> string \<Rightarrow> int \<Rightarrow> (string \<Rightarrow> (disk, unit) act) option \<Rightarrow> string option \<Rightarrow>
   (string \<Rightarrow> (disk, unit) act) \<Rightarrow> string \<Rightarrow> string \<Rightarrow> (disk, string) act" where
  "publish_bundle hs ckpt run_id step write_ring ring_path write_sidecar sidecar_path tmp =
     abind (is_file ckpt) (\<lambda>there.
     if \<not> there then lift (Inl BundleError)
     else if write_ring \<noteq> None \<and> ring_path = None then lift (Inl BundleError)
     else abind (gather_members hs ckpt write_ring ring_path write_sidecar sidecar_path) (\<lambda>parts.
          abind (atomic_write tmp (manifest_path_for ckpt) (Doc (manifest_to_dict (manifest_for run_id step parts))))
            (\<lambda>_. ret (manifest_path_for ckpt))))"

section \<open>Pruning\<close>

text \<open>
  \<open>for path in base.glob(...)\<close>: the first readable manifest of that step is unlinked; its name is noted
  before the unlink, and an unlink that fails goes on to the next manifest.
\<close>

fun unlink_manifest :: "hasher \<Rightarrow> int \<Rightarrow> string option \<Rightarrow> string list \<Rightarrow> (disk, string option) act" where
  "unlink_manifest hs step noted [] = ret noted"
| "unlink_manifest hs step noted (n # ns) = abind (gets dk_files) (\<lambda>fs.
     case read_manifest (hs_show hs) fs n of
       Inl e \<Rightarrow> if skipped e then unlink_manifest hs step noted ns else lift (Inl e)
     | Inr m \<Rightarrow> if mf_step m \<noteq> step then unlink_manifest hs step noted ns
         else catching (abind (unlink n) (\<lambda>_. ret (Some n)))
                (\<lambda>e. if skipped e then unlink_manifest hs step (Some n) ns else lift (Inl e)))"

fun unlink_members :: "string \<Rightarrow> member list \<Rightarrow> (disk, string list) act" where
  "unlink_members ckpt [] = ret []"
| "unlink_members ckpt (b # bs) = (if bm_name b = ckpt then unlink_members ckpt bs
     else abind (unlink_missing_ok (bm_name b)) (\<lambda>_. abind (unlink_members ckpt bs) (\<lambda>ns. ret (bm_name b # ns))))"

definition prune_one :: "hasher \<Rightarrow> manifest \<Rightarrow> (disk, string list) act" where
  "prune_one hs m =
     abind (gets (\<lambda>d. manifest_names (dk_files d))) (\<lambda>names.
     abind (unlink_manifest hs (mf_step m) None names) (\<lambda>noted.
     abind (unlink_members (bm_name (mf_checkpoint m)) (members m)) (\<lambda>removed.
     ret (removed @ (case noted of None \<Rightarrow> [] | Some n \<Rightarrow> [n])))))"

fun prune_all :: "hasher \<Rightarrow> manifest list \<Rightarrow> (disk, string list) act" where
  "prune_all hs [] = ret []"
| "prune_all hs (m # ms) = abind (prune_one hs m) (\<lambda>r. abind (prune_all hs ms) (\<lambda>rs. ret (r @ rs)))"

definition prune_bundles :: "hasher \<Rightarrow> nat \<Rightarrow> (disk, string list) act" where
  "prune_bundles hs keep =
     (if keep < 1 then lift (Inl ValueError)
      else abind (gets dk_files) (\<lambda>fs. abind (lift (complete_bundles hs fs)) (\<lambda>bundles.
        if length bundles \<le> keep then ret [] else prune_all hs (take (length bundles - keep) bundles))))"

section \<open>What a run may leave behind\<close>

text \<open>
  \<open>crash_inv I\<close>: started in a directory of \<open>I\<close>, every directory the action passes through - the ones a
  crash can leave and the final one - is in \<open>I\<close>.
\<close>

definition crash_inv :: "(files \<Rightarrow> bool) \<Rightarrow> disk \<Rightarrow> disk \<Rightarrow> bool" where
  "crash_inv I d d' \<longleftrightarrow> (\<exists>cs. dk_crash d' = dk_crash d @ cs \<and>
     (I (dk_files d) \<longrightarrow> (\<forall>fs \<in> set cs \<union> {dk_files d'}. I fs)))"

interpretation crash: state_order "crash_inv I" for I
proof
  show "crash_inv I s s" for s unfolding crash_inv_def by (rule exI [of _ "[]"]) simp
next
  fix s t u assume st: "crash_inv I s t" "crash_inv I t u"
  obtain cs where cs: "dk_crash t = dk_crash s @ cs" "I (dk_files s) \<longrightarrow> (\<forall>fs \<in> set cs \<union> {dk_files t}. I fs)"
    using st(1) [unfolded crash_inv_def] by (elim exE conjE) (rule that)
  obtain ds where ds: "dk_crash u = dk_crash t @ ds" "I (dk_files t) \<longrightarrow> (\<forall>fs \<in> set ds \<union> {dk_files u}. I fs)"
    using st(2) [unfolded crash_inv_def] by (elim exE conjE) (rule that)
  show "crash_inv I s u" unfolding crash_inv_def
  proof (intro exI conjI impI)
    show "dk_crash u = dk_crash s @ cs @ ds" using cs(1) ds(1) by simp
    assume "I (dk_files s)"
    with cs(2) ds(2) show "\<forall>fs \<in> set (cs @ ds) \<union> {dk_files u}. I fs" by (simp add: ball_Un)
  qed
qed

lemma crash_disk_step: "(\<And>fs. I fs \<Longrightarrow> I (f fs)) \<Longrightarrow> moves (crash_inv I) (disk_step f)"
  unfolding moves_def disk_step_def crash_inv_def
  by (auto split: list.split bool.split)

lemma crash_put: "(\<And>fs. I fs \<Longrightarrow> I (AList.update n c fs)) \<Longrightarrow> moves (crash_inv I) (put_file n c)"
  and crash_fsync: "moves (crash_inv I) fsync"
  and crash_rename: "(\<And>fs. I fs \<Longrightarrow> I (AList.update n c (AList.delete m fs))) \<Longrightarrow> moves (crash_inv I) (rename_over m n c)"
  and crash_unlink_missing_ok: "(\<And>fs. I fs \<Longrightarrow> I (AList.delete n fs)) \<Longrightarrow> moves (crash_inv I) (unlink_missing_ok n)"
  and crash_is_file: "moves (crash_inv I) (is_file n)"
  unfolding put_file_def fsync_def rename_over_def unlink_missing_ok_def is_file_def
  by (rule crash_disk_step crash.moves_gets; simp)+

lemma crash_unlink:
  assumes "\<And>fs. I fs \<Longrightarrow> I (AList.delete n fs)" shows "moves (crash_inv I) (unlink n)"
  unfolding unlink_def by (intro crash.moves_rules crash_disk_step assms)

lemma crash_member_of: "moves (crash_inv I) (member_of hs n)"
  unfolding member_of_def by (intro crash.moves_rules)

lemma crash_publish_existing: "moves (crash_inv I) (atomic_publish_existing n)"
  unfolding atomic_publish_existing_def by (intro crash.moves_rules crash_is_file crash_fsync)

lemma crash_gets_bind:
  "(\<And>d. crash_inv I d (snd (f (g d) d))) \<Longrightarrow> moves (crash_inv I) (abind (gets g) f)"
  by (simp add: moves_def abind_def gets_def)

definition agrees_outside :: "string set \<Rightarrow> files \<Rightarrow> files \<Rightarrow> bool" where
  "agrees_outside N F fs \<longleftrightarrow> (\<forall>n. n \<notin> N \<longrightarrow> map_of fs n = map_of F n)"

lemma agrees_refl [simp]: "agrees_outside N F F"
  by (simp add: agrees_outside_def)

lemma agrees_update: "agrees_outside N F fs \<Longrightarrow> n \<in> N \<Longrightarrow> agrees_outside N F (AList.update n c fs)"
  by (auto simp: agrees_outside_def update_conv' )

lemma agrees_delete: "agrees_outside N F fs \<Longrightarrow> n \<in> N \<Longrightarrow> agrees_outside N F (AList.delete n fs)"
  by (auto simp: agrees_outside_def delete_conv' )

text \<open>A writer of \<open>N\<close>: it touches no other file, whatever happens to it.\<close>

definition writes_only :: "string set \<Rightarrow> (disk, 'a) act \<Rightarrow> bool" where
  "writes_only N m \<longleftrightarrow> (\<forall>F. moves (crash_inv (agrees_outside N F)) m)"

lemma writes_only_ring: "writes_only {path} (write_ring_file torn full path)"
  unfolding writes_only_def write_ring_file_def by (intro allI crash.moves_rules crash_put agrees_update) simp_all

section \<open>Manifests survive their file\<close>

lemma member_roundtrip: "member_of_dict shows (member_to_dict b) = Inr b"
  by (simp add: member_of_dict_def member_to_dict_def malformed_def subscript_def)

definition manifest_fields :: "manifest \<Rightarrow> (string, json) dict" where
  "manifest_fields m = [(''version'', mf_version m), (''run_id'', JStr (mf_run_id m)), (''step'', JInt (mf_step m)),
     (''checkpoint'', member_to_dict (mf_checkpoint m)),
     (''ring'', case mf_ring m of None \<Rightarrow> JNull | Some r \<Rightarrow> member_to_dict r),
     (''sidecar'', member_to_dict (mf_sidecar m))]"

lemma manifest_lookups:
  "dget (manifest_fields m) ''version'' JNull = mf_version m"
  "subscript (manifest_fields m) ''run_id'' = Inr (JStr (mf_run_id m))"
  "subscript (manifest_fields m) ''step'' = Inr (JInt (mf_step m))"
  "subscript (manifest_fields m) ''checkpoint'' = Inr (member_to_dict (mf_checkpoint m))"
  "subscript (manifest_fields m) ''ring'' = Inr (case mf_ring m of None \<Rightarrow> JNull | Some r \<Rightarrow> member_to_dict r)"
  "subscript (manifest_fields m) ''sidecar'' = Inr (member_to_dict (mf_sidecar m))"
  by (simp_all add: manifest_fields_def subscript_def dget_def)

lemma manifest_roundtrip:
  assumes "equals_int (mf_version m) BUNDLE_VERSION"
  shows "manifest_of_dict shows (manifest_to_dict m) = Inr m"
proof -
  have d: "manifest_to_dict m = JObj (manifest_fields m)" by (simp only: manifest_to_dict_def manifest_fields_def)
  have n: "member_to_dict b \<noteq> JNull" for b by (simp add: member_to_dict_def)
  show ?thesis unfolding d manifest_of_dict_def json.case manifest_lookups using assms
    by (cases "mf_ring m") (simp_all add: malformed_def member_roundtrip n)
qed

section \<open>Publishing is all or nothing\<close>

lemma crash_inv_weaken:
  assumes "crash_inv I d d'" "I (dk_files d)" "\<And>fs. I fs \<Longrightarrow> K fs"
  shows "crash_inv K d d'"
  using assms unfolding crash_inv_def by blast

lemma crash_inv_final: "crash_inv I d d' \<Longrightarrow> I (dk_files d) \<Longrightarrow> I (dk_files d')"
  unfolding crash_inv_def by blast

lemma writes_only_into:
  assumes m: "writes_only N m" and I: "\<And>fs fs'. I fs \<Longrightarrow> agrees_outside N fs fs' \<Longrightarrow> I fs'"
  shows "moves (crash_inv I) m"
  unfolding moves_def
proof
  fix d
  from m have "crash_inv (agrees_outside N (dk_files d)) d (snd (m d))"
    by (simp add: writes_only_def moves_def)
  then show "crash_inv I d (snd (m d))" unfolding crash_inv_def using I agrees_refl by blast
qed

lemma writes_only_final:
  "writes_only N m \<Longrightarrow> m d = (r, d') \<Longrightarrow> n \<notin> N \<Longrightarrow> map_of (dk_files d') n = map_of (dk_files d) n"
proof -
  assume w: "writes_only N m" and m: "m d = (r, d')" and n: "n \<notin> N"
  from w have "crash_inv (agrees_outside N (dk_files d)) d (snd (m d))" by (simp add: writes_only_def moves_def)
  from crash_inv_final [OF this agrees_refl] m n show ?thesis by (simp add: agrees_outside_def)
qed

interpretation same_files: state_order "\<lambda>d d'. dk_files d' = dk_files d"
  by unfold_locales simp_all

lemma fsync_keeps: "moves (\<lambda>d d'. dk_files d' = dk_files d) fsync"
  by (simp add: moves_def fsync_def disk_step_def split: list.split bool.split)

lemma publish_existing_keeps: "atomic_publish_existing n d = (r, d') \<Longrightarrow> dk_files d' = dk_files d"
  unfolding atomic_publish_existing_def is_file_def
  by (erule moves_run [rotated]) (intro same_files.moves_rules fsync_keeps)

lemma member_of_Inr:
  "member_of hs n d = (Inr b, d') \<Longrightarrow> d' = d \<and> bm_name b = n \<and> verify_member hs (dk_files d) b = Inr ()"
  by (cases "map_of (dk_files d) n") (auto simp: member_of_def verify_member_def act_defs)

lemma verify_member_cong: "map_of fs (bm_name b) = map_of fs' (bm_name b) \<Longrightarrow> verify_member hs fs b = verify_member hs fs' b"
  by (simp add: verify_member_def)

record names =
  nm_ckpt :: string
  nm_ring :: "string option"
  nm_sidecar :: string

text \<open>What publishing asks of its writers: they keep to their own files.\<close>

definition publishable :: "(string \<Rightarrow> (disk, unit) act) option \<Rightarrow> (string \<Rightarrow> (disk, unit) act) \<Rightarrow> names \<Rightarrow> string set \<Rightarrow> string set \<Rightarrow> string \<Rightarrow> bool" where
  "publishable wr ws nm Wr Ws tmp \<longleftrightarrow>
     (\<forall>w p. wr = Some w \<and> nm_ring nm = Some p \<longrightarrow> writes_only Wr (w p) \<and> p \<notin> Ws) \<and>
     writes_only Ws (ws (nm_sidecar nm)) \<and>
     {nm_ckpt nm, manifest_path_for (nm_ckpt nm)} \<inter> (Wr \<union> Ws) = {} \<and>
     tmp \<notin> {nm_ckpt nm, nm_sidecar nm, manifest_path_for (nm_ckpt nm)} \<and> nm_sidecar nm \<noteq> manifest_path_for (nm_ckpt nm) \<and>
     (\<forall>p. nm_ring nm = Some p \<longrightarrow> p \<noteq> tmp \<and> p \<noteq> manifest_path_for (nm_ckpt nm))"

definition parts_verify :: "hasher \<Rightarrow> files \<Rightarrow> member \<times> member option \<times> member \<Rightarrow> bool" where
  "parts_verify hs fs parts \<longleftrightarrow> (case parts of (c, ring, sd) \<Rightarrow> verify_member hs fs c = Inr () \<and>
     verify_member hs fs sd = Inr () \<and> (\<forall>r. ring = Some r \<longrightarrow> verify_member hs fs r = Inr ()))"

definition parts_named :: "names \<Rightarrow> bool \<Rightarrow> member \<times> member option \<times> member \<Rightarrow> bool" where
  "parts_named nm has_ring parts \<longleftrightarrow> (case parts of (c, ring, sd) \<Rightarrow> bm_name c = nm_ckpt nm \<and>
     bm_name sd = nm_sidecar nm \<and> (ring \<noteq> None \<longleftrightarrow> has_ring) \<and> (\<forall>r. ring = Some r \<longrightarrow> nm_ring nm = Some (bm_name r)))"

lemma gather_rest:
  assumes run: "abind (m :: (disk, unit) act) (\<lambda>_. abind (atomic_publish_existing sp) (\<lambda>_.
       abind (member_of hs ckpt) (\<lambda>c. abind (member_of hs sp) (\<lambda>sd. ret (c, ring, sd))))) d = (Inr parts, d')"
    and ws: "writes_only Ws m"
  shows "\<exists>c sd. parts = (c, ring, sd) \<and> bm_name c = ckpt \<and> bm_name sd = sp \<and>
    verify_member hs (dk_files d') c = Inr () \<and> verify_member hs (dk_files d') sd = Inr () \<and>
    (\<forall>n. n \<notin> Ws \<longrightarrow> map_of (dk_files d') n = map_of (dk_files d) n)"
proof -
  from run obtain d1 d2 c d3 sd d4 where s: "m d = (Inr (), d1)" "atomic_publish_existing sp d1 = (Inr (), d2)"
    "member_of hs ckpt d2 = (Inr c, d3)" "member_of hs sp d3 = (Inr sd, d4)" "parts = (c, ring, sd)" "d4 = d'"
    by (auto simp: abind_Inr_iff ret_def)
  note mo = member_of_Inr [OF s(3)] member_of_Inr [OF s(4)]
  have f: "dk_files d' = dk_files d1" using mo s(6) publish_existing_keeps [OF s(2)] by simp
  show ?thesis using mo s(5,6) f publish_existing_keeps [OF s(2)] writes_only_final [OF ws s(1)] by auto
qed

lemma gather_verifies:
  assumes run: "gather_members hs (nm_ckpt nm) wr (nm_ring nm) ws (nm_sidecar nm) d = (Inr parts, d')"
    and pub: "publishable wr ws nm Wr Ws tmp"
  shows "parts_verify hs (dk_files d') parts \<and> parts_named nm (wr \<noteq> None \<and> nm_ring nm \<noteq> None) parts"
proof (cases "wr \<noteq> None \<and> nm_ring nm \<noteq> None")
  case False
  then have "(case (wr, nm_ring nm) of (Some w, Some rp) \<Rightarrow> abind (w rp) (\<lambda>_. abind (atomic_publish_existing rp) (\<lambda>_.
      abind (member_of hs rp) (\<lambda>b. ret (Some b)))) | _ \<Rightarrow> ret None) = ret None" by (auto split: option.splits)
  with run have r: "abind (ws (nm_sidecar nm)) (\<lambda>_. abind (atomic_publish_existing (nm_sidecar nm)) (\<lambda>_.
       abind (member_of hs (nm_ckpt nm)) (\<lambda>c. abind (member_of hs (nm_sidecar nm)) (\<lambda>sd. ret (c, None, sd))))) d = (Inr parts, d')"
    by (simp add: gather_members_def abind_def ret_def)
  show ?thesis using gather_rest [OF r] pub False by (auto simp: publishable_def parts_verify_def parts_named_def)
next
  case True
  then obtain w p where wp: "wr = Some w" "nm_ring nm = Some p" by auto
  from run wp obtain d1 d2 b d3 where s: "w p d = (Inr (), d1)" "atomic_publish_existing p d1 = (Inr (), d2)"
    "member_of hs p d2 = (Inr b, d3)"
    and r: "abind (ws (nm_sidecar nm)) (\<lambda>_. abind (atomic_publish_existing (nm_sidecar nm)) (\<lambda>_.
       abind (member_of hs (nm_ckpt nm)) (\<lambda>c. abind (member_of hs (nm_sidecar nm)) (\<lambda>sd. ret (c, Some b, sd))))) d3 = (Inr parts, d')"
    by (auto simp: gather_members_def abind_Inr_iff ret_def)
  note m = member_of_Inr [OF s(3)]
  from pub wp have ws: "writes_only Ws (ws (nm_sidecar nm))" and p: "p \<notin> Ws" by (auto simp: publishable_def)
  from gather_rest [OF r ws] obtain c sd where g: "parts = (c, Some b, sd)" "bm_name c = nm_ckpt nm" "bm_name sd = nm_sidecar nm"
    "verify_member hs (dk_files d') c = Inr ()" "verify_member hs (dk_files d') sd = Inr ()"
    "\<forall>n. n \<notin> Ws \<longrightarrow> map_of (dk_files d') n = map_of (dk_files d3) n" by blast
  have "verify_member hs (dk_files d') b = verify_member hs (dk_files d2) b"
    by (rule verify_member_cong) (use g(6) m p in auto)
  with m g wp show ?thesis by (simp add: parts_verify_def parts_named_def)
qed

lemma read_and_verify_committed:
  assumes "map_of fs name = Some (Doc (manifest_to_dict (manifest_for run_id step parts)))" "parts_verify hs fs parts"
  shows "read_and_verify hs fs name = Inr (manifest_for run_id step parts)"
proof -
  obtain c ring sd where parts: "parts = (c, ring, sd)" by (cases parts)
  have "equals_int (mf_version (manifest_for run_id step parts)) BUNDLE_VERSION"
    by (simp add: manifest_for_def parts BUNDLE_VERSION_def)
  then have "read_manifest (hs_show hs) fs name = Inr (manifest_for run_id step parts)"
    using assms(1) by (simp add: read_manifest_def manifest_roundtrip)
  moreover have "verify_bundle hs fs (manifest_for run_id step parts) = Inr ()"
    using assms(2) by (cases ring) (simp_all add: verify_bundle_def members_def manifest_for_def parts parts_verify_def)
  ultimately show ?thesis by (simp add: read_and_verify_def)
qed

text \<open>What the commit may leave: everything as it was, but for the temporary file and the manifest.\<close>

definition committing :: "files \<Rightarrow> string \<Rightarrow> string \<Rightarrow> content \<Rightarrow> files \<Rightarrow> bool" where
  "committing F tmp target c fs \<longleftrightarrow> agrees_outside {tmp, target} F fs \<and>
     map_of fs target \<in> {map_of F target, Some c}"

lemma atomic_write_commits:
  assumes "tmp \<noteq> target" shows "moves (crash_inv (committing F tmp target c)) (atomic_write tmp target c)"
  unfolding atomic_write_def
  by (intro crash.moves_rules crash_put crash_fsync crash_rename crash_unlink_missing_ok)
    (use assms in \<open>auto simp: committing_def agrees_outside_def update_conv' delete_conv'\<close>)

lemma disk_step_Inr: "disk_step f d = (Inr u, d') \<Longrightarrow> dk_files d' = f (dk_files d)"
  by (auto simp: disk_step_def split: list.splits bool.splits)

lemma atomic_write_Inr:
  assumes "atomic_write tmp target c d = (Inr u, d')"
  shows "map_of (dk_files d') target = Some c"
proof -
  from assms obtain d1 where c: "catching
       (abind (put_file tmp (Blob [])) (\<lambda>_. abind (put_file tmp c) (\<lambda>_. abind fsync (\<lambda>_. rename_over tmp target c))))
       (\<lambda>e. abind (unlink_missing_ok tmp) (\<lambda>_. lift (Inl e))) d = (Inr (), d1)" and f: "fsync d1 = (Inr u, d')"
    by (auto simp: atomic_write_def abind_Inr_iff)
  have no: "abind (unlink_missing_ok tmp) (\<lambda>_. lift (Inl e)) s \<noteq> (Inr (), t)" for e s t
    by (auto simp: abind_Inr_iff lift_def)
  from c no have "abind (put_file tmp (Blob [])) (\<lambda>_. abind (put_file tmp c) (\<lambda>_. abind fsync (\<lambda>_. rename_over tmp target c))) d = (Inr (), d1)"
    unfolding catching_def by (auto split: prod.splits sum.splits)
  then obtain d0 where "rename_over tmp target c d0 = (Inr (), d1)" by (auto simp: abind_Inr_iff)
  then have "dk_files d1 = AList.update target c (AList.delete tmp (dk_files d0))"
    unfolding rename_over_def by (rule disk_step_Inr)
  moreover have "dk_files d' = dk_files d1" using f unfolding fsync_def by (simp add: disk_step_Inr)
  ultimately show ?thesis by (simp add: update_conv')
qed

definition committed :: "hasher \<Rightarrow> string \<Rightarrow> int \<Rightarrow> names \<Rightarrow> bool \<Rightarrow> files \<Rightarrow> bool" where
  "committed hs run_id step nm has_ring fs \<longleftrightarrow> (\<exists>m.
     read_and_verify hs fs (manifest_path_for (nm_ckpt nm)) = Inr m \<and> mf_step m = step \<and> mf_run_id m = run_id \<and>
     bm_name (mf_checkpoint m) = nm_ckpt nm \<and> (mf_ring m \<noteq> None \<longleftrightarrow> has_ring))"

lemma committing_keeps_members:
  assumes J: "committing (dk_files d1) tmp target c fs" and pub: "publishable wr ws nm Wr Ws tmp"
    and t: "target = manifest_path_for (nm_ckpt nm)"
    and v: "parts_verify hs (dk_files d1) parts" "parts_named nm b parts"
  shows "parts_verify hs fs parts"
proof -
  obtain c ring sd where parts: "parts = (c, ring, sd)" by (cases parts)
  have own: "n \<notin> {tmp, target} \<Longrightarrow> map_of fs n = map_of (dk_files d1) n" for n
    using J by (simp add: committing_def agrees_outside_def)
  have "nm_ckpt nm \<notin> {tmp, target}" using pub by (auto simp: publishable_def t manifest_path_for_def BUNDLE_SUFFIX_def)
  moreover have "nm_sidecar nm \<notin> {tmp, target}" using pub by (auto simp: publishable_def t)
  moreover have "\<forall>p. nm_ring nm = Some p \<longrightarrow> p \<notin> {tmp, target}" using pub by (auto simp: publishable_def t)
  ultimately have "verify_member hs fs c = verify_member hs (dk_files d1) c" "verify_member hs fs sd = verify_member hs (dk_files d1) sd"
    "\<forall>r. ring = Some r \<longrightarrow> verify_member hs fs r = verify_member hs (dk_files d1) r"
    using v(2) own by (auto intro!: verify_member_cong simp: parts_named_def parts)
  with v(1) show ?thesis by (simp add: parts_verify_def parts)
qed

lemma gather_crash:
  assumes pub: "publishable wr ws nm Wr Ws tmp"
  shows "moves (crash_inv (agrees_outside (Wr \<union> Ws) F)) (gather_members hs (nm_ckpt nm) wr (nm_ring nm) ws (nm_sidecar nm))"
proof -
  have into: "agrees_outside (Wr \<union> Ws) F fs'" if "agrees_outside (Wr \<union> Ws) F fs" "agrees_outside N fs fs'" "N \<subseteq> Wr \<union> Ws" for N fs fs'
    using that by (auto simp: agrees_outside_def)
  have w: "moves (crash_inv (agrees_outside (Wr \<union> Ws) F)) (w p)" if "wr = Some w" "nm_ring nm = Some p" for w p
    by (rule writes_only_into [of Wr]) (use pub that in \<open>auto simp: publishable_def intro: into\<close>)
  have s: "moves (crash_inv (agrees_outside (Wr \<union> Ws) F)) (ws (nm_sidecar nm))"
    by (rule writes_only_into [of Ws]) (use pub in \<open>auto simp: publishable_def intro: into\<close>)
  have "moves (crash_inv (agrees_outside (Wr \<union> Ws) F)) (case (wr, nm_ring nm) of (Some w, Some rp) \<Rightarrow>
      abind (w rp) (\<lambda>_. abind (atomic_publish_existing rp) (\<lambda>_. abind (member_of hs rp) (\<lambda>b. ret (Some b)))) | _ \<Rightarrow> ret None)"
    by (auto split: option.split intro!: crash.moves_rules crash_publish_existing crash_member_of w)
  from this s show ?thesis unfolding gather_members_def
    by (rule crash.moves_abind [OF _ crash.moves_abind])
      (intro crash.moves_abind crash.moves_ret crash_publish_existing crash_member_of)
qed

lemma publish_runs:
  assumes "publish_bundle hs (nm_ckpt nm) run_id step wr (nm_ring nm) ws (nm_sidecar nm) tmp d = (r, d')"
  shows "(\<exists>e. r = Inl e \<and> d' = d) \<or> (wr \<noteq> None \<longrightarrow> nm_ring nm \<noteq> None) \<and> (\<exists>g d1.
    gather_members hs (nm_ckpt nm) wr (nm_ring nm) ws (nm_sidecar nm) d = (g, d1) \<and>
    (case g of Inl e \<Rightarrow> r = Inl e \<and> d' = d1
     | Inr parts \<Rightarrow> \<exists>v. atomic_write tmp (manifest_path_for (nm_ckpt nm)) (Doc (manifest_to_dict (manifest_for run_id step parts))) d1 = (v, d') \<and>
         r = (case v of Inl e \<Rightarrow> Inl e | Inr _ \<Rightarrow> Inr (manifest_path_for (nm_ckpt nm)))))"
proof -
  obtain g d1 where g: "gather_members hs (nm_ckpt nm) wr (nm_ring nm) ws (nm_sidecar nm) d = (g, d1)" by fastforce
  show ?thesis
  proof (cases "map_of (dk_files d) (nm_ckpt nm) = None \<or> (wr \<noteq> None \<and> nm_ring nm = None)")
    case True
    with assms have "\<exists>e. r = Inl e \<and> d' = d"
      by (auto simp: publish_bundle_def is_file_def abind_def gets_def lift_def simp del: map_of_None_dkeys split: if_splits)
    then show ?thesis ..
  next
    case False
    then have b1: "(map_of (dk_files d) (nm_ckpt nm) \<noteq> None) = True" by (simp del: map_of_None_dkeys)
    from False have b2: "(wr \<noteq> None \<and> nm_ring nm = None) = False" by (simp del: map_of_None_dkeys)
    have eq: "abind (gather_members hs (nm_ckpt nm) wr (nm_ring nm) ws (nm_sidecar nm)) (\<lambda>parts.
          abind (atomic_write tmp (manifest_path_for (nm_ckpt nm)) (Doc (manifest_to_dict (manifest_for run_id step parts))))
            (\<lambda>_. ret (manifest_path_for (nm_ckpt nm)))) d = (r, d')"
      using assms unfolding publish_bundle_def is_file_def abind_def [of "gets _"] gets_def prod.case sum.case b1 b2
        if_True if_False not_True_eq_False .
    show ?thesis
    proof (cases g)
      case (Inl e)
      with eq g False show ?thesis by (auto simp: abind_def)
    next
      case (Inr parts)
      obtain v u where a: "atomic_write tmp (manifest_path_for (nm_ckpt nm))
        (Doc (manifest_to_dict (manifest_for run_id step parts))) d1 = (v, u)" by fastforce
      from eq g Inr have "abind (atomic_write tmp (manifest_path_for (nm_ckpt nm)) (Doc (manifest_to_dict (manifest_for run_id step parts))))
            (\<lambda>_. ret (manifest_path_for (nm_ckpt nm))) d1 = (r, d')" by (simp add: abind_def [of "gather_members _ _ _ _ _ _"])
      with a have "u = d' \<and> r = (case v of Inl e \<Rightarrow> Inl e | Inr _ \<Rightarrow> Inr (manifest_path_for (nm_ckpt nm)))"
        by (cases v) (auto simp: abind_def ret_def)
      with a g Inr False show ?thesis by auto
    qed
  qed
qed

lemma publish_commit:
  assumes g: "gather_members hs (nm_ckpt nm) wr (nm_ring nm) ws (nm_sidecar nm) d = (Inr parts, d1)"
    and aw: "atomic_write tmp (manifest_path_for (nm_ckpt nm)) (Doc (manifest_to_dict (manifest_for run_id step parts))) d1 = (v, d')"
    and pub: "publishable wr ws nm Wr Ws tmp" and wr: "wr \<noteq> None \<longrightarrow> nm_ring nm \<noteq> None"
  shows "crash_inv (\<lambda>fs. map_of fs (manifest_path_for (nm_ckpt nm)) = map_of (dk_files d1) (manifest_path_for (nm_ckpt nm)) \<or>
      committed hs run_id step nm (wr \<noteq> None) fs) d1 d' \<and> (\<forall>u. v = Inr u \<longrightarrow> committed hs run_id step nm (wr \<noteq> None) (dk_files d'))"
proof -
  let ?t = "manifest_path_for (nm_ckpt nm)" and ?c = "Doc (manifest_to_dict (manifest_for run_id step parts))"
  let ?J = "committing (dk_files d1) tmp ?t ?c"
  have "(wr \<noteq> None \<and> nm_ring nm \<noteq> None) = (wr \<noteq> None)" using wr by blast
  with gather_verifies [OF g pub] have v: "parts_verify hs (dk_files d1) parts" "parts_named nm (wr \<noteq> None) parts" by simp_all
  have done1: "committed hs run_id step nm (wr \<noteq> None) fs" if "?J fs" "map_of fs ?t = Some ?c" for fs
    using read_and_verify_committed [OF that(2) committing_keeps_members [OF that(1) pub refl v]] v(2)
    by (cases parts) (simp add: committed_def manifest_for_def parts_named_def)
  have "tmp \<noteq> ?t" using pub by (simp add: publishable_def)
  from moves_run [OF atomic_write_commits [OF this] aw] have c: "crash_inv ?J d1 d'" .
  have J1: "?J (dk_files d1)" by (simp add: committing_def)
  have "committed hs run_id step nm (wr \<noteq> None) (dk_files d')" if "v = Inr u" for u
    by (rule done1 [OF crash_inv_final [OF c J1] atomic_write_Inr [OF aw [unfolded that]]])
  moreover have "crash_inv (\<lambda>fs. map_of fs ?t = map_of (dk_files d1) ?t \<or> committed hs run_id step nm (wr \<noteq> None) fs) d1 d'"
  proof (rule crash_inv_weaken [OF c J1])
    fix fs assume "?J fs"
    then have "map_of fs ?t = map_of (dk_files d1) ?t \<or> map_of fs ?t = Some ?c" unfolding committing_def by blast
    with done1 [OF \<open>?J fs\<close>] show "map_of fs ?t = map_of (dk_files d1) ?t \<or> committed hs run_id step nm (wr \<noteq> None) fs" by blast
  qed
  ultimately show ?thesis by blast
qed

text \<open>C11: Publishing a resume bundle is all or nothing: whatever fails and wherever the process dies, every
  directory left behind has either the manifest it had before or one that reads back, at the given step
  and run, with every member present at its recorded size and hash; and when the publisher returns, the
  committed bundle is there.\<close>

theorem publish_all_or_nothing:
  assumes run: "publish_bundle hs (nm_ckpt nm) run_id step wr (nm_ring nm) ws (nm_sidecar nm) tmp d = (r, d')"
    and pub: "publishable wr ws nm Wr Ws tmp"
  shows "(\<exists>cs. dk_crash d' = dk_crash d @ cs \<and> (\<forall>fs \<in> set cs \<union> {dk_files d'}.
      map_of fs (manifest_path_for (nm_ckpt nm)) = map_of (dk_files d) (manifest_path_for (nm_ckpt nm)) \<or>
      committed hs run_id step nm (wr \<noteq> None) fs)) \<and>
    (\<forall>p. r = Inr p \<longrightarrow> p = manifest_path_for (nm_ckpt nm) \<and> committed hs run_id step nm (wr \<noteq> None) (dk_files d'))"
proof -
  let ?t = "manifest_path_for (nm_ckpt nm)"
  define K where "K fs \<longleftrightarrow> map_of fs ?t = map_of (dk_files d) ?t \<or> committed hs run_id step nm (wr \<noteq> None) fs" for fs
  have Kd: "K (dk_files d)" by (simp add: K_def)
  have "crash_inv K d d' \<and> (\<forall>p. r = Inr p \<longrightarrow> p = ?t \<and> committed hs run_id step nm (wr \<noteq> None) (dk_files d'))"
    using publish_runs [OF run]
  proof (elim disjE exE conjE)
    fix e assume "r = Inl e" "d' = d" then show ?thesis using crash.stay by simp
  next
    fix g d1
    assume wr: "wr \<noteq> None \<longrightarrow> nm_ring nm \<noteq> None"
      and g: "gather_members hs (nm_ckpt nm) wr (nm_ring nm) ws (nm_sidecar nm) d = (g, d1)"
      and rest: "case g of Inl e \<Rightarrow> r = Inl e \<and> d' = d1
       | Inr parts \<Rightarrow> \<exists>v. atomic_write tmp ?t (Doc (manifest_to_dict (manifest_for run_id step parts))) d1 = (v, d') \<and>
           r = (case v of Inl e \<Rightarrow> Inl e | Inr _ \<Rightarrow> Inr ?t)"
    have "\<And>fs. agrees_outside (Wr \<union> Ws) (dk_files d) fs \<Longrightarrow> map_of fs ?t = map_of (dk_files d) ?t"
      using pub by (auto simp: agrees_outside_def publishable_def)
    note same = this
    from moves_run [OF gather_crash [OF pub] g]
    have g1: "crash_inv (agrees_outside (Wr \<union> Ws) (dk_files d)) d d1" .
    have gK: "crash_inv K d d1" by (rule crash_inv_weaken [OF g1 agrees_refl]) (unfold K_def, intro disjI1 same)
    have t1: "map_of (dk_files d1) ?t = map_of (dk_files d) ?t" by (rule same [OF crash_inv_final [OF g1 agrees_refl]])
    show ?thesis
    proof (cases g)
      case (Inl e)
      with rest gK show ?thesis by simp
    next
      case (Inr parts)
      with rest obtain v where aw: "atomic_write tmp ?t (Doc (manifest_to_dict (manifest_for run_id step parts))) d1 = (v, d')"
        and rv: "r = (case v of Inl e \<Rightarrow> Inl e | Inr _ \<Rightarrow> Inr ?t)" by auto
      note pc = publish_commit [OF g [unfolded Inr] aw pub wr]
      have "crash_inv K d1 d'" using pc unfolding t1 K_def by (rule conjunct1)
      from crash.follow [OF gK this] pc rv show ?thesis by (cases v) auto
    qed
  qed
  with Kd show ?thesis by (auto simp: crash_inv_def K_def)
qed

text \<open>\<open>write_resume_state\<close>: the sidecar goes through its own temporary sibling.\<close>

definition write_resume_state :: "content \<Rightarrow> string \<Rightarrow> (disk, unit) act" where
  "write_resume_state c path = abind (put_file (path @ ''.tmp'') (Blob [])) (\<lambda>_. abind (put_file (path @ ''.tmp'') c) (\<lambda>_.
     abind fsync (\<lambda>_. rename_over (path @ ''.tmp'') path c)))"

lemma writes_only_sidecar: "writes_only {path, path @ ''.tmp''} (write_resume_state c path)"
  unfolding writes_only_def write_resume_state_def
  by (intro allI crash.moves_rules crash_put crash_fsync crash_rename agrees_update agrees_delete) simp_all

definition own_names :: "string \<Rightarrow> names" where
  "own_names ckpt = \<lparr>nm_ckpt = ckpt, nm_ring = Some (ring_path_for ckpt), nm_sidecar = sidecar_path_for ckpt\<rparr>"

text \<open>The writers of the coordinator, on the names it derives from the checkpoint's, are of this kind.\<close>

lemma coordinator_publishable:
  "publishable (Some (write_ring_file torn ring)) (write_resume_state side) (own_names ckpt)
     {ring_path_for ckpt} {sidecar_path_for ckpt, sidecar_path_for ckpt @ ''.tmp''} (manifest_path_for ckpt @ ''.tmp'')"
  using writes_only_ring [of "ring_path_for ckpt" torn ring] writes_only_sidecar [of "sidecar_path_for ckpt" side]
  by (simp add: publishable_def own_names_def ring_path_for_def sidecar_path_for_def manifest_path_for_def
      RING_SUFFIX_def SIDECAR_SUFFIX_def BUNDLE_SUFFIX_def)

definition demo_hasher :: hasher where
  "demo_hasher = \<lparr>hs_sha = (\<lambda>c. case c of Blob s \<Rightarrow> s | Doc _ \<Rightarrow> ''doc''), hs_size = (\<lambda>_. 1), hs_show = (\<lambda>_. [])\<rparr>"

theorem publish_all_or_nothing_witness:
  "\<exists>d'. publish_bundle demo_hasher ''c'' ''run'' 7 (Some (write_ring_file (Blob []) (Blob ''r''))) (Some (ring_path_for ''c''))
      (write_resume_state (Doc JNull)) (sidecar_path_for ''c'') (manifest_path_for ''c'' @ ''.tmp'')
      \<lparr>dk_files = [(''c'', Blob ''w'')], dk_faults = [], dk_crash = []\<rparr> = (Inr (manifest_path_for ''c''), d') \<and>
    committed demo_hasher ''run'' 7 (own_names ''c'') True (dk_files d')"
proof -
  let ?nm = "own_names ''c''"
  let ?d = "\<lparr>dk_files = [(''c'', Blob ''w'')], dk_faults = [], dk_crash = []\<rparr>"
  let ?w = "Some (write_ring_file (Blob []) (Blob ''r''))"
  obtain r d' where run: "publish_bundle demo_hasher (nm_ckpt ?nm) ''run'' 7 ?w (nm_ring ?nm)
      (write_resume_state (Doc JNull)) (nm_sidecar ?nm) (manifest_path_for ''c'' @ ''.tmp'') ?d = (r, d')" by fastforce
  then have "r = Inr (manifest_path_for ''c'')"
    by (simp add: publish_bundle_def own_names_def is_file_def gather_members_def write_ring_file_def write_resume_state_def
        atomic_publish_existing_def atomic_write_def put_file_def fsync_def rename_over_def disk_step_def member_of_def act_defs
        ring_path_for_def sidecar_path_for_def manifest_path_for_def RING_SUFFIX_def SIDECAR_SUFFIX_def BUNDLE_SUFFIX_def
        update_conv' delete_conv')
  with publish_all_or_nothing [OF run coordinator_publishable] run show ?thesis
    by (auto simp: own_names_def)
qed

section \<open>Pruning keeps the newest bundles\<close>

text \<open>Bundles as the coordinator writes them: every member is named after its checkpoint.\<close>

definition well_named :: "string \<Rightarrow> manifest \<Rightarrow> bool" where
  "well_named n m \<longleftrightarrow> (let c = bm_name (mf_checkpoint m) in n = manifest_path_for c \<and> suffix ''.ckpt'' c \<and>
     bm_name (mf_sidecar m) = sidecar_path_for c \<and> (case mf_ring m of None \<Rightarrow> True | Some r \<Rightarrow> bm_name r = ring_path_for c))"

definition well_named_dir :: "hasher \<Rightarrow> files \<Rightarrow> bool" where
  "well_named_dir hs fs \<longleftrightarrow> (\<forall>n m. read_manifest (hs_show hs) fs n = Inr m \<longrightarrow> well_named n m)"

text \<open>Two manifests that read never carry the same step.\<close>

definition steps_distinct :: "hasher \<Rightarrow> files \<Rightarrow> bool" where
  "steps_distinct hs fs \<longleftrightarrow> (\<forall>n m n' m'. read_manifest (hs_show hs) fs n = Inr m \<and>
     read_manifest (hs_show hs) fs n' = Inr m' \<and> mf_step m = mf_step m' \<longrightarrow> n = n')"

definition own_files :: "string \<Rightarrow> string set" where
  "own_files c = {manifest_path_for c, ring_path_for c, sidecar_path_for c}"

text \<open>The directory \<open>F\<close>, with some of the files of \<open>N\<close> gone.\<close>

definition shrunk :: "files \<Rightarrow> string set \<Rightarrow> files \<Rightarrow> bool" where
  "shrunk F N fs \<longleftrightarrow> (\<forall>n. map_of fs n = map_of F n \<or> (n \<in> N \<and> map_of fs n = None))"

lemma shrunk_refl: "shrunk F N F"
  by (simp add: shrunk_def)

lemma shrunk_delete: "shrunk F N fs \<Longrightarrow> n \<in> N \<Longrightarrow> shrunk F N (AList.delete n fs)"
  by (auto simp: shrunk_def delete_conv')

lemma shrunk_reads: "shrunk F N fs \<Longrightarrow> read_manifest shows fs n = Inr m \<Longrightarrow> read_manifest shows F n = Inr m"
  unfolding shrunk_def read_manifest_def by (metis option.case(1) sum.distinct(1))

lemma shrunk_outside: "shrunk F N fs \<Longrightarrow> n \<notin> N \<Longrightarrow> map_of fs n = map_of F n"
  unfolding shrunk_def by blast

lemma crash_unlink_members:
  "(\<And>b. b \<in> set bs \<Longrightarrow> bm_name b \<noteq> c \<Longrightarrow> bm_name b \<in> N) \<Longrightarrow> moves (crash_inv (shrunk F N)) (unlink_members c bs)"
  by (induction bs) (auto intro!: crash.moves_rules crash_unlink_missing_ok shrunk_delete)

lemma crash_inv_vacuous: "crash_inv (\<lambda>_. True) d d' \<Longrightarrow> \<not> I (dk_files d) \<Longrightarrow> crash_inv I d d'"
  by (auto simp: crash_inv_def)

lemma crash_unlink_manifest_any: "moves (crash_inv (\<lambda>_. True)) (unlink_manifest hs step noted ns)"
  by (induction ns arbitrary: noted)
    (auto intro!: crash.moves_rules crash_unlink split: sum.split)

lemma crash_unlink_manifest:
  assumes "\<And>fs n m. shrunk F N fs \<Longrightarrow> read_manifest (hs_show hs) fs n = Inr m \<Longrightarrow> mf_step m = step \<Longrightarrow> n \<in> N"
  shows "moves (crash_inv (shrunk F N)) (unlink_manifest hs step noted ns)"
proof (induction ns arbitrary: noted)
  case Nil
  then show ?case by (simp add: crash.moves_ret)
next
  case (Cons n ns)
  show ?case unfolding moves_def
  proof
    fix d
    show "crash_inv (shrunk F N) d (snd (unlink_manifest hs step noted (n # ns) d))"
    proof (cases "shrunk F N (dk_files d)")
      case False
      with crash_unlink_manifest_any show ?thesis unfolding moves_def by (blast intro: crash_inv_vacuous)
    next
      case True
      have "moves (crash_inv (shrunk F N)) (case read_manifest (hs_show hs) (dk_files d) n of
          Inl e \<Rightarrow> if skipped e then unlink_manifest hs step noted ns else lift (Inl e)
        | Inr m \<Rightarrow> if mf_step m \<noteq> step then unlink_manifest hs step noted ns
            else catching (abind (unlink n) (\<lambda>_. ret (Some n)))
              (\<lambda>e. if skipped e then unlink_manifest hs step (Some n) ns else lift (Inl e)))"
        using assms [OF True] Cons.IH
        by (auto intro!: crash.moves_rules crash_unlink shrunk_delete split: sum.split)
      then show ?thesis by (simp add: moves_def abind_def gets_def)
    qed
  qed
qed

lemma collected: "collect_bundles hs fs ns = Inr ms \<Longrightarrow> m \<in> set ms \<Longrightarrow> \<exists>n \<in> set ns. read_and_verify hs fs n = Inr m"
  by (induction ns arbitrary: ms) (auto simp: rbind_Inr_iff split: sum.splits if_splits)

lemma complete_read: "complete_bundles hs fs = Inr ms \<Longrightarrow> m \<in> set ms \<Longrightarrow> \<exists>n. read_and_verify hs fs n = Inr m"
  by (auto simp: complete_bundles_def rbind_Inr_iff dest: collected)

lemma read_and_verify_reads:
  "read_and_verify hs fs n = Inr m \<Longrightarrow> read_manifest (hs_show hs) fs n = Inr m \<and> verify_bundle hs fs m = Inr ()"
  by (auto simp: read_and_verify_def rbind_Inr_iff)

lemma well_named_members:
  "well_named n m \<Longrightarrow> b \<in> set (members m) \<Longrightarrow> bm_name b = bm_name (mf_checkpoint m) \<or> bm_name b \<in> own_files (bm_name (mf_checkpoint m))"
  by (auto simp: well_named_def Let_def members_def own_files_def split: option.splits)

lemma crash_prune_one:
  assumes wn: "well_named_dir hs F" and sd: "steps_distinct hs F" and v: "read_manifest (hs_show hs) F n = Inr v"
    and N: "own_files (bm_name (mf_checkpoint v)) \<subseteq> N"
  shows "moves (crash_inv (shrunk F N)) (prune_one hs v)"
proof -
  have wv: "well_named n v" using wn v by (simp add: well_named_dir_def)
  then have "n \<in> N" using N by (auto simp: well_named_def Let_def own_files_def)
  have "n' \<in> N" if "shrunk F N fs" "read_manifest (hs_show hs) fs n' = Inr m" "mf_step m = mf_step v" for fs n' m
    using shrunk_reads [OF that(1,2)] sd v that(3) \<open>n \<in> N\<close> unfolding steps_distinct_def by metis
  moreover have "bm_name b \<in> N" if "b \<in> set (members v)" "bm_name b \<noteq> bm_name (mf_checkpoint v)" for b
    using well_named_members [OF wv that(1)] that(2) N by blast
  ultimately show ?thesis unfolding prune_one_def
    by (intro crash.moves_rules crash_unlink_manifest crash_unlink_members)
qed

lemma crash_prune_all:
  assumes "\<And>v. v \<in> set vs \<Longrightarrow> moves (crash_inv I) (prune_one hs v)"
  shows "moves (crash_inv I) (prune_all hs vs)"
  using assms by (induction vs) (auto intro!: crash.moves_rules)

text \<open>The files the victims own are foreign to every other bundle.\<close>

lemma ckpt_not_owned: "suffix ''.ckpt'' c \<Longrightarrow> c \<notin> own_files c'"
  by (auto simp: own_files_def suffix_def manifest_path_for_def ring_path_for_def sidecar_path_for_def
      BUNDLE_SUFFIX_def RING_SUFFIX_def SIDECAR_SUFFIX_def)

lemma owned_apart: "c \<noteq> c' \<Longrightarrow> own_files c \<inter> own_files c' = {}"
  by (auto simp: own_files_def manifest_path_for_def ring_path_for_def sidecar_path_for_def
      BUNDLE_SUFFIX_def RING_SUFFIX_def SIDECAR_SUFFIX_def)

lemma kept_survives:
  assumes sh: "shrunk F N fs" and k: "read_and_verify hs F n = Inr k" and wn: "well_named n k"
    and apart: "insert (bm_name (mf_checkpoint k)) (own_files (bm_name (mf_checkpoint k))) \<inter> N = {}"
  shows "read_and_verify hs fs n = Inr k"
proof -
  note rv = read_and_verify_reads [OF k]
  have n: "n \<in> own_files (bm_name (mf_checkpoint k))" using wn by (simp add: well_named_def Let_def own_files_def)
  then have "n \<notin> N" using apart by blast
  then have "read_manifest (hs_show hs) fs n = Inr k" using rv shrunk_outside [OF sh] by (simp add: read_manifest_def)
  moreover have "verify_member hs fs b = verify_member hs F b" if "b \<in> set (members k)" for b
  proof -
    have "bm_name b \<notin> N" using well_named_members [OF wn that] apart by blast
    then show ?thesis using shrunk_outside [OF sh] by (simp add: verify_member_def)
  qed
  then have "rmap (verify_member hs fs) (members k) = rmap (verify_member hs F) (members k)"
    by (rule rmap_cong)
  ultimately show ?thesis using rv by (simp add: read_and_verify_def verify_bundle_def)
qed

definition ckpt_name :: "manifest \<Rightarrow> string" where
  "ckpt_name m = bm_name (mf_checkpoint m)"

lemma collected_distinct:
  assumes "collect_bundles hs fs ns = Inr ms" "distinct ns" "well_named_dir hs fs"
  shows "distinct (map ckpt_name ms) \<and> (\<forall>m \<in> set ms. manifest_path_for (ckpt_name m) \<in> set ns)"
  using assms
proof (induction ns arbitrary: ms)
  case (Cons n ns)
  show ?case
  proof (cases "read_and_verify hs fs n")
    case (Inl e)
    with Cons show ?thesis by (auto split: if_splits)
  next
    case (Inr m)
    with Cons.prems obtain ms' where c: "collect_bundles hs fs ns = Inr ms'" "ms = m # ms'" by (auto simp: rbind_Inr_iff)
    have "n = manifest_path_for (ckpt_name m)"
      using read_and_verify_reads [OF Inr] Cons.prems(3) by (auto simp: well_named_dir_def well_named_def Let_def ckpt_name_def)
    with Cons.IH [OF c(1)] Cons.prems c(2) show ?thesis by auto
  qed
qed simp

lemma manifest_names_distinct: "distinct (map fst fs) \<Longrightarrow> distinct (manifest_names fs)"
  by (simp add: manifest_names_def)

lemma complete_distinct:
  assumes "complete_bundles hs fs = Inr bs" "distinct (map fst fs)" "well_named_dir hs fs"
  shows "distinct (map ckpt_name bs)"
proof -
  from assms(1) obtain ms where ms: "collect_bundles hs fs (sort (manifest_names fs)) = Inr ms" "bs = sort_key mf_step ms"
    by (auto simp: complete_bundles_def rbind_Inr_iff)
  with collected_distinct [OF ms(1) _ assms(3)] manifest_names_distinct [OF assms(2)] show ?thesis
    by (simp add: distinct_map)
qed

definition victims :: "nat \<Rightarrow> manifest list \<Rightarrow> manifest list" where
  "victims keep bs = take (length bs - keep) bs"

definition owned :: "manifest list \<Rightarrow> string set" where
  "owned vs = (\<Union>v \<in> set vs. own_files (ckpt_name v))"

lemma prune_shrinks:
  assumes run: "prune_bundles hs keep d = (r, d')" and bs: "complete_bundles hs (dk_files d) = Inr bs"
    and dir: "well_named_dir hs (dk_files d)" "steps_distinct hs (dk_files d)"
  shows "crash_inv (shrunk (dk_files d) (owned (victims keep bs))) d d'"
proof -
  let ?I = "shrunk (dk_files d) (owned (victims keep bs))"
  have "moves (crash_inv ?I) (prune_one hs v)" if v: "v \<in> set (victims keep bs)" for v
  proof -
    have "v \<in> set bs" using v unfolding victims_def by (rule in_set_takeD)
    then obtain n where n: "read_and_verify hs (dk_files d) n = Inr v" using complete_read [OF bs] by blast
    show ?thesis
      by (rule crash_prune_one [OF dir conjunct1 [OF read_and_verify_reads [OF n]]])
        (use v in \<open>auto simp: owned_def ckpt_name_def\<close>)
  qed
  then have all: "moves (crash_inv ?I) (prune_all hs (victims keep bs))" by (rule crash_prune_all)
  show ?thesis
  proof (cases "keep < 1 \<or> length bs \<le> keep")
    case True
    with run bs have "d' = d" by (auto simp: prune_bundles_def act_defs split: if_splits)
    then show ?thesis using crash.stay by simp
  next
    case False
    with run bs have "prune_all hs (victims keep bs) d = (r, d')" by (simp add: prune_bundles_def act_defs victims_def)
    from moves_run [OF all this] show ?thesis .
  qed
qed

lemma kept_apart:
  assumes "distinct (map ckpt_name bs)" "k \<in> set (drop (length bs - keep) bs)" "v \<in> set (victims keep bs)"
  shows "ckpt_name k \<noteq> ckpt_name v"
proof -
  have "distinct (map ckpt_name (victims keep bs @ drop (length bs - keep) bs))" using assms(1) by (simp add: victims_def)
  then show ?thesis using assms(2,3) unfolding map_append distinct_append by fastforce
qed

lemma kept_complete:
  assumes bs: "complete_bundles hs F = Inr bs" and dir: "distinct (map fst F)" "well_named_dir hs F"
    and k: "k \<in> set (drop (length bs - keep) bs)" and fs: "shrunk F (owned (victims keep bs)) fs"
  shows "read_and_verify hs fs (manifest_path_for (ckpt_name k)) = Inr k"
proof -
  obtain n where n: "read_and_verify hs F n = Inr k" using complete_read [OF bs in_set_dropD [OF k]] by blast
  then have wn: "well_named n k" using dir(2) read_and_verify_reads by (simp add: well_named_dir_def)
  have "own_files (ckpt_name k) \<inter> own_files (ckpt_name v) = {} \<and> ckpt_name k \<notin> own_files (ckpt_name v)"
    if "v \<in> set (victims keep bs)" for v
    using owned_apart [OF kept_apart [OF complete_distinct [OF bs dir] k that]] ckpt_not_owned wn
    by (simp add: well_named_def Let_def ckpt_name_def)
  then have "insert (ckpt_name k) (own_files (ckpt_name k)) \<inter> owned (victims keep bs) = {}"
    unfolding owned_def by blast
  from kept_survives [OF fs n wn this [unfolded ckpt_name_def]] wn show ?thesis
    by (simp add: well_named_def Let_def ckpt_name_def)
qed

text \<open>C14: Pruning keeps what it promises: in a directory whose bundles are named after their checkpoints and
  whose manifests have distinct steps, every directory a crash or a failing unlink can leave - and the
  final one - still holds each of the \<open>keep\<close> newest complete bundles, complete, and every checkpoint
  file unchanged.\<close>

theorem prune_keeps_newest:
  assumes run: "prune_bundles hs keep d = (r, d')" and bs: "complete_bundles hs (dk_files d) = Inr bs"
    and dir: "distinct (map fst (dk_files d))" "well_named_dir hs (dk_files d)" "steps_distinct hs (dk_files d)"
  shows "\<exists>cs. dk_crash d' = dk_crash d @ cs \<and> (\<forall>fs \<in> set cs \<union> {dk_files d'}.
     (\<forall>m \<in> set (drop (length bs - keep) bs). read_and_verify hs fs (manifest_path_for (ckpt_name m)) = Inr m) \<and>
     (\<forall>n. suffix ''.ckpt'' n \<longrightarrow> map_of fs n = map_of (dk_files d) n))"
proof -
  let ?N = "owned (victims keep bs)"
  obtain cs where cs: "dk_crash d' = dk_crash d @ cs" "\<forall>fs \<in> set cs \<union> {dk_files d'}. shrunk (dk_files d) ?N fs"
    using prune_shrinks [OF run bs dir(2,3)] shrunk_refl unfolding crash_inv_def by blast
  have "n \<notin> ?N" if "suffix ''.ckpt'' n" for n
    using ckpt_not_owned [OF that] by (simp add: owned_def)
  then have "map_of fs n = map_of (dk_files d) n" if "shrunk (dk_files d) ?N fs" "suffix ''.ckpt'' n" for fs n
    using shrunk_outside [OF that(1)] that(2) by blast
  moreover have "read_and_verify hs fs (manifest_path_for (ckpt_name m)) = Inr m"
    if "shrunk (dk_files d) ?N fs" "m \<in> set (drop (length bs - keep) bs)" for fs m
    by (rule kept_complete [OF bs dir(1,2) that(2,1)])
  ultimately show ?thesis using cs by blast
qed

definition demo_member :: "string \<Rightarrow> member" where
  "demo_member n = \<lparr>bm_name = n, bm_sha256 = [], bm_bytes = 1\<rparr>"

definition demo_manifest :: "string \<Rightarrow> int \<Rightarrow> manifest" where
  "demo_manifest c step = manifest_for [] step (demo_member c, None, demo_member (sidecar_path_for c))"

definition demo_bundle :: "string \<Rightarrow> int \<Rightarrow> files" where
  "demo_bundle c step = [(c, Blob []), (sidecar_path_for c, Blob []),
     (manifest_path_for c, Doc (manifest_to_dict (demo_manifest c step)))]"

definition disk_of :: "files \<Rightarrow> disk" where
  "disk_of fs = \<lparr>dk_files = fs, dk_faults = [], dk_crash = []\<rparr>"

text \<open>
  Two bundles of one step (a periodic save and a stop save of the same step): the scan that looks for the
  victim's manifest by step alone may meet the other one first.
\<close>

definition same_step_dir :: files where
  "same_step_dir = demo_bundle ''b.ckpt'' 1 @ demo_bundle ''a.ckpt'' 1 @ demo_bundle ''c.ckpt'' 2"

lemma same_step_before:
  "complete_bundles demo_hasher same_step_dir = Inr [demo_manifest ''a.ckpt'' 1, demo_manifest ''b.ckpt'' 1, demo_manifest ''c.ckpt'' 2]"
  by code_simp


text \<open>Both conditions on a directory are decided by reading its own files.\<close>

definition readable :: "hasher \<Rightarrow> files \<Rightarrow> (string \<times> manifest) list" where
  "readable hs fs = List.map_filter (\<lambda>n. case read_manifest (hs_show hs) fs n of Inl _ \<Rightarrow> None | Inr m \<Rightarrow> Some (n, m)) (map fst fs)"

lemma readable_iff: "(n, m) \<in> set (readable hs fs) \<longleftrightarrow> read_manifest (hs_show hs) fs n = Inr m"
proof -
  have "n \<in> fst ` set fs" if "read_manifest (hs_show hs) fs n = Inr m"
    using that by (cases "map_of fs n") (auto simp: read_manifest_def dkeys_def dest: map_of_Some_dkeys)
  then show ?thesis
    by (auto simp: readable_def map_filter_def split: sum.splits) force
qed

lemma well_named_dir_code: "list_all (\<lambda>(n, m). well_named n m) (readable hs fs) \<Longrightarrow> well_named_dir hs fs"
  using readable_iff by (fastforce simp: well_named_dir_def list_all_iff)

lemma steps_distinct_code:
  assumes "distinct (map (mf_step \<circ> snd) (readable hs fs))" shows "steps_distinct hs fs"
  unfolding steps_distinct_def
proof (intro allI impI, elim conjE)
  fix n m n' m' assume "read_manifest (hs_show hs) fs n = Inr m" "read_manifest (hs_show hs) fs n' = Inr m'" "mf_step m = mf_step m'"
  then show "n = n'" using assms readable_iff unfolding distinct_map inj_on_def by (metis comp_apply fst_conv snd_conv)
qed

definition three_bundles :: files where
  "three_bundles = demo_bundle ''b.ckpt'' 2 @ demo_bundle ''a.ckpt'' 1 @ demo_bundle ''c.ckpt'' 3"

theorem prune_keeps_newest_witness:
  "\<exists>r d'. prune_bundles demo_hasher 2 (disk_of three_bundles) = (r, d') \<and>
     (\<forall>m \<in> {demo_manifest ''b.ckpt'' 2, demo_manifest ''c.ckpt'' 3}.
        read_and_verify demo_hasher (dk_files d') (manifest_path_for (ckpt_name m)) = Inr m)"
proof -
  obtain r d' where run: "prune_bundles demo_hasher 2 (disk_of three_bundles) = (r, d')" by fastforce
  have bs: "complete_bundles demo_hasher (dk_files (disk_of three_bundles)) =
      Inr [demo_manifest ''a.ckpt'' 1, demo_manifest ''b.ckpt'' 2, demo_manifest ''c.ckpt'' 3]" by code_simp
  have "distinct (map fst (dk_files (disk_of three_bundles)))" by code_simp
  moreover have "well_named_dir demo_hasher (dk_files (disk_of three_bundles))"
    by (rule well_named_dir_code) code_simp
  moreover have "steps_distinct demo_hasher (dk_files (disk_of three_bundles))"
    by (rule steps_distinct_code) code_simp
  ultimately have "\<forall>m \<in> set (drop 1 [demo_manifest ''a.ckpt'' 1, demo_manifest ''b.ckpt'' 2, demo_manifest ''c.ckpt'' 3]).
      read_and_verify demo_hasher (dk_files d') (manifest_path_for (ckpt_name m)) = Inr m"
    using prune_keeps_newest [OF run bs] by fastforce
  then show ?thesis using run by simp
qed

text \<open>A manifest whose step is \<open>Infinity\<close> is not skipped: \<open>int()\<close> raises what nobody catches.\<close>

lemma infinite_step_escapes:
  "complete_bundles hs [(''x.bundle.json'', Doc (JObj [(''version'', JInt 1), (''ring'', JNull), (''run_id'', JStr ''r''),
     (''step'', JFloat PosInf)]))] = Inl OverflowError"
proof -
  have "manifest_names [(''x.bundle.json'', c)] = [''x.bundle.json'']" for c
    by (simp add: manifest_names_def BUNDLE_SUFFIX_def suffix_def)
  then show ?thesis
    by (simp add: complete_bundles_def read_and_verify_def read_manifest_def manifest_of_dict_def dget_def
        BUNDLE_VERSION_def subscript_def malformed_def skipped_def)
qed

end
