(* ===== verification/Resume.thy ===== *)
theory Resume
  imports Bundle
begin

text \<open>
  \<open>src/mantis/train/resume_state.py\<close>: the sidecar beside a checkpoint, its decoding and the ring check;
  \<open>src/mantis/util/mirror_receipts.py\<close> and \<open>src/mantis/train/bundle_receipts.py\<close>: which complete
  bundles the mirror has receipted.  The capture and restoration of the random streams belong to
  numpy and torch and are not modelled; their JSON text is carried as it is.
\<close>

section \<open>The sidecar\<close>

definition SIDECAR_VERSION :: int where "SIDECAR_VERSION = 1"

record ring_ref =
  rr_path :: json
  rr_sha256 :: json
  rr_positions :: int

record resume_state =
  rs_version :: json
  rs_run_id :: json
  rs_step :: int
  rs_checkpoint_filename :: json
  rs_ring :: "ring_ref option"
  rs_round_counter :: int
  rs_anchor_sha256 :: json
  rs_rng :: "(string, json) dict"
  rs_eval_round_last_step :: int
  rs_guards :: "(string, json) dict"

definition ring_to_dict :: "ring_ref \<Rightarrow> json" where
  "ring_to_dict r = JObj [(''path'', rr_path r), (''sha256'', rr_sha256 r), (''positions'', JInt (rr_positions r))]"

definition resume_fields :: "resume_state \<Rightarrow> (string, json) dict" where
  "resume_fields s = [(''version'', rs_version s), (''run_id'', rs_run_id s), (''step'', JInt (rs_step s)),
     (''checkpoint_filename'', rs_checkpoint_filename s),
     (''ring'', case rs_ring s of None \<Rightarrow> JNull | Some r \<Rightarrow> ring_to_dict r),
     (''round_counter'', JInt (rs_round_counter s)), (''anchor_sha256'', rs_anchor_sha256 s),
     (''rng'', JObj (rs_rng s)), (''eval_round_last_step'', JInt (rs_eval_round_last_step s)),
     (''guards'', JObj (rs_guards s))]"

definition resume_to_dict :: "resume_state \<Rightarrow> json" where
  "resume_to_dict s = JObj (resume_fields s)"

text \<open>\<open>v[k]\<close> where only a mapping has string keys.\<close>

definition json_subscript :: "json \<Rightarrow> string \<Rightarrow> json res" where
  "json_subscript v k = (case v of JObj d \<Rightarrow> subscript d k | _ \<Rightarrow> Inl TypeError)"

definition ring_of_dict :: "json \<Rightarrow> ring_ref option res" where
  "ring_of_dict v = (if v = JNull then Inr None
     else rbind (json_subscript v ''path'') (\<lambda>p. rbind (json_subscript v ''sha256'') (\<lambda>h.
          rbind (json_subscript v ''positions'') (\<lambda>n. rbind (py_int n) (\<lambda>i.
            Inr (Some \<lparr>rr_path = p, rr_sha256 = h, rr_positions = i\<rparr>))))))"

definition eval_round_last_step_of :: "(string, json) dict \<Rightarrow> int res" where
  "eval_round_last_step_of d = (case map_of d ''eval_round_last_step'' of None \<Rightarrow> Inr (- 1) | Some v \<Rightarrow> py_int v)"

definition guards_of :: "(string, json) dict \<Rightarrow> (string, json) dict res" where
  "guards_of d = (case map_of d ''guards'' of None \<Rightarrow> Inr [] | Some (JObj g) \<Rightarrow> Inr g | Some _ \<Rightarrow> Inl ResumeStateError)"

definition items_of :: "json \<Rightarrow> (string, json) dict res" where
  "items_of v = (case v of JObj d \<Rightarrow> Inr d | _ \<Rightarrow> Inl AttributeError)"

definition resume_of_fields :: "(string, json) dict \<Rightarrow> resume_state res" where
  "resume_of_fields d =
     rbind (subscript d ''ring'') (\<lambda>rr. rbind (ring_of_dict rr) (\<lambda>ring.
     rbind (subscript d ''run_id'') (\<lambda>run_id.
     rbind (subscript d ''step'') (\<lambda>s. rbind (py_int s) (\<lambda>step.
     rbind (subscript d ''checkpoint_filename'') (\<lambda>ckpt.
     rbind (subscript d ''round_counter'') (\<lambda>c. rbind (py_int c) (\<lambda>counter.
     rbind (subscript d ''anchor_sha256'') (\<lambda>anchor.
     rbind (subscript d ''rng'') (\<lambda>g. rbind (items_of g) (\<lambda>rng.
     rbind (eval_round_last_step_of d) (\<lambda>last_step.
     rbind (guards_of d) (\<lambda>guards.
       Inr \<lparr>rs_version = dget d ''version'' JNull, rs_run_id = run_id, rs_step = step, rs_checkpoint_filename = ckpt,
            rs_ring = ring, rs_round_counter = counter, rs_anchor_sha256 = anchor, rs_rng = rng,
            rs_eval_round_last_step = last_step, rs_guards = guards\<rparr>)))))))))))))"

definition resume_of_dict :: "json \<Rightarrow> resume_state res" where
  "resume_of_dict v = (case v of JObj d \<Rightarrow>
       if \<not> equals_int (dget d ''version'' JNull) SIDECAR_VERSION then Inl ResumeStateError
       else malformed ResumeStateError (resume_of_fields d)
   | _ \<Rightarrow> Inl ResumeStateError)"

text \<open>\<open>except (OSError, JSONDecodeError)\<close>: a text that is no JSON is re-raised by name.\<close>

definition load_resume_state :: "files \<Rightarrow> string \<Rightarrow> resume_state res" where
  "load_resume_state fs ckpt = (case map_of fs (sidecar_path_for ckpt) of
     None \<Rightarrow> Inl ResumeStateError
   | Some (Blob _) \<Rightarrow> Inl ResumeStateError
   | Some (Doc v) \<Rightarrow> rbind (resume_of_dict v) (\<lambda>s.
       if rs_checkpoint_filename s \<noteq> JStr ckpt then Inl ResumeStateError else Inr s))"

definition verify_ring :: "hasher \<Rightarrow> files \<Rightarrow> (json \<Rightarrow> string option) \<Rightarrow> ring_ref \<Rightarrow> unit res" where
  "verify_ring hs fs name_of r = (case Option.bind (name_of (rr_path r)) (map_of fs) of
     None \<Rightarrow> Inl RingIdentityError
   | Some c \<Rightarrow> if rr_sha256 r \<noteq> JStr (hs_sha hs c) then Inl RingIdentityError else Inr ())"

section \<open>Mirror receipts\<close>

definition RECEIPT_SUFFIX :: string where "RECEIPT_SUFFIX = ''.receipt.json''"
definition RECEIPT_SCHEMA_VERSION :: int where "RECEIPT_SCHEMA_VERSION = 1"

definition receipt_path_for :: "string \<Rightarrow> string" where "receipt_path_for artifact = artifact @ RECEIPT_SUFFIX"

text \<open>A receipt that is no UTF-8 text raises \<open>UnicodeDecodeError\<close>, a \<open>ValueError\<close>; \<open>undecodable\<close> tells it.\<close>

definition read_receipt :: "(string \<Rightarrow> bool) \<Rightarrow> files \<Rightarrow> string \<Rightarrow> (string, json) dict res" where
  "read_receipt undecodable fs path = (case map_of fs path of
     None \<Rightarrow> Inl MirrorReceiptError
   | Some (Blob b) \<Rightarrow> if undecodable b then Inl ValueError else Inl MirrorReceiptError
   | Some (Doc (JObj d)) \<Rightarrow>
       if \<not> equals_int (dget d ''schema_version'' JNull) RECEIPT_SCHEMA_VERSION then Inl MirrorReceiptError
       else if \<not> list_all (\<lambda>k. map_of d k \<noteq> None) [''artifact'', ''sha256'', ''bytes'', ''mirrored_utc''] then Inl MirrorReceiptError
       else Inr d
   | Some (Doc _) \<Rightarrow> Inl MirrorReceiptError)"

definition verify_receipt :: "(string \<Rightarrow> bool) \<Rightarrow> hasher \<Rightarrow> files \<Rightarrow> string \<Rightarrow> (string, json) dict res" where
  "verify_receipt undecodable hs fs artifact =
     rbind (read_receipt undecodable fs (receipt_path_for artifact)) (\<lambda>receipt.
     if dget receipt ''artifact'' JNull \<noteq> JStr artifact then Inl MirrorReceiptError
     else case map_of fs artifact of
       None \<Rightarrow> Inl MirrorReceiptError
     | Some c \<Rightarrow> rbind (py_int (dget receipt ''bytes'' JNull)) (\<lambda>n.
         if hs_size hs c \<noteq> n then Inl MirrorReceiptError
         else if dget receipt ''sha256'' JNull \<noteq> JStr (hs_sha hs c) then Inl MirrorReceiptError
         else Inr (merge receipt [(''verified_bytes'', JInt (hs_size hs c)), (''verified_sha256'', JStr (hs_sha hs c)),
                (''receipt'', JStr (receipt_path_for artifact))])))"

definition bundle_member_paths :: "manifest \<Rightarrow> string list" where
  "bundle_member_paths m = map bm_name (members m) @ [manifest_path_for (bm_name (mf_checkpoint m))]"

fun unreceipted_members :: "(string \<Rightarrow> bool) \<Rightarrow> hasher \<Rightarrow> files \<Rightarrow> string list \<Rightarrow> string list res" where
  "unreceipted_members undecodable hs fs [] = Inr []"
| "unreceipted_members undecodable hs fs (p # ps) = (case verify_receipt undecodable hs fs p of
     Inr _ \<Rightarrow> unreceipted_members undecodable hs fs ps
   | Inl MirrorReceiptError \<Rightarrow> rbind (unreceipted_members undecodable hs fs ps) (\<lambda>ns. Inr (p # ns))
   | Inl e \<Rightarrow> Inl e)"

definition unreceipted_bundle_steps :: "(string \<Rightarrow> bool) \<Rightarrow> hasher \<Rightarrow> files \<Rightarrow> int list res" where
  "unreceipted_bundle_steps undecodable hs fs = rbind (complete_bundles hs fs) (\<lambda>ms.
     rbind (rmap (\<lambda>m. rbind (unreceipted_members undecodable hs fs (bundle_member_paths m)) (\<lambda>u. Inr (m, u \<noteq> []))) ms) (\<lambda>r.
       Inr (map (mf_step \<circ> fst) (filter snd r))))"

section \<open>A resume starts from what the stop wrote\<close>

lemma resume_lookups:
  "dget (resume_fields s) ''version'' JNull = rs_version s"
  "subscript (resume_fields s) ''ring'' = Inr (case rs_ring s of None \<Rightarrow> JNull | Some r \<Rightarrow> ring_to_dict r)"
  "subscript (resume_fields s) ''run_id'' = Inr (rs_run_id s)"
  "subscript (resume_fields s) ''step'' = Inr (JInt (rs_step s))"
  "subscript (resume_fields s) ''checkpoint_filename'' = Inr (rs_checkpoint_filename s)"
  "subscript (resume_fields s) ''round_counter'' = Inr (JInt (rs_round_counter s))"
  "subscript (resume_fields s) ''anchor_sha256'' = Inr (rs_anchor_sha256 s)"
  "subscript (resume_fields s) ''rng'' = Inr (JObj (rs_rng s))"
  "eval_round_last_step_of (resume_fields s) = Inr (rs_eval_round_last_step s)"
  "guards_of (resume_fields s) = Inr (rs_guards s)"
  by (simp_all add: resume_fields_def subscript_def dget_def eval_round_last_step_of_def guards_of_def)

lemma ring_roundtrip: "ring_of_dict (case r of None \<Rightarrow> JNull | Some x \<Rightarrow> ring_to_dict x) = Inr r"
  by (cases r) (simp_all add: ring_of_dict_def ring_to_dict_def json_subscript_def subscript_def)

lemma resume_roundtrip:
  assumes "equals_int (rs_version s) SIDECAR_VERSION"
  shows "resume_of_dict (resume_to_dict s) = Inr s"
proof -
  have "resume_of_fields (resume_fields s) = Inr s"
    unfolding resume_of_fields_def resume_lookups by (simp add: ring_roundtrip items_of_def)
  with assms show ?thesis by (simp add: resume_of_dict_def resume_to_dict_def resume_lookups malformed_def)
qed

text \<open>A resume starts from exactly what the stop wrote or not at all: beside a directory in which the
  sidecar's atomic write returned, loading the checkpoint's sidecar gives the written state back, field
  by field, when it names this checkpoint, and is refused otherwise; whatever a fault interrupted, the
  sidecar is the previous one or the new one, never a torn one.\<close>

theorem resume_state_survives:
  assumes run: "write_resume_state (Doc (resume_to_dict s)) (sidecar_path_for ckpt) d = (r, d')"
    and v: "equals_int (rs_version s) SIDECAR_VERSION"
  shows "(r = Inr () \<longrightarrow> load_resume_state (dk_files d') ckpt =
            (if rs_checkpoint_filename s = JStr ckpt then Inr s else Inl ResumeStateError)) \<and>
         (\<exists>cs. dk_crash d' = dk_crash d @ cs \<and> (\<forall>fs \<in> set cs \<union> {dk_files d'}.
            load_resume_state fs ckpt \<in> {load_resume_state (dk_files d) ckpt,
              if rs_checkpoint_filename s = JStr ckpt then Inr s else Inl ResumeStateError}))"
proof -
  let ?p = "sidecar_path_for ckpt" and ?c = "Doc (resume_to_dict s)"
  let ?new = "if rs_checkpoint_filename s = JStr ckpt then Inr s else Inl ResumeStateError"
  let ?I = "\<lambda>fs. map_of fs ?p \<in> {map_of (dk_files d) ?p, Some ?c}"
  have new: "load_resume_state fs ckpt = ?new" if "map_of fs ?p = Some ?c" for fs
    using that resume_roundtrip [OF v] by (simp add: load_resume_state_def)
  have old: "load_resume_state fs ckpt = load_resume_state (dk_files d) ckpt" if "map_of fs ?p = map_of (dk_files d) ?p" for fs
    using that by (simp add: load_resume_state_def)
  have "moves (crash_inv ?I) (write_resume_state ?c ?p)"
    unfolding write_resume_state_def
    by (intro crash.moves_rules crash_put crash_fsync crash_rename) (auto simp: update_conv' delete_conv')
  from moves_run [OF this run] have "crash_inv ?I d d'" .
  then have "crash_inv (\<lambda>fs. load_resume_state fs ckpt \<in> {load_resume_state (dk_files d) ckpt, ?new}) d d'"
    by (rule crash_inv_weaken) (use new old in blast)+
  moreover have "map_of (dk_files d') ?p = Some ?c" if "r = Inr ()"
  proof -
    from run that obtain d1 where "rename_over (?p @ ''.tmp'') ?p ?c d1 = (Inr (), d')"
      by (auto simp: write_resume_state_def abind_Inr_iff)
    then show ?thesis unfolding rename_over_def by (simp add: disk_step_Inr update_conv')
  qed
  ultimately show ?thesis using new by (simp add: crash_inv_def)
qed

definition demo_resume :: resume_state where
  "demo_resume = \<lparr>rs_version = JInt 1, rs_run_id = JStr ''run'', rs_step = 7, rs_checkpoint_filename = JStr ''c'',
     rs_ring = None, rs_round_counter = 2, rs_anchor_sha256 = JNull, rs_rng = [], rs_eval_round_last_step = - 1, rs_guards = []\<rparr>"

theorem resume_state_survives_witness:
  "\<exists>d'. write_resume_state (Doc (resume_to_dict demo_resume)) (sidecar_path_for ''c'') (disk_of []) = (Inr (), d') \<and>
     load_resume_state (dk_files d') ''c'' = Inr demo_resume"
proof -
  obtain r d' where run: "write_resume_state (Doc (resume_to_dict demo_resume)) (sidecar_path_for ''c'') (disk_of []) = (r, d')"
    by fastforce
  then have "r = Inr ()"
    by (auto simp: write_resume_state_def disk_of_def put_file_def fsync_def rename_over_def disk_step_def act_defs)
  moreover have "equals_int (rs_version demo_resume) SIDECAR_VERSION" by (simp add: demo_resume_def SIDECAR_VERSION_def)
  moreover have "rs_checkpoint_filename demo_resume = JStr ''c''" by (simp add: demo_resume_def)
  ultimately show ?thesis using resume_state_survives [OF run] run by auto
qed

section \<open>What the receipts say\<close>

lemma receipted_member:
  assumes "verify_receipt u hs fs n = Inr d"
  shows "\<exists>c r. map_of fs n = Some c \<and> map_of fs (receipt_path_for n) = Some (Doc (JObj r)) \<and>
           dget r ''sha256'' JNull = JStr (hs_sha hs c)"
proof -
  from assms obtain r where r: "read_receipt u fs (receipt_path_for n) = Inr r"
    and rest: "(if dget r ''artifact'' JNull \<noteq> JStr n then Inl MirrorReceiptError
     else case map_of fs n of None \<Rightarrow> Inl MirrorReceiptError
     | Some c \<Rightarrow> rbind (py_int (dget r ''bytes'' JNull)) (\<lambda>k.
         if hs_size hs c \<noteq> k then Inl MirrorReceiptError
         else if dget r ''sha256'' JNull \<noteq> JStr (hs_sha hs c) then Inl MirrorReceiptError
         else Inr (merge r [(''verified_bytes'', JInt (hs_size hs c)), (''verified_sha256'', JStr (hs_sha hs c)),
                (''receipt'', JStr (receipt_path_for n))]))) = Inr d"
    unfolding verify_receipt_def rbind_Inr_iff by blast
  have "map_of fs (receipt_path_for n) = Some (Doc (JObj r))"
    using r unfolding read_receipt_def by (auto split: option.splits content.splits json.splits if_splits)
  with rest show ?thesis by (auto simp: rbind_Inr_iff split: if_splits option.splits)
qed

lemma unreceipted_none:
  "unreceipted_members u hs fs ps = Inr [] \<Longrightarrow> p \<in> set ps \<Longrightarrow> \<exists>d. verify_receipt u hs fs p = Inr d"
  by (induction ps) (auto simp: rbind_Inr_iff split: sum.splits py_exc.splits)

lemma rmap_Inr_mem: "rmap f xs = Inr ys \<Longrightarrow> x \<in> set xs \<Longrightarrow> \<exists>y \<in> set ys. f x = Inr y"
  by (induction xs arbitrary: ys) (auto simp: rbind_Inr_iff)

text \<open>When no step is reported, every file of every complete bundle is the one the mirror holds.\<close>

lemma receipts_cover:
  assumes "unreceipted_bundle_steps u hs fs = Inr []" "complete_bundles hs fs = Inr ms" "m \<in> set ms" "n \<in> set (bundle_member_paths m)"
  shows "\<exists>c r. map_of fs n = Some c \<and> map_of fs (receipt_path_for n) = Some (Doc (JObj r)) \<and>
           dget r ''sha256'' JNull = JStr (hs_sha hs c)"
proof -
  from assms(1,2) obtain ys where ys: "rmap (\<lambda>m. rbind (unreceipted_members u hs fs (bundle_member_paths m)) (\<lambda>u. Inr (m, u \<noteq> []))) ms = Inr ys"
    "filter snd ys = []" by (auto simp: unreceipted_bundle_steps_def rbind_Inr_iff)
  from rmap_Inr_mem [OF ys(1) assms(3)] obtain us where us: "unreceipted_members u hs fs (bundle_member_paths m) = Inr us" "(m, us \<noteq> []) \<in> set ys"
    by (auto simp: rbind_Inr_iff)
  with ys(2) have "us = []" by (auto simp: filter_empty_conv)
  with us unreceipted_none assms(4) receipted_member show ?thesis by blast
qed

text \<open>A receipt whose byte count is no number is not \<open>MirrorReceiptError\<close>: it escapes the census.\<close>

definition bad_receipt :: content where
  "bad_receipt = Doc (JObj [(''schema_version'', JInt 1), (''artifact'', JStr ''c.ckpt''), (''sha256'', JStr []),
     (''bytes'', JStr ''many''), (''mirrored_utc'', JStr [])])"

lemma bad_receipt_escapes:
  "unreceipted_bundle_steps u demo_hasher (demo_bundle ''c.ckpt'' 1 @ [(receipt_path_for ''c.ckpt'', bad_receipt)]) = Inl ValueError"
proof -
  let ?fs = "demo_bundle ''c.ckpt'' 1 @ [(receipt_path_for ''c.ckpt'', bad_receipt)]"
  have "complete_bundles demo_hasher ?fs = Inr [demo_manifest ''c.ckpt'' 1]" by code_simp
  moreover have "map_of ?fs (receipt_path_for ''c.ckpt'') = Some bad_receipt" by code_simp
  then have "read_receipt u ?fs (receipt_path_for ''c.ckpt'') = Inr [(''schema_version'', JInt 1), (''artifact'', JStr ''c.ckpt''),
      (''sha256'', JStr []), (''bytes'', JStr ''many''), (''mirrored_utc'', JStr [])]"
    by (simp add: read_receipt_def bad_receipt_def dget_def RECEIPT_SCHEMA_VERSION_def)
  moreover have "map_of ?fs ''c.ckpt'' = Some (Blob [])" by code_simp
  moreover have "py_int (JStr ''many'') = Inl ValueError" by code_simp
  ultimately have "verify_receipt u demo_hasher ?fs ''c.ckpt'' = Inl ValueError"
    by (simp add: verify_receipt_def dget_def)
  moreover have "bundle_member_paths (demo_manifest ''c.ckpt'' 1) = [''c.ckpt'', sidecar_path_for ''c.ckpt'', manifest_path_for ''c.ckpt'']"
    by code_simp
  ultimately show ?thesis using \<open>complete_bundles demo_hasher ?fs = _\<close> by (simp add: unreceipted_bundle_steps_def)
qed

end
