(* ===== verification/Guards.thy ===== *)
theory Guards
  imports Rules Budget Heartbeat Axis Resume
begin

text \<open>
  The coordinator's state (\<open>src/mantis/train/coordinator/step.py\<close>, \<open>StepCoordinator.__init__\<close>), the
  shutdown flag (\<open>ShutdownState\<close> and the signal handler of
  \<open>src/mantis/train/lifecycle/signals.py\<close>), the self-play stall watchdog
  (\<open>src/mantis/train/lifecycle/watchdog.py\<close>) and the two hard-abort gates.

  The collaborators (pool, trainer, buffer, eval pipeline, clock) are operations on a world of any
  type: each may raise and leaves a changed world.  A stop signal is delivered during a call: the world
  tells whether it has arrived.  The trace lists what is emitted and which collaborators are called, in
  order.
\<close>

section \<open>The shutdown flag\<close>

record shutdown =
  sh_running :: bool
  sh_stop_count :: nat
  sh_save :: bool
  sh_abort :: "string option"

definition shutdown_init :: shutdown where
  "shutdown_init = \<lparr>sh_running = True, sh_stop_count = 0, sh_save = False, sh_abort = None\<rparr>"

definition record_abort :: "string \<Rightarrow> shutdown \<Rightarrow> bool \<times> shutdown" where
  "record_abort rule sh = (if sh_abort sh \<noteq> None then (False, sh) else (True, sh\<lparr>sh_abort := Some rule\<rparr>))"

text \<open>The signal handler; \<open>None\<close> is the second signal's \<open>os._exit(1)\<close>.\<close>

definition stop_signal :: "shutdown \<Rightarrow> shutdown option" where
  "stop_signal sh = (if 2 \<le> Suc (sh_stop_count sh) then None
     else Some (sh\<lparr>sh_stop_count := Suc (sh_stop_count sh), sh_save := True, sh_running := False\<rparr>))"

interpretation abort_latch: first_wins "\<lambda>r sh. snd (record_abort r sh)" sh_abort
  by unfold_locales (simp_all add: record_abort_def)

section \<open>Configuration, state and trace\<close>

record draw_spec =
  ds_threshold :: real
  ds_min_step :: int
  ds_N_pool_min :: int
  ds_consec :: nat

record ply_spec =
  ps_rate :: real
  ps_window_games :: int
  ps_min_step :: int

record coord_cfg =
  cc_eval_interval :: int
  cc_log_interval :: int
  cc_gate_interval :: int
  cc_min_buf_size :: int
  cc_capacity :: int
  cc_steps_per_game :: real
  cc_fill_ramp :: bool
  cc_max_burst :: int
  cc_stop_step :: "int option"
  cc_draw_abort :: "draw_spec option"
  cc_ply_abort :: "ply_spec option"
  cc_terminal_eval :: bool
  cc_stall_timeout :: pyfloat
  cc_monitor :: monitor_cfg
  cc_heldout_interval :: "int option"
  cc_run_id :: string

record gate_stat =
  gs_checks :: nat
  gs_fires :: nat
  gs_skips :: nat
  gs_warns :: nat

datatype gate = DrawRateCollapse | PlyCapAttractor

fun gate_name :: "gate \<Rightarrow> string" where
  "gate_name DrawRateCollapse = ''draw_rate_collapse''"
| "gate_name PlyCapAttractor = ''ply_cap_attractor''"

definition GATE_NAMES :: "string list" where
  "GATE_NAMES = map gate_name [DrawRateCollapse, PlyCapAttractor]"

type_synonym loss_info = "(string, pyfloat option) dict"

type_synonym counter_block = "(string \<times> int option \<times> int option \<times> real option) list"

datatype cev =
    Beat string | SystemStats int int | Trained int | Saved "string option" | Synced int | Applied json
  | CleanStopSave int "int option" "string option"
  | ResumeStatePersisted int
  | TrainingStepEvent payload
  | TrainingAlert string alert json
  | AxisDistribution int axis_fractions nat axis_band real real
  | MonitorGates int "(string, gate_stat) dict" "real option" "ply_spec option" "pyfloat option" "counts option" "(string, nat) dict"
  | HardAbort string int
  | HardAbortAfterStop string int
  | IterationComplete int int int "real option" real "real option" "real option" "int option" counter_block counter_block counter_block
  | HeldoutGap int "pyfloat option" "pyfloat option" nat
  | EvalKicked int
  | StallArmed bool
  | StallFired real
  | StallSaveFailed counts
  | ExitProcess int
  | FlushPendingEval int bool
  | TerminalEval int
  | TerminalEvalSkipped int
  | PromotionUnapplied json
  | Unroutable int
  | StalenessDisarmed
  | OnDrained
  | ShutdownSaveEvent

record 'w coord =
  co_world :: 'w
  co_shutdown :: shutdown
  co_train_step :: int
  co_games_played :: int
  co_last_train_games :: int
  co_carry :: real
  co_last_warmup_log :: real
  co_last_loss :: "loss_info option"
  co_initial_policy_loss :: "pyfloat option"
  co_eval_round_last_step :: int
  co_draw_history :: "pyfloat list"
  co_warn :: warn_state
  co_ply_cap_rate :: "pyfloat option"
  co_last_iter_games :: int
  co_last_counters :: "(string, int) dict"
  co_terminal_reason :: "json option"
  co_gates :: "(string, gate_stat) dict"
  co_heldout_sums :: "pyfloat \<times> pyfloat \<times> nat"
  co_clean_stop_saved :: bool
  co_final_save_done :: bool
  co_wd_games :: int
  co_wd_progress :: real
  co_wd_counters :: counts
  co_boot_step :: int
  co_run_started :: real
  co_trace :: "cev list"

section \<open>The collaborators\<close>

record rstats =
  rs_counters :: "(string, int) dict"
  rs_tactics :: "(string, int) dict"

record 'w pipeline_ops =
  po_poll :: "('w, json) act"
  po_drain :: "('w, json) act option"
  po_abandon :: "('w, json) act option"
  po_run :: "int \<Rightarrow> bool \<Rightarrow> ('w, json) act"
  po_apply :: "(json \<Rightarrow> ('w, unit) act) option"
  po_round_counter :: "('w, int) act"

record 'w coord_ops =
  op_signalled :: "'w \<Rightarrow> bool"
  op_heartbeat :: "(string \<Rightarrow> ('w, unit) act) option"
  op_health :: "('w, unit) act option"
  op_games :: "('w, int) act"
  op_buffer_size :: "('w, int) act"
  op_now :: "('w, real) act"
  op_sleep :: "real \<Rightarrow> ('w, unit) act"
  op_train :: "('w, loss_info \<times> string option) act"
  op_trainer_step :: "('w, int) act"
  op_trainer_counters :: "'w \<Rightarrow> (string, int) dict"
  op_restore_counter :: "string \<Rightarrow> int \<Rightarrow> 'w \<Rightarrow> 'w"
  op_save :: "loss_info option \<Rightarrow> ('w, string option) act"
  op_snapshot :: "'w \<Rightarrow> unit effect \<times> 'w"
  op_sync :: "(int \<Rightarrow> ('w, unit) act) option"
  op_ply_counts :: "(int \<Rightarrow> ('w, int \<times> int) act) option"
  op_draw_counts :: "('w, int \<times> int) act option"
  op_runner_stats :: "('w, rstats) act"
  op_recent_games :: "('w, cell list list) act"
  op_watchdog_counters :: "'w \<Rightarrow> counts option"
  op_heldout_read :: "('w, (pyfloat \<times> pyfloat)) act"
  op_disk_critical :: "('w, bool) act"
  op_anchor_sha :: "('w, string option) act"
  op_rng :: "('w, (string, json) dict) act"
  op_publish :: "string \<Rightarrow> resume_state \<Rightarrow> ('w, unit) act"
  op_avg_game_length :: "'w \<Rightarrow> real option"
  op_disarm :: "('w, unit) act option option"
  op_pipeline :: "'w pipeline_ops option"

definition deliver :: "'w coord_ops \<Rightarrow> 'w coord \<Rightarrow> 'w coord" where
  "deliver ops s = (if op_signalled ops (co_world s) \<and> sh_stop_count (co_shutdown s) = 0
     then (case stop_signal (co_shutdown s) of None \<Rightarrow> s | Some sh \<Rightarrow> s\<lparr>co_shutdown := sh\<rparr>) else s)"

definition call :: "'w coord_ops \<Rightarrow> ('w, 'a) act \<Rightarrow> ('w coord, 'a) act" where
  "call ops m s = (case m (co_world s) of (r, w) \<Rightarrow> (r, deliver ops (s\<lparr>co_world := w\<rparr>)))"

lemma call_fields:
  "co_draw_history (snd (call ops m s)) = co_draw_history s"
  "co_train_step (snd (call ops m s)) = co_train_step s"
  by (simp_all add: call_def deliver_def split: prod.split option.split)

definition say :: "cev \<Rightarrow> ('w coord, unit) act" where
  "say e = modify (\<lambda>s. s\<lparr>co_trace := co_trace s @ [e]\<rparr>)"

definition beat :: "'w coord_ops \<Rightarrow> string \<Rightarrow> ('w coord, unit) act" where
  "beat ops source = (case op_heartbeat ops of None \<Rightarrow> ret ()
     | Some h \<Rightarrow> abind (call ops (h source)) (\<lambda>_. say (Beat source)))"

section \<open>The stall watchdog\<close>

definition stall_enabled :: "pyfloat \<Rightarrow> bool" where
  "stall_enabled timeout \<longleftrightarrow> isfinite timeout \<and> pf_less (Fin 0) timeout"

definition stall_arm :: "'w coord_ops \<Rightarrow> coord_cfg \<Rightarrow> int \<Rightarrow> ('w coord, unit) act" where
  "stall_arm ops cfg games =
     abind (call ops (op_now ops)) (\<lambda>now.
     abind (modify (\<lambda>s. s\<lparr>co_wd_games := games, co_wd_progress := now\<rparr>)) (\<lambda>_.
     say (StallArmed (stall_enabled (cc_stall_timeout cfg)))))"

text \<open>One best-effort effect of the fire path: an \<open>Exception\<close> is counted, anything wider unwinds.\<close>

definition best_effort_act :: "string \<Rightarrow> ('w \<Rightarrow> unit effect \<times> 'w) \<Rightarrow> 'w coord_ops \<Rightarrow> ('w coord, unit) act" where
  "best_effort_act label eff ops s = (case eff (co_world s) of (e, w) \<Rightarrow>
     (case best_effort label e (co_wd_counters s) of
        (Unwound, c) \<Rightarrow> (Inl SystemExit, deliver ops (s\<lparr>co_world := w, co_wd_counters := c\<rparr>))
      | (_, c) \<Rightarrow> (Inr (), deliver ops (s\<lparr>co_world := w, co_wd_counters := c\<rparr>))))"

definition save_effect :: "'w coord_ops \<Rightarrow> loss_info option \<Rightarrow> 'w \<Rightarrow> unit effect \<times> 'w" where
  "save_effect ops loss w = (case op_save ops loss w of
     (Inr _, w') \<Rightarrow> (Done (), w') | (Inl SystemExit, w') \<Rightarrow> (Unwound, w') | (Inl e, w') \<Rightarrow> (Failed e, w'))"

definition falsy_to_None :: "loss_info option \<Rightarrow> loss_info option" where
  "falsy_to_None l = (if l = Some [] then None else l)"

text \<open>\<open>exit_fn\<close> ends the process: nothing runs after it.\<close>

definition stall_fire :: "'w coord_ops \<Rightarrow> real \<Rightarrow> ('w coord, unit) act" where
  "stall_fire ops stalled =
     abind (say (StallFired stalled)) (\<lambda>_.
     abind (gets (\<lambda>s. falsy_to_None (co_last_loss s))) (\<lambda>loss.
     abind (best_effort_act ''watchdog_model_save'' (save_effect ops loss) ops) (\<lambda>_.
     abind (best_effort_act ''watchdog_snapshot'' (op_snapshot ops) ops) (\<lambda>_.
     abind (gets co_wd_counters) (\<lambda>failures.
     abind (if failures = [] then ret () else say (StallSaveFailed failures)) (\<lambda>_.
     abind (say (ExitProcess WATCHDOG_STALL_EXIT_CODE)) (\<lambda>_. lift (Inl SystemExit))))))))"

definition stall_tick :: "'w coord_ops \<Rightarrow> coord_cfg \<Rightarrow> int \<Rightarrow> real \<Rightarrow> ('w coord, unit) act" where
  "stall_tick ops cfg games now =
     abind (gets (\<lambda>s. (co_wd_games s, co_wd_progress s))) (\<lambda>(seen, since).
       if seen < games then modify (\<lambda>s. s\<lparr>co_wd_games := games, co_wd_progress := now\<rparr>)
       else if pf_less (Fin 0) (cc_stall_timeout cfg) \<and> pf_le (cc_stall_timeout cfg) (Fin (now - since))
       then stall_fire ops (now - since)
       else ret ())"

section \<open>The hard-abort gates\<close>

definition bump_gate :: "gate \<Rightarrow> (gate_stat \<Rightarrow> gate_stat) \<Rightarrow> ('w coord, unit) act" where
  "bump_gate g f = modify (\<lambda>s. s\<lparr>co_gates := AList.map_entry (gate_name g) f (co_gates s)\<rparr>)"

definition checks_bump :: "gate_stat \<Rightarrow> gate_stat" where "checks_bump g = g\<lparr>gs_checks := Suc (gs_checks g)\<rparr>"
definition skips_bump :: "gate_stat \<Rightarrow> gate_stat" where "skips_bump g = g\<lparr>gs_skips := Suc (gs_skips g)\<rparr>"
definition fires_bump :: "gate_stat \<Rightarrow> gate_stat" where "fires_bump g = g\<lparr>gs_fires := Suc (gs_fires g)\<rparr>"

definition fire_hard_abort :: "gate \<Rightarrow> bool \<Rightarrow> ('w coord, bool) act" where
  "fire_hard_abort g message =
     (if \<not> message then ret False
      else abind (gets (\<lambda>s. (co_train_step s, sh_running (co_shutdown s)))) (\<lambda>(at_step, running).
        if \<not> running then abind (say (HardAbortAfterStop (gate_name g) at_step)) (\<lambda>_. ret False)
        else abind (say (HardAbort (gate_name g) at_step)) (\<lambda>_.
             abind (modify (\<lambda>s. s\<lparr>co_shutdown := snd (record_abort (gate_name g) ((co_shutdown s)\<lparr>sh_running := False\<rparr>))\<rparr>)) (\<lambda>_.
             abind (bump_gate g fires_bump) (\<lambda>_. ret True)))))"

definition sample :: "('w coord, real option) act option \<Rightarrow> ('w coord, bool) act" where
  "sample producer =
     abind (bump_gate DrawRateCollapse checks_bump) (\<lambda>_.
       case producer of
         None \<Rightarrow> abind (bump_gate DrawRateCollapse skips_bump) (\<lambda>_. ret False)
       | Some p \<Rightarrow> abind p (\<lambda>v. case v of
           None \<Rightarrow> abind (bump_gate DrawRateCollapse skips_bump) (\<lambda>_. ret False)
         | Some x \<Rightarrow> abind (modify (\<lambda>s. s\<lparr>co_draw_history := co_draw_history s @ [Fin x]\<rparr>)) (\<lambda>_. ret True)))"

text \<open>\<open>del h[:-consec]\<close>; for \<open>consec = 0\<close> the slice is empty.\<close>

definition trim_ring :: "nat \<Rightarrow> pyfloat list \<Rightarrow> pyfloat list" where
  "trim_ring consec h = (if consec = 0 then h else last_n consec h)"

definition run_hard_abort_gates :: "'w coord_ops \<Rightarrow> coord_cfg \<Rightarrow> ('w coord, bool) act" where
  "run_hard_abort_gates ops cfg = (case (cc_draw_abort cfg, op_draw_counts ops) of
     (Some spec, Some counts) \<Rightarrow>
       abind (sample (Some (abind (call ops counts) (\<lambda>c. lift (pooled_draw_rate c (ds_N_pool_min spec)))))) (\<lambda>observed.
         if \<not> observed then ret False
         else abind (modify (\<lambda>s. s\<lparr>co_draw_history := trim_ring (ds_consec spec) (co_draw_history s)\<rparr>)) (\<lambda>_.
              abind (gets (\<lambda>s. check_draw_rate_collapse (co_draw_history s) (co_train_step s)
                       (ds_threshold spec) (ds_consec spec) (ds_min_step spec))) (\<lambda>message.
              fire_hard_abort DrawRateCollapse message)))
   | _ \<Rightarrow> abind (sample None) (\<lambda>_. ret False))"

definition run_ply_cap_gate :: "'w coord_ops \<Rightarrow> coord_cfg \<Rightarrow> ('w coord, bool) act" where
  "run_ply_cap_gate ops cfg =
     abind (bump_gate PlyCapAttractor checks_bump) (\<lambda>_. case (cc_ply_abort cfg, op_ply_counts ops) of
       (Some spec, Some counts) \<Rightarrow>
         abind (call ops (counts (ps_window_games spec))) (\<lambda>(caps, games).
           if games < ps_window_games spec then abind (bump_gate PlyCapAttractor skips_bump) (\<lambda>_. ret False)
           else if games = 0 then lift (Inl ZeroDivisionError)
           else (let observed = real_of_int caps / real_of_int games in
             abind (modify (\<lambda>s. s\<lparr>co_ply_cap_rate := Some (Fin observed)\<rparr>)) (\<lambda>_.
             abind (gets (\<lambda>s. check_ply_cap_attractor observed (co_train_step s) (ps_rate spec)
                      (ps_window_games spec) (ps_min_step spec))) (\<lambda>message.
             fire_hard_abort PlyCapAttractor message))))
     | _ \<Rightarrow> abind (bump_gate PlyCapAttractor skips_bump) (\<lambda>_. ret False))"

definition emit_monitor_gates :: "'w coord_ops \<Rightarrow> coord_cfg \<Rightarrow> ('w coord, unit) act" where
  "emit_monitor_gates ops cfg = abind (gets (\<lambda>s. MonitorGates (co_train_step s) (co_gates s)
     (map_option ds_threshold (cc_draw_abort cfg)) (cc_ply_abort cfg) (co_ply_cap_rate s) (op_watchdog_counters ops (co_world s)) (ws_skips (co_warn s)))) say"

definition run_gate_interval :: "'w coord_ops \<Rightarrow> coord_cfg \<Rightarrow> ('w coord, bool) act" where
  "run_gate_interval ops cfg = abind (gets co_train_step) (\<lambda>t.
     if cc_gate_interval cfg \<le> 0 \<or> t mod cc_gate_interval cfg \<noteq> 0 then ret False
     else abind (run_hard_abort_gates ops cfg) (\<lambda>fired. abind (emit_monitor_gates ops cfg) (\<lambda>_. ret fired)))"

section \<open>What no operation undoes\<close>

text \<open>
  The relation between a state and a later one that every operation of the coordinator respects: the trace
  only grows, a stop and a recorded abort are never taken back, the abort recorded is the one abort
  announced, training never starts at or past the stop step; and, for every operation but the save legs
  (\<open>b\<close>), nothing is saved and the save latches stay.
\<close>

definition past_stop :: "coord_cfg \<Rightarrow> int \<Rightarrow> bool" where
  "past_stop cfg t = (case cc_stop_step cfg of None \<Rightarrow> False | Some n \<Rightarrow> n \<le> t)"

fun abort_of :: "cev \<Rightarrow> string option" where
  "abort_of (HardAbort r t) = Some r"
| "abort_of _ = None"

fun is_save :: "cev \<Rightarrow> bool" where
  "is_save (Saved p) = True"
| "is_save _ = False"

fun trains_late :: "coord_cfg \<Rightarrow> cev \<Rightarrow> bool" where
  "trains_late cfg (Trained t) = past_stop cfg t"
| "trains_late cfg _ = False"

definition aborts :: "cev list \<Rightarrow> string list" where
  "aborts tr = List.map_filter abort_of tr"

definition saves :: "cev list \<Rightarrow> nat" where
  "saves tr = length (filter is_save tr)"

lemma aborts_append [simp]: "aborts (xs @ ys) = aborts xs @ aborts ys"
  by (simp add: aborts_def map_filter_def)

lemma saves_append [simp]: "saves (xs @ ys) = saves xs + saves ys"
  by (simp add: saves_def)

definition abort_inv :: "'w coord \<Rightarrow> bool" where
  "abort_inv s \<longleftrightarrow> aborts (co_trace s) = (case sh_abort (co_shutdown s) of None \<Rightarrow> [] | Some r \<Rightarrow> [r]) \<and>
     (sh_abort (co_shutdown s) \<noteq> None \<longrightarrow> \<not> sh_running (co_shutdown s))"

definition shutdown_grows :: "shutdown \<Rightarrow> shutdown \<Rightarrow> bool" where
  "shutdown_grows x y \<longleftrightarrow> (sh_running y \<longrightarrow> sh_running x) \<and> (sh_save x \<longrightarrow> sh_save y) \<and>
     (\<forall>r. sh_abort x = Some r \<longrightarrow> sh_abort y = Some r)"

definition later :: "coord_cfg \<Rightarrow> bool \<Rightarrow> 'w coord \<Rightarrow> 'w coord \<Rightarrow> bool" where
  "later cfg b s t \<longleftrightarrow>
     (\<exists>tr. co_trace t = co_trace s @ tr \<and> \<not> list_ex (trains_late cfg) tr \<and> (b \<longrightarrow> saves tr = 0)) \<and>
     shutdown_grows (co_shutdown s) (co_shutdown t) \<and> (abort_inv s \<longrightarrow> abort_inv t) \<and>
     (b \<longrightarrow> co_final_save_done t = co_final_save_done s \<and> co_clean_stop_saved t = co_clean_stop_saved s)"

lemma shutdown_grows_refl: "shutdown_grows x x"
  by (simp add: shutdown_grows_def)

lemma shutdown_grows_trans: "shutdown_grows x y \<Longrightarrow> shutdown_grows y z \<Longrightarrow> shutdown_grows x z"
  by (auto simp: shutdown_grows_def)

interpretation later: state_order "later cfg b" for cfg b
proof
  show "later cfg b s s" for s :: "'w coord"
    unfolding later_def by (intro conjI exI [of _ "[]"]) (simp_all add: shutdown_grows_refl saves_def)
next
  fix s t u :: "'w coord" assume st: "later cfg b s t" and tu: "later cfg b t u"
  obtain x where x: "co_trace t = co_trace s @ x" "\<not> list_ex (trains_late cfg) x" "b \<longrightarrow> saves x = 0"
    using st [unfolded later_def] by blast
  obtain y where y: "co_trace u = co_trace t @ y" "\<not> list_ex (trains_late cfg) y" "b \<longrightarrow> saves y = 0"
    using tu [unfolded later_def] by blast
  show "later cfg b s u" unfolding later_def
  proof (intro conjI exI)
    show "co_trace u = co_trace s @ x @ y" using x(1) y(1) by simp
    show "\<not> list_ex (trains_late cfg) (x @ y)" using x(2) y(2) by simp
    show "b \<longrightarrow> saves (x @ y) = 0" using x(3) y(3) by simp
    show "shutdown_grows (co_shutdown s) (co_shutdown u)" using st tu shutdown_grows_trans unfolding later_def by blast
    show "abort_inv s \<longrightarrow> abort_inv u" using st tu unfolding later_def by blast
    show "b \<longrightarrow> co_final_save_done u = co_final_save_done s \<and> co_clean_stop_saved u = co_clean_stop_saved s"
      using st tu unfolding later_def by simp
  qed
qed

text \<open>A state that keeps trace, shutdown flag and latches.\<close>

lemma later_same:
  assumes "co_trace t = co_trace s" "co_shutdown t = co_shutdown s" "co_final_save_done t = co_final_save_done s"
    "co_clean_stop_saved t = co_clean_stop_saved s"
  shows "later cfg b s t"
  unfolding later_def
  by (intro conjI exI [of _ "[]"]) (simp_all add: assms shutdown_grows_refl saves_def abort_inv_def)

lemma later_stopped:
  assumes "shutdown_grows (co_shutdown s) sh" "sh_abort sh = sh_abort (co_shutdown s)"
  shows "later cfg b s (s\<lparr>co_shutdown := sh\<rparr>)"
  unfolding later_def
  by (intro conjI exI [of _ "[]"]) (use assms in \<open>auto simp: saves_def abort_inv_def shutdown_grows_def split: option.splits\<close>)

lemma later_deliver: "later cfg b s (deliver ops s)"
  unfolding deliver_def stop_signal_def
  by (auto simp: later.stay shutdown_grows_def intro!: later_stopped)

named_theorems later_intros

lemma later_call [later_intros]: "moves (later cfg b) (call ops m)"
  unfolding moves_def
proof
  fix s :: "'a coord"
  obtain r w where m: "m (co_world s) = (r, w)" by fastforce
  have "later cfg b s (s\<lparr>co_world := w\<rparr>)" by (rule later_same) simp_all
  from later.follow [OF this later_deliver [of _ _ _ ops]] show "later cfg b s (snd (call ops m s))"
    by (simp add: call_def m)
qed

definition quiet :: "coord_cfg \<Rightarrow> bool \<Rightarrow> cev \<Rightarrow> bool" where
  "quiet cfg b e \<longleftrightarrow> abort_of e = None \<and> \<not> trains_late cfg e \<and> (b \<longrightarrow> \<not> is_save e)"

lemma later_say: "quiet cfg b e \<Longrightarrow> moves (later cfg b) (say e)"
  unfolding moves_def say_def modify_def later_def quiet_def
  by (auto simp: shutdown_grows_refl abort_inv_def aborts_def map_filter_def saves_def intro!: exI [of _ "[e]"])

lemma later_modify:
  assumes "\<And>s. co_trace (f s) = co_trace s" "\<And>s. co_shutdown (f s) = co_shutdown s"
    "\<And>s. co_final_save_done (f s) = co_final_save_done s" "\<And>s. co_clean_stop_saved (f s) = co_clean_stop_saved s"
  shows "moves (later cfg b) (modify f)"
  by (rule later.moves_modify) (rule later_same; rule assms)

lemma later_gets_say: "(\<And>s. quiet cfg b (f s)) \<Longrightarrow> moves (later cfg b) (abind (gets f) say)"
  by (simp add: moves_def abind_def gets_def later_say [unfolded moves_def])

lemma later_beat [later_intros]: "moves (later cfg b) (beat ops source)"
  unfolding beat_def by (intro later.moves_rules later_intros later_say) (simp add: quiet_def)

end
