(* ===== verification/Coordinator.thy ===== *)
theory Coordinator
  imports Guards
begin

text \<open>
  \<open>src/mantis/train/coordinator/step.py\<close>: one outer iteration of the training loop - the save legs, the
  warm-up and waiting ticks, and the training burst with its gates, its narration, its eval kicks and its
  \<open>iteration_complete\<close> payload - with the routing of eval results
  (\<open>src/mantis/train/coordinator/drain.py\<close>) and the payload builders of
  \<open>src/mantis/train/events.py\<close> it uses.  The remaining fields of the payloads are readings copied from
  the pool and the buffer.
\<close>

section \<open>Routing a completed eval round\<close>

definition unroutable :: "('w coord, unit) act" where
  "unroutable = abind (gets (\<lambda>s. Unroutable (co_train_step s))) say"

definition apply_promotion :: "'w coord_ops \<Rightarrow> (string, json) dict \<Rightarrow> ('w coord, unit) act" where
  "apply_promotion ops result =
     (if \<not> truthy (dget result ''promoted'' JNull) then ret ()
      else case Option.bind (op_pipeline ops) po_apply of
        None \<Rightarrow> say (PromotionUnapplied (dget result ''step'' JNull))
      | Some apply_fn \<Rightarrow> abind (say (Applied (JObj result))) (\<lambda>_. call ops (apply_fn (JObj result))))"

fun route_batch :: "'w coord_ops \<Rightarrow> json list \<Rightarrow> ('w coord, unit) act" where
  "route_batch ops [] = ret ()"
| "route_batch ops (item # items) = abind (case item of JObj d \<Rightarrow> apply_promotion ops d | _ \<Rightarrow> unroutable)
     (\<lambda>_. route_batch ops items)"

definition route_eval_result :: "'w coord_ops \<Rightarrow> json \<Rightarrow> ('w coord, json) act" where
  "route_eval_result ops result = (case result of
     JNull \<Rightarrow> ret JNull
   | JObj d \<Rightarrow> abind (apply_promotion ops d) (\<lambda>_. ret result)
   | JList items \<Rightarrow> abind (route_batch ops items) (\<lambda>_. ret result)
   | _ \<Rightarrow> abind unroutable (\<lambda>_. ret result))"

definition poll_eval_results :: "'w coord_ops \<Rightarrow> ('w coord, bool) act" where
  "poll_eval_results ops = (case op_pipeline ops of
     None \<Rightarrow> ret False
   | Some p \<Rightarrow> abind (call ops (po_poll p)) (\<lambda>result.
       if result = JNull then ret False else abind (route_eval_result ops result) (\<lambda>_. ret True)))"

definition flush_pending_eval :: "'w coord_ops \<Rightarrow> bool \<Rightarrow> ('w coord, json) act" where
  "flush_pending_eval ops resumable_stop = (case op_pipeline ops of
     None \<Rightarrow> ret JNull
   | Some p \<Rightarrow> (case (if resumable_stop then po_abandon p else po_drain p) of
       None \<Rightarrow> ret JNull
     | Some drain \<Rightarrow>
         abind (gets (\<lambda>s. FlushPendingEval (co_train_step s) resumable_stop)) (\<lambda>e.
         abind (say e) (\<lambda>_. abind (call ops drain) (route_eval_result ops)))))"

section \<open>The save legs\<close>

definition TRAINER_COUNTERS :: "string list" where
  "TRAINER_COUNTERS = [''skipped_steps'', ''nonfinite_loss_microbatches'', ''nonfinite_grad_steps'']"

definition guard_state :: "'w coord_ops \<Rightarrow> 'w coord \<Rightarrow> (string, json) dict" where
  "guard_state ops s =
     [(''draw_rate_history'', JList (map JFloat (co_draw_history s))),
      (''initial_policy_loss'', case co_initial_policy_loss s of None \<Rightarrow> JNull | Some x \<Rightarrow> JFloat x),
      (''loss_window'', JList (map JFloat (ws_window (co_warn s)))),
      (''ply_cap_rate'', case co_ply_cap_rate s of None \<Rightarrow> JNull | Some x \<Rightarrow> JFloat x),
      (''trainer'', JObj (List.map_filter (\<lambda>n. map_option (\<lambda>i. (n, JInt i)) (map_of (op_trainer_counters ops (co_world s)) n))
          TRAINER_COUNTERS))]"

definition resumable :: "'w coord_ops \<Rightarrow> ('w coord, bool) act" where
  "resumable ops = abind (gets (\<lambda>s. sh_abort (co_shutdown s))) (\<lambda>a.
     if a \<noteq> None then ret False else abind (call ops (op_disk_critical ops)) (\<lambda>c. ret (\<not> c)))"

definition settle_inflight_eval_for_stop :: "'w coord_ops \<Rightarrow> ('w coord, unit) act" where
  "settle_inflight_eval_for_stop ops = abind (resumable ops) (\<lambda>ok.
     if \<not> ok then ret () else abind (flush_pending_eval ops True) (\<lambda>_. ret ()))"

definition resume_point :: "'w coord_ops \<Rightarrow> coord_cfg \<Rightarrow> string \<Rightarrow> int \<Rightarrow> string option \<Rightarrow> (string, json) dict \<Rightarrow> 'w coord \<Rightarrow> resume_state" where
  "resume_point ops cfg ckpt round_counter anchor rng s =
     \<lparr>rs_version = JInt SIDECAR_VERSION, rs_run_id = JStr (cc_run_id cfg),
      rs_step = (case step_of ckpt of None \<Rightarrow> co_train_step s | Some n \<Rightarrow> n),
      rs_checkpoint_filename = JStr ckpt, rs_ring = None, rs_round_counter = round_counter,
      rs_anchor_sha256 = (case anchor of None \<Rightarrow> JNull | Some h \<Rightarrow> JStr h), rs_rng = rng,
      rs_eval_round_last_step = co_eval_round_last_step s, rs_guards = guard_state ops s\<rparr>"

definition persist_resume_state :: "'w coord_ops \<Rightarrow> coord_cfg \<Rightarrow> string option \<Rightarrow> ('w coord, bool) act" where
  "persist_resume_state ops cfg path = abind (resumable ops) (\<lambda>ok.
     if \<not> ok then ret False
     else case path of None \<Rightarrow> lift (Inl TypeError) | Some ckpt \<Rightarrow>
       abind (case op_pipeline ops of None \<Rightarrow> ret 0 | Some p \<Rightarrow> call ops (po_round_counter p)) (\<lambda>counter.
       abind (call ops (op_anchor_sha ops)) (\<lambda>anchor.
       abind (call ops (op_rng ops)) (\<lambda>rng.
       abind (gets (resume_point ops cfg ckpt counter anchor rng)) (\<lambda>state.
       abind (call ops (op_publish ops ckpt state)) (\<lambda>_.
       abind (say (ResumeStatePersisted (rs_step state))) (\<lambda>_. ret True)))))))"

definition save_checkpoint :: "'w coord_ops \<Rightarrow> ('w coord, string option) act" where
  "save_checkpoint ops = abind (gets (\<lambda>s. falsy_to_None (co_last_loss s))) (\<lambda>loss.
     abind (call ops (op_save ops loss)) (\<lambda>path. abind (say (Saved path)) (\<lambda>_. ret path)))"

definition clean_stop_save :: "'w coord_ops \<Rightarrow> coord_cfg \<Rightarrow> ('w coord, unit) act" where
  "clean_stop_save ops cfg = abind (save_checkpoint ops) (\<lambda>path.
     abind (modify (\<lambda>s. s\<lparr>co_clean_stop_saved := True, co_final_save_done := True\<rparr>)) (\<lambda>_.
     abind (gets (\<lambda>s. CleanStopSave (co_train_step s) (cc_stop_step cfg) path)) say))"

definition stop_running :: "('w coord, unit) act" where
  "stop_running = modify (\<lambda>s. s\<lparr>co_shutdown := (co_shutdown s)\<lparr>sh_running := False\<rparr>\<rparr>)"

definition shutdown_save_leg :: "'w coord_ops \<Rightarrow> coord_cfg \<Rightarrow> ('w coord, unit) act" where
  "shutdown_save_leg ops cfg =
     abind (settle_inflight_eval_for_stop ops) (\<lambda>_.
     abind (save_checkpoint ops) (\<lambda>path.
     abind (persist_resume_state ops cfg path) (\<lambda>_.
     abind (modify (\<lambda>s. s\<lparr>co_final_save_done := True\<rparr>)) (\<lambda>_. stop_running))))"

section \<open>Narration\<close>

definition measured :: "loss_info \<Rightarrow> string \<Rightarrow> json" where
  "measured loss key = (case dget loss key None of None \<Rightarrow> JNull | Some x \<Rightarrow> JFloat x)"

definition float_at :: "loss_info \<Rightarrow> string \<Rightarrow> pyfloat res" where
  "float_at loss key = (case map_of loss key of None \<Rightarrow> Inl KeyError | Some None \<Rightarrow> Inl TypeError | Some (Some x) \<Rightarrow> Inr x)"

definition training_step_payload :: "int \<Rightarrow> loss_info \<Rightarrow> payload res" where
  "training_step_payload step loss =
     rbind (float_at loss ''loss'') (\<lambda>total.
     rbind (float_at loss ''policy_loss'') (\<lambda>policy.
     rbind (float_at loss ''value_loss'') (\<lambda>val.
       Inr [(''event'', JStr ''training_step''), (''step'', JInt step), (''loss_total'', JFloat total),
            (''loss_policy'', JFloat policy), (''loss_value'', JFloat val),
            (''policy_entropy'', measured loss ''policy_entropy''),
            (''policy_entropy_selfplay'', measured loss ''policy_entropy_selfplay''),
            (''lr'', measured loss ''lr''), (''grad_norm'', measured loss ''grad_norm'')])))"

definition lift_warn :: "(warn_state, 'a) act \<Rightarrow> ('w coord, 'a) act" where
  "lift_warn m s = (case m (co_warn s) of (r, ws) \<Rightarrow> (r, s\<lparr>co_warn := ws,
     co_trace := co_trace s @ map (\<lambda>(n, a, st). TrainingAlert n a st) (drop (length (ws_events (co_warn s))) (ws_events ws))\<rparr>))"

definition loss_window_keep :: "coord_cfg \<Rightarrow> nat" where
  "loss_window_keep cfg = nat (max (2 * mc_loss_window (cc_monitor cfg) + 2) 8)"

definition emit_axis_distribution :: "'w coord_ops \<Rightarrow> coord_cfg \<Rightarrow> ('w coord, bool) act" where
  "emit_axis_distribution ops cfg = abind (call ops (op_recent_games ops)) (\<lambda>games.
     if games = [] then ret False
     else (let f = compute_axis_fractions games; m = cc_monitor cfg in
       abind (gets (\<lambda>s. AxisDistribution (co_train_step s) f (length games)
           (band_of (mc_axis_warn m) (mc_axis_alert m) (ax_fracs f)) (mc_axis_warn m) (mc_axis_alert m))) (\<lambda>e.
       abind (say e) (\<lambda>_. ret True))))"

definition run_log_interval :: "'w coord_ops \<Rightarrow> coord_cfg \<Rightarrow> loss_info \<Rightarrow> ('w coord, bool) act" where
  "run_log_interval ops cfg loss = abind (gets co_train_step) (\<lambda>t.
     if loss = [] \<or> cc_log_interval cfg \<le> 0 \<or> t mod cc_log_interval cfg \<noteq> 0 then ret False
     else abind (lift (training_step_payload t loss)) (\<lambda>payload.
          abind (say (TrainingStepEvent payload)) (\<lambda>_.
          abind (lift_warn (emit_training_step_alerts payload (cc_monitor cfg))) (\<lambda>_.
          abind (modify (\<lambda>s. s\<lparr>co_warn := (co_warn s)\<lparr>ws_window := last_n (loss_window_keep cfg) (ws_window (co_warn s))\<rparr>\<rparr>)) (\<lambda>_.
          emit_axis_distribution ops cfg)))))"

text \<open>The held-out gap: the mean train losses of the taken steps since the last read.\<close>

definition heldout_feed :: "loss_info \<Rightarrow> pyfloat \<times> pyfloat \<times> nat \<Rightarrow> (pyfloat \<times> pyfloat \<times> nat) res" where
  "heldout_feed loss acc =
     rbind (case map_of loss ''grad_norm'' of None \<Rightarrow> Inr NaN | Some None \<Rightarrow> Inl TypeError | Some (Some x) \<Rightarrow> Inr x) (\<lambda>g.
     if \<not> isfinite g then Inr acc
     else (case acc of (p, v, n) \<Rightarrow> rbind (float_at loss ''policy_loss'') (\<lambda>a. rbind (float_at loss ''value_loss'') (\<lambda>b.
       Inr (pf_add p a, pf_add v b, Suc n)))))"

definition run_heldout_gap :: "'w coord_ops \<Rightarrow> coord_cfg \<Rightarrow> loss_info \<Rightarrow> ('w coord, bool) act" where
  "run_heldout_gap ops cfg loss = (case cc_heldout_interval cfg of
     None \<Rightarrow> ret False
   | Some interval \<Rightarrow>
       abind (gets co_heldout_sums) (\<lambda>acc0.
       abind (lift (heldout_feed loss acc0)) (\<lambda>acc.
       abind (modify (\<lambda>s. s\<lparr>co_heldout_sums := acc\<rparr>)) (\<lambda>_.
       abind (gets co_train_step) (\<lambda>t.
       if interval = 0 then lift (Inl ZeroDivisionError)
       else if t mod interval \<noteq> 0 then ret False
       else abind (call ops (op_heldout_read ops)) (\<lambda>(policy, val).
         (case acc of (p, v, n) \<Rightarrow>
            abind (say (HeldoutGap t (if n = 0 then None else Some (pf_add policy (pf_neg (pf_over p n))))
                                     (if n = 0 then None else Some (pf_add val (pf_neg (pf_over v n)))) n)) (\<lambda>_.
            abind (modify (\<lambda>s. s\<lparr>co_heldout_sums := (Fin 0, Fin 0, 0)\<rparr>)) (\<lambda>_. ret True)))))))))"

section \<open>The counters of an iteration\<close>

definition TARGET_INTEGRITY_COUNTERS :: "string list" where
  "TARGET_INTEGRITY_COUNTERS = [''export_offwindow_mass_moves'', ''target_integrity_defects'', ''inference_failures_total'',
     ''positions_dropped'', ''root_expansion_failed'']"

definition POSITIONS_COUNTER :: string where "POSITIONS_COUNTER = ''positions_generated''"

definition SEARCH_LEVER_COUNTERS :: "string list" where
  "SEARCH_LEVER_COUNTERS = [''pcr_full_moves'', ''pcr_quick_moves'', ''gumbel_round_leaves'', ''gumbel_rounds'',
     ''gumbel_quick_round_leaves'', ''gumbel_quick_rounds'', ''served_leaves_total'', ''gpu_evals_total'', ''tt_hits_total'']"

definition snapshot_counter :: "rstats \<Rightarrow> string \<Rightarrow> int option" where
  "snapshot_counter r name = map_of (rs_counters r) name"

definition fire_rate :: "int option \<Rightarrow> int option \<Rightarrow> real option" where
  "fire_rate delta positions = (case (delta, positions) of
     (Some d, Some p) \<Rightarrow> if p = 0 then None else Some (of_int d / of_int p) | _ \<Rightarrow> None)"

text \<open>One counter: its total, its delta since the previous boundary and its rate, and the new boundary.\<close>

definition count_one :: "int option \<Rightarrow> string \<times> int option \<Rightarrow> (string, int) dict \<Rightarrow>
    (string \<times> int option \<times> int option \<times> real option) res \<times> (string, int) dict" where
  "count_one positions nt seen = (case nt of (name, None) \<Rightarrow> (Inr (name, None, None, None), seen)
   | (name, Some t) \<Rightarrow> (case map_of seen name of
       None \<Rightarrow> (Inl KeyError, seen)
     | Some old \<Rightarrow> (Inr (name, Some t, Some (t - old), fire_rate (Some (t - old)) positions), AList.update name t seen)))"

fun count_block :: "int option \<Rightarrow> (string \<times> int option) list \<Rightarrow> ((string, int) dict, counter_block) act" where
  "count_block positions [] = ret []"
| "count_block positions (nt # nts) = abind (count_one positions nt) (\<lambda>row.
     abind (count_block positions nts) (\<lambda>rows. ret (row # rows)))"

fun count_tactics :: "int option \<Rightarrow> (string \<times> int) list \<Rightarrow> (string, int) dict \<Rightarrow> counter_block \<times> (string, int) dict" where
  "count_tactics positions [] seen = ([], seen)"
| "count_tactics positions ((name, t) # rest) seen =
     (let key = ''tactics.'' @ name; d = t - dget seen key 0 in
      case count_tactics positions rest (AList.update key t seen) of
        (rows, seen') \<Rightarrow> ((name, Some t, Some d, fire_rate (Some d) positions) # rows, seen'))"

definition target_integrity_report ::
  "rstats \<Rightarrow> ((string, int) dict, int option \<times> counter_block \<times> counter_block \<times> counter_block) act" where
  "target_integrity_report r =
     abind (gets (\<lambda>seen. (seen, snapshot_counter r POSITIONS_COUNTER))) (\<lambda>(seen0, positions).
     abind (lift (case positions of None \<Rightarrow> Inr None
                  | Some p \<Rightarrow> rbind (subscript seen0 POSITIONS_COUNTER) (\<lambda>old. Inr (Some (p - old))))) (\<lambda>pd.
     abind (count_block pd (map (\<lambda>n. (n, snapshot_counter r n)) TARGET_INTEGRITY_COUNTERS)) (\<lambda>report.
     abind (count_block pd (map (\<lambda>n. (n, snapshot_counter r n)) SEARCH_LEVER_COUNTERS)) (\<lambda>levers.
     abind (\<lambda>seen. case count_tactics pd (rs_tactics r) seen of (rows, seen') \<Rightarrow> (Inr rows, seen')) (\<lambda>tactics.
     abind (modify (\<lambda>seen. case positions of None \<Rightarrow> seen | Some p \<Rightarrow> AList.update POSITIONS_COUNTER p seen)) (\<lambda>_.
     ret (pd, report, levers, tactics)))))))"

definition lift_counters :: "((string, int) dict, 'a) act \<Rightarrow> ('w coord, 'a) act" where
  "lift_counters m s = (case m (co_last_counters s) of (r, c) \<Rightarrow> (r, s\<lparr>co_last_counters := c\<rparr>))"

definition round1 :: "real \<Rightarrow> real" where
  "round1 x = of_int (round_half_even (x * 10)) / 10"

text \<open>\<open>None\<close> before the clock has advanced.\<close>

definition games_per_hour :: "real \<Rightarrow> 'w coord \<Rightarrow> real option" where
  "games_per_hour now s = (let elapsed = now - co_run_started s in
     if 0 < elapsed then Some (of_int (co_games_played s) / elapsed * 3600) else None)"

definition steps_per_hour :: "real \<Rightarrow> 'w coord \<Rightarrow> real option" where
  "steps_per_hour now s = (let elapsed = now - co_run_started s in
     if 0 < elapsed then Some (of_int (co_train_step s - co_boot_step s) / elapsed * 3600) else None)"

text \<open>\<open>round(float(steps_per_hour_fn()), 1)\<close>: \<open>float(None)\<close> is a \<open>TypeError\<close>.\<close>

definition emit_iteration_complete :: "'w coord_ops \<Rightarrow> ('w coord, unit) act" where
  "emit_iteration_complete ops =
     abind (call ops (op_runner_stats ops)) (\<lambda>r.
     abind (lift_counters (target_integrity_report r)) (\<lambda>(pd, report, levers, tactics).
     abind (call ops (op_now ops)) (\<lambda>now1.
     abind (gets (\<lambda>s. (games_per_hour now1 s, op_avg_game_length ops (co_world s)))) (\<lambda>(gph, avg).
     abind (call ops (op_now ops)) (\<lambda>now2.
     abind (gets (steps_per_hour now2)) (\<lambda>sph. case sph of
       None \<Rightarrow> lift (Inl TypeError)
     | Some x \<Rightarrow>
       abind (gets (\<lambda>s. IterationComplete (co_train_step s) (co_games_played s) (co_games_played s - co_last_iter_games s)
          (map_option round1 gph) (round1 x)
          (case (gph, avg) of (Some g, Some a) \<Rightarrow> if 0 < a then Some (round1 (g * a)) else None | _ \<Rightarrow> None)
          (map_option round1 avg) pd report levers tactics)) (\<lambda>e.
       abind (say e) (\<lambda>_. modify (\<lambda>s. s\<lparr>co_last_iter_games := co_games_played s\<rparr>)))))))))"

section \<open>Eval kicks\<close>

definition kick_due :: "int \<Rightarrow> int \<Rightarrow> int \<Rightarrow> bool" where
  "kick_due interval last_step train_step = (let round_idx = train_step div interval;
     last_idx = (if last_step < 0 then - 1 else last_step div interval)
   in \<not> (round_idx \<le> 0 \<or> round_idx \<le> last_idx))"

definition maybe_kick_eval :: "'w coord_ops \<Rightarrow> coord_cfg \<Rightarrow> ('w coord, bool \<times> bool) act" where
  "maybe_kick_eval ops cfg = (case op_pipeline ops of
     None \<Rightarrow> ret (False, False)
   | Some p \<Rightarrow> if cc_eval_interval cfg \<le> 0 then ret (False, False)
       else abind (gets (\<lambda>s. (co_train_step s, co_eval_round_last_step s))) (\<lambda>(t, last_step).
         if \<not> kick_due (cc_eval_interval cfg) last_step t then ret (False, False)
         else abind (modify (\<lambda>s. s\<lparr>co_eval_round_last_step := t\<rparr>)) (\<lambda>_.
              abind (say (EvalKicked t)) (\<lambda>_.
              abind (call ops (po_run p t False)) (\<lambda>ack.
              abind (lift (py_get ack ''kicked'' JNull)) (\<lambda>k.
              ret (k = JBool True, k = JBool False)))))))"

definition restore_eval_round_state :: "int \<Rightarrow> ('w coord, unit) act" where
  "restore_eval_round_state last_kicked = abind (gets co_train_step) (\<lambda>t.
     if t < last_kicked then lift (Inl ResumeStateError)
     else modify (\<lambda>s. s\<lparr>co_eval_round_last_step := last_kicked\<rparr>))"

text \<open>\<open>float(v)\<close>; the conversion of a text is \<open>fos\<close>.\<close>

fun py_float :: "(string \<Rightarrow> pyfloat res) \<Rightarrow> json \<Rightarrow> pyfloat res" where
  "py_float fos (JBool b) = Inr (Fin (if b then 1 else 0))"
| "py_float fos (JInt i) = rbind (float_of_int i) (\<lambda>x. Inr (Fin x))"
| "py_float fos (JFloat x) = Inr x"
| "py_float fos (JStr s) = fos s"
| "py_float fos _ = Inl TypeError"

fun py_iter :: "json \<Rightarrow> json list res" where
  "py_iter (JList js) = Inr js"
| "py_iter (JObj d) = Inr (map (JStr \<circ> fst) d)"
| "py_iter (JStr s) = Inr (map (\<lambda>c. JStr [c]) s)"
| "py_iter _ = Inl TypeError"

definition float_list :: "(string \<Rightarrow> pyfloat res) \<Rightarrow> json \<Rightarrow> pyfloat list res" where
  "float_list fos v = rbind (py_iter v) (rmap (py_float fos))"

definition float_or_none :: "(string \<Rightarrow> pyfloat res) \<Rightarrow> json \<Rightarrow> pyfloat option res" where
  "float_or_none fos v = (if v = JNull then Inr None else rbind (py_float fos v) (\<lambda>x. Inr (Some x)))"

definition restore_at :: "(string, json) dict \<Rightarrow> string \<Rightarrow> (json \<Rightarrow> 'a res) \<Rightarrow> ('a \<Rightarrow> 'w coord \<Rightarrow> 'w coord) \<Rightarrow> ('w coord, unit) act" where
  "restore_at state key conv put = (case map_of state key of
     None \<Rightarrow> ret () | Some v \<Rightarrow> abind (lift (conv v)) (\<lambda>x. modify (put x)))"

fun restore_counters :: "'w coord_ops \<Rightarrow> (string, json) dict \<Rightarrow> ('w coord, unit) act" where
  "restore_counters ops [] = ret ()"
| "restore_counters ops ((name, v) # rest) = abind (if name \<in> set TRAINER_COUNTERS
     then abind (lift (py_int v)) (\<lambda>i. modify (\<lambda>s. s\<lparr>co_world := op_restore_counter ops name i (co_world s)\<rparr>)) else ret ())
     (\<lambda>_. restore_counters ops rest)"

definition restore_guard_fields :: "(string \<Rightarrow> pyfloat res) \<Rightarrow> 'w coord_ops \<Rightarrow> (string, json) dict \<Rightarrow> ('w coord, unit) act" where
  "restore_guard_fields fos ops state =
     abind (restore_at state ''draw_rate_history'' (float_list fos) (\<lambda>xs s. s\<lparr>co_draw_history := xs\<rparr>)) (\<lambda>_.
     abind (restore_at state ''initial_policy_loss'' (float_or_none fos) (\<lambda>x s. s\<lparr>co_initial_policy_loss := x\<rparr>)) (\<lambda>_.
     abind (restore_at state ''loss_window'' (float_list fos) (\<lambda>xs s. s\<lparr>co_warn := (co_warn s)\<lparr>ws_window := xs\<rparr>\<rparr>)) (\<lambda>_.
     abind (restore_at state ''ply_cap_rate'' (float_or_none fos) (\<lambda>x s. s\<lparr>co_ply_cap_rate := x\<rparr>)) (\<lambda>_.
     abind (lift (py_dict (dget state ''trainer'' (JObj [])))) (restore_counters ops)))))"

definition restore_guard_state :: "(string \<Rightarrow> pyfloat res) \<Rightarrow> 'w coord_ops \<Rightarrow> (string, json) dict \<Rightarrow> ('w coord, unit) act" where
  "restore_guard_state fos ops state = catching (restore_guard_fields fos ops state)
     (\<lambda>e. lift (Inl (if e \<in> {TypeError, ValueError} then ResumeStateError else e)))"

section \<open>One outer iteration\<close>

record outcome =
  oc_in_warmup :: bool
  oc_waiting :: bool
  oc_steps_run :: int
  oc_checkpoint_saved :: bool
  oc_axis_emitted :: bool
  oc_eval_kicked :: bool
  oc_eval_skipped :: bool
  oc_eval_drained :: bool
  oc_hard_abort :: bool

definition base_outcome :: "bool \<Rightarrow> outcome" where
  "base_outcome drained = \<lparr>oc_in_warmup = False, oc_waiting = False, oc_steps_run = 0, oc_checkpoint_saved = False,
     oc_axis_emitted = False, oc_eval_kicked = False, oc_eval_skipped = False, oc_eval_drained = drained, oc_hard_abort = False\<rparr>"

text \<open>The trainer publishes a periodic checkpoint through \<open>persist_resume_state\<close> before the counter moves.\<close>

definition run_training_step :: "'w coord_ops \<Rightarrow> coord_cfg \<Rightarrow> ('w coord, loss_info) act" where
  "run_training_step ops cfg = abind (call ops (op_train ops)) (\<lambda>(loss, periodic).
     abind (gets (\<lambda>s. Trained (co_train_step s))) (\<lambda>e. abind (say e) (\<lambda>_.
     abind (case periodic of None \<Rightarrow> ret False | Some path \<Rightarrow> persist_resume_state ops cfg (Some path)) (\<lambda>_. ret loss))))"

definition note_losses :: "loss_info \<Rightarrow> ('w coord, unit) act" where
  "note_losses loss =
     abind (gets co_initial_policy_loss) (\<lambda>i.
     abind (if i = None \<and> map_of loss ''policy_loss'' \<noteq> None
            then abind (lift (float_at loss ''policy_loss'')) (\<lambda>x. modify (\<lambda>s. s\<lparr>co_initial_policy_loss := Some x\<rparr>)) else ret ()) (\<lambda>_.
     modify (\<lambda>s. s\<lparr>co_last_loss := Some loss\<rparr>)))"

definition burst_step :: "'w coord_ops \<Rightarrow> coord_cfg \<Rightarrow> outcome \<Rightarrow> ('w coord, outcome) act" where
  "burst_step ops cfg o1 =
     abind (run_training_step ops cfg) (\<lambda>loss.
     abind (call ops (op_trainer_step ops)) (\<lambda>t.
     abind (modify (\<lambda>s. s\<lparr>co_train_step := t\<rparr>)) (\<lambda>_.
     abind (case op_sync ops of None \<Rightarrow> ret () | Some sync \<Rightarrow> abind (call ops (sync t)) (\<lambda>_. say (Synced t))) (\<lambda>_.
     abind (note_losses loss) (\<lambda>_.
     abind (run_ply_cap_gate ops cfg) (\<lambda>h1.
     abind (run_log_interval ops cfg loss) (\<lambda>a.
     abind (run_gate_interval ops cfg) (\<lambda>h2.
     abind (run_heldout_gap ops cfg loss) (\<lambda>_.
     abind (maybe_kick_eval ops cfg) (\<lambda>(k, b).
     ret (o1\<lparr>oc_hard_abort := oc_hard_abort o1 \<or> h1 \<or> h2, oc_axis_emitted := oc_axis_emitted o1 \<or> a,
            oc_eval_kicked := oc_eval_kicked o1 \<or> k, oc_eval_skipped := oc_eval_skipped o1 \<or> b\<rparr>)))))))))))"

fun burst :: "'w coord_ops \<Rightarrow> coord_cfg \<Rightarrow> nat \<Rightarrow> outcome \<Rightarrow> ('w coord, outcome) act" where
  "burst ops cfg 0 o1 = ret o1"
| "burst ops cfg (Suc n) o1 = abind (beat ops ''train_step'') (\<lambda>_. abind (gets co_train_step) (\<lambda>t.
     if past_stop cfg t then ret o1
     else abind (burst_step ops cfg o1) (burst ops cfg n)))"

definition warmup_tick :: "'w coord_ops \<Rightarrow> coord_cfg \<Rightarrow> ('w coord, unit) act" where
  "warmup_tick ops cfg =
     abind (call ops (op_now ops)) (\<lambda>now. abind (gets co_last_warmup_log) (\<lambda>since.
     abind (if 5 \<le> now - since
            then abind (call ops (op_buffer_size ops)) (\<lambda>n. abind (say (SystemStats n (cc_capacity cfg))) (\<lambda>_.
                 abind (call ops (op_now ops)) (\<lambda>t. modify (\<lambda>s. s\<lparr>co_last_warmup_log := t\<rparr>))))
            else ret ()) (\<lambda>_. call ops (op_sleep ops (1 / 2)))))"

definition buffer_fill :: "'w coord_ops \<Rightarrow> coord_cfg \<Rightarrow> ('w coord, real option) act" where
  "buffer_fill ops cfg = (if \<not> cc_fill_ramp cfg then ret None
     else abind (call ops (op_buffer_size ops)) (\<lambda>n.
       if cc_capacity cfg = 0 then lift (Inl ZeroDivisionError) else ret (Some (of_int n / of_int (cc_capacity cfg)))))"

definition training_burst :: "'w coord_ops \<Rightarrow> coord_cfg \<Rightarrow> int \<Rightarrow> bool \<Rightarrow> ('w coord, outcome) act" where
  "training_burst ops cfg new_games drained =
     abind (buffer_fill ops cfg) (\<lambda>fill.
     abind (gets (\<lambda>s. steps_budget new_games (cc_steps_per_game cfg) (cc_max_burst cfg) (co_carry s) fill)) (\<lambda>(budget, carry).
     abind (modify (\<lambda>s. s\<lparr>co_carry := carry, co_last_train_games := co_games_played s\<rparr>)) (\<lambda>_.
     abind (burst ops cfg (nat budget) (base_outcome drained)) (\<lambda>o1.
     abind (emit_iteration_complete ops) (\<lambda>_. ret (o1\<lparr>oc_steps_run := budget\<rparr>))))))"

definition working_step :: "'w coord_ops \<Rightarrow> coord_cfg \<Rightarrow> bool \<Rightarrow> ('w coord, outcome) act" where
  "working_step ops cfg drained =
     abind (call ops (op_games ops)) (\<lambda>games.
     abind (modify (\<lambda>s. s\<lparr>co_games_played := games\<rparr>)) (\<lambda>_.
     abind (call ops (op_now ops)) (\<lambda>now.
     abind (stall_tick ops cfg games now) (\<lambda>_.
     abind (call ops (op_buffer_size ops)) (\<lambda>size.
     if size < cc_min_buf_size cfg then abind (warmup_tick ops cfg) (\<lambda>_. ret ((base_outcome drained)\<lparr>oc_in_warmup := True\<rparr>))
     else abind (gets (\<lambda>s. co_games_played s - co_last_train_games s)) (\<lambda>new_games.
       if new_games \<le> 0 then abind (call ops (op_sleep ops (1 / 10))) (\<lambda>_. ret ((base_outcome drained)\<lparr>oc_waiting := True\<rparr>))
       else training_burst ops cfg new_games drained))))))"

definition coord_step :: "'w coord_ops \<Rightarrow> coord_cfg \<Rightarrow> ('w coord, outcome) act" where
  "coord_step ops cfg =
     abind (beat ops ''train_step'') (\<lambda>_.
     abind (case op_health ops of None \<Rightarrow> ret () | Some h \<Rightarrow> call ops h) (\<lambda>_.
     abind (poll_eval_results ops) (\<lambda>drained.
     abind (gets (\<lambda>s. (past_stop cfg (co_train_step s), sh_save (co_shutdown s)))) (\<lambda>(finished, save_asked).
     if finished then abind (clean_stop_save ops cfg) (\<lambda>_. abind stop_running (\<lambda>_.
       ret ((base_outcome drained)\<lparr>oc_checkpoint_saved := True\<rparr>)))
     else if save_asked then abind (shutdown_save_leg ops cfg) (\<lambda>_.
       ret ((base_outcome drained)\<lparr>oc_checkpoint_saved := True\<rparr>))
     else working_step ops cfg drained))))"

end
