(* ===== verification/Close_Out.thy ===== *)
theory Close_Out
  imports Coordinator
begin

text \<open>
  The epilogue of a run (\<open>src/mantis/train/coordinator/drain.py\<close>: the terminal eval, its recorded reason
  and \<open>close_out\<close>) and the loop that drives the coordinator (\<open>src/mantis/train/loop.py\<close>), after the
  anchor has been resolved.
\<close>

section \<open>The terminal eval\<close>

definition record_terminal_eval_reason :: "json option \<Rightarrow> 'w coord \<Rightarrow> 'w coord" where
  "record_terminal_eval_reason reason s = (if co_terminal_reason s \<noteq> None then s else s\<lparr>co_terminal_reason := reason\<rparr>)"

interpretation reason_latch: first_wins "\<lambda>r. record_terminal_eval_reason (Some r)" co_terminal_reason
  by unfold_locales (simp_all add: record_terminal_eval_reason_def)

definition reason_of :: "json \<Rightarrow> json option" where
  "reason_of v = (if v = JNull then None else Some v)"

definition record_terminal_outcome :: "json \<Rightarrow> ('w coord, unit) act" where
  "record_terminal_outcome result = (case result of
     JObj d \<Rightarrow> abind (lift (subscript d ''eval_broken_reason'')) (\<lambda>v. modify (record_terminal_eval_reason (reason_of v)))
   | _ \<Rightarrow> lift (Inl TypeError))"

definition run_terminal_eval :: "'w coord_ops \<Rightarrow> coord_cfg \<Rightarrow> bool \<Rightarrow> ('w coord, json) act" where
  "run_terminal_eval ops cfg resumable_stop = (case op_pipeline ops of
     None \<Rightarrow> ret JNull
   | Some p \<Rightarrow>
       if \<not> cc_terminal_eval cfg then ret JNull
       else abind (gets co_train_step) (\<lambda>t.
         if resumable_stop then abind (say (TerminalEvalSkipped t)) (\<lambda>_. ret JNull)
         else abind (say (TerminalEval t)) (\<lambda>_.
              abind (call ops (po_run p t True)) (\<lambda>raw.
              abind (route_eval_result ops raw) (\<lambda>result.
              abind (record_terminal_outcome result) (\<lambda>_. ret result))))))"

definition disarm_staleness :: "'w coord_ops \<Rightarrow> ('w coord, unit) act" where
  "disarm_staleness ops = (case op_disarm ops of
     None \<Rightarrow> ret ()
   | Some None \<Rightarrow> lift (Inl TypeError)
   | Some (Some disarm) \<Rightarrow> abind (call ops disarm) (\<lambda>_. say StalenessDisarmed))"

definition close_out :: "'w coord_ops \<Rightarrow> coord_cfg \<Rightarrow> ('w, unit) act option \<Rightarrow> bool \<Rightarrow> ('w coord, unit) act" where
  "close_out ops cfg on_drained resumable_stop =
     abind (disarm_staleness ops) (\<lambda>_.
     abind (flush_pending_eval ops resumable_stop) (\<lambda>_.
     abind (case on_drained of None \<Rightarrow> ret () | Some f \<Rightarrow> abind (say OnDrained) (\<lambda>_. call ops f)) (\<lambda>_.
     abind (run_terminal_eval ops cfg resumable_stop) (\<lambda>_. ret ()))))"

section \<open>The loop\<close>

definition final_save :: "'w coord_ops \<Rightarrow> coord_cfg \<Rightarrow> loss_info option \<Rightarrow> ('w coord, unit) act" where
  "final_save ops cfg loss =
     abind (say ShutdownSaveEvent) (\<lambda>_.
     abind (settle_inflight_eval_for_stop ops) (\<lambda>_.
     abind (call ops (op_save ops loss)) (\<lambda>path.
     abind (say (Saved path)) (\<lambda>_.
     abind (persist_resume_state ops cfg path) (\<lambda>_. ret ())))))"

text \<open>The loop may run forever: then it has no value.\<close>

partial_function (option) drive ::
  "'w coord_ops \<Rightarrow> coord_cfg \<Rightarrow> nat option \<Rightarrow> nat \<Rightarrow> 'w coord \<Rightarrow> (unit res \<times> 'w coord) option" where
  "drive ops cfg max_steps n s =
     (if \<not> sh_running (co_shutdown s) \<or> (case max_steps of None \<Rightarrow> False | Some m \<Rightarrow> m \<le> n) then Some (Inr (), s)
      else (case coord_step ops cfg s of
          (Inl e, t) \<Rightarrow> Some (Inl e, t)
        | (Inr _, t) \<Rightarrow> if sh_save (co_shutdown t) then Some (Inr (), t) else drive ops cfg max_steps (Suc n) t))"

definition run_training_loop ::
  "'w coord_ops \<Rightarrow> coord_cfg \<Rightarrow> nat option \<Rightarrow> loss_info option \<Rightarrow> 'w coord \<Rightarrow> (unit res \<times> 'w coord) option" where
  "run_training_loop ops cfg max_steps loss s =
     (if sh_save (co_shutdown s) then Some (final_save ops cfg loss s)
      else Option.bind (drive ops cfg max_steps 0 s) (\<lambda>(r, t). Some (case r of
          Inl e \<Rightarrow> (Inl e, t)
        | Inr _ \<Rightarrow> if sh_save (co_shutdown t) \<and> \<not> co_final_save_done t then final_save ops cfg loss t else (Inr (), t))))"

end
