(* ===== verification/Coordinator_Laws.thy ===== *)
theory Coordinator_Laws
  imports Close_Out
begin

text \<open>
  What holds of the coordinator however its collaborators behave: at most one hard abort, announced and
  recorded together; no training at or past the stop step; one final save per stop; every eval round
  kicked once; a close-out that disarms first and never runs the terminal battery after a resumable stop.
\<close>

section \<open>Every operation moves the state forward\<close>

lemma later_best_effort [later_intros]: "moves (later cfg b) (best_effort_act label eff ops)"
  unfolding moves_def
proof
  fix s :: "'a coord"
  obtain e w where e: "eff (co_world s) = (e, w)" by fastforce
  obtain r c where r: "best_effort label e (co_wd_counters s) = (r, c)" by fastforce
  have "later cfg b s (s\<lparr>co_world := w, co_wd_counters := c\<rparr>)" by (rule later_same) simp_all
  from later.follow [OF this later_deliver [of _ _ _ ops]] show "later cfg b s (snd (best_effort_act label eff ops s))"
    by (cases r) (simp_all add: best_effort_act_def e r)
qed

lemma later_stall_tick [later_intros]: "moves (later cfg b) (stall_tick ops cfg' games now)"
  unfolding stall_tick_def stall_fire_def
  by (intro later.moves_rules later_intros later_say later_modify) (simp_all add: quiet_def)

lemma later_bump [later_intros]: "moves (later cfg b) (bump_gate g f)"
  unfolding bump_gate_def by (rule later_modify) simp_all

lemma later_abort_fire: "sh_running (co_shutdown s) \<Longrightarrow>
  later cfg b s (snd (abind (say (HardAbort r t)) (\<lambda>_. modify (\<lambda>s. s\<lparr>co_shutdown := snd (record_abort r ((co_shutdown s)\<lparr>sh_running := False\<rparr>))\<rparr>)) s))"
  unfolding later_def
  by (auto simp: say_def act_defs record_abort_def abort_inv_def shutdown_grows_def aborts_def map_filter_def saves_def
      intro!: exI [of _ "[HardAbort r t]"])

lemma later_fire_hard_abort [later_intros]: "moves (later cfg b) (fire_hard_abort g message)"
  unfolding moves_def
proof
  fix s :: "'a coord"
  let ?fire = "abind (say (HardAbort (gate_name g) (co_train_step s))) (\<lambda>_.
     modify (\<lambda>s. s\<lparr>co_shutdown := snd (record_abort (gate_name g) ((co_shutdown s)\<lparr>sh_running := False\<rparr>))\<rparr>))"
  have q: "moves (later cfg b) (say (HardAbortAfterStop (gate_name g) (co_train_step s)) :: ('a coord, unit) act)"
    by (rule later_say) (simp add: quiet_def)
  have bump: "moves (later cfg b) (bump_gate g fires_bump :: ('a coord, unit) act)" by (rule later_bump)
  show "later cfg b s (snd (fire_hard_abort g message s))"
  proof (cases "message \<and> sh_running (co_shutdown s)")
    case True
    from later_abort_fire [OF conjunct2 [OF True], of cfg b "gate_name g" "co_train_step s"]
    have "later cfg b s (snd (?fire s))" .
    from later.follow [OF this bump [unfolded moves_def, rule_format]] True show ?thesis
      by (simp add: fire_hard_abort_def act_defs say_def bump_gate_def)
  next
    case False
    with q show ?thesis unfolding moves_def
      by (auto simp: fire_hard_abort_def act_defs say_def later.stay)
  qed
qed

lemma later_sample:
  assumes "\<And>p. producer = Some p \<Longrightarrow> moves (later cfg b) p"
  shows "moves (later cfg b) (sample producer)"
proof (cases producer)
  case None
  then show ?thesis by (simp add: sample_def) (intro later.moves_rules later_intros)
next
  case (Some p)
  have "moves (later cfg b) p" by (rule assms [OF Some])
  then show ?thesis unfolding sample_def Some option.case
    by (intro later.moves_rules later_intros later_modify) simp_all
qed

lemma later_gates [later_intros]: "moves (later cfg b) (run_hard_abort_gates ops cfg')"
  unfolding run_hard_abort_gates_def
  by (intro later.moves_rules later_sample) (auto intro!: later.moves_rules later_intros later_modify later_sample)

lemma later_ply_cap [later_intros]: "moves (later cfg b) (run_ply_cap_gate ops cfg')"
  unfolding run_ply_cap_gate_def
  by (intro later.moves_rules later_intros later_modify) simp_all

lemma later_gate_interval [later_intros]: "moves (later cfg b) (run_gate_interval ops cfg')"
  unfolding run_gate_interval_def emit_monitor_gates_def
  by (intro later.moves_rules later_intros later_gets_say) (simp add: quiet_def)

lemma later_unroutable [later_intros]: "moves (later cfg b) unroutable"
  unfolding unroutable_def by (intro later_gets_say) (simp add: quiet_def)

lemma later_promotion [later_intros]: "moves (later cfg b) (apply_promotion ops d)"
  unfolding apply_promotion_def by (intro later.moves_rules later_intros later_say) (simp_all add: quiet_def)

lemma later_route_batch [later_intros]: "moves (later cfg b) (route_batch ops items)"
  by (induction items) (auto intro!: later.moves_rules later_intros split: json.split)

lemma later_route [later_intros]: "moves (later cfg b) (route_eval_result ops result)"
  unfolding route_eval_result_def by (auto intro!: later.moves_rules later_intros split: json.split)

lemma later_poll [later_intros]: "moves (later cfg b) (poll_eval_results ops)"
  unfolding poll_eval_results_def by (intro later.moves_rules later_intros)

lemma later_gets_say_then:
  assumes q: "\<And>s. quiet cfg b (f s)" and m: "moves (later cfg b) m"
  shows "moves (later cfg b) (abind (gets f) (\<lambda>e. abind (say e) (\<lambda>_. m)))"
  unfolding moves_def
proof
  fix s :: "'a coord"
  have "moves (later cfg b) (abind (say (f s)) (\<lambda>_. m))" by (intro later.moves_abind later_say q m)
  then show "later cfg b s (snd (abind (gets f) (\<lambda>e. abind (say e) (\<lambda>_. m)) s))"
    by (simp add: moves_def abind_def [of "gets _"] gets_def)
qed

lemma later_flush [later_intros]: "moves (later cfg b) (flush_pending_eval ops stop)"
proof -
  have "moves (later cfg b) (abind (gets (\<lambda>s. FlushPendingEval (co_train_step s) stop)) (\<lambda>e.
         abind (say e) (\<lambda>_. abind (call ops d) (route_eval_result ops))))" for d
    by (rule later_gets_say_then) (auto simp: quiet_def intro!: later.moves_rules later_intros)
  then show ?thesis unfolding flush_pending_eval_def
    by (intro later.moves_option later.moves_ret) blast
qed

lemma later_resumable [later_intros]: "moves (later cfg b) (resumable ops)"
  unfolding resumable_def by (intro later.moves_rules later_intros)

lemma later_settle [later_intros]: "moves (later cfg b) (settle_inflight_eval_for_stop ops)"
  unfolding settle_inflight_eval_for_stop_def by (intro later.moves_rules later_intros)

lemma later_persist [later_intros]: "moves (later cfg b) (persist_resume_state ops cfg' path)"
  unfolding persist_resume_state_def by (intro later.moves_rules later_intros later_say) (simp add: quiet_def)

lemma later_lift_warn [later_intros]: "moves (later cfg b) (lift_warn m)"
  unfolding moves_def
proof
  fix s :: "'a coord"
  obtain r ws where m: "m (co_warn s) = (r, ws)" by fastforce
  let ?tr = "map (\<lambda>(n, a, st). TrainingAlert n a st) (drop (length (ws_events (co_warn s))) (ws_events ws))"
  have "\<not> list_ex (trains_late cfg) ?tr \<and> saves ?tr = 0 \<and> aborts ?tr = []" for cfg
    by (auto simp: list_ex_iff saves_def filter_empty_conv aborts_def map_filter_def)
  then show "later cfg b s (snd (lift_warn m s))" unfolding later_def
    by (auto simp: lift_warn_def m shutdown_grows_refl abort_inv_def intro!: exI [of _ ?tr])
qed

lemma later_axis [later_intros]: "moves (later cfg b) (emit_axis_distribution ops cfg')"
  unfolding emit_axis_distribution_def Let_def
  by (intro later.moves_rules later_intros later_gets_say_then) (simp_all add: quiet_def)

lemma later_log_interval [later_intros]: "moves (later cfg b) (run_log_interval ops cfg' loss)"
  unfolding run_log_interval_def
  by (intro later.moves_rules later_intros later_say later_modify) (simp_all add: quiet_def)

lemma later_heldout [later_intros]: "moves (later cfg b) (run_heldout_gap ops cfg' loss)"
  unfolding run_heldout_gap_def
  by (intro later.moves_rules later_intros later_say later_modify) (simp_all add: quiet_def)

lemma later_lift_counters [later_intros]: "moves (later cfg b) (lift_counters m)"
  unfolding moves_def lift_counters_def by (auto split: prod.split intro: later_same)

lemma later_iteration [later_intros]: "moves (later cfg b) (emit_iteration_complete ops)"
  unfolding emit_iteration_complete_def
  by (intro later.moves_rules later_intros later_gets_say_then later_modify) (simp_all add: quiet_def)

lemma later_kick [later_intros]: "moves (later cfg b) (maybe_kick_eval ops cfg')"
  unfolding maybe_kick_eval_def
  by (intro later.moves_rules later_intros later_say later_modify) (simp_all add: quiet_def)

lemma later_note [later_intros]: "moves (later cfg b) (note_losses loss)"
  unfolding note_losses_def by (intro later.moves_rules later_intros later_modify) simp_all

lemma later_warmup [later_intros]: "moves (later cfg b) (warmup_tick ops cfg')"
  unfolding warmup_tick_def
  by (intro later.moves_rules later_intros later_say later_modify) (simp_all add: quiet_def)

lemma later_fill [later_intros]: "moves (later cfg b) (buffer_fill ops cfg')"
  unfolding buffer_fill_def by (intro later.moves_rules later_intros)

section \<open>The training burst\<close>

text \<open>A training step is only asked for below the stop step.\<close>

lemma call_train_step: "co_train_step (snd (call ops m s)) = co_train_step s"
  by (simp add: call_def deliver_def split: prod.split option.split)

lemma later_run_training_step:
  assumes "\<not> past_stop cfg (co_train_step s)"
  shows "later cfg b s (snd (run_training_step ops cfg' s))"
proof -
  obtain r u where c: "call ops (op_train ops) s = (r, u)" by fastforce
  have su: "later cfg b s u" by (rule moves_run [OF later_call c])
  have ts: "co_train_step u = co_train_step s" using call_train_step [of ops "op_train ops" s] by (simp add: c)
  show ?thesis
  proof (cases r)
    case (Inl e)
    with su show ?thesis by (simp add: run_training_step_def abind_def c)
  next
    case (Inr lp)
    obtain loss periodic where lp: "lp = (loss, periodic)" by fastforce
    have "moves (later cfg b) (abind (say (Trained (co_train_step u))) (\<lambda>_.
       abind (case periodic of None \<Rightarrow> ret False | Some path \<Rightarrow> persist_resume_state ops cfg' (Some path)) (\<lambda>_. ret loss)))"
      by (intro later.moves_rules later_intros later_say) (use assms ts in \<open>simp add: quiet_def\<close>)
    then have "later cfg b u (snd (run_training_step ops cfg' s))"
      unfolding moves_def run_training_step_def abind_def [of "call _ _"] abind_def [of "gets _"] c Inr lp
      by (simp add: gets_def)
    with su show ?thesis by (rule later.follow)
  qed
qed

lemma moves_after:
  assumes "later cfg b s (snd (m s))" "\<And>a. moves (later cfg b) (f a)"
  shows "later cfg b s (snd (abind m f s))"
proof (cases "m s")
  case (Pair r t)
  with assms show ?thesis by (cases r) (auto simp: abind_def moves_def intro: later.follow)
qed

lemma later_burst_step:
  assumes "\<not> past_stop cfg (co_train_step s)"
  shows "later cfg b s (snd (burst_step ops cfg' o1 s))"
  unfolding burst_step_def
  by (rule moves_after, rule later_run_training_step [OF assms])
    (intro later.moves_rules later_intros later_say later_modify; simp add: quiet_def)

lemma later_burst [later_intros]: "moves (later cfg b) (burst ops cfg n o1)"
proof (induction n arbitrary: o1)
  case 0
  then show ?case by (simp add: later.moves_ret)
next
  case (Suc n)
  have "later cfg b s (snd (if past_stop cfg (co_train_step s) then ret o1 s
      else abind (burst_step ops cfg o1) (burst ops cfg n) s))" for s
    using Suc.IH by (auto simp: ret_def later.stay intro!: moves_after later_burst_step)
  then have "moves (later cfg b) (abind (gets co_train_step) (\<lambda>t. if past_stop cfg t then ret o1
      else abind (burst_step ops cfg o1) (burst ops cfg n)))"
    by (simp add: moves_def abind_def [of "gets _"] gets_def if_distrib [of "\<lambda>m. m _"])
  from later.moves_abind [OF later_beat this] show ?case unfolding burst.simps .
qed

lemma later_training_burst [later_intros]: "moves (later cfg b) (training_burst ops cfg n d)"
  unfolding training_burst_def
  by (intro later.moves_rules later_intros later_modify) simp_all

lemma later_working_step: "moves (later cfg b) (working_step ops cfg d)"
  unfolding working_step_def
  by (intro later.moves_rules later_intros later_modify) simp_all

section \<open>The save legs\<close>

lemma later_latch: "(\<And>s. co_trace (f s) = co_trace s) \<Longrightarrow> (\<And>s. co_shutdown (f s) = co_shutdown s) \<Longrightarrow> moves (later cfg False) (modify f)"
  unfolding moves_def modify_def later_def
  by (auto simp: shutdown_grows_refl abort_inv_def saves_def)

lemma later_stop_running [later_intros]: "moves (later cfg b) stop_running"
  unfolding stop_running_def by (rule later.moves_modify, rule later_stopped) (auto simp: shutdown_grows_def)

lemma later_save [later_intros]: "moves (later cfg False) (save_checkpoint ops)"
  unfolding save_checkpoint_def by (intro later.moves_rules later_intros later_say) (simp add: quiet_def)

lemma later_clean_stop [later_intros]: "moves (later cfg False) (clean_stop_save ops cfg')"
  unfolding clean_stop_save_def
  by (intro later.moves_rules later_intros later_latch later_gets_say) (simp_all add: quiet_def)

lemma later_shutdown_leg [later_intros]: "moves (later cfg False) (shutdown_save_leg ops cfg')"
  unfolding shutdown_save_leg_def by (intro later.moves_rules later_intros later_latch) simp_all

lemma later_step: "moves (later cfg False) (coord_step ops cfg)"
  unfolding coord_step_def by (intro later.moves_rules later_intros later_working_step)

lemma later_final_save: "moves (later cfg False) (final_save ops cfg' loss)"
  unfolding final_save_def by (intro later.moves_rules later_intros later_say) (simp_all add: quiet_def)

lemma drive_cases:
  assumes run: "drive ops cfg m n s = Some y"
    and stop: "\<And>n s. Q n s (Inr (), s)"
    and fails: "\<And>n s e t. sh_running (co_shutdown s) \<Longrightarrow> coord_step ops cfg s = (Inl e, t) \<Longrightarrow> Q n s (Inl e, t)"
    and asked: "\<And>n s oc t. sh_running (co_shutdown s) \<Longrightarrow> coord_step ops cfg s = (Inr oc, t) \<Longrightarrow> sh_save (co_shutdown t) \<Longrightarrow> Q n s (Inr (), t)"
    and goes: "\<And>n s oc t y. sh_running (co_shutdown s) \<Longrightarrow> coord_step ops cfg s = (Inr oc, t) \<Longrightarrow> \<not> sh_save (co_shutdown t) \<Longrightarrow> Q (Suc n) t y \<Longrightarrow> Q n s y"
  shows "Q n s y"
proof -
  have "ops = ops \<and> cfg = cfg \<and> m = m \<longrightarrow> Q n s y"
  proof (rule drive.raw_induct [where P = "\<lambda>ops' cfg' m' n s y. ops' = ops \<and> cfg' = cfg \<and> m' = m \<longrightarrow> Q n s y", OF _ run], intro impI, elim conjE)
    fix f ops' cfg' m' n s y
    assume ih: "\<And>ops' cfg' m' n s y. f ops' cfg' m' n s = Some y \<Longrightarrow> ops' = ops \<and> cfg' = cfg \<and> m' = m \<longrightarrow> Q n s y"
      and body: "(if \<not> sh_running (co_shutdown s) \<or> (case m' of None \<Rightarrow> False | Some m \<Rightarrow> m \<le> n) then Some (Inr (), s)
        else case coord_step ops' cfg' s of (Inl e, t) \<Rightarrow> Some (Inl e, t)
          | (Inr x, t) \<Rightarrow> if sh_save (co_shutdown t) then Some (Inr (), t) else f ops' cfg' m' (Suc n) t) = Some y"
      and eq: "ops' = ops" "cfg' = cfg" "m' = m"
    obtain r t where st: "coord_step ops cfg s = (r, t)" by fastforce
    show "Q n s y"
    proof (cases "\<not> sh_running (co_shutdown s) \<or> (case m of None \<Rightarrow> False | Some m \<Rightarrow> m \<le> n)")
      case True
      with body eq stop show ?thesis by auto
    next
      case False
      with body eq st ih [of ops cfg m "Suc n" t y] fails asked goes show ?thesis
        by (cases r) (auto split: if_splits)
    qed
  qed
  then show ?thesis by simp
qed

lemma drive_later: "drive ops cfg m n s = Some y \<Longrightarrow> later cfg False s (snd y)"
proof (erule drive_cases)
  fix n oc y and s t :: "'a coord"
  assume "coord_step ops cfg s = (Inr oc, t)" "later cfg False t (snd y)"
  then show "later cfg False s (snd y)" using moves_run [OF later_step] later.follow by blast
qed (auto simp: later.stay dest: moves_run [OF later_step])

lemma loop_later: "run_training_loop ops cfg m loss s = Some (r, t) \<Longrightarrow> later cfg False s t"
proof (cases "sh_save (co_shutdown s)")
  case True
  then show "run_training_loop ops cfg m loss s = Some (r, t) \<Longrightarrow> ?thesis"
    by (auto simp: run_training_loop_def dest: moves_run [OF later_final_save])
next
  case False
  assume run: "run_training_loop ops cfg m loss s = Some (r, t)"
  with False obtain q u where d: "drive ops cfg m 0 s = Some (q, u)"
    and t: "(r, t) = (case q of Inl e \<Rightarrow> (Inl e, u)
        | Inr _ \<Rightarrow> if sh_save (co_shutdown u) \<and> \<not> co_final_save_done u then final_save ops cfg loss u else (Inr (), u))"
    by (auto simp: run_training_loop_def bind_eq_Some_conv)
  have "later cfg False s u" using drive_later [OF d] by simp
  moreover have "later cfg False u t"
  proof (cases q)
    case (Inl e)
    with t show ?thesis by (simp add: later.stay)
  next
    case (Inr x)
    with t show ?thesis using moves_run [OF later_final_save [of cfg], of ops cfg loss u r t]
      by (cases "sh_save (co_shutdown u) \<and> \<not> co_final_save_done u") (auto simp: later.stay)
  qed
  ultimately show ?thesis by (rule later.follow)
qed

section \<open>One final save\<close>

definition saved_inv :: "nat \<Rightarrow> 'w coord \<Rightarrow> bool" where
  "saved_inv k s \<longleftrightarrow> saves (co_trace s) = k + (if co_final_save_done s then 1 else 0) \<and>
     (co_final_save_done s \<longrightarrow> \<not> sh_running (co_shutdown s)) \<and>
     (co_clean_stop_saved s \<longrightarrow> co_final_save_done s) \<and> (co_final_save_done s \<longrightarrow> co_clean_stop_saved s \<or> sh_save (co_shutdown s))"

lemma later_quiet:
  assumes "later cfg True s t"
  shows "saves (co_trace t) = saves (co_trace s)" "co_final_save_done t = co_final_save_done s"
    "co_clean_stop_saved t = co_clean_stop_saved s"
proof -
  obtain tr where "co_trace t = co_trace s @ tr" "saves tr = 0" using assms unfolding later_def by blast
  then show "saves (co_trace t) = saves (co_trace s)" by simp
qed (use assms in \<open>simp_all add: later_def\<close>)

lemma later_saved_inv:
  assumes l: "later cfg True s t" and inv: "saved_inv k s" shows "saved_inv k t"
proof -
  have "sh_running (co_shutdown t) \<Longrightarrow> sh_running (co_shutdown s)" "sh_save (co_shutdown s) \<Longrightarrow> sh_save (co_shutdown t)"
    using l by (simp_all add: later_def shutdown_grows_def)
  with inv show ?thesis unfolding saved_inv_def later_quiet [OF l] by blast
qed

lemma later_grows: "later cfg b s t \<Longrightarrow> shutdown_grows (co_shutdown s) (co_shutdown t)"
  by (simp add: later_def)

lemma save_counts:
  assumes "save_checkpoint ops s = (Inr p, t)"
  shows "saves (co_trace t) = Suc (saves (co_trace s)) \<and> co_final_save_done t = co_final_save_done s \<and>
    co_clean_stop_saved t = co_clean_stop_saved s"
proof -
  from assms obtain l u where l: "gets (\<lambda>s. falsy_to_None (co_last_loss s)) s = (Inr l, s)"
    and u: "call ops (op_save ops l) s = (Inr p, u)" and t: "t = u\<lparr>co_trace := co_trace u @ [Saved p]\<rparr>"
    by (auto simp: save_checkpoint_def abind_Inr_iff gets_def say_def modify_def ret_def)
  note later_quiet [OF moves_run [OF later_call [of undefined True] u]]
  then show ?thesis by (simp add: t saves_def)
qed

lemma clean_stop_counts:
  assumes run: "abind (clean_stop_save ops cfg) (\<lambda>_. abind stop_running (\<lambda>_. ret oc)) s = (Inr oc', t)"
    and inv: "saved_inv k s" and n: "\<not> co_final_save_done s"
  shows "saved_inv k t"
proof -
  from run obtain p u where u: "save_checkpoint ops s = (Inr p, u)"
    and t: "co_trace t = co_trace u @ [CleanStopSave (co_train_step u) (cc_stop_step cfg) p]"
      "co_final_save_done t" "co_clean_stop_saved t" "\<not> sh_running (co_shutdown t)"
    by (auto simp: clean_stop_save_def abind_Inr_iff gets_def say_def modify_def ret_def stop_running_def)
  from save_counts [OF u] inv n t show ?thesis by (auto simp: saved_inv_def saves_def)
qed

lemma shutdown_leg_counts:
  assumes run: "abind (shutdown_save_leg ops cfg) (\<lambda>_. ret oc) s = (Inr oc', t)"
    and inv: "saved_inv k s" and n: "\<not> co_final_save_done s" and asked: "sh_save (co_shutdown s)"
  shows "saved_inv k t"
proof -
  from run obtain u p v q w where u: "settle_inflight_eval_for_stop ops s = (Inr (), u)"
    and v: "save_checkpoint ops u = (Inr p, v)" and w: "persist_resume_state ops cfg p v = (Inr q, w)"
    and t: "co_trace t = co_trace w" "co_final_save_done t" "co_clean_stop_saved t = co_clean_stop_saved w"
      "\<not> sh_running (co_shutdown t)" "sh_save (co_shutdown t) = sh_save (co_shutdown w)"
    by (auto simp: shutdown_save_leg_def abind_Inr_iff gets_def say_def modify_def ret_def stop_running_def)
  note su = moves_run [OF later_settle [of undefined True] u] and vw = moves_run [OF later_persist [of undefined True] w]
  have "sh_save (co_shutdown u)" using later_grows [OF su] asked by (simp add: shutdown_grows_def)
  moreover have "sh_save (co_shutdown v)" using moves_run [OF later_save v] calculation
    by (simp add: later_def shutdown_grows_def)
  ultimately have "sh_save (co_shutdown w)" using later_grows [OF vw] by (simp add: shutdown_grows_def)
  moreover have "saves (co_trace w) = Suc (saves (co_trace s)) \<and> co_clean_stop_saved w = co_clean_stop_saved s"
    using su vw save_counts [OF v] unfolding later_def by auto
  ultimately show ?thesis using t inv n by (simp add: saved_inv_def)
qed

lemma step_counts:
  assumes run: "coord_step ops cfg s = (Inr oc, t)" and inv: "saved_inv k s" and r: "sh_running (co_shutdown s)"
  shows "saved_inv k t"
proof -
  let ?pre = "\<lambda>f. abind (beat ops ''train_step'') (\<lambda>_. abind (case op_health ops of None \<Rightarrow> ret () | Some h \<Rightarrow> call ops h) (\<lambda>_.
     abind (poll_eval_results ops) f))"
  from run obtain u d where pre: "?pre ret s = (Inr d, u)"
    and rest: "(if past_stop cfg (co_train_step u) then abind (clean_stop_save ops cfg) (\<lambda>_. abind stop_running (\<lambda>_.
       ret ((base_outcome d)\<lparr>oc_checkpoint_saved := True\<rparr>)))
     else if sh_save (co_shutdown u) then abind (shutdown_save_leg ops cfg) (\<lambda>_.
       ret ((base_outcome d)\<lparr>oc_checkpoint_saved := True\<rparr>))
     else working_step ops cfg d) u = (Inr oc, t)"
    by (auto simp: coord_step_def abind_Inr_iff gets_def ret_def)
  have "moves (later cfg True) (?pre ret)" by (intro later.moves_rules later_intros)
  from moves_run [OF this pre] have su: "later cfg True s u" .
  have inv_u: "saved_inv k u" by (rule later_saved_inv [OF su inv])
  have n: "\<not> co_final_save_done u" using inv r later_quiet(2) [OF su] by (simp add: saved_inv_def)
  show ?thesis
  proof (cases "past_stop cfg (co_train_step u)")
    case True
    with rest show ?thesis using clean_stop_counts [OF _ inv_u n] by simp
  next
    case False
    show ?thesis
    proof (cases "sh_save (co_shutdown u)")
      case True
      with False rest show ?thesis using shutdown_leg_counts [OF _ inv_u n True] by simp
    next
      case saving: False
      with False rest have "working_step ops cfg d u = (Inr oc, t)" by simp
      from later_saved_inv [OF moves_run [OF later_working_step this] inv_u] show ?thesis .
    qed
  qed
qed

lemma drive_counts:
  assumes "drive ops cfg m n s = Some y"
  shows "(sh_running (co_shutdown s) \<longrightarrow> \<not> co_final_save_done s) \<Longrightarrow> saved_inv k s \<Longrightarrow> fst y = Inr () \<Longrightarrow> saved_inv k (snd y)"
  using assms
proof (rule drive_cases [where Q = "\<lambda>n s y. (sh_running (co_shutdown s) \<longrightarrow> \<not> co_final_save_done s) \<longrightarrow>
    saved_inv k s \<longrightarrow> fst y = Inr () \<longrightarrow> saved_inv k (snd y)", rule_format])
  fix n oc y and s t :: "'a coord"
  assume r: "sh_running (co_shutdown s)" and st: "coord_step ops cfg s = (Inr oc, t)" and inv: "saved_inv k s"
    and ih: "(sh_running (co_shutdown t) \<Longrightarrow> \<not> co_final_save_done t) \<Longrightarrow> saved_inv k t \<Longrightarrow> fst y = Inr () \<Longrightarrow> saved_inv k (snd y)"
    and y: "fst y = Inr ()"
  have "saved_inv k t" by (rule step_counts [OF st inv r])
  then show "saved_inv k (snd y)" using ih y by (auto simp: saved_inv_def)
qed (auto intro: step_counts)

lemma final_save_counts:
  assumes "final_save ops cfg loss s = (Inr (), t)"
  shows "saves (co_trace t) = Suc (saves (co_trace s)) \<and> (sh_save (co_shutdown s) \<longrightarrow> sh_save (co_shutdown t))"
proof -
  from assms obtain p u v q where
    u: "abind (say ShutdownSaveEvent) (\<lambda>_. abind (settle_inflight_eval_for_stop ops) (\<lambda>_. call ops (op_save ops loss))) s = (Inr p, u)"
    and v: "v = u\<lparr>co_trace := co_trace u @ [Saved p]\<rparr>"
    and w: "persist_resume_state ops cfg p v = (Inr q, t)"
    by (auto simp: final_save_def abind_Inr_iff say_def [of "Saved _"] modify_def ret_def)
  have "moves (later undefined True) (abind (say ShutdownSaveEvent) (\<lambda>_. abind (settle_inflight_eval_for_stop ops) (\<lambda>_. call ops (op_save ops loss))))"
    by (intro later.moves_rules later_intros later_say) (simp add: quiet_def)
  from moves_run [OF this u] have su: "later undefined True s u" .
  note vt = moves_run [OF later_persist [of undefined True] w]
  have "sh_save (co_shutdown s) \<Longrightarrow> sh_save (co_shutdown t)"
    using later_grows [OF su] later_grows [OF vt] by (simp add: v shutdown_grows_def)
  moreover have "saves (co_trace v) = Suc (saves (co_trace u))" by (simp add: v saves_def)
  ultimately show ?thesis using later_quiet(1) [OF su] later_quiet(1) [OF vt] by simp
qed

lemma loop_saves:
  assumes run: "run_training_loop ops cfg m loss s = Some (Inr (), t)"
    and inv: "saves (co_trace s) = k" "\<not> co_final_save_done s" "\<not> co_clean_stop_saved s"
  shows "saves (co_trace t) = k + (if sh_save (co_shutdown t) \<or> co_clean_stop_saved t then 1 else 0)"
proof (cases "sh_save (co_shutdown s)")
  case True
  with run have "final_save ops cfg loss s = (Inr (), t)" by (simp add: run_training_loop_def)
  from final_save_counts [OF this] True inv show ?thesis by simp
next
  case False
  with run obtain q u where d: "drive ops cfg m 0 s = Some (q, u)"
    and t: "(Inr (), t) = (case q of Inl e \<Rightarrow> (Inl e, u)
        | Inr _ \<Rightarrow> if sh_save (co_shutdown u) \<and> \<not> co_final_save_done u then final_save ops cfg loss u else (Inr (), u))"
    by (auto simp: run_training_loop_def bind_eq_Some_conv)
  have q: "q = Inr ()" using t by (cases q) auto
  have i: "saved_inv k s" using inv by (simp add: saved_inv_def)
  have j: "saved_inv k u" using drive_counts [OF d _ i] inv(2) q by simp
  show ?thesis
  proof (cases "sh_save (co_shutdown u) \<and> \<not> co_final_save_done u")
    case True
    with t q have "final_save ops cfg loss u = (Inr (), t)" by simp
    from final_save_counts [OF this] True j show ?thesis by (simp add: saved_inv_def)
  next
    case False
    with t q have "t = u" by simp
    with False j show ?thesis by (auto simp: saved_inv_def)
  qed
qed

section \<open>A coordinator to run\<close>

definition demo_loss :: loss_info where
  "demo_loss = [(''loss'', Some (Fin 1)), (''policy_loss'', Some (Fin 1)), (''value_loss'', Some (Fin 1)), (''grad_norm'', Some NaN)]"

text \<open>A world that counts the training steps asked of it and whose stop signal arrives at the given count.\<close>

definition demo_ops :: "nat option \<Rightarrow> int \<Rightarrow> nat coord_ops" where
  "demo_ops signal_at t = \<lparr>op_signalled = (\<lambda>w. signal_at = Some w), op_heartbeat = None, op_health = None, op_games = ret 5,
     op_buffer_size = ret 10, op_now = ret 1, op_sleep = (\<lambda>_. ret ()), op_train = (\<lambda>w. (Inr (demo_loss, None), Suc w)),
     op_trainer_step = ret t, op_trainer_counters = (\<lambda>_. []), op_restore_counter = (\<lambda>_ _ w. w),
     op_save = (\<lambda>_. ret (Some ''x.ckpt'')), op_snapshot = (\<lambda>w. (Done (), w)), op_sync = None, op_ply_counts = None,
     op_draw_counts = Some (ret (9, 10)), op_runner_stats = ret \<lparr>rs_counters = [], rs_tactics = []\<rparr>,
     op_recent_games = ret [], op_watchdog_counters = (\<lambda>_. None), op_heldout_read = ret (Fin 0, Fin 0),
     op_disk_critical = ret False, op_anchor_sha = ret None, op_rng = ret [], op_publish = (\<lambda>_ _. ret ()),
     op_avg_game_length = (\<lambda>_. None), op_disarm = None, op_pipeline = None\<rparr>"

definition demo_cfg :: coord_cfg where
  "demo_cfg = \<lparr>cc_eval_interval = 0, cc_log_interval = 0, cc_gate_interval = 50, cc_min_buf_size = 1, cc_capacity = 10,
     cc_steps_per_game = 1, cc_fill_ramp = False, cc_max_burst = 3, cc_stop_step = None,
     cc_draw_abort = Some \<lparr>ds_threshold = 1 / 2, ds_min_step = 0, ds_N_pool_min = 1, ds_consec = 3\<rparr>, cc_ply_abort = None,
     cc_terminal_eval = False, cc_stall_timeout = Fin 0,
     cc_monitor = \<lparr>mc_entropy_min = 0, mc_collapse_nats = 0, mc_grad_norm_max = 0, mc_loss_window = 3, mc_axis_warn = 1, mc_axis_alert = 1\<rparr>,
     cc_heldout_interval = None, cc_run_id = ''run''\<rparr>"

definition demo_coord :: "nat coord" where
  "demo_coord = \<lparr>co_world = 0, co_shutdown = shutdown_init, co_train_step = 99, co_games_played = 0, co_last_train_games = 0,
     co_carry = 0, co_last_warmup_log = 0, co_last_loss = None, co_initial_policy_loss = None, co_eval_round_last_step = - 1,
     co_draw_history = [], co_warn = \<lparr>ws_window = [], ws_skips = no_skips, ws_events = []\<rparr>, co_ply_cap_rate = None,
     co_last_iter_games = 0, co_last_counters = [], co_terminal_reason = None,
     co_gates = map (\<lambda>n. (n, \<lparr>gs_checks = 0, gs_fires = 0, gs_skips = 0, gs_warns = 0\<rparr>)) GATE_NAMES,
     co_heldout_sums = (Fin 0, Fin 0, 0), co_clean_stop_saved = False, co_final_save_done = False, co_wd_games = 0,
     co_wd_progress = 0, co_wd_counters = [], co_boot_step = 99, co_run_started = 0, co_trace = []\<rparr>"

lemma demo_budget: "steps_budget 5 1 3 0 None = (3, 0)"
proof -
  have "round9 5 = 5" by (simp add: round9_def round_half_even_def)
  then show ?thesis by (simp add: steps_budget_def budget_ratio_def Let_def)
qed

lemmas run_defs = coord_step_def working_step_def training_burst_def burst_step_def run_training_step_def note_losses_def
  stall_tick_def run_ply_cap_gate_def run_log_interval_def run_gate_interval_def run_hard_abort_gates_def run_heldout_gap_def
  maybe_kick_eval_def emit_iteration_complete_def buffer_fill_def beat_def poll_eval_results_def sample_def bump_gate_def
  fire_hard_abort_def emit_monitor_gates_def call_def deliver_def say_def act_defs base_outcome_def

lemma round1_of_int [simp]: "round1 (of_int i) = of_int i"
proof -
  have "round_half_even (of_int (i * 10)) = i * 10" by (rule round_half_even_of_int)
  then show ?thesis by (simp add: round1_def)
qed

lemma demo_step:
  "\<exists>t oc. coord_step (demo_ops None 100) demo_cfg demo_coord = (Inr oc, t) \<and>
     co_shutdown t = shutdown_init\<lparr>sh_running := False, sh_abort := Some ''draw_rate_collapse''\<rparr> \<and> \<not> co_clean_stop_saved t \<and>
     HardAbort ''draw_rate_collapse'' 100 \<in> set (co_trace t) \<and>
     filter (\<lambda>e. case e of Trained _ \<Rightarrow> True | _ \<Rightarrow> False) (co_trace t) = [Trained 99, Trained 100, Trained 100]"
  by (simp add: numeral_3_eq_3 run_defs demo_ops_def demo_cfg_def demo_coord_def past_stop_def pooled_draw_rate_def trim_ring_def
      last_n_def check_draw_rate_collapse_def demo_loss_def float_at_def shutdown_init_def record_abort_def demo_budget
      target_integrity_report_def lift_counters_def snapshot_counter_def TARGET_INTEGRITY_COUNTERS_def
      SEARCH_LEVER_COUNTERS_def count_one_def steps_per_hour_def games_per_hour_def)

section \<open>Properties of a run\<close>

text \<open>C6: A run aborts at most once and says so: however the pool, the trainer, the clock and the signals
  behave, the trace of a training loop holds exactly one \<open>hard_abort\<close> when an abort rule is recorded -
  of that rule - and none otherwise, a recorded abort has stopped the run, and no training step was
  started at or past the configured stop step.\<close>

theorem one_abort_per_run:
  assumes "run_training_loop ops cfg max_steps loss s = Some (r, t)" "co_trace s = []" "sh_abort (co_shutdown s) = None"
  shows "aborts (co_trace t) = (case sh_abort (co_shutdown t) of None \<Rightarrow> [] | Some rule \<Rightarrow> [rule]) \<and>
    (sh_abort (co_shutdown t) \<noteq> None \<longrightarrow> \<not> sh_running (co_shutdown t)) \<and>
    (\<forall>step. Trained step \<in> set (co_trace t) \<longrightarrow> \<not> past_stop cfg step)"
proof -
  have l: "later cfg False s t" by (rule loop_later [OF assms(1)])
  have "abort_inv s" using assms(2,3) by (simp add: abort_inv_def aborts_def map_filter_def)
  then have "abort_inv t" using l by (simp add: later_def)
  moreover have "\<not> list_ex (trains_late cfg) (co_trace t)" using l assms(2) by (auto simp: later_def)
  ultimately show ?thesis by (auto simp: abort_inv_def list_ex_iff)
qed

lemma demo_loop_run:
  "\<exists>t. run_training_loop (demo_ops None 100) demo_cfg None None demo_coord = Some (Inr (), t) \<and>
     sh_abort (co_shutdown t) = Some ''draw_rate_collapse'' \<and> \<not> sh_save (co_shutdown t) \<and> \<not> co_clean_stop_saved t \<and>
     HardAbort ''draw_rate_collapse'' 100 \<in> set (co_trace t) \<and>
     filter (\<lambda>e. case e of Trained _ \<Rightarrow> True | _ \<Rightarrow> False) (co_trace t) = [Trained 99, Trained 100, Trained 100]"
proof -
  obtain t oc where t: "coord_step (demo_ops None 100) demo_cfg demo_coord = (Inr oc, t)"
     "co_shutdown t = shutdown_init\<lparr>sh_running := False, sh_abort := Some ''draw_rate_collapse''\<rparr>" "\<not> co_clean_stop_saved t"
     "HardAbort ''draw_rate_collapse'' 100 \<in> set (co_trace t)"
     "filter (\<lambda>e. case e of Trained _ \<Rightarrow> True | _ \<Rightarrow> False) (co_trace t) = [Trained 99, Trained 100, Trained 100]"
    using demo_step by blast
  have start: "sh_running (co_shutdown demo_coord)" "\<not> sh_save (co_shutdown demo_coord)"
    by (simp_all add: demo_coord_def shutdown_init_def)
  have stopped: "\<not> sh_running (co_shutdown t)" "\<not> sh_save (co_shutdown t)" by (simp_all add: t(2) shutdown_init_def)
  have "drive (demo_ops None 100) demo_cfg None 0 demo_coord = Some (Inr (), t)"
    using start stopped by (subst drive.simps) (simp add: t(1) drive.simps [of _ _ _ _ t])
  then show ?thesis using start stopped t by (simp add: run_training_loop_def)
qed

theorem one_abort_per_run_witness:
  "\<exists>t. run_training_loop (demo_ops None 100) demo_cfg None None demo_coord = Some (Inr (), t) \<and>
     aborts (co_trace t) = [''draw_rate_collapse'']"
proof -
  obtain t where t: "run_training_loop (demo_ops None 100) demo_cfg None None demo_coord = Some (Inr (), t)"
    "sh_abort (co_shutdown t) = Some ''draw_rate_collapse''" using demo_loop_run by blast
  have "co_trace demo_coord = []" "sh_abort (co_shutdown demo_coord) = None" by (simp_all add: demo_coord_def shutdown_init_def)
  from one_abort_per_run [OF t(1) this] t show ?thesis by simp
qed



text \<open>A refused training step (a non-finite gradient leaves the trainer's step where it is) runs the
  draw-rate gate again at the same step: with a gate interval of 50 steps and three consecutive
  observations required, a run aborts after training steps 99, 100 and 100, all observed at step 100.\<close>

theorem refused_steps_are_observations:
  "\<exists>t. run_training_loop (demo_ops None 100) demo_cfg None None demo_coord = Some (Inr (), t) \<and>
     cc_gate_interval demo_cfg = 50 \<and> map_option ds_consec (cc_draw_abort demo_cfg) = Some 3 \<and>
     HardAbort ''draw_rate_collapse'' 100 \<in> set (co_trace t) \<and>
     filter (\<lambda>e. case e of Trained _ \<Rightarrow> True | _ \<Rightarrow> False) (co_trace t) = [Trained 99, Trained 100, Trained 100]"
proof -
  have "cc_gate_interval demo_cfg = 50" "map_option ds_consec (cc_draw_abort demo_cfg) = Some 3"
    by (simp_all add: demo_cfg_def)
  with demo_loop_run show ?thesis by blast
qed

text \<open>A clock that has not advanced makes the iteration payload raise: \<open>float(None)\<close>.\<close>

lemma stopped_clock_raises:
  assumes "\<And>w. op_now ops w = (Inr (co_run_started s), w)" "\<And>w. op_runner_stats ops w = (Inr \<lparr>rs_counters = [], rs_tactics = []\<rparr>, w)"
  shows "fst (emit_iteration_complete ops s) = Inl TypeError"
proof -
  have d: "co_run_started (deliver ops u) = co_run_started u" for u by (simp add: deliver_def split: option.split)
  show ?thesis
    by (simp add: emit_iteration_complete_def act_defs call_def assms lift_counters_def target_integrity_report_def
        snapshot_counter_def TARGET_INTEGRITY_COUNTERS_def SEARCH_LEVER_COUNTERS_def count_one_def steps_per_hour_def d)
qed

end
