(* ===== verification/Coordinator_Duties.thy ===== *)
theory Coordinator_Duties
  imports Coordinator_Laws
begin

text \<open>
  What the coordinator's single duties come to: the trimmed draw-rate ring decides like the whole history
  of observations, every eval round is kicked once, the epilogue runs in its order, and the guards a stop
  saves are the guards a resume restores.
\<close>

section \<open>The draw-rate ring\<close>

lemma check_on_tail:
  "check_draw_rate_collapse (last_n c h) step th c m = check_draw_rate_collapse h step th c m"
  by (auto simp: check_draw_rate_collapse_def last_n_last_n)

lemma fire_fields:
  "fst (fire_hard_abort g message s) = Inr (message \<and> sh_running (co_shutdown s))"
  "co_draw_history (snd (fire_hard_abort g message s)) = co_draw_history s"
  by (simp_all add: fire_hard_abort_def act_defs say_def bump_gate_def)

text \<open>C37: The ring the draw-rate gate trims to \<open>consec\<close> entries refines the full history of observations: a
  gate run whose ring is the tail of a history ends with the tail of the history extended by this run's
  observation (none below the evidence bar), and fires exactly when the rule fires on that whole history
  and the run has not been stopped.\<close>

theorem ring_refines_history:
  assumes cfg: "cc_draw_abort cfg = Some spec" "0 < ds_consec spec" "op_draw_counts ops = Some counts"
    and ring: "co_draw_history s = last_n (ds_consec spec) full"
    and obs: "call ops counts s' = (Inr (draws, completed), u)"
      "s' = s\<lparr>co_gates := AList.map_entry (gate_name DrawRateCollapse) checks_bump (co_gates s)\<rparr>"
    and bar: "0 < ds_N_pool_min spec"
  shows "\<exists>b t. run_hard_abort_gates ops cfg s = (Inr b, t) \<and>
    (let full' = full @ (if completed < ds_N_pool_min spec then [] else [Fin (of_int draws / of_int completed)]) in
       co_draw_history t = last_n (ds_consec spec) full' \<and>
       (b \<longleftrightarrow> ds_N_pool_min spec \<le> completed \<and> sh_running (co_shutdown u) \<and>
          check_draw_rate_collapse full' (co_train_step s) (ds_threshold spec) (ds_consec spec) (ds_min_step spec)))"
proof -
  have u: "co_draw_history u = last_n (ds_consec spec) full" "co_train_step u = co_train_step s"
    using call_fields [of ops counts s'] obs ring by simp_all
  let ?s = "sample (Some (abind (call ops counts) (\<lambda>c. lift (pooled_draw_rate c (ds_N_pool_min spec))))) s"
  show ?thesis
  proof (cases "completed < ds_N_pool_min spec")
    case True
    then have "?s = (Inr False, snd (bump_gate DrawRateCollapse skips_bump u))"
      using obs by (simp add: sample_def act_defs bump_gate_def pooled_draw_rate_def)
    then have "run_hard_abort_gates ops cfg s = (Inr False, snd (bump_gate DrawRateCollapse skips_bump u))"
      by (simp add: run_hard_abort_gates_def cfg abind_def ret_def)
    with True u show ?thesis by (intro exI conjI) (auto simp: bump_gate_def modify_def)
  next
    case False
    let ?x = "Fin (of_int draws / of_int completed)"
    let ?v = "u\<lparr>co_draw_history := trim_ring (ds_consec spec) (co_draw_history u @ [?x])\<rparr>"
    have "?s = (Inr True, u\<lparr>co_draw_history := co_draw_history u @ [?x]\<rparr>)"
      using False obs bar by (simp add: sample_def act_defs bump_gate_def pooled_draw_rate_def)
    then have run: "run_hard_abort_gates ops cfg s =
        fire_hard_abort DrawRateCollapse (check_draw_rate_collapse (co_draw_history ?v) (co_train_step u)
          (ds_threshold spec) (ds_consec spec) (ds_min_step spec)) ?v"
      by (simp add: run_hard_abort_gates_def cfg act_defs)
    have tail: "trim_ring (ds_consec spec) (last_n (ds_consec spec) full @ [?x]) = last_n (ds_consec spec) (full @ [?x])"
      using cfg(2) by (simp add: trim_ring_def last_n_snoc last_n_last_n)
    have "fst (run_hard_abort_gates ops cfg s) = Inr (check_draw_rate_collapse (full @ [?x]) (co_train_step s)
          (ds_threshold spec) (ds_consec spec) (ds_min_step spec) \<and> sh_running (co_shutdown u))"
      "co_draw_history (snd (run_hard_abort_gates ops cfg s)) = last_n (ds_consec spec) (full @ [?x])"
      unfolding run fire_fields by (simp_all add: u tail check_on_tail)
    then show ?thesis using False by (intro exI conjI prod_eqI) (auto simp: Let_def)
  qed
qed

theorem ring_refines_history_witness:
  "\<exists>b t. run_hard_abort_gates (demo_ops None 100) demo_cfg (demo_coord\<lparr>co_draw_history := [Fin 0, Fin 1, Fin 1]\<rparr>) = (Inr b, t) \<and>
     co_draw_history t = [Fin 1, Fin 1, Fin (9 / 10)] \<and> b"
proof -
  let ?full = "[Fin 1, Fin 0, Fin 1, Fin 1]" and ?s = "demo_coord\<lparr>co_draw_history := [Fin 0, Fin 1, Fin 1]\<rparr>"
  let ?spec = "\<lparr>ds_threshold = 1 / 2, ds_min_step = 0, ds_N_pool_min = 1, ds_consec = 3\<rparr>"
  let ?s' = "?s\<lparr>co_gates := AList.map_entry (gate_name DrawRateCollapse) checks_bump (co_gates ?s)\<rparr>"
  have h: "cc_draw_abort demo_cfg = Some ?spec" "0 < ds_consec ?spec" "op_draw_counts (demo_ops None 100) = Some (ret (9, 10))"
    "co_draw_history ?s = last_n (ds_consec ?spec) ?full" "0 < ds_N_pool_min ?spec"
    by (simp_all add: demo_cfg_def demo_ops_def last_n_def)
  have c: "call (demo_ops None 100) (ret (9, 10)) ?s' = (Inr (9, 10), ?s')"
    by (simp add: call_def ret_def deliver_def demo_ops_def)
  from ring_refines_history [OF h(1,2,3,4) c refl h(5)] show ?thesis
    by (simp add: last_n_def check_draw_rate_collapse_def demo_coord_def shutdown_init_def)
qed

section \<open>Eval kicks\<close>

fun kick_steps :: "int \<Rightarrow> int \<Rightarrow> int list \<Rightarrow> int list" where
  "kick_steps interval last_step [] = []"
| "kick_steps interval last_step (t # ts) =
     (if kick_due interval last_step t then t # kick_steps interval t ts else kick_steps interval last_step ts)"

text \<open>The coordinator asked at each of the given training steps.\<close>

fun kick_run :: "'w coord_ops \<Rightarrow> coord_cfg \<Rightarrow> int list \<Rightarrow> 'w coord \<Rightarrow> 'w coord" where
  "kick_run ops cfg [] s = s"
| "kick_run ops cfg (t # ts) s = kick_run ops cfg ts (snd (maybe_kick_eval ops cfg (s\<lparr>co_train_step := t\<rparr>)))"

fun kicked_at :: "cev \<Rightarrow> int option" where
  "kicked_at (EvalKicked t) = Some t"
| "kicked_at _ = None"

definition kicks :: "cev list \<Rightarrow> int list" where
  "kicks tr = List.map_filter kicked_at tr"

lemma call_kick_fields:
  "co_trace (snd (call ops m s)) = co_trace s" "co_eval_round_last_step (snd (call ops m s)) = co_eval_round_last_step s"
  by (simp_all add: call_def deliver_def split: prod.split option.split)

lemma maybe_kick_effect:
  assumes "op_pipeline ops = Some p" "0 < cc_eval_interval cfg" "snd (maybe_kick_eval ops cfg s) = u"
  shows "if kick_due (cc_eval_interval cfg) (co_eval_round_last_step s) (co_train_step s)
    then co_trace u = co_trace s @ [EvalKicked (co_train_step s)] \<and> co_eval_round_last_step u = co_train_step s
    else u = s"
proof (cases "kick_due (cc_eval_interval cfg) (co_eval_round_last_step s) (co_train_step s)")
  case True
  let ?s = "s\<lparr>co_eval_round_last_step := co_train_step s, co_trace := co_trace s @ [EvalKicked (co_train_step s)]\<rparr>"
  obtain r v where c: "call ops (po_run p (co_train_step s) False) ?s = (r, v)" by fastforce
  have "u = v" using assms(2,3) True
    by (cases r) (auto simp: maybe_kick_eval_def assms(1) act_defs say_def c split: sum.split)
  with call_kick_fields [of ops "po_run p (co_train_step s) False" ?s] c True show ?thesis by simp
next
  case False
  with assms show ?thesis by (simp add: maybe_kick_eval_def act_defs)
qed

lemma kick_run_steps:
  assumes "op_pipeline ops = Some p" "0 < cc_eval_interval cfg"
  shows "kicks (co_trace (kick_run ops cfg ts s)) =
    kicks (co_trace s) @ kick_steps (cc_eval_interval cfg) (co_eval_round_last_step s) ts"
proof (induction ts arbitrary: s)
  case (Cons t ts)
  note e = maybe_kick_effect [OF assms refl, of "s\<lparr>co_train_step := t\<rparr>"]
  show ?case
  proof (cases "kick_due (cc_eval_interval cfg) (co_eval_round_last_step s) t")
    case True
    with e Cons show ?thesis by (simp add: kicks_def map_filter_def)
  next
    case False
    with e Cons show ?thesis by simp
  qed
qed simp

definition round_of :: "int \<Rightarrow> int \<Rightarrow> int" where
  "round_of interval t = (if t < 0 then - 1 else t div interval)"

lemma kick_due_iff: "0 < i \<Longrightarrow> 0 \<le> t \<Longrightarrow> kick_due i l t \<longleftrightarrow> 0 < round_of i t \<and> round_of i l < round_of i t"
  by (auto simp: kick_due_def round_of_def Let_def)

lemma kick_steps_rounds:
  assumes "0 < i" "sorted ts" "\<forall>t \<in> set ts. 0 \<le> t \<and> l \<le> t"
  shows "distinct (map (round_of i) (kick_steps i l ts)) \<and>
    round_of i ` set (kick_steps i l ts) = {k \<in> round_of i ` set ts. 0 < k \<and> round_of i l < k}"
  using assms(2,3)
proof (induction ts arbitrary: l)
  case (Cons t ts)
  have t: "0 \<le> t" "sorted ts" "\<forall>x \<in> set ts. 0 \<le> x \<and> t \<le> x \<and> l \<le> x" using Cons.prems by auto
  have mono: "round_of i t \<le> round_of i x" if "x \<in> set ts" for x
    using t that assms(1) by (auto simp: round_of_def zdiv_mono1)
  show ?case
  proof (cases "kick_due i l t")
    case True
    then have d: "0 < round_of i t" "round_of i l < round_of i t" using kick_due_iff [OF assms(1) t(1)] by auto
    have "distinct (map (round_of i) (kick_steps i t ts))"
      "round_of i ` set (kick_steps i t ts) = {k \<in> round_of i ` set ts. 0 < k \<and> round_of i t < k}"
      using Cons.IH [of t] t by auto
    moreover have "round_of i t < round_of i x" if "x \<in> set ts" "round_of i x \<noteq> round_of i t" for x
      using mono [OF that(1)] that(2) by simp
    ultimately show ?thesis using True d by (auto dest: order_less_trans)
  next
    case False
    then have d: "round_of i t \<le> 0 \<or> round_of i t \<le> round_of i l" using kick_due_iff [OF assms(1) t(1)] by auto
    have "distinct (map (round_of i) (kick_steps i l ts))"
      "round_of i ` set (kick_steps i l ts) = {k \<in> round_of i ` set ts. 0 < k \<and> round_of i l < k}"
      using Cons.IH [of l] t by auto
    with False d show ?thesis by auto
  qed
qed simp

text \<open>Every eval round is kicked exactly once: asked after each training step of a run - steps that
  repeat (refused updates) or jump included - starting from any recorded last kick, the coordinator kicks
  for no round index twice, and for every round index after the first and past the recorded one that the
  steps reach.\<close>

theorem eval_rounds_kicked_once:
  assumes "op_pipeline ops = Some p" "0 < cc_eval_interval cfg" "sorted ts"
    and "\<forall>t \<in> set ts. 0 \<le> t \<and> co_eval_round_last_step s \<le> t" "co_trace s = []"
  shows "distinct (map (round_of (cc_eval_interval cfg)) (kicks (co_trace (kick_run ops cfg ts s)))) \<and>
    round_of (cc_eval_interval cfg) ` set (kicks (co_trace (kick_run ops cfg ts s))) =
      {k \<in> round_of (cc_eval_interval cfg) ` set ts. 0 < k \<and> round_of (cc_eval_interval cfg) (co_eval_round_last_step s) < k}"
  using kick_steps_rounds [OF assms(2,3,4)] kick_run_steps [OF assms(1,2), of ts s] assms(5)
  by (simp add: kicks_def map_filter_def)

definition eval_ops :: "nat coord_ops" where
  "eval_ops = (demo_ops None 100)\<lparr>op_pipeline := Some \<lparr>po_poll = ret JNull, po_drain = None, po_abandon = None,
     po_run = (\<lambda>_ _. ret (JObj [(''kicked'', JBool True)])), po_apply = None, po_round_counter = ret 0\<rparr>\<rparr>"

theorem eval_rounds_kicked_once_witness:
  "round_of 10 ` set (kicks (co_trace (kick_run eval_ops (demo_cfg\<lparr>cc_eval_interval := 10\<rparr>) [8, 9, 10, 10, 11, 23] demo_coord))) = {1, 2}"
proof -
  let ?cfg = "demo_cfg\<lparr>cc_eval_interval := 10\<rparr>" and ?ts = "[8, 9, 10, 10, 11, 23] :: int list"
  obtain p where "op_pipeline eval_ops = Some p" by (simp add: eval_ops_def)
  moreover have "0 < cc_eval_interval ?cfg" "sorted ?ts" "co_trace demo_coord = []"
    "\<forall>t \<in> set ?ts. 0 \<le> t \<and> co_eval_round_last_step demo_coord \<le> t" by (simp_all add: demo_coord_def)
  ultimately have "round_of 10 ` set (kicks (co_trace (kick_run eval_ops ?cfg ?ts demo_coord))) =
      {k \<in> round_of 10 ` set ?ts. 0 < k \<and> round_of 10 (co_eval_round_last_step demo_coord) < k}"
    using eval_rounds_kicked_once [of eval_ops p ?cfg ?ts demo_coord] by simp
  also have "\<dots> = {1, 2}" by (auto simp: round_of_def demo_coord_def)
  finally show ?thesis .
qed

section \<open>The epilogue\<close>

fun is_routing :: "cev \<Rightarrow> bool" where
  "is_routing (FlushPendingEval t b) = True"
| "is_routing (Applied r) = True"
| "is_routing (PromotionUnapplied r) = True"
| "is_routing (Unroutable t) = True"
| "is_routing e = False"

definition routed :: "'w coord \<Rightarrow> 'w coord \<Rightarrow> bool" where
  "routed s t \<longleftrightarrow> (\<exists>tr. co_trace t = co_trace s @ tr \<and> list_all is_routing tr) \<and>
     co_terminal_reason t = co_terminal_reason s \<and> co_train_step t = co_train_step s"

interpretation routed: state_order routed
proof
  show "routed s s" for s :: "'w coord" unfolding routed_def by (intro conjI exI [of _ "[]"]) simp_all
next
  fix s t u :: "'w coord" assume "routed s t" "routed t u"
  then obtain x y where "co_trace t = co_trace s @ x" "list_all is_routing x" "co_trace u = co_trace t @ y" "list_all is_routing y"
    "co_terminal_reason t = co_terminal_reason s" "co_train_step t = co_train_step s"
    "co_terminal_reason u = co_terminal_reason t" "co_train_step u = co_train_step t"
    unfolding routed_def by blast
  then show "routed s u" unfolding routed_def by (intro conjI exI [of _ "x @ y"]) simp_all
qed

lemma routed_call: "moves routed (call ops m)"
  unfolding moves_def routed_def call_def deliver_def by (simp split: prod.split option.split)

lemma routed_say: "is_routing e \<Longrightarrow> moves routed (say e)"
  unfolding moves_def say_def modify_def routed_def by simp

lemma routed_gets_say_then:
  assumes q: "\<And>s. is_routing (f s)" and m: "moves routed m"
  shows "moves routed (abind (gets f) (\<lambda>e. abind (say e) (\<lambda>_. m)))"
  unfolding moves_def
proof
  fix s :: "'a coord"
  have "moves routed (abind (say (f s)) (\<lambda>_. m))" by (intro routed.moves_abind routed_say q m)
  then show "routed s (snd (abind (gets f) (\<lambda>e. abind (say e) (\<lambda>_. m)) s))"
    by (simp add: moves_def abind_def [of "gets _"] gets_def)
qed

lemma routed_unroutable: "moves routed unroutable"
  unfolding unroutable_def moves_def by (simp add: act_defs say_def routed_def)

lemma routed_promotion: "moves routed (apply_promotion ops d)"
  unfolding apply_promotion_def by (intro routed.moves_rules routed_call routed_say) simp_all

lemma routed_batch: "moves routed (route_batch ops items)"
  by (induction items) (auto intro!: routed.moves_rules routed_promotion routed_unroutable split: json.split)

lemma routed_route: "moves routed (route_eval_result ops result)"
  unfolding route_eval_result_def
  by (auto intro!: routed.moves_rules routed_promotion routed_unroutable routed_batch split: json.split)

lemma routed_flush: "moves routed (flush_pending_eval ops stop)"
proof -
  have "moves routed (abind (gets (\<lambda>s. FlushPendingEval (co_train_step s) stop)) (\<lambda>e.
         abind (say e) (\<lambda>_. abind (call ops d) (route_eval_result ops))))" for d
    by (rule routed_gets_say_then) (auto intro!: routed.moves_rules routed_call routed_route)
  then show ?thesis unfolding flush_pending_eval_def
    by (intro routed.moves_option routed.moves_ret) blast
qed

lemma route_returns: "route_eval_result ops raw s = (Inr result, t) \<Longrightarrow> result = raw"
  by (cases raw) (auto simp: route_eval_result_def abind_Inr_iff ret_def)

text \<open>The tail of the epilogue: what the terminal eval adds, and the reason it leaves.\<close>

definition terminal_tail :: "'w coord_ops \<Rightarrow> coord_cfg \<Rightarrow> bool \<Rightarrow> 'w coord \<Rightarrow> cev list \<Rightarrow> json option \<Rightarrow> bool" where
  "terminal_tail ops cfg resumable_stop s tail reason \<longleftrightarrow> (case op_pipeline ops of
     None \<Rightarrow> tail = [] \<and> reason = co_terminal_reason s
   | Some p \<Rightarrow>
       if \<not> cc_terminal_eval cfg then tail = [] \<and> reason = co_terminal_reason s
       else if resumable_stop then tail = [TerminalEvalSkipped (co_train_step s)] \<and> reason = co_terminal_reason s
       else (\<exists>routing w w' d v. tail = TerminalEval (co_train_step s) # routing \<and> list_all is_routing routing \<and>
          po_run p (co_train_step s) True w = (Inr (JObj d), w') \<and> map_of d ''eval_broken_reason'' = Some v \<and>
          reason = (case co_terminal_reason s of None \<Rightarrow> reason_of v | r \<Rightarrow> r)))"

lemma run_terminal_tail:
  assumes "run_terminal_eval ops cfg resumable_stop s = (Inr x, t)"
  shows "\<exists>tail. co_trace t = co_trace s @ tail \<and> terminal_tail ops cfg resumable_stop s tail (co_terminal_reason t)"
proof (cases "op_pipeline ops = None \<or> \<not> cc_terminal_eval cfg \<or> resumable_stop")
  case True
  with assms show ?thesis
    by (auto simp: run_terminal_eval_def terminal_tail_def act_defs say_def split: option.splits if_splits)
next
  case False
  then obtain p where p: "op_pipeline ops = Some p" by auto
  let ?s = "s\<lparr>co_trace := co_trace s @ [TerminalEval (co_train_step s)]\<rparr>"
  from assms False p obtain raw u result v where
    u: "call ops (po_run p (co_train_step s) True) ?s = (Inr raw, u)"
    and v: "route_eval_result ops raw u = (Inr result, v)"
    and rec: "record_terminal_outcome result v = (Inr (), t)"
    by (auto simp: run_terminal_eval_def abind_Inr_iff gets_def say_def modify_def ret_def)
  have "result = raw" by (rule route_returns [OF v])
  with rec obtain d y where d: "raw = JObj d" "map_of d ''eval_broken_reason'' = Some y" "t = record_terminal_eval_reason (reason_of y) v"
    by (auto simp: record_terminal_outcome_def abind_Inr_iff lift_def modify_def subscript_def split: json.splits option.splits)
  obtain w' where run: "po_run p (co_train_step s) True (co_world s) = (Inr (JObj d), w')"
    using u d(1) by (auto simp: call_def split: prod.splits)
  have "co_trace u = co_trace ?s" "co_terminal_reason u = co_terminal_reason s"
    using moves_run [OF routed_call u] call_kick_fields(1) [of ops "po_run p (co_train_step s) True" ?s] u by (simp_all add: routed_def)
  with moves_run [OF routed_route v] obtain tr where tr: "co_trace v = co_trace ?s @ tr" "list_all is_routing tr"
    "co_terminal_reason v = co_terminal_reason s" by (auto simp: routed_def)
  have "co_trace t = co_trace v" by (simp add: d(3) record_terminal_eval_reason_def)
  moreover have "co_terminal_reason t = (case co_terminal_reason s of None \<Rightarrow> reason_of y | r \<Rightarrow> r)"
    by (simp add: d(3) record_terminal_eval_reason_def tr(3) split: option.split)
  ultimately show ?thesis using tr(1,2) run d(2) False unfolding terminal_tail_def p by auto
qed

text \<open>A watchdog that cannot be disarmed stops the epilogue before its first effect.\<close>

lemma close_out_needs_disarm:
  "op_disarm ops = Some None \<Longrightarrow> close_out ops cfg on_drained resumable_stop s = (Inl TypeError, s)"
  by (simp add: close_out_def disarm_staleness_def act_defs)

lemma disarm_effect:
  "disarm_staleness ops s = (Inr (), a) \<Longrightarrow>
     co_trace a = co_trace s @ (if op_disarm ops = None then [] else [StalenessDisarmed]) \<and>
     co_train_step a = co_train_step s \<and> co_terminal_reason a = co_terminal_reason s"
  by (auto simp: disarm_staleness_def abind_Inr_iff ret_def say_def modify_def lift_def call_def deliver_def
      split: option.splits if_splits prod.splits)

lemma drained_effect:
  "(case on_drained of None \<Rightarrow> ret () | Some f \<Rightarrow> abind (say OnDrained) (\<lambda>_. call ops f)) b = (Inr (), c) \<Longrightarrow>
     co_trace c = co_trace b @ (if on_drained = None then [] else [OnDrained]) \<and>
     co_train_step c = co_train_step b \<and> co_terminal_reason c = co_terminal_reason b"
  by (auto simp: abind_Inr_iff ret_def say_def modify_def call_def deliver_def split: option.splits if_splits prod.splits)


definition closing_ops :: "nat coord_ops" where
  "closing_ops = eval_ops\<lparr>op_disarm := Some (Some (ret ())),
     op_pipeline := Some \<lparr>po_poll = ret JNull, po_drain = Some (ret (JList [JInt 1])), po_abandon = None,
       po_run = (\<lambda>_ _. ret (JObj [(''promoted'', JBool False), (''eval_broken_reason'', JStr ''killed'')])),
       po_apply = None, po_round_counter = ret 0\<rparr>\<rparr>"

lemma closing_run:
  "\<exists>t. close_out closing_ops (demo_cfg\<lparr>cc_terminal_eval := True\<rparr>) (Some (ret ())) False demo_coord = (Inr (), t)"
  by (simp add: close_out_def closing_ops_def eval_ops_def demo_ops_def demo_cfg_def demo_coord_def disarm_staleness_def
      flush_pending_eval_def run_terminal_eval_def route_eval_result_def apply_promotion_def unroutable_def
      record_terminal_outcome_def subscript_def dget_def call_def deliver_def say_def act_defs)


section \<open>The guards of a resume\<close>

lemma float_list_floats: "float_list fos (JList (map JFloat xs)) = Inr xs"
  by (induction xs) (simp_all add: float_list_def)

lemma float_or_none_option: "float_or_none fos (case x of None \<Rightarrow> JNull | Some y \<Rightarrow> JFloat y) = Inr x"
  by (cases x) (simp_all add: float_or_none_def)

lemma restore_counters_keeps:
  "list_all (\<lambda>(n, v). \<exists>i. v = JInt i) d \<Longrightarrow> \<exists>w. restore_counters ops d s = (Inr (), s\<lparr>co_world := w\<rparr>)"
proof (induction d arbitrary: s)
  case Nil
  then show ?case by (intro exI [of _ "co_world s"]) (simp add: ret_def)
next
  case (Cons nv d)
  then obtain n i where nv: "nv = (n, JInt i)" by (cases nv) auto
  let ?s = "if n \<in> set TRAINER_COUNTERS then s\<lparr>co_world := op_restore_counter ops n i (co_world s)\<rparr> else s"
  from Cons obtain w where "restore_counters ops d ?s = (Inr (), ?s\<lparr>co_world := w\<rparr>)" by auto
  then show ?case by (intro exI [of _ w]) (simp add: nv act_defs split: if_splits)
qed

lemma guard_lookups:
  "map_of (guard_state ops s) ''draw_rate_history'' = Some (JList (map JFloat (co_draw_history s)))"
  "map_of (guard_state ops s) ''initial_policy_loss'' = Some (case co_initial_policy_loss s of None \<Rightarrow> JNull | Some x \<Rightarrow> JFloat x)"
  "map_of (guard_state ops s) ''loss_window'' = Some (JList (map JFloat (ws_window (co_warn s))))"
  "map_of (guard_state ops s) ''ply_cap_rate'' = Some (case co_ply_cap_rate s of None \<Rightarrow> JNull | Some x \<Rightarrow> JFloat x)"
  "dget (guard_state ops s) ''trainer'' (JObj []) = JObj (List.map_filter (\<lambda>n. map_option (\<lambda>i. (n, JInt i))
     (map_of (op_trainer_counters ops (co_world s)) n)) TRAINER_COUNTERS)"
  by (simp_all add: guard_state_def dget_def)

lemma counters_are_ints:
  "list_all (\<lambda>(n, v). \<exists>i. v = JInt i) (List.map_filter (\<lambda>n. map_option (\<lambda>i. (n, JInt i)) (m n)) ns)"
proof (induction ns)
  case (Cons n ns)
  then show ?case by (cases "m n") (simp_all add: List.map_filter_simps)
qed (simp add: List.map_filter_simps)

lemma restore_steps:
  "restore_at (guard_state ops s) ''draw_rate_history'' (float_list fos) put1 u = (Inr (), put1 (co_draw_history s) u)"
  "restore_at (guard_state ops s) ''initial_policy_loss'' (float_or_none fos) put2 u = (Inr (), put2 (co_initial_policy_loss s) u)"
  "restore_at (guard_state ops s) ''loss_window'' (float_list fos) put1 u = (Inr (), put1 (ws_window (co_warn s)) u)"
  "restore_at (guard_state ops s) ''ply_cap_rate'' (float_or_none fos) put2 u = (Inr (), put2 (co_ply_cap_rate s) u)"
  unfolding restore_at_def guard_lookups option.case float_list_floats float_or_none_option
  by (simp_all add: act_defs)

text \<open>A resume carries the abort windows: restoring into any coordinator what \<open>guard_state\<close> captured at
  the stop raises nothing and gives back the draw-rate ring, the loss window, the ply-cap reading and the
  initial policy loss exactly, non-finite floats included.\<close>

theorem guard_state_roundtrip:
  "\<exists>t. restore_guard_state fos ops (guard_state ops' s) s0 = (Inr (), t) \<and>
     co_draw_history t = co_draw_history s \<and> co_initial_policy_loss t = co_initial_policy_loss s \<and>
     ws_window (co_warn t) = ws_window (co_warn s) \<and> co_ply_cap_rate t = co_ply_cap_rate s \<and>
     co_train_step t = co_train_step s0 \<and> co_trace t = co_trace s0"
proof -
  let ?d = "List.map_filter (\<lambda>n. map_option (\<lambda>i. (n, JInt i)) (map_of (op_trainer_counters ops' (co_world s)) n)) TRAINER_COUNTERS"
  let ?s = "s0\<lparr>co_draw_history := co_draw_history s, co_initial_policy_loss := co_initial_policy_loss s,
     co_warn := (co_warn s0)\<lparr>ws_window := ws_window (co_warn s)\<rparr>, co_ply_cap_rate := co_ply_cap_rate s\<rparr>"
  have "list_all (\<lambda>(n, v). \<exists>i. v = JInt i) ?d" by (rule counters_are_ints)
  from restore_counters_keeps [OF this, of ops ?s]
  obtain w where w: "restore_counters ops ?d ?s = (Inr (), ?s\<lparr>co_world := w\<rparr>)" ..
  have "restore_guard_fields fos ops (guard_state ops' s) s0 = restore_counters ops ?d ?s"
    unfolding restore_guard_fields_def guard_lookups(5) abind_def restore_steps
    by (simp add: lift_def)
  then show ?thesis unfolding restore_guard_state_def catching_def w by simp
qed

end
