(* ===== verification/Graph_Wire.thy ===== *)
theory Graph_Wire
  imports Prelude
begin

text \<open>
  The block-diagonal graph wire and its splitting (\<open>src/mantis/selfplay/graph_wire_split.py\<close>, the
  payload of \<open>src/mantis/selfplay/graph_collate.py\<close>): the greedy partition of a batch into
  micro-batches under the edge and node caps, and the slicing of one wire and of its targets into
  sub-wires.  Arrays are lists; the \<open>int64\<close> offsets are integers (a wire's offsets count what its
  arrays hold, so their differences do not wrap); the feature values are left abstract.
\<close>

section \<open>Python indices and slices\<close>

definition np_at :: "'a list \<Rightarrow> int \<Rightarrow> 'a res" where
  "np_at xs i = (let n = int (length xs) in
     if 0 \<le> i \<and> i < n then Inr (xs ! nat i)
     else if - n \<le> i \<and> i < 0 then Inr (xs ! nat (i + n)) else Inl IndexError)"

definition py_bound :: "nat \<Rightarrow> int \<Rightarrow> int" where
  "py_bound n i = (if i < 0 then max 0 (i + int n) else min i (int n))"

definition py_slice :: "'a list \<Rightarrow> int \<Rightarrow> int \<Rightarrow> 'a list" where
  "py_slice xs a b = (let lo = py_bound (length xs) a; hi = py_bound (length xs) b
     in take (nat (hi - lo)) (drop (nat lo) xs))"

lemma py_slice_nonneg: "0 \<le> a \<Longrightarrow> a \<le> b \<Longrightarrow> py_slice xs a b = take (nat (b - a)) (drop (nat a) xs)"
  unfolding py_slice_def py_bound_def Let_def by (cases "b \<le> int (length xs)"; cases "a \<le> int (length xs)") auto

lemma py_slice_nat: "a \<le> b \<Longrightarrow> py_slice xs (int a) (int b) = take (b - a) (drop a xs)"
  by (simp add: py_slice_nonneg nat_diff_distrib)

lemma py_slice_map: "py_slice (map f xs) a b = map f (py_slice xs a b)"
  by (simp add: py_slice_def take_map drop_map Let_def)

lemma length_py_slice [simp]: "0 \<le> a \<Longrightarrow> a \<le> b \<Longrightarrow> b \<le> int (length xs) \<Longrightarrow> int (length (py_slice xs a b)) = b - a"
  by (simp add: py_slice_nonneg)

lemma nth_py_slice: "0 \<le> a \<Longrightarrow> a + int i < b \<Longrightarrow> b \<le> int (length xs) \<Longrightarrow> py_slice xs a b ! i = xs ! (nat a + i)"
  by (simp add: py_slice_nonneg)

lemma py_slice_slice:
  "0 \<le> a \<Longrightarrow> 0 \<le> c \<Longrightarrow> c \<le> d \<Longrightarrow> a + d \<le> b \<Longrightarrow> py_slice (py_slice xs a b) c d = py_slice xs (a + c) (a + d)"
  by (simp add: py_slice_nonneg drop_take min_def nat_add_distrib nat_diff_distrib add.commute)

lemma py_slice_left: "0 \<le> a \<Longrightarrow> a \<le> b \<Longrightarrow> b \<le> int (length xs) \<Longrightarrow> py_slice (xs @ ys) a b = py_slice xs a b"
  by (simp add: py_slice_nonneg)

lemma py_slice_right:
  "0 \<le> a \<Longrightarrow> a \<le> b \<Longrightarrow> n = int (length xs) \<Longrightarrow> py_slice (xs @ ys) (n + a) (n + b) = py_slice ys a b"
  by (simp add: py_slice_nonneg nat_add_distrib)

lemma np_at_nat [simp]: "i < length xs \<Longrightarrow> np_at xs (int i) = Inr (xs ! i)"
  by (simp add: np_at_def)

lemma np_at_last: "xs \<noteq> [] \<Longrightarrow> np_at xs (- 1) = Inr (last xs)"
  by (auto simp: np_at_def Let_def last_conv_nth nat_diff_distrib Suc_le_eq simp flip: of_nat_Suc)

section \<open>The greedy partition\<close>

fun diffs :: "int list \<Rightarrow> int list" where
  "diffs (a # b # xs) = (b - a) # diffs (b # xs)"
| "diffs _ = []"

lemma diffs_nth: "diffs xs = map (\<lambda>i. xs ! Suc i - xs ! i) [0..<length xs - 1]"
  by (induction xs rule: diffs.induct) (auto simp: upt_conv_Cons map_Suc_upt [symmetric] simp del: upt_Suc map_Suc_upt)

text \<open>A refusal names the graph, its edges and nodes, the members breached with their caps, and the config key.\<close>

datatype over_cap = Over_Cap nat int int "(string \<times> int) list" string

datatype split_error = GraphMicroBatchOverCap over_cap | FusedGraphOverCap over_cap | SplitIndexError

definition breaches :: "string \<times> string \<Rightarrow> int \<Rightarrow> int \<Rightarrow> int \<Rightarrow> int \<Rightarrow> (string \<times> int) list" where
  "breaches members max_edges max_nodes e n =
     (if e > max_edges then [(fst members, max_edges)] else []) @
     (if n > max_nodes then [(snd members, max_nodes)] else [])"

fun over_cap_check ::
  "string \<Rightarrow> string \<times> string \<Rightarrow> int \<Rightarrow> int \<Rightarrow> nat \<Rightarrow> int list \<Rightarrow> int list \<Rightarrow> split_error + unit" where
  "over_cap_check key members max_edges max_nodes i [] ns = Inr ()"
| "over_cap_check key members max_edges max_nodes i (e # es) [] = Inl SplitIndexError"
| "over_cap_check key members max_edges max_nodes i (e # es) (n # ns) =
     (let bs = breaches members max_edges max_nodes e n in
      if bs \<noteq> [] then Inl (GraphMicroBatchOverCap (Over_Cap i e n bs key))
      else over_cap_check key members max_edges max_nodes (Suc i) es ns)"

fun pack_parts ::
  "int \<Rightarrow> int \<Rightarrow> (int \<times> int) list \<Rightarrow> nat \<Rightarrow> nat \<Rightarrow> int \<Rightarrow> int \<Rightarrow> (nat \<times> nat) list" where
  "pack_parts max_edges max_nodes [] i start acc_e acc_n = [(start, i)]"
| "pack_parts max_edges max_nodes ((e, n) # counts) i start acc_e acc_n =
     (if (acc_e + e > max_edges \<or> acc_n + n > max_nodes) \<and> i > start
      then (start, i) # pack_parts max_edges max_nodes counts (Suc i) i e n
      else pack_parts max_edges max_nodes counts (Suc i) start (acc_e + e) (acc_n + n))"

definition plan_microbatches ::
  "int list \<Rightarrow> int list \<Rightarrow> int \<Rightarrow> int \<Rightarrow> string \<Rightarrow> string \<times> string \<Rightarrow> split_error + (nat \<times> nat) list" where
  "plan_microbatches edge_offsets node_offsets max_edges max_nodes key members =
     (let ec = diffs edge_offsets; nc = diffs node_offsets in
      if ec = [] then Inr []
      else case over_cap_check key members max_edges max_nodes 0 ec nc of
          Inl e \<Rightarrow> Inl e
        | Inr _ \<Rightarrow> Inr (pack_parts max_edges max_nodes (zip ec nc) 0 0 0 0))"

definition MICROBATCH_KEY :: string where "MICROBATCH_KEY = ''train.microbatch_caps''"
definition MICROBATCH_MEMBERS :: "string \<times> string" where "MICROBATCH_MEMBERS = (''max_edges'', ''max_nodes'')"
definition FUSED_KEY :: string where "FUSED_KEY = ''inference.fused_graph_caps''"
definition FUSED_MEMBERS :: "string \<times> string" where "FUSED_MEMBERS = (''max_fused_edges'', ''max_fused_nodes'')"

definition plan_fused_forwards :: "int list \<Rightarrow> int list \<Rightarrow> int \<Rightarrow> int \<Rightarrow> split_error + (nat \<times> nat) list" where
  "plan_fused_forwards edge_offsets node_offsets max_fused_edges max_fused_nodes =
     (case plan_microbatches edge_offsets node_offsets max_fused_edges max_fused_nodes FUSED_KEY FUSED_MEMBERS of
        Inl (GraphMicroBatchOverCap c) \<Rightarrow> Inl (FusedGraphOverCap c)
      | r \<Rightarrow> r)"

text \<open>What a partition promises: it tiles the batch with non-empty ranges in order.\<close>

fun tiles_from :: "nat \<Rightarrow> (nat \<times> nat) list \<Rightarrow> nat \<Rightarrow> bool" where
  "tiles_from s [] b = (s = b)"
| "tiles_from s ((x, y) # ps) b = (x = s \<and> x < y \<and> tiles_from y ps b)"

definition under_caps :: "int list \<Rightarrow> int list \<Rightarrow> int \<Rightarrow> int \<Rightarrow> nat \<times> nat \<Rightarrow> bool" where
  "under_caps eo no max_edges max_nodes p \<longleftrightarrow>
     eo ! snd p - eo ! fst p \<le> max_edges \<and> no ! snd p - no ! fst p \<le> max_nodes"

definition counts :: "int list \<Rightarrow> int list \<Rightarrow> nat \<Rightarrow> nat \<Rightarrow> (int \<times> int) list" where
  "counts eo no i b = map (\<lambda>j. (eo ! Suc j - eo ! j, no ! Suc j - no ! j)) [i..<b]"

lemma counts_end [simp]: "counts eo no b b = []"
  by (simp add: counts_def)

lemma counts_step: "i < b \<Longrightarrow> counts eo no i b = (eo ! Suc i - eo ! i, no ! Suc i - no ! i) # counts eo no (Suc i) b"
  by (simp add: counts_def upt_conv_Cons)

lemma zip_diffs: "length eo = Suc b \<Longrightarrow> length no = Suc b \<Longrightarrow> zip (diffs eo) (diffs no) = counts eo no 0 b"
  by (simp add: diffs_nth counts_def zip_map_map zip_same_conv_map)

text \<open>One invariant of the loop: what it still appends tiles the rest under the caps, and no tiling of
  more than the rest is shorter.\<close>

lemma pack_parts_spec:
  assumes "i \<le> b" "start \<le> i" "start < b" "i = start \<or> under_caps eo no me mn (start, i)"
    and "\<forall>j < b. under_caps eo no me mn (j, Suc j)"
  shows "tiles_from start (pack_parts me mn (counts eo no i b) i start (eo ! i - eo ! start) (no ! i - no ! start)) b \<and>
    (\<forall>p \<in> set (pack_parts me mn (counts eo no i b) i start (eo ! i - eo ! start) (no ! i - no ! start)).
       under_caps eo no me mn p)"
  using assms
proof (induction "b - i" arbitrary: i start)
  case 0
  then show ?case by auto
next
  case (Suc m)
  then have i: "i < b" "m = b - Suc i" by simp_all
  have single: "under_caps eo no me mn (i, Suc i)" using Suc.prems(5) i(1) by blast
  show ?case
  proof (cases "(eo ! Suc i - eo ! start > me \<or> no ! Suc i - no ! start > mn) \<and> i > start")
    case True
    have "tiles_from i (pack_parts me mn (counts eo no (Suc i) b) (Suc i) i (eo ! Suc i - eo ! i) (no ! Suc i - no ! i)) b \<and>
        (\<forall>p \<in> set (pack_parts me mn (counts eo no (Suc i) b) (Suc i) i (eo ! Suc i - eo ! i) (no ! Suc i - no ! i)).
           under_caps eo no me mn p)"
      by (rule Suc.hyps(1) [OF i(2)]) (use i single Suc.prems(5) in auto)
    then show ?thesis using True Suc.prems(4) by (auto simp: counts_step [OF i(1)])
  next
    case False
    have "start = Suc i \<or> under_caps eo no me mn (start, Suc i)" using False single Suc.prems(2)
      by (cases "i = start") (auto simp: under_caps_def)
    with Suc.hyps(1) [OF i(2), of start] Suc.prems i False show ?thesis by (auto simp: counts_step [OF i(1)])
  qed
qed


lemma pack_parts_fewest:
  assumes "i \<le> b" "start \<le> i" "start < b" "s \<le> start" "tiles_from s qs b"
    and "\<forall>p \<in> set qs. under_caps eo no me mn p"
    and "sorted eo" "sorted no" "length eo = Suc b" "length no = Suc b"
  shows "length (pack_parts me mn (counts eo no i b) i start (eo ! i - eo ! start) (no ! i - no ! start)) \<le> length qs"
  using assms(1-6)
proof (induction "b - i" arbitrary: i start s qs)
  case 0
  then have "qs \<noteq> []" by (cases qs) auto
  then show ?case using 0 by (simp add: Suc_le_eq)
next
  case (Suc m)
  then have i: "i < b" "m = b - Suc i" by simp_all
  show ?case
  proof (cases "(eo ! Suc i - eo ! start > me \<or> no ! Suc i - no ! start > mn) \<and> i > start")
    case True
    obtain y qs' where qs: "qs = (s, y) # qs'" "s < y" "tiles_from y qs' b" "under_caps eo no me mn (s, y)"
      using Suc.prems by (cases qs) auto
    have "y \<le> b" using qs(3) by (induction y qs' b rule: tiles_from.induct) auto
    have "y \<le> i"
    proof (rule ccontr)
      assume "\<not> y \<le> i"
      then have "eo ! Suc i \<le> eo ! y" "no ! Suc i \<le> no ! y" "eo ! s \<le> eo ! start" "no ! s \<le> no ! start"
        using Suc.prems \<open>y \<le> b\<close> assms(7-10) i by (auto intro!: sorted_nth_mono)
      with qs(4) True show False by (auto simp: under_caps_def)
    qed
    have "length (pack_parts me mn (counts eo no (Suc i) b) (Suc i) i (eo ! Suc i - eo ! i) (no ! Suc i - no ! i)) \<le> length qs'"
      by (rule Suc.hyps(1) [OF i(2) _ _ _ \<open>y \<le> i\<close> qs(3)]) (use i Suc.prems qs in auto)
    then show ?thesis using True qs(1) by (auto simp: counts_step [OF i(1)])
  next
    case False
    with Suc.hyps(1) [OF i(2), of start s qs] Suc.prems i show ?thesis by (auto simp: counts_step [OF i(1)])
  qed
qed

lemma over_cap_check_ok:
  "length es \<le> length ns \<Longrightarrow> over_cap_check key members me mn i es ns = Inr () \<longleftrightarrow>
     (\<forall>j < length es. es ! j \<le> me \<and> ns ! j \<le> mn)"
proof (induction es ns arbitrary: i rule: list_induct2')
  case (4 e es n ns)
  then show ?case by (auto simp: breaches_def Let_def All_less_Suc2)
qed simp_all

lemma over_cap_check_refuses:
  "length es \<le> length ns \<Longrightarrow> over_cap_check key members me mn i es ns = Inl err \<Longrightarrow>
     \<exists>j < length es. err = GraphMicroBatchOverCap (Over_Cap (i + j) (es ! j) (ns ! j) (breaches members me mn (es ! j) (ns ! j)) key) \<and>
       (es ! j > me \<or> ns ! j > mn) \<and> (\<forall>k < j. es ! k \<le> me \<and> ns ! k \<le> mn)"
proof (induction es ns arbitrary: i rule: list_induct2')
  case (4 e es n ns)
  show ?case
  proof (cases "breaches members me mn e n = []")
    case True
    with 4(1) [of "Suc i"] 4(2,3) obtain j where j: "j < length es"
      "err = GraphMicroBatchOverCap (Over_Cap (Suc i + j) (es ! j) (ns ! j) (breaches members me mn (es ! j) (ns ! j)) key)"
      "es ! j > me \<or> ns ! j > mn" "\<forall>k < j. es ! k \<le> me \<and> ns ! k \<le> mn" by auto
    have "\<forall>k < Suc j. (e # es) ! k \<le> me \<and> (n # ns) ! k \<le> mn"
      using True j(4) by (simp add: All_less_Suc2 breaches_def split: if_splits)
    with j show ?thesis by (intro exI [of _ "Suc j"]) simp
  next
    case False
    with 4(3) show ?thesis by (intro exI [of _ 0]) (auto simp: breaches_def split: if_splits)
  qed
qed simp_all

lemma plan_cases:
  assumes "length edge_offsets = Suc b" "length node_offsets = Suc b"
    and plan: "plan = plan_microbatches edge_offsets node_offsets max_edges max_nodes key members"
  shows "(b = 0 \<and> plan = Inr []) \<or>
    (\<exists>g < b. plan = Inl (GraphMicroBatchOverCap (Over_Cap g (edge_offsets ! Suc g - edge_offsets ! g) (node_offsets ! Suc g - node_offsets ! g)
        (breaches members max_edges max_nodes (edge_offsets ! Suc g - edge_offsets ! g) (node_offsets ! Suc g - node_offsets ! g)) key)) \<and>
        \<not> under_caps edge_offsets node_offsets max_edges max_nodes (g, Suc g) \<and>
        (\<forall>j < g. under_caps edge_offsets node_offsets max_edges max_nodes (j, Suc j))) \<or>
    (0 < b \<and> plan = Inr (pack_parts max_edges max_nodes (counts edge_offsets node_offsets 0 b) 0 0 0 0) \<and>
       (\<forall>j < b. under_caps edge_offsets node_offsets max_edges max_nodes (j, Suc j)))"
proof (cases "b = 0")
  case True
  then show ?thesis using assms(1,2) by (simp add: plan plan_microbatches_def diffs_nth)
next
  case False
  let ?ec = "diffs edge_offsets" and ?nc = "diffs node_offsets"
  have len: "length ?ec = b" "length ?nc = b" using assms(1,2) by (simp_all add: diffs_nth)
  have nth: "?ec ! j = edge_offsets ! Suc j - edge_offsets ! j" "?nc ! j = node_offsets ! Suc j - node_offsets ! j" if "j < b" for j
    using that assms(1,2) by (simp_all add: diffs_nth)
  have ne: "?ec \<noteq> []" using len False by auto
  show ?thesis
  proof (cases "over_cap_check key members max_edges max_nodes 0 ?ec ?nc")
    case (Inl err)
    from over_cap_check_refuses [OF _ Inl] len nth show ?thesis
      by (auto simp: plan plan_microbatches_def ne Inl under_caps_def Let_def)
  next
    case (Inr u)
    then have "\<forall>j < b. under_caps edge_offsets node_offsets max_edges max_nodes (j, Suc j)"
      using over_cap_check_ok [of ?ec ?nc key members max_edges max_nodes 0] len nth by (simp add: under_caps_def)
    moreover have "zip ?ec ?nc = counts edge_offsets node_offsets 0 b" by (rule zip_diffs) (use assms(1,2) in simp_all)
    ultimately show ?thesis using False by (simp add: plan plan_microbatches_def ne Inr Let_def)
  qed
qed

lemma plan_tiles:
  assumes "length edge_offsets = Suc b" "length node_offsets = Suc b" "sorted edge_offsets" "sorted node_offsets"
    and "plan_microbatches edge_offsets node_offsets max_edges max_nodes key members = Inr parts"
  shows "tiles_from 0 parts b \<and> (\<forall>p \<in> set parts. under_caps edge_offsets node_offsets max_edges max_nodes p)"
  using plan_cases [OF assms(1,2) refl, of max_edges max_nodes key members]
proof (elim disjE exE conjE)
  assume b: "0 < b" and fits: "\<forall>j < b. under_caps edge_offsets node_offsets max_edges max_nodes (j, Suc j)"
    and parts: "plan_microbatches edge_offsets node_offsets max_edges max_nodes key members =
      Inr (pack_parts max_edges max_nodes (counts edge_offsets node_offsets 0 b) 0 0 0 0)"
  have "parts = pack_parts max_edges max_nodes (counts edge_offsets node_offsets 0 b) 0 0 0 0" using parts assms(5) by simp
  then show ?thesis using pack_parts_spec [OF _ _ b _ fits, of 0] by simp
qed (use assms(5) in simp_all)

text \<open>C27: The plan of a batch, for offsets that never decrease: it is refused exactly when some graph
  alone is over a cap, naming the first such graph; otherwise it tiles the batch with non-empty ranges in
  order, every range is under both caps, and no tiling under the caps has fewer ranges - the greedy
  partition is a smallest one.\<close>

theorem microbatches_fewest:
  assumes "length edge_offsets = Suc b" "length node_offsets = Suc b" "sorted edge_offsets" "sorted node_offsets"
  shows "case plan_microbatches edge_offsets node_offsets max_edges max_nodes key members of
      Inl err \<Rightarrow> \<exists>g e n. err = GraphMicroBatchOverCap (Over_Cap g e n (breaches members max_edges max_nodes e n) key) \<and> g < b \<and>
        e = edge_offsets ! Suc g - edge_offsets ! g \<and> n = node_offsets ! Suc g - node_offsets ! g \<and>
        \<not> under_caps edge_offsets node_offsets max_edges max_nodes (g, Suc g) \<and>
        (\<forall>j < g. under_caps edge_offsets node_offsets max_edges max_nodes (j, Suc j))
    | Inr parts \<Rightarrow> tiles_from 0 parts b \<and> (\<forall>p \<in> set parts. under_caps edge_offsets node_offsets max_edges max_nodes p) \<and>
        (\<forall>qs. tiles_from 0 qs b \<and> (\<forall>q \<in> set qs. under_caps edge_offsets node_offsets max_edges max_nodes q) \<longrightarrow>
           length parts \<le> length qs)"
  using plan_cases [OF assms(1,2) refl, of max_edges max_nodes key members]
proof (elim disjE exE conjE)
  fix g assume g: "g < b" "plan_microbatches edge_offsets node_offsets max_edges max_nodes key members =
      Inl (GraphMicroBatchOverCap (Over_Cap g (edge_offsets ! Suc g - edge_offsets ! g) (node_offsets ! Suc g - node_offsets ! g)
        (breaches members max_edges max_nodes (edge_offsets ! Suc g - edge_offsets ! g) (node_offsets ! Suc g - node_offsets ! g)) key))"
    "\<not> under_caps edge_offsets node_offsets max_edges max_nodes (g, Suc g)"
    "\<forall>j < g. under_caps edge_offsets node_offsets max_edges max_nodes (j, Suc j)"
  then show ?thesis by simp
next
  assume parts: "plan_microbatches edge_offsets node_offsets max_edges max_nodes key members =
      Inr (pack_parts max_edges max_nodes (counts edge_offsets node_offsets 0 b) 0 0 0 0)" "0 < b"
  show ?thesis
    using plan_tiles [OF assms parts(1)] pack_parts_fewest [OF _ _ parts(2) _ _ _ assms(3,4,1,2), of 0 0] parts by simp
qed simp

theorem microbatches_fewest_witness:
  "\<exists>ps. plan_microbatches [0, 3, 5, 9, 10] [0, 1, 2, 3, 4] 5 3 ''k'' (''e'', ''n'') = Inr ps \<and> ps = [(0, 2), (2, 4)] \<and>
     (\<forall>qs. tiles_from 0 qs 4 \<and> (\<forall>q \<in> set qs. under_caps [0, 3, 5, 9, 10] [0, 1, 2, 3, 4] 5 3 q) \<longrightarrow> 2 \<le> length qs)"
proof -
  have p: "plan_microbatches [0, 3, 5, 9, 10] [0, 1, 2, 3, 4] 5 3 ''k'' (''e'', ''n'') = Inr [(0, 2), (2, 4)]"
    by (simp add: plan_microbatches_def breaches_def)
  with microbatches_fewest [where edge_offsets = "[0, 3, 5, 9, 10]" and b = 4 and node_offsets = "[0, 1, 2, 3, 4]"
    and max_edges = 5 and max_nodes = 3 and key = "''k''" and members = "(''e'', ''n'')"]
  show ?thesis by (simp add: numeral_2_eq_2)
qed

section \<open>Slicing a wire\<close>

record 'f graph_wire =
  gw_contract_version :: int
  gw_builder_impl :: int
  gw_n_graphs :: int
  gw_node_feat :: "'f list"
  gw_node_coords :: "int list"
  gw_edge_index :: "int list"
  gw_edge_attr :: "'f list"
  gw_node_offsets :: "int list"
  gw_edge_offsets :: "int list"
  gw_legal_offsets :: "int list"
  gw_legal_node_gather :: "int list"
  gw_policy_dst_slot :: "int list"
  gw_n_nodes_checksum :: "int list"
  gw_n_stones :: "int list"
  gw_window_center :: "int list"
  gw_current_player :: "int list"

definition per_item :: "'a list \<Rightarrow> int \<Rightarrow> int" where
  "per_item xs n = (if n \<noteq> 0 then int (length xs) div n else 0)"

definition slice_edges :: "int list \<Rightarrow> int \<Rightarrow> int \<Rightarrow> int \<Rightarrow> int \<Rightarrow> int list" where
  "slice_edges ei total_e e0 e1 n0 =
     (if total_e \<noteq> 0 then map (\<lambda>x. x - n0) (py_slice ei e0 e1 @ py_slice ei (total_e + e0) (total_e + e1)) else [])"

definition slice_graph_wire :: "'f graph_wire \<Rightarrow> int \<Rightarrow> int \<Rightarrow> 'f graph_wire res" where
  "slice_graph_wire w g0 g1 =
     (let no = gw_node_offsets w; eo = gw_edge_offsets w; lo = gw_legal_offsets w in
      rbind (np_at no g0) (\<lambda>n0. rbind (np_at no g1) (\<lambda>n1.
      rbind (np_at eo g0) (\<lambda>e0. rbind (np_at eo g1) (\<lambda>e1.
      rbind (np_at lo g0) (\<lambda>l0. rbind (np_at lo g1) (\<lambda>l1.
      rbind (np_at no (- 1)) (\<lambda>total_n. rbind (np_at eo (- 1)) (\<lambda>total_e.
        let feat_dim = per_item (gw_node_feat w) total_n; edge_dim = per_item (gw_edge_attr w) total_e in
        Inr \<lparr>gw_contract_version = gw_contract_version w, gw_builder_impl = gw_builder_impl w, gw_n_graphs = g1 - g0,
          gw_node_feat = py_slice (gw_node_feat w) (n0 * feat_dim) (n1 * feat_dim),
          gw_node_coords = py_slice (gw_node_coords w) (n0 * 2) (n1 * 2),
          gw_edge_index = slice_edges (gw_edge_index w) total_e e0 e1 n0,
          gw_edge_attr = py_slice (gw_edge_attr w) (e0 * edge_dim) (e1 * edge_dim),
          gw_node_offsets = map (\<lambda>x. x - n0) (py_slice no g0 (g1 + 1)),
          gw_edge_offsets = map (\<lambda>x. x - e0) (py_slice eo g0 (g1 + 1)),
          gw_legal_offsets = map (\<lambda>x. x - l0) (py_slice lo g0 (g1 + 1)),
          gw_legal_node_gather = map (\<lambda>x. x - n0) (py_slice (gw_legal_node_gather w) l0 l1),
          gw_policy_dst_slot = py_slice (gw_policy_dst_slot w) l0 l1,
          gw_n_nodes_checksum = py_slice (gw_n_nodes_checksum w) g0 g1,
          gw_n_stones = py_slice (gw_n_stones w) g0 g1,
          gw_window_center = py_slice (gw_window_center w) (g0 * 2) (g1 * 2),
          gw_current_player = py_slice (gw_current_player w) g0 g1\<rparr>)))))))))"

text \<open>The structural contract of a wire: what its arrays hold is what its offsets count.\<close>

definition offsets_ok :: "int list \<Rightarrow> nat \<Rightarrow> int \<Rightarrow> bool" where
  "offsets_ok os b whole \<longleftrightarrow> length os = Suc b \<and> sorted os \<and> os ! 0 = 0 \<and> os ! b = whole"

definition wire_ok :: "nat \<Rightarrow> nat \<Rightarrow> 'f graph_wire \<Rightarrow> bool" where
  "wire_ok fd ed w \<longleftrightarrow> (\<exists>b n e l. gw_n_graphs w = int b \<and>
     offsets_ok (gw_node_offsets w) b (int n) \<and> offsets_ok (gw_edge_offsets w) b (int e) \<and> offsets_ok (gw_legal_offsets w) b (int l) \<and>
     length (gw_node_feat w) = n * fd \<and> length (gw_node_coords w) = n * 2 \<and>
     length (gw_edge_index w) = 2 * e \<and> length (gw_edge_attr w) = e * ed \<and>
     length (gw_legal_node_gather w) = l \<and> length (gw_policy_dst_slot w) = l \<and> length (gw_n_nodes_checksum w) = b \<and>
     length (gw_n_stones w) = b \<and> length (gw_window_center w) = b * 2 \<and> length (gw_current_player w) = b)"

text \<open>One graph of a wire, its nodes numbered from zero.\<close>

record 'f graph =
  gr_feat :: "'f list"
  gr_coords :: "int list"
  gr_sources :: "int list"
  gr_targets :: "int list"
  gr_attr :: "'f list"
  gr_legal :: "int list"
  gr_slots :: "int list"
  gr_facts :: "int list"

definition graph_at :: "nat \<Rightarrow> nat \<Rightarrow> 'f graph_wire \<Rightarrow> nat \<Rightarrow> 'f graph" where
  "graph_at fd ed w g =
     (let no = gw_node_offsets w; eo = gw_edge_offsets w; lo = gw_legal_offsets w;
          n0 = no ! g; n1 = no ! Suc g; e0 = eo ! g; e1 = eo ! Suc g; l0 = lo ! g; l1 = lo ! Suc g; total_e = last eo
      in \<lparr>gr_feat = py_slice (gw_node_feat w) (n0 * int fd) (n1 * int fd),
          gr_coords = py_slice (gw_node_coords w) (n0 * 2) (n1 * 2),
          gr_sources = map (\<lambda>x. x - n0) (py_slice (gw_edge_index w) e0 e1),
          gr_targets = map (\<lambda>x. x - n0) (py_slice (gw_edge_index w) (total_e + e0) (total_e + e1)),
          gr_attr = py_slice (gw_edge_attr w) (e0 * int ed) (e1 * int ed),
          gr_legal = map (\<lambda>x. x - n0) (py_slice (gw_legal_node_gather w) l0 l1),
          gr_slots = py_slice (gw_policy_dst_slot w) l0 l1,
          gr_facts = [gw_n_nodes_checksum w ! g, gw_n_stones w ! g, gw_window_center w ! (2 * g),
            gw_window_center w ! Suc (2 * g), gw_current_player w ! g]\<rparr>)"

definition graphs :: "nat \<Rightarrow> nat \<Rightarrow> 'f graph_wire \<Rightarrow> 'f graph list" where
  "graphs fd ed w = map (graph_at fd ed w) [0..<nat (gw_n_graphs w)]"

lemma offsets_nth:
  assumes "offsets_ok os b whole" "i \<le> j" "j \<le> b"
  shows "0 \<le> os ! i" "os ! i \<le> os ! j" "os ! j \<le> whole"
proof -
  have m: "os ! x \<le> os ! y" if "x \<le> y" "y \<le> b" for x y
    using assms(1) that by (auto simp: offsets_ok_def intro!: sorted_nth_mono)
  show "0 \<le> os ! i" "os ! i \<le> os ! j" "os ! j \<le> whole"
    using m [of 0 i] m [of i j] m [of j b] assms by (auto simp: offsets_ok_def)
qed

lemma offsets_last: "offsets_ok os b whole \<Longrightarrow> last os = whole"
  by (metis diff_Suc_1 last_conv_nth length_0_conv nat.distinct(1) offsets_ok_def)

lemma offsets_at: "offsets_ok os b whole \<Longrightarrow> g \<le> b \<Longrightarrow> np_at os (int g) = Inr (os ! g)"
  by (simp add: offsets_ok_def)

lemma offsets_at_end: "offsets_ok os b whole \<Longrightarrow> np_at os (- 1) = Inr whole"
  by (subst np_at_last) (auto simp: offsets_last, auto simp: offsets_ok_def)

definition rebased :: "int list \<Rightarrow> nat \<Rightarrow> nat \<Rightarrow> int list" where
  "rebased os g0 g1 = map (\<lambda>x. x - os ! g0) (py_slice os (int g0) (int g1 + 1))"

lemma rebased_offsets:
  assumes "offsets_ok os b whole" "g0 \<le> g1" "g1 \<le> b"
  shows "offsets_ok (rebased os g0 g1) (g1 - g0) (os ! g1 - os ! g0)"
    and "\<And>j. j \<le> g1 - g0 \<Longrightarrow> rebased os g0 g1 ! j = os ! (g0 + j) - os ! g0"
proof -
  have s: "py_slice os (int g0) (int g1 + 1) = take (Suc (g1 - g0)) (drop g0 os)"
    using py_slice_nat [of g0 "Suc g1" os] assms(2) by (simp add: Suc_diff_le add.commute)
  show nth: "rebased os g0 g1 ! j = os ! (g0 + j) - os ! g0" if "j \<le> g1 - g0" for j
    using that assms by (simp add: rebased_def s offsets_ok_def)
  have "sorted (rebased os g0 g1)"
    using assms(1) sorted_wrt_drop [of "(\<le>)" os] sorted_wrt_take [of "(\<le>)" "drop g0 os"]
    by (simp add: rebased_def s offsets_ok_def sorted_map sorted_wrt_iff_nth_less)
  then show "offsets_ok (rebased os g0 g1) (g1 - g0) (os ! g1 - os ! g0)"
    using nth [of 0] nth [of "g1 - g0"] assms by (simp add: offsets_ok_def rebased_def s)
qed

lemma per_item_rows:
  assumes "length xs = n * d"
  shows "py_slice xs (a * per_item xs (int n)) (c * per_item xs (int n)) = py_slice xs (a * int d) (c * int d)"
  using assms by (cases "n = 0") (auto simp: per_item_def py_slice_def)

text \<open>The sub-wire of a well-formed wire.\<close>

definition sub_wire :: "nat \<Rightarrow> nat \<Rightarrow> 'f graph_wire \<Rightarrow> nat \<Rightarrow> nat \<Rightarrow> 'f graph_wire" where
  "sub_wire fd ed w g0 g1 =
     (let no = gw_node_offsets w; eo = gw_edge_offsets w; lo = gw_legal_offsets w; total_e = last eo;
          n0 = no ! g0; n1 = no ! g1; e0 = eo ! g0; e1 = eo ! g1; l0 = lo ! g0; l1 = lo ! g1
      in \<lparr>gw_contract_version = gw_contract_version w, gw_builder_impl = gw_builder_impl w, gw_n_graphs = int g1 - int g0,
          gw_node_feat = py_slice (gw_node_feat w) (n0 * int fd) (n1 * int fd),
          gw_node_coords = py_slice (gw_node_coords w) (n0 * 2) (n1 * 2),
          gw_edge_index = map (\<lambda>x. x - n0)
            (py_slice (gw_edge_index w) e0 e1 @ py_slice (gw_edge_index w) (total_e + e0) (total_e + e1)),
          gw_edge_attr = py_slice (gw_edge_attr w) (e0 * int ed) (e1 * int ed),
          gw_node_offsets = rebased no g0 g1, gw_edge_offsets = rebased eo g0 g1, gw_legal_offsets = rebased lo g0 g1,
          gw_legal_node_gather = map (\<lambda>x. x - n0) (py_slice (gw_legal_node_gather w) l0 l1),
          gw_policy_dst_slot = py_slice (gw_policy_dst_slot w) l0 l1,
          gw_n_nodes_checksum = py_slice (gw_n_nodes_checksum w) (int g0) (int g1),
          gw_n_stones = py_slice (gw_n_stones w) (int g0) (int g1),
          gw_window_center = py_slice (gw_window_center w) (int g0 * 2) (int g1 * 2),
          gw_current_player = py_slice (gw_current_player w) (int g0) (int g1)\<rparr>)"

lemma slice_is_sub_wire:
  assumes "wire_ok fd ed w" "g0 \<le> g1" "int g1 \<le> gw_n_graphs w"
  shows "slice_graph_wire w (int g0) (int g1) = Inr (sub_wire fd ed w g0 g1)"
proof -
  obtain b n e l where w: "gw_n_graphs w = int b"
     "offsets_ok (gw_node_offsets w) b (int n)" "offsets_ok (gw_edge_offsets w) b (int e)" "offsets_ok (gw_legal_offsets w) b (int l)"
     "length (gw_node_feat w) = n * fd" "length (gw_edge_index w) = 2 * e" "length (gw_edge_attr w) = e * ed"
    using assms(1) by (auto simp: wire_ok_def)
  have g: "g0 \<le> b" "g1 \<le> b" using assms(2,3) w(1) by auto
  note rules = offsets_at [OF w(2)] offsets_at [OF w(3)] offsets_at [OF w(4)] offsets_at_end [OF w(2)] offsets_at_end [OF w(3)]
    per_item_rows [OF w(5)] per_item_rows [OF w(7)]
  have "slice_edges (gw_edge_index w) (int e) x y z =
      map (\<lambda>u. u - z) (py_slice (gw_edge_index w) x y @ py_slice (gw_edge_index w) (int e + x) (int e + y))" for x y z
    using w(6) by (auto simp: slice_edges_def py_slice_def)
  then show ?thesis
    by (simp add: slice_graph_wire_def sub_wire_def rules g offsets_last [OF w(3)] Let_def rebased_def)
qed

lemma slice_scaled:
  fixes x :: int
  assumes "0 \<le> n0" "n0 \<le> x" "x \<le> y" "y \<le> n1" "0 \<le> k"
  shows "py_slice (py_slice xs (n0 * k) (n1 * k)) ((x - n0) * k) ((y - n0) * k) = py_slice xs (x * k) (y * k)"
proof -
  have "n0 * k + (x - n0) * k = x * k" "n0 * k + (y - n0) * k = y * k" by (simp_all add: algebra_simps)
  moreover have "0 \<le> n0 * k" "0 \<le> (x - n0) * k" "(x - n0) * k \<le> (y - n0) * k" "y * k \<le> n1 * k"
    using assms by (simp_all add: mult_right_mono)
  ultimately show ?thesis by (simp add: py_slice_slice)
qed

lemmas slice_plain = slice_scaled [where k = 1, simplified]

lemma sub_wire_edges:
  assumes "length ei = 2 * e" "0 \<le> e0" "e0 \<le> x" "x \<le> y" "y \<le> e1" "e1 \<le> int e"
  shows "py_slice (py_slice ei e0 e1 @ py_slice ei (int e + e0) (int e + e1)) (x - e0) (y - e0) = py_slice ei x y"
    and "py_slice (py_slice ei e0 e1 @ py_slice ei (int e + e0) (int e + e1)) (e1 + x - 2 * e0) (e1 + y - 2 * e0) =
      py_slice ei (int e + x) (int e + y)"
proof -
  have len: "int (length (py_slice ei e0 e1)) = e1 - e0" using assms by (intro length_py_slice) simp_all
  show "py_slice (py_slice ei e0 e1 @ py_slice ei (int e + e0) (int e + e1)) (x - e0) (y - e0) = py_slice ei x y"
    using assms len by (subst py_slice_left) (simp_all add: slice_plain)
  show "py_slice (py_slice ei e0 e1 @ py_slice ei (int e + e0) (int e + e1)) (e1 + x - 2 * e0) (e1 + y - 2 * e0) =
      py_slice ei (int e + x) (int e + y)"
    using assms len slice_plain [of "int e + e0" "int e + x" "int e + y" "int e + e1" ei]
      py_slice_right [of "x - e0" "y - e0" "e1 - e0" "py_slice ei e0 e1" "py_slice ei (int e + e0) (int e + e1)"]
    by (simp add: algebra_simps)
qed

lemma sub_wire_graph:
  assumes "wire_ok fd ed w" "g0 \<le> g1" "int g1 \<le> gw_n_graphs w" "j < g1 - g0"
  shows "graph_at fd ed (sub_wire fd ed w g0 g1) j = graph_at fd ed w (g0 + j)"
proof -
  obtain b n e l where w: "gw_n_graphs w = int b"
     "offsets_ok (gw_node_offsets w) b (int n)" "offsets_ok (gw_edge_offsets w) b (int e)" "offsets_ok (gw_legal_offsets w) b (int l)"
     "length (gw_edge_index w) = 2 * e" "length (gw_n_nodes_checksum w) = b"
     "length (gw_n_stones w) = b" "length (gw_window_center w) = b * 2" "length (gw_current_player w) = b"
    using assms(1) by (auto simp: wire_ok_def)
  have g: "g1 \<le> b" using assms(3) w(1) by simp
  note sizes = assms(2,4) g
  note rebase = rebased_offsets [OF w(2) assms(2) g] rebased_offsets [OF w(3) assms(2) g] rebased_offsets [OF w(4) assms(2) g]
  have order: "0 \<le> os ! g0" "os ! g0 \<le> os ! (g0 + j)" "os ! (g0 + j) \<le> os ! Suc (g0 + j)" "os ! Suc (g0 + j) \<le> os ! g1" "os ! g1 \<le> whole"
    if "offsets_ok os b whole" for os whole
    using offsets_nth [OF that, of g0 "g0 + j"] offsets_nth [OF that, of "g0 + j" "Suc (g0 + j)"]
      offsets_nth [OF that, of "Suc (g0 + j)" g1] sizes by simp_all
  note edges = sub_wire_edges [OF w(5) order [OF w(3)]]
  have at: "rebased os g0 g1 ! j = os ! (g0 + j) - os ! g0" "rebased os g0 g1 ! Suc j = os ! Suc (g0 + j) - os ! g0"
    if "offsets_ok os b whole" for os whole
    using rebased_offsets(2) [OF that assms(2) g, of j] rebased_offsets(2) [OF that assms(2) g, of "Suc j"] sizes by simp_all
  have facts: "py_slice xs (int g0) (int g1) ! j = xs ! (g0 + j)" if "length xs = b" for xs :: "int list"
    using that sizes by (subst nth_py_slice) auto
  have center: "py_slice (gw_window_center w) (int g0 * 2) (int g1 * 2) ! (2 * j) = gw_window_center w ! (2 * (g0 + j))"
    "py_slice (gw_window_center w) (int g0 * 2) (int g1 * 2) ! Suc (2 * j) = gw_window_center w ! Suc (2 * (g0 + j))"
    using sizes w(8) by (simp_all add: nth_py_slice nat_mult_distrib algebra_simps)
  have unshift: "map (\<lambda>u. u - (x - z)) (map (\<lambda>u. u - z) us) = map (\<lambda>u. u - x) us" for x z :: int and us by simp
  show ?thesis
    by (simp add: graph_at_def sub_wire_def Let_def at [OF w(2)] at [OF w(3)] at [OF w(4)] offsets_last [OF rebase(3)]
        offsets_last [OF w(3)] slice_scaled order [OF w(2)] order [OF w(3)] order [OF w(4)] slice_plain py_slice_map unshift
        edges facts w center del: map_map map_append)
qed

lemma length_plain_slice: "length xs = m \<Longrightarrow> a \<le> c \<Longrightarrow> c \<le> m \<Longrightarrow> length (py_slice xs (int a) (int c)) = c - a"
  by (simp add: py_slice_nat)

lemma length_row_slice:
  assumes "length xs = m * d" "a \<le> c" "c \<le> m"
  shows "length (py_slice xs (int a * int d) (int c * int d)) = (c - a) * d"
  using length_plain_slice [OF assms(1), of "a * d" "c * d"] mult_le_mono1 [OF assms(2), of d] mult_le_mono1 [OF assms(3), of d]
  by (simp only: of_nat_mult diff_mult_distrib)

lemma sub_wire_ok:
  assumes "wire_ok fd ed w" "g0 \<le> g1" "int g1 \<le> gw_n_graphs w"
  shows "wire_ok fd ed (sub_wire fd ed w g0 g1)"
proof -
  obtain b n e l where w: "gw_n_graphs w = int b"
     "offsets_ok (gw_node_offsets w) b (int n)" "offsets_ok (gw_edge_offsets w) b (int e)" "offsets_ok (gw_legal_offsets w) b (int l)"
     "length (gw_node_feat w) = n * fd" "length (gw_node_coords w) = n * 2" "length (gw_edge_index w) = 2 * e"
     "length (gw_edge_attr w) = e * ed" "length (gw_legal_node_gather w) = l" "length (gw_policy_dst_slot w) = l"
     "length (gw_n_nodes_checksum w) = b" "length (gw_n_stones w) = b" "length (gw_window_center w) = b * 2"
     "length (gw_current_player w) = b"
    using assms(1) by (auto simp: wire_ok_def)
  have g: "g1 \<le> b" using assms(3) w(1) by simp
  have part: "\<exists>a c. os ! g0 = int a \<and> os ! g1 = int c \<and> a \<le> c \<and> c \<le> whole" if "offsets_ok os b (int whole)" for os whole
    using offsets_nth [OF that assms(2) g] by (metis nonneg_eq_int of_nat_le_iff order_trans)
  obtain n0 n1 where n: "gw_node_offsets w ! g0 = int n0" "gw_node_offsets w ! g1 = int n1" "n0 \<le> n1" "n1 \<le> n" using part [OF w(2)] by blast
  obtain e0 e1 where e: "gw_edge_offsets w ! g0 = int e0" "gw_edge_offsets w ! g1 = int e1" "e0 \<le> e1" "e1 \<le> e" using part [OF w(3)] by blast
  obtain l0 l1 where l: "gw_legal_offsets w ! g0 = int l0" "gw_legal_offsets w ! g1 = int l1" "l0 \<le> l1" "l1 \<le> l" using part [OF w(4)] by blast
  note plain = length_plain_slice and rows = length_row_slice
  have far: "length (py_slice (gw_edge_index w) (int e + int e0) (int e + int e1)) = e1 - e0"
    using plain [OF w(7), of "e + e0" "e + e1"] e by simp
  show ?thesis unfolding wire_ok_def
    by (rule exI [of _ "g1 - g0"], rule exI [of _ "n1 - n0"], rule exI [of _ "e1 - e0"], rule exI [of _ "l1 - l0"])
      (use rebased_offsets(1) [OF w(2) assms(2) g] rebased_offsets(1) [OF w(3) assms(2) g] rebased_offsets(1) [OF w(4) assms(2) g]
         n e l g assms(2) in \<open>simp add: sub_wire_def Let_def offsets_last [OF w(3)] rows [OF w(5)] rows [OF w(6), simplified]
         rows [OF w(8)] rows [OF w(13), simplified] plain [OF w(7)] plain [OF w(9)] plain [OF w(10)] plain [OF w(11)]
         plain [OF w(12)] plain [OF w(14)] far of_nat_diff\<close>)
qed

lemma graphs_sub_wire:
  assumes "wire_ok fd ed w" "g0 \<le> g1" "int g1 \<le> gw_n_graphs w"
  shows "graphs fd ed (sub_wire fd ed w g0 g1) = map (graph_at fd ed w) [g0..<g1]"
proof (rule nth_equalityI)
  show "length (graphs fd ed (sub_wire fd ed w g0 g1)) = length (map (graph_at fd ed w) [g0..<g1])"
    using assms(2) by (simp add: graphs_def sub_wire_def Let_def nat_diff_distrib')
  fix j assume "j < length (graphs fd ed (sub_wire fd ed w g0 g1))"
  then have "j < g1 - g0" by (simp add: graphs_def sub_wire_def Let_def nat_diff_distrib')
  with sub_wire_graph [OF assms this] show "graphs fd ed (sub_wire fd ed w g0 g1) ! j = map (graph_at fd ed w) [g0..<g1] ! j"
    using assms(2) by (simp add: graphs_def sub_wire_def Let_def nat_diff_distrib')
qed

lemma tiles_bounds: "tiles_from s ps b \<Longrightarrow> s \<le> b \<and> (\<forall>p \<in> set ps. s \<le> fst p \<and> fst p < snd p \<and> snd p \<le> b)"
proof (induction s ps b rule: tiles_from.induct)
  case (2 s x y ps b)
  then have ih: "y \<le> b" "\<forall>p \<in> set ps. y \<le> fst p \<and> fst p < snd p \<and> snd p \<le> b" and xy: "x = s" "x < y" by simp_all
  have "s \<le> fst p \<and> fst p < snd p \<and> snd p \<le> b" if "p \<in> set ps" for p
    using bspec [OF ih(2) that] xy by linarith
  with ih(1) xy show ?case by simp
qed simp

lemma tiles_concat: "tiles_from s ps b \<Longrightarrow> concat (map (\<lambda>(x, y). [x..<y]) ps) = [s..<b]"
proof (induction s ps b rule: tiles_from.induct)
  case (2 s x y ps b)
  then have "y \<le> b" using tiles_bounds [of y ps b] by simp
  with 2 show ?case using upt_add_eq_append [of x y "b - y"] by simp
qed simp

text \<open>C8: Splitting a step never changes a graph: the parts of a planned well-formed wire slice without
  error into well-formed wires of their own, each within both caps, and the graphs of the parts - features,
  re-based edges and their attributes, legal nodes, slots and per-graph facts - are the graphs of the wire,
  in order.\<close>

theorem microbatches_keep_graphs:
  assumes "wire_ok fd ed w"
    and "plan_microbatches (gw_edge_offsets w) (gw_node_offsets w) max_edges max_nodes key members = Inr parts"
  shows "\<exists>ws. rmap (\<lambda>(g0, g1). slice_graph_wire w (int g0) (int g1)) parts = Inr ws \<and>
    concat (map (graphs fd ed) ws) = graphs fd ed w \<and>
    (\<forall>v \<in> set ws. wire_ok fd ed v \<and> last (gw_edge_offsets v) \<le> max_edges \<and> last (gw_node_offsets v) \<le> max_nodes)"
proof -
  obtain b n e where w: "gw_n_graphs w = int b" "offsets_ok (gw_node_offsets w) b (int n)" "offsets_ok (gw_edge_offsets w) b (int e)"
    using assms(1) by (auto simp: wire_ok_def)
  have "length (gw_edge_offsets w) = Suc b" "length (gw_node_offsets w) = Suc b" "sorted (gw_edge_offsets w)" "sorted (gw_node_offsets w)"
    using w(2,3) by (simp_all add: offsets_ok_def)
  from plan_tiles [OF this assms(2)] have t: "tiles_from 0 parts b"
    and caps: "\<forall>p \<in> set parts. under_caps (gw_edge_offsets w) (gw_node_offsets w) max_edges max_nodes p" by simp_all
  have range: "g0 \<le> g1" "int g1 \<le> gw_n_graphs w" if "(g0, g1) \<in> set parts" for g0 g1
    using tiles_bounds [OF t] that w(1) by auto
  let ?sub = "\<lambda>(g0, g1). sub_wire fd ed w g0 g1"
  have "rmap (\<lambda>(g0, g1). slice_graph_wire w (int g0) (int g1)) parts = Inr (map ?sub parts)"
    by (rule rmap_total) (auto intro: slice_is_sub_wire [OF assms(1)] range)
  moreover have "concat (map (graphs fd ed) (map ?sub parts)) = graphs fd ed w"
  proof -
    have "map (graphs fd ed) (map ?sub parts) = map (\<lambda>(x, y). map (graph_at fd ed w) [x..<y]) parts"
      using graphs_sub_wire [OF assms(1)] range by auto
    then have "concat (map (graphs fd ed) (map ?sub parts)) = map (graph_at fd ed w) (concat (map (\<lambda>(x, y). [x..<y]) parts))"
      by (simp only: map_concat map_map) (simp add: split_def comp_def)
    then show ?thesis by (simp add: tiles_concat [OF t] graphs_def w(1))
  qed
  moreover have "wire_ok fd ed (?sub p) \<and> last (gw_edge_offsets (?sub p)) \<le> max_edges \<and> last (gw_node_offsets (?sub p)) \<le> max_nodes"
    if "p \<in> set parts" for p
  proof -
    obtain g0 g1 where p: "p = (g0, g1)" by fastforce
    have g: "g0 \<le> g1" "g1 \<le> b" using range that p w(1) by auto
    show ?thesis
      using sub_wire_ok [OF assms(1) range] that caps offsets_last [OF rebased_offsets(1) [OF w(2) g]]
        offsets_last [OF rebased_offsets(1) [OF w(3) g]]
      by (auto simp: p sub_wire_def under_caps_def Let_def)
  qed
  ultimately show ?thesis by auto
qed

definition demo_wire :: "int graph_wire" where
  "demo_wire = \<lparr>gw_contract_version = 1, gw_builder_impl = 1, gw_n_graphs = 2, gw_node_feat = [1, 2, 3, 4, 5, 6],
     gw_node_coords = [0, 0, 1, 1, 2, 2], gw_edge_index = [0, 1, 2, 1, 0, 2], gw_edge_attr = [7, 8, 9],
     gw_node_offsets = [0, 2, 3], gw_edge_offsets = [0, 2, 3], gw_legal_offsets = [0, 1, 2], gw_legal_node_gather = [1, 2],
     gw_policy_dst_slot = [5, 6], gw_n_nodes_checksum = [2, 1], gw_n_stones = [1, 0], gw_window_center = [0, 0, 4, 4],
     gw_current_player = [1, -1]\<rparr>"

lemma demo_wire_ok: "wire_ok 2 1 demo_wire"
  unfolding wire_ok_def
  by (rule exI [of _ 2], rule exI [of _ 3], rule exI [of _ 3], rule exI [of _ 2]) (simp add: demo_wire_def offsets_ok_def numeral_2_eq_2)

theorem microbatches_keep_graphs_witness:
  "\<exists>ws. rmap (\<lambda>(g0, g1). slice_graph_wire demo_wire (int g0) (int g1)) [(0, 1), (1, 2)] = Inr ws \<and>
     concat (map (graphs 2 1) ws) = graphs 2 1 demo_wire"
proof -
  have "plan_microbatches (gw_edge_offsets demo_wire) (gw_node_offsets demo_wire) 2 2 MICROBATCH_KEY MICROBATCH_MEMBERS =
      Inr [(0, 1), (1, 2)]" by (simp add: demo_wire_def plan_microbatches_def breaches_def)
  from microbatches_keep_graphs [OF demo_wire_ok this] show ?thesis by blast
qed

section \<open>Slicing the targets\<close>

record ('x, 'c) graph_targets =
  gt_policy_target :: "'x list"
  gt_explicit_mask :: "bool list"
  gt_tail_mass :: "'x list"
  gt_outcomes :: "'x list"
  gt_value_valid :: "'x list"
  gt_is_full_search :: "'x list"
  gt_root_value :: "'x list"
  gt_root_value_valid :: "'x list"
  gt_future_target :: "'x list"
  gt_future_valid :: "'x list"
  gt_target_argmax_cells :: "'c list"

definition slice_targets :: "('x, 'c) graph_targets \<Rightarrow> int list \<Rightarrow> int \<Rightarrow> int \<Rightarrow> ('x, 'c) graph_targets res" where
  "slice_targets t legal_offsets g0 g1 =
     rbind (np_at legal_offsets g0) (\<lambda>l0. rbind (np_at legal_offsets g1) (\<lambda>l1.
       Inr \<lparr>gt_policy_target = py_slice (gt_policy_target t) l0 l1, gt_explicit_mask = py_slice (gt_explicit_mask t) l0 l1,
         gt_tail_mass = py_slice (gt_tail_mass t) g0 g1, gt_outcomes = py_slice (gt_outcomes t) g0 g1,
         gt_value_valid = py_slice (gt_value_valid t) g0 g1, gt_is_full_search = py_slice (gt_is_full_search t) g0 g1,
         gt_root_value = py_slice (gt_root_value t) g0 g1, gt_root_value_valid = py_slice (gt_root_value_valid t) g0 g1,
         gt_future_target = py_slice (gt_future_target t) l0 l1, gt_future_valid = py_slice (gt_future_valid t) g0 g1,
         gt_target_argmax_cells = py_slice (gt_target_argmax_cells t) g0 g1\<rparr>))"

text \<open>The parts' targets are the targets, in order: nothing is lost or counted twice.\<close>

lemma tiles_slices:
  assumes "tiles_from s ps b" "sorted os" "length os = Suc b" "0 \<le> os ! s"
  shows "concat (map (\<lambda>(x, y). py_slice xs (os ! x) (os ! y)) ps) = py_slice xs (os ! s) (os ! b)"
  using assms
proof (induction s ps b rule: tiles_from.induct)
  case (1 s b)
  then show ?case by (simp add: py_slice_nonneg)
next
  case (2 s x y ps b)
  then have "y \<le> b" "x = s" "x < y" using tiles_bounds [of y ps b] by simp_all
  then have o: "os ! s \<le> os ! y" "os ! y \<le> os ! b" using 2 by (auto intro!: sorted_nth_mono)
  have "take (nat (os ! y - os ! s)) (drop (nat (os ! s)) xs) @ take (nat (os ! b - os ! y)) (drop (nat (os ! y)) xs) =
      take (nat (os ! b - os ! s)) (drop (nat (os ! s)) xs)"
    using take_add [of "nat (os ! y - os ! s)" "nat (os ! b - os ! y)" "drop (nat (os ! s)) xs"] o 2(5)
    by (simp flip: nat_add_distrib)
  with 2 o \<open>x = s\<close> show ?case by (simp add: py_slice_nonneg)
qed

lemma targets_split:
  assumes "tiles_from 0 parts b" "offsets_ok lo b l" "length (gt_policy_target t) = nat l" "length (gt_outcomes t) = b"
  shows "\<exists>ts. rmap (\<lambda>(g0, g1). slice_targets t lo (int g0) (int g1)) parts = Inr ts \<and>
    concat (map gt_policy_target ts) = gt_policy_target t \<and> concat (map gt_outcomes ts) = gt_outcomes t"
proof -
  define part where "part = (\<lambda>(g0, g1). \<lparr>gt_policy_target = py_slice (gt_policy_target t) (lo ! g0) (lo ! g1),
      gt_explicit_mask = py_slice (gt_explicit_mask t) (lo ! g0) (lo ! g1),
      gt_tail_mass = py_slice (gt_tail_mass t) (int g0) (int g1), gt_outcomes = py_slice (gt_outcomes t) (int g0) (int g1),
      gt_value_valid = py_slice (gt_value_valid t) (int g0) (int g1), gt_is_full_search = py_slice (gt_is_full_search t) (int g0) (int g1),
      gt_root_value = py_slice (gt_root_value t) (int g0) (int g1), gt_root_value_valid = py_slice (gt_root_value_valid t) (int g0) (int g1),
      gt_future_target = py_slice (gt_future_target t) (lo ! g0) (lo ! g1), gt_future_valid = py_slice (gt_future_valid t) (int g0) (int g1),
      gt_target_argmax_cells = py_slice (gt_target_argmax_cells t) (int g0) (int g1)\<rparr>)"
  have "slice_targets t lo (int (fst p)) (int (snd p)) = Inr (part p)" if "p \<in> set parts" for p
    using tiles_bounds [OF assms(1)] that by (auto simp: slice_targets_def part_def split_def offsets_at [OF assms(2)])
  then have run: "rmap (\<lambda>(g0, g1). slice_targets t lo (int g0) (int g1)) parts = Inr (map part parts)"
    by (intro rmap_total) (auto simp: split_def)
  have per_graph: "concat (map (\<lambda>(x, y). py_slice (gt_outcomes t) (int x) (int y)) parts) = gt_outcomes t"
  proof -
    have same: "map (\<lambda>(x, y). py_slice (gt_outcomes t) (map int [0..<Suc b] ! x) (map int [0..<Suc b] ! y)) parts =
        map (\<lambda>(x, y). py_slice (gt_outcomes t) (int x) (int y)) parts"
      using tiles_bounds [OF assms(1)] by (auto simp del: upt_Suc)
    have "concat (map (\<lambda>(x, y). py_slice (gt_outcomes t) (map int [0..<Suc b] ! x) (map int [0..<Suc b] ! y)) parts) =
        py_slice (gt_outcomes t) (map int [0..<Suc b] ! 0) (map int [0..<Suc b] ! b)"
      by (rule tiles_slices [OF assms(1)]) (simp_all add: sorted_map del: upt_Suc)
    from this [unfolded same] show ?thesis using assms(4) by (simp add: py_slice_nonneg del: upt_Suc)
  qed
  have per_legal: "concat (map (\<lambda>(x, y). py_slice (gt_policy_target t) (lo ! x) (lo ! y)) parts) = gt_policy_target t"
    using tiles_slices [OF assms(1), of lo "gt_policy_target t"] assms(2,3) offsets_nth [OF assms(2), of 0 b]
    by (simp add: offsets_ok_def py_slice_nonneg)
  show ?thesis
    using run per_graph per_legal by (intro exI [of _ "map part parts"]) (simp add: part_def comp_def split_def)
qed

end
