(* ===== verification/Watchdog.thy ===== *)
theory Watchdog
  imports Py_Values Heartbeat
begin

text \<open>
  The heartbeat watchdog thread (\<open>src/mantis/train/lifecycle/heartbeat_watchdog.py\<close>): the first of the
  two watchdog levels, whose file mirror the supervisor reads.  Its collaborators (registry, counters,
  clock, sink, snapshot, exit) are operations on a world of any type.  A reading may raise; an optional
  effect returns, raises, is unwound or - under a time budget - hangs.  The trace lists the events handed
  to the sink, the effects tried, the snapshots mirrored to the heartbeat file and the process exit.
  One poll is one step: the main thread's \<open>disarm_staleness\<close> falls between polls.
\<close>

section \<open>Configuration, state and trace\<close>

definition MONITOR_STALL_INTERVALS :: nat where "MONITOR_STALL_INTERVALS = 3"

record monitor_sample =
  ms_checks :: int
  ms_errors :: int
  ms_interval :: real

text \<open>Why a fire happens, with what its event carries.\<close>

datatype fire_reason =
    Persist_Fatal int
  | Actor_Lag_Exceeded int int int
  | Heartbeat_Stale string real pyfloat
  | Close_Out_Timeout real pyfloat
  | Watchdog_Error py_exc

datatype wev =
    Watchdog_Armed "string list" "(string \<times> bool) list" "string list" "string list" "string list" "(bool \<times> int) option" "string list"
  | Staleness_Disarmed pyfloat
  | Monitor_Recovered string int int
  | Monitor_Stalled string int int real real
  | Monitor_Liveness_Sample int "(string \<times> int \<times> int \<times> real \<times> real) list"
  | Actor_Lag_Sample int int int int
  | Actor_Lag_Negative int int
  | Actor_Lag_Disarmed int int int
  | Source_Unwired string pyfloat
  | Watchdog_Fired fire_reason int "(string, real) dict" bool int
  | Fire_Complete fire_reason int bool counts

datatype wtrace = Emitted wev | Snapshot_Tried | Close_Tried | Mirrored json | Exited int

datatype timed = Finished "unit effect" | Hung

record wd_cfg =
  wc_sources :: "string list"
  wc_deadlines :: "(string, pyfloat) dict"
  wc_wired :: "string list"
  wc_file_interval :: pyfloat
  wc_close_out_deadline :: pyfloat
  wc_lag :: "(int \<times> bool) option"

record wd_core =
  wd_monitor_seen :: "(string, real \<times> int) dict"
  wd_monitor_stalled :: "string list"
  wd_last_monitor_sample :: "real option"
  wd_lag_latched :: bool
  wd_lag_negative :: bool
  wd_counts :: counts
  wd_armed :: bool
  wd_close_out_started :: "real option"
  wd_unwired_warned :: "string list"
  wd_fired :: bool
  wd_seq :: int
  wd_last_file_write :: "real option"
  wd_last_lag_sample :: "real option"
  wd_trace :: "wtrace list"

record 'w wdog = wd_core +
  wd_world :: 'w

record 'w wd_ops =
  wo_persist_errors :: "('w, int) act"
  wo_clock :: "('w, real) act"
  wo_learner_step :: "('w, int) act"
  wo_actor_step :: "('w, int) act"
  wo_ages :: "('w, (string, real) dict) act"
  wo_beaten :: "('w, string list) act option"
  wo_arm :: "('w, unit) act option"
  wo_monitors :: "(string \<times> ('w, monitor_sample option) act) list"
  wo_emit :: "(wev \<Rightarrow> 'w \<Rightarrow> unit effect \<times> 'w) option"
  wo_close :: "('w \<Rightarrow> timed \<times> 'w) option"
  wo_snapshot :: "'w \<Rightarrow> timed \<times> 'w"
  wo_write :: "json \<Rightarrow> 'w \<Rightarrow> unit effect \<times> 'w"
  wo_pid :: int
  wo_wall :: "('w, real) act"
  wo_stopped :: "'w \<Rightarrow> bool"
  wo_wait :: "'w \<Rightarrow> 'w"

text \<open>The constructor's checks: every source has a deadline and every declared source is known.\<close>

definition wd_check :: "wd_cfg \<Rightarrow> unit res" where
  "wd_check cfg =
     (if \<not> (\<forall>s \<in> set (wc_sources cfg). map_of (wc_deadlines cfg) s \<noteq> None) then Inl ValueError
      else if \<not> (\<forall>s \<in> set (wc_wired cfg). s \<in> set (wc_sources cfg)) then Inl ValueError
      else Inr ())"

definition wd_init :: "wd_cfg \<Rightarrow> 'w \<Rightarrow> 'w wdog res" where
  "wd_init cfg w = rbind (wd_check cfg) (\<lambda>_. Inr
     \<lparr>wd_monitor_seen = [], wd_monitor_stalled = [], wd_last_monitor_sample = None, wd_lag_latched = False,
      wd_lag_negative = False, wd_counts = [], wd_armed = True, wd_close_out_started = None, wd_unwired_warned = [],
      wd_fired = False, wd_seq = 0, wd_last_file_write = None, wd_last_lag_sample = None, wd_trace = [], wd_world = w\<rparr>)"

section \<open>Calls and effects\<close>

definition wd_call :: "('w, 'a) act \<Rightarrow> ('w wdog, 'a) act" where
  "wd_call m s = (case m (wd_world s) of (r, w) \<Rightarrow> (r, s\<lparr>wd_world := w\<rparr>))"

definition wd_note :: "wtrace \<Rightarrow> 'w wdog \<Rightarrow> 'w wdog" where
  "wd_note e s = s\<lparr>wd_trace := wd_trace s @ [e]\<rparr>"

definition wd_emit :: "'w wd_ops \<Rightarrow> wev \<Rightarrow> ('w wdog, unit) act" where
  "wd_emit ops ev = (case wo_emit ops of
     None \<Rightarrow> ret ()
   | Some emit \<Rightarrow> (\<lambda>s. case emit ev (wd_world s) of (e, w) \<Rightarrow>
       (case best_effort ''watchdog_emit'' e (wd_counts s) of (r, c) \<Rightarrow>
          (if r = Unwound then Inl SystemExit else Inr (), wd_note (Emitted ev) (s\<lparr>wd_world := w, wd_counts := c\<rparr>)))))"

text \<open>A bounded effect runs on its own thread: whatever it does, the caller goes on.\<close>

definition wd_bounded :: "string \<Rightarrow> wtrace \<Rightarrow> ('w \<Rightarrow> timed \<times> 'w) \<Rightarrow> ('w wdog, bool) act" where
  "wd_bounded label mark eff s = (case eff (wd_world s) of (t, w) \<Rightarrow>
     (case t of
        Hung \<Rightarrow> (Inr False, wd_note mark (s\<lparr>wd_world := w, wd_counts := be_increment (label @ ''_timeout'') (wd_counts s)\<rparr>))
      | Finished e \<Rightarrow> (case best_effort label e (wd_counts s) of (r, c) \<Rightarrow>
          (Inr (case r of Done (ok, _) \<Rightarrow> ok | _ \<Rightarrow> False), wd_note mark (s\<lparr>wd_world := w, wd_counts := c\<rparr>)))))"

definition as_effect :: "'a res \<Rightarrow> 'a effect" where
  "as_effect r = (case r of Inr a \<Rightarrow> Done a | Inl e \<Rightarrow> if e = SystemExit then Unwound else Failed e)"

definition safe_ages :: "'w wd_ops \<Rightarrow> ('w wdog, (string, real) dict) act" where
  "safe_ages ops s = (case wo_ages ops (wd_world s) of (r, w) \<Rightarrow>
     (case best_effort ''watchdog_ages'' (as_effect r) (wd_counts s) of
        (Done (True, Some ages), c) \<Rightarrow> (Inr ages, s\<lparr>wd_world := w, wd_counts := c\<rparr>)
      | (Unwound, c) \<Rightarrow> (Inl SystemExit, s\<lparr>wd_world := w, wd_counts := c\<rparr>)
      | (_, c) \<Rightarrow> (Inr [], s\<lparr>wd_world := w, wd_counts := c\<rparr>)))"

section \<open>The fire\<close>

definition wd_fire :: "'w wd_ops \<Rightarrow> int \<Rightarrow> fire_reason \<Rightarrow> ('w wdog, unit) act" where
  "wd_fire ops code reason =
     abind (gets wd_fired) (\<lambda>fired.
     if fired then ret ()
     else abind (modify (\<lambda>s. s\<lparr>wd_fired := True\<rparr>)) (\<lambda>_.
          abind (safe_ages ops) (\<lambda>ages.
          abind (gets (\<lambda>s. Watchdog_Fired reason code ages (wd_armed s) (wd_seq s))) (\<lambda>ev.
          abind (wd_emit ops ev) (\<lambda>_.
          abind (wd_bounded ''watchdog_snapshot'' Snapshot_Tried (wo_snapshot ops)) (\<lambda>ok.
          abind (gets (\<lambda>s. Fire_Complete reason code ok (wd_counts s))) (\<lambda>ev'.
          abind (wd_emit ops ev') (\<lambda>_.
          abind (case wo_close ops of None \<Rightarrow> ret False | Some close \<Rightarrow> wd_bounded ''watchdog_sink_close'' Close_Tried close) (\<lambda>_.
          modify (wd_note (Exited code)))))))))))"

section \<open>Arming and disarming\<close>

definition beaten_sources :: "'w wd_ops \<Rightarrow> wd_cfg \<Rightarrow> ('w wdog, string list) act" where
  "beaten_sources ops cfg = (case wo_beaten ops of None \<Rightarrow> ret (wc_sources cfg) | Some f \<Rightarrow> wd_call f)"

definition deadline_of :: "wd_cfg \<Rightarrow> string \<Rightarrow> pyfloat" where
  "deadline_of cfg source = dget (wc_deadlines cfg) source (Fin 0)"

definition wd_arm :: "'w wd_ops \<Rightarrow> wd_cfg \<Rightarrow> ('w wdog, unit) act" where
  "wd_arm ops cfg =
     abind (case wo_arm ops of None \<Rightarrow> ret () | Some arm \<Rightarrow> wd_call arm) (\<lambda>_.
     abind (beaten_sources ops cfg) (\<lambda>beaten.
       let watched = filter (\<lambda>s. s \<in> set (wc_wired cfg) \<or> s \<in> set beaten) (wc_sources cfg) in
       wd_emit ops (Watchdog_Armed (wc_sources cfg)
         (map (\<lambda>s. (s, pf_less (Fin 0) (deadline_of cfg s) \<and> s \<in> set watched)) (wc_sources cfg))
         (wc_wired cfg) (filter (\<lambda>s. s \<notin> set watched) (wc_sources cfg))
         (filter (\<lambda>s. s \<in> set watched \<and> s \<notin> set beaten) (wc_sources cfg))
         (map_option (\<lambda>(n, enabled). (enabled, n)) (wc_lag cfg)) (map fst (wo_monitors ops)))))"

definition disarm_staleness_watch :: "'w wd_ops \<Rightarrow> wd_cfg \<Rightarrow> ('w wdog, unit) act" where
  "disarm_staleness_watch ops cfg =
     abind (gets wd_armed) (\<lambda>armed.
     if \<not> armed then ret ()
     else abind (modify (\<lambda>s. s\<lparr>wd_armed := False\<rparr>)) (\<lambda>_.
          abind (wd_call (wo_clock ops)) (\<lambda>now.
          abind (modify (\<lambda>s. s\<lparr>wd_close_out_started := Some now\<rparr>)) (\<lambda>_.
          wd_emit ops (Staleness_Disarmed (wc_close_out_deadline cfg))))))"

section \<open>Monitor liveness\<close>

definition note_recovered :: "'w wd_ops \<Rightarrow> string \<Rightarrow> monitor_sample \<Rightarrow> ('w wdog, unit) act" where
  "note_recovered ops name m =
     abind (gets (\<lambda>s. name \<in> set (wd_monitor_stalled s))) (\<lambda>stalled.
     if \<not> stalled then ret ()
     else abind (modify (\<lambda>s. s\<lparr>wd_monitor_stalled := removeAll name (wd_monitor_stalled s)\<rparr>)) (\<lambda>_.
          wd_emit ops (Monitor_Recovered name (ms_checks m) (ms_errors m))))"

definition note_stalled :: "'w wd_ops \<Rightarrow> string \<Rightarrow> monitor_sample \<Rightarrow> real \<Rightarrow> real \<Rightarrow> ('w wdog, unit) act" where
  "note_stalled ops name m age deadline =
     abind (gets (\<lambda>s. name \<in> set (wd_monitor_stalled s))) (\<lambda>stalled.
     if deadline > 0 \<and> age > deadline \<and> \<not> stalled
     then abind (modify (\<lambda>s. s\<lparr>wd_monitor_stalled := wd_monitor_stalled s @ [name]\<rparr>)) (\<lambda>_.
          wd_emit ops (Monitor_Stalled name (ms_checks m) (ms_errors m) age deadline))
     else ret ())"

definition judge_monitor :: "'w wd_ops \<Rightarrow> real \<Rightarrow> string \<Rightarrow> monitor_sample \<Rightarrow>
    ('w wdog, string \<times> int \<times> int \<times> real \<times> real) act" where
  "judge_monitor ops now name m =
     abind (gets (\<lambda>s. map_of (wd_monitor_seen s) name)) (\<lambda>seen.
     let advanced = (case seen of None \<Rightarrow> True | Some (_, n) \<Rightarrow> ms_checks m > n);
         since = (case seen of Some (t, _) \<Rightarrow> if advanced then now else t | None \<Rightarrow> now);
         age = now - since; deadline = real MONITOR_STALL_INTERVALS * ms_interval m in
     abind (if advanced
            then abind (modify (\<lambda>s. s\<lparr>wd_monitor_seen := AList.update name (now, ms_checks m) (wd_monitor_seen s)\<rparr>))
                   (\<lambda>_. note_recovered ops name m)
            else ret ()) (\<lambda>_.
     abind (note_stalled ops name m age deadline) (\<lambda>_. ret (name, ms_checks m, ms_errors m, age, deadline))))"

fun judge_monitors ::
  "'w wd_ops \<Rightarrow> real \<Rightarrow> (string \<times> ('w, monitor_sample option) act) list \<Rightarrow>
   ('w wdog, (string \<times> int \<times> int \<times> real \<times> real) list) act" where
  "judge_monitors ops now [] = ret []"
| "judge_monitors ops now ((name, sample_fn) # specs) =
     abind (wd_call sample_fn) (\<lambda>sample.
       case sample of None \<Rightarrow> judge_monitors ops now specs
       | Some m \<Rightarrow> abind (judge_monitor ops now name m) (\<lambda>reading.
           abind (judge_monitors ops now specs) (\<lambda>rest. ret (reading # rest))))"

definition due :: "wd_cfg \<Rightarrow> real \<Rightarrow> real option \<Rightarrow> bool" where
  "due cfg now prev = (case prev of None \<Rightarrow> True | Some t \<Rightarrow> pf_le (wc_file_interval cfg) (Fin (now - t)))"

definition check_monitor_liveness :: "'w wd_ops \<Rightarrow> wd_cfg \<Rightarrow> ('w wdog, unit) act" where
  "check_monitor_liveness ops cfg =
     (if wo_monitors ops = [] then ret ()
      else abind (wd_call (wo_clock ops)) (\<lambda>now.
           abind (judge_monitors ops now (wo_monitors ops)) (\<lambda>readings.
           if readings = [] then ret ()
           else abind (gets (\<lambda>s. (due cfg now (wd_last_monitor_sample s), Monitor_Liveness_Sample (wd_seq s) readings)))
             (\<lambda>(now_due, ev).
                if now_due then abind (modify (\<lambda>s. s\<lparr>wd_last_monitor_sample := Some now\<rparr>)) (\<lambda>_. wd_emit ops ev)
                else ret ()))))"

section \<open>The fire predicates\<close>

definition sample_lag :: "'w wd_ops \<Rightarrow> wd_cfg \<Rightarrow> int \<Rightarrow> int \<Rightarrow> int \<Rightarrow> ('w wdog, unit) act" where
  "sample_lag ops cfg learner actor threshold =
     abind (wd_call (wo_clock ops)) (\<lambda>now.
     abind (gets (\<lambda>s. (due cfg now (wd_last_lag_sample s), Actor_Lag_Sample (wd_seq s) learner actor threshold)))
       (\<lambda>(now_due, ev).
          if now_due then abind (modify (\<lambda>s. s\<lparr>wd_last_lag_sample := Some now\<rparr>)) (\<lambda>_. wd_emit ops ev) else ret ()))"

definition judge_lag :: "'w wd_ops \<Rightarrow> int \<Rightarrow> int \<Rightarrow> int \<Rightarrow> bool \<Rightarrow> ('w wdog, bool) act" where
  "judge_lag ops learner actor threshold abort_enabled =
     (let lag = learner - actor in
      if lag < 0 then
        abind (gets wd_lag_negative) (\<lambda>reported.
        if reported then ret False
        else abind (modify (\<lambda>s. s\<lparr>wd_lag_negative := True\<rparr>)) (\<lambda>_.
             abind (wd_emit ops (Actor_Lag_Negative learner actor)) (\<lambda>_. ret False)))
      else if lag > threshold then
        if abort_enabled
        then abind (wd_fire ops ACTOR_LAG_EXIT_CODE (Actor_Lag_Exceeded learner actor threshold)) (\<lambda>_. ret True)
        else abind (gets wd_lag_latched) (\<lambda>latched.
             if latched then ret False
             else abind (modify (\<lambda>s. s\<lparr>wd_lag_latched := True\<rparr>)) (\<lambda>_.
                  abind (wd_emit ops (Actor_Lag_Disarmed learner actor threshold)) (\<lambda>_. ret False)))
      else abind (modify (\<lambda>s. s\<lparr>wd_lag_latched := False\<rparr>)) (\<lambda>_. ret False))"

definition check_actor_lag :: "'w wd_ops \<Rightarrow> wd_cfg \<Rightarrow> ('w wdog, bool) act" where
  "check_actor_lag ops cfg = (case wc_lag cfg of
     None \<Rightarrow> ret False
   | Some (threshold, abort_enabled) \<Rightarrow>
       abind (wd_call (wo_learner_step ops)) (\<lambda>learner.
       abind (wd_call (wo_actor_step ops)) (\<lambda>actor.
       abind (sample_lag ops cfg learner actor threshold) (\<lambda>_.
       judge_lag ops learner actor threshold abort_enabled))))"

definition warn_unwired :: "'w wd_ops \<Rightarrow> string \<Rightarrow> real \<Rightarrow> pyfloat \<Rightarrow> ('w wdog, unit) act" where
  "warn_unwired ops source age deadline =
     abind (gets (\<lambda>s. source \<in> set (wd_unwired_warned s))) (\<lambda>warned.
     if pf_less (Fin age) deadline \<or> warned then ret ()
     else abind (modify (\<lambda>s. s\<lparr>wd_unwired_warned := wd_unwired_warned s @ [source]\<rparr>)) (\<lambda>_.
          wd_emit ops (Source_Unwired source deadline)))"

fun stale_scan :: "'w wd_ops \<Rightarrow> wd_cfg \<Rightarrow> (string, real) dict \<Rightarrow> string list \<Rightarrow> string list \<Rightarrow> ('w wdog, bool) act" where
  "stale_scan ops cfg ages beaten [] = ret False"
| "stale_scan ops cfg ages beaten (source # sources) =
     (let deadline = deadline_of cfg source; age = dget ages source 0 in
      if pf_le deadline (Fin 0) then stale_scan ops cfg ages beaten sources
      else if source \<notin> set (wc_wired cfg) \<and> source \<notin> set beaten
      then abind (warn_unwired ops source age deadline) (\<lambda>_. stale_scan ops cfg ages beaten sources)
      else if pf_le deadline (Fin age)
      then abind (wd_fire ops WATCHDOG_STALL_EXIT_CODE (Heartbeat_Stale source age deadline)) (\<lambda>_. ret True)
      else stale_scan ops cfg ages beaten sources)"

definition check_source_staleness :: "'w wd_ops \<Rightarrow> wd_cfg \<Rightarrow> ('w wdog, bool) act" where
  "check_source_staleness ops cfg =
     abind (wd_call (wo_ages ops)) (\<lambda>ages.
     abind (beaten_sources ops cfg) (\<lambda>beaten. stale_scan ops cfg ages beaten (wc_sources cfg)))"

definition check_close_out_overrun :: "'w wd_ops \<Rightarrow> wd_cfg \<Rightarrow> ('w wdog, bool) act" where
  "check_close_out_overrun ops cfg =
     abind (gets wd_close_out_started) (\<lambda>started.
     case started of None \<Rightarrow> ret False
     | Some t0 \<Rightarrow>
         if pf_le (wc_close_out_deadline cfg) (Fin 0) then ret False
         else abind (wd_call (wo_clock ops)) (\<lambda>now.
              if pf_le (wc_close_out_deadline cfg) (Fin (now - t0))
              then abind (wd_fire ops WATCHDOG_STALL_EXIT_CODE (Close_Out_Timeout (now - t0) (wc_close_out_deadline cfg)))
                (\<lambda>_. ret True)
              else ret False))"

section \<open>The file mirror and the poll\<close>

definition mirror_early :: "wd_cfg \<Rightarrow> real \<Rightarrow> real option \<Rightarrow> bool" where
  "mirror_early cfg now prev = (case prev of None \<Rightarrow> False
     | Some t \<Rightarrow> pf_less (Fin 0) (wc_file_interval cfg) \<and> pf_less (Fin (now - t)) (wc_file_interval cfg))"

text \<open>The wall clock is read inside the counted effect: its exception is counted with the write's.\<close>

definition write_mirror :: "'w wd_ops \<Rightarrow> int \<Rightarrow> (string, real) dict \<Rightarrow> ('w wdog, unit) act" where
  "write_mirror ops seq ages s = (case wo_wall ops (wd_world s) of (wall, w) \<Rightarrow>
     (case (case wall of Inl e \<Rightarrow> (as_effect (Inl e), w, [])
            | Inr t \<Rightarrow> (case wo_write ops (write_heartbeat_file seq (wo_pid ops) ages t) w of
                (e, w') \<Rightarrow> (e, w', if e = Done () then [Mirrored (write_heartbeat_file seq (wo_pid ops) ages t)] else []))) of
        (e, w', marks) \<Rightarrow> (case best_effort ''watchdog_file_mirror'' e (wd_counts s) of (r, c) \<Rightarrow>
          (if r = Unwound then Inl SystemExit else Inr (),
           s\<lparr>wd_world := w', wd_counts := c, wd_trace := wd_trace s @ marks\<rparr>))))"

definition mirror_file :: "'w wd_ops \<Rightarrow> wd_cfg \<Rightarrow> ('w wdog, unit) act" where
  "mirror_file ops cfg =
     abind (wd_call (wo_clock ops)) (\<lambda>now.
     abind (gets wd_last_file_write) (\<lambda>prev.
     if mirror_early cfg now prev then ret ()
     else abind (modify (\<lambda>s. s\<lparr>wd_last_file_write := Some now, wd_seq := wd_seq s + 1\<rparr>)) (\<lambda>_.
          abind (wd_call (wo_ages ops)) (\<lambda>ages.
          abind (gets wd_seq) (\<lambda>seq. write_mirror ops seq ages)))))"

definition poll_checks :: "'w wd_ops \<Rightarrow> wd_cfg \<Rightarrow> ('w wdog, bool) act" where
  "poll_checks ops cfg =
     abind (gets wd_armed) (\<lambda>armed.
     if armed then abind (check_monitor_liveness ops cfg) (\<lambda>_.
       abind (check_actor_lag ops cfg) (\<lambda>fired. if fired then ret True else check_source_staleness ops cfg))
     else check_close_out_overrun ops cfg)"

definition poll_once :: "'w wd_ops \<Rightarrow> wd_cfg \<Rightarrow> ('w wdog, unit) act" where
  "poll_once ops cfg =
     abind (gets wd_fired) (\<lambda>fired.
     if fired then ret ()
     else abind (wd_call (wo_persist_errors ops)) (\<lambda>count.
          if count > 0 then wd_fire ops PERSIST_FATAL_EXIT_CODE (Persist_Fatal count)
          else abind (poll_checks ops cfg) (\<lambda>fired. if fired then ret () else mirror_file ops cfg)))"

text \<open>The loop of the thread, for at most \<open>n\<close> rounds: an \<open>Exception\<close> of a poll is itself a fire.\<close>

definition guarded_poll :: "'w wd_ops \<Rightarrow> wd_cfg \<Rightarrow> ('w wdog, bool) act" where
  "guarded_poll ops cfg =
     catching (abind (poll_once ops cfg) (\<lambda>_. ret True)) (\<lambda>e.
       if e = SystemExit then lift (Inl SystemExit)
       else abind (wd_fire ops WATCHDOG_STALL_EXIT_CODE (Watchdog_Error e)) (\<lambda>_. ret False))"

fun wd_run :: "'w wd_ops \<Rightarrow> wd_cfg \<Rightarrow> nat \<Rightarrow> ('w wdog, unit) act" where
  "wd_run ops cfg 0 s = (Inr (), s)"
| "wd_run ops cfg (Suc n) s =
     (if wo_stopped ops (wd_world s) \<or> wd_fired s then (Inr (), s)
      else case guarded_poll ops cfg s of
        (Inl e, t) \<Rightarrow> (Inl e, t)
      | (Inr False, t) \<Rightarrow> (Inr (), t)
      | (Inr True, t) \<Rightarrow> wd_run ops cfg n (t\<lparr>wd_world := wo_wait ops (wd_world t)\<rparr>))"

end
