(* ===== verification/Watchdog_Laws.thy ===== *)
theory Watchdog_Laws
  imports Watchdog
begin

text \<open>
  What the watchdog thread promises: it fires at most once and its exit is its last effect, a fire reaches
  the exit whatever the optional effects do, the mirrored sequence numbers only grow, and a poll fires
  exactly when its readings say so.
\<close>

section \<open>Quiet steps\<close>

fun exit_code :: "wtrace \<Rightarrow> int option" where
  "exit_code (Exited c) = Some c"
| "exit_code _ = None"

definition exits :: "wtrace list \<Rightarrow> int list" where
  "exits tr = List.map_filter exit_code tr"

fun file_seq :: "wtrace \<Rightarrow> int option" where
  "file_seq (Mirrored (JObj d)) = (case map_of d ''seq'' of Some (JInt n) \<Rightarrow> Some n | _ \<Rightarrow> None)"
| "file_seq _ = None"

definition seqs :: "wtrace list \<Rightarrow> int list" where
  "seqs tr = List.map_filter file_seq tr"

lemma exits_simps [simp]: "exits [] = []" "exits (a @ b) = exits a @ exits b"
  "exits (e # tr) = (case exit_code e of None \<Rightarrow> exits tr | Some c \<Rightarrow> c # exits tr)"
  by (simp_all add: exits_def map_filter_def split: option.split)

lemma seqs_simps [simp]: "seqs [] = []" "seqs (a @ b) = seqs a @ seqs b"
  "seqs (e # tr) = (case file_seq e of None \<Rightarrow> seqs tr | Some c \<Rightarrow> c # seqs tr)"
  by (simp_all add: seqs_def map_filter_def split: option.split)

text \<open>A quiet step: it neither fires nor exits nor mirrors, and leaves the arming alone.\<close>

definition quiet :: "'w wdog \<Rightarrow> 'w wdog \<Rightarrow> bool" where
  "quiet s t \<longleftrightarrow> (\<exists>tr. wd_trace t = wd_trace s @ tr \<and> exits tr = [] \<and> seqs tr = []) \<and> wd_fired t = wd_fired s \<and>
     wd_seq t = wd_seq s \<and> wd_armed t = wd_armed s \<and> wd_close_out_started t = wd_close_out_started s"

lemma quiet_same:
  "wd_trace t = wd_trace s \<Longrightarrow> wd_fired t = wd_fired s \<Longrightarrow> wd_seq t = wd_seq s \<Longrightarrow> wd_armed t = wd_armed s \<Longrightarrow>
   wd_close_out_started t = wd_close_out_started s \<Longrightarrow> quiet s t"
  by (simp add: quiet_def)

lemma quiet_mark:
  "wd_trace t = wd_trace s @ [e] \<Longrightarrow> exit_code e = None \<Longrightarrow> file_seq e = None \<Longrightarrow> wd_fired t = wd_fired s \<Longrightarrow>
   wd_seq t = wd_seq s \<Longrightarrow> wd_armed t = wd_armed s \<Longrightarrow> wd_close_out_started t = wd_close_out_started s \<Longrightarrow> quiet s t"
  by (simp add: quiet_def)

interpretation quiet: state_order quiet
proof
  show "quiet s s" for s :: "'w wdog" by (simp add: quiet_same)
next
  fix s t u :: "'w wdog" assume "quiet s t" "quiet t u"
  then obtain x y where "wd_trace t = wd_trace s @ x" "exits x = []" "seqs x = []" "wd_trace u = wd_trace t @ y" "exits y = []"
    "seqs y = []" "wd_fired u = wd_fired s" "wd_seq u = wd_seq s" "wd_armed u = wd_armed s"
    "wd_close_out_started u = wd_close_out_started s" unfolding quiet_def by force
  then show "quiet s u" unfolding quiet_def by (intro conjI exI [of _ "x @ y"]) simp_all
qed

named_theorems quiets

lemma quiet_call [quiets]: "moves quiet (wd_call m)"
  by (auto simp: moves_def wd_call_def intro: quiet_same split: prod.split)

lemma quiet_emit [quiets]: "moves quiet (wd_emit ops ev)"
  unfolding moves_def wd_emit_def
  by (auto simp: ret_def wd_note_def intro: quiet_same quiet_mark split: option.split prod.split)

lemma quiet_bounded [quiets]: "exit_code mark = None \<Longrightarrow> file_seq mark = None \<Longrightarrow> moves quiet (wd_bounded label mark eff)"
  unfolding moves_def wd_bounded_def
  by (auto simp: wd_note_def intro!: quiet_mark split: prod.split timed.split)

lemma quiet_safe_ages [quiets]: "moves quiet (safe_ages ops)"
  unfolding moves_def safe_ages_def
  by (auto intro: quiet_same split: prod.split effect.split option.split bool.split)

lemma quiet_beaten [quiets]: "moves quiet (beaten_sources ops cfg)"
  unfolding beaten_sources_def by (intro quiet.moves_option quiet.moves_ret quiet_call)

lemma quiet_modify [quiets]: "(\<And>s. quiet s (f s)) \<Longrightarrow> moves quiet (modify f)"
  by (rule quiet.moves_modify)



lemma quiet_recovered [quiets]: "moves quiet (note_recovered ops name m)"
  and quiet_stalled [quiets]: "moves quiet (note_stalled ops name m age deadline)"
  unfolding note_recovered_def note_stalled_def by (intro quiet.moves_rules quiets quiet_same; simp)+

lemma quiet_judge_monitor [quiets]: "moves quiet (judge_monitor ops now name m)"
  unfolding judge_monitor_def by (intro quiet.moves_rules quiets quiet_same; simp)

lemma quiet_judge_monitors [quiets]: "moves quiet (judge_monitors ops now specs)"
  by (induction ops now specs rule: judge_monitors.induct) (auto intro!: quiet.moves_rules quiets)

lemma quiet_liveness [quiets]: "moves quiet (check_monitor_liveness ops cfg)"
  unfolding check_monitor_liveness_def by (intro quiet.moves_rules quiets quiet_same; simp)

lemma quiet_sample_lag [quiets]: "moves quiet (sample_lag ops cfg learner actor threshold)"
  unfolding sample_lag_def by (intro quiet.moves_rules quiets quiet_same; simp)

lemma quiet_warn [quiets]: "moves quiet (warn_unwired ops source age deadline)"
  unfolding warn_unwired_def by (intro quiet.moves_rules quiets quiet_same; simp)

section \<open>Fires\<close>

definition CODES :: "int set" where
  "CODES = {WATCHDOG_STALL_EXIT_CODE, PERSIST_FATAL_EXIT_CODE, ACTOR_LAG_EXIT_CODE}"

definition fires :: "'w wdog \<Rightarrow> 'w wdog \<Rightarrow> bool" where
  "fires s t \<longleftrightarrow> wd_fired t \<and> wd_seq t = wd_seq s \<and> (\<exists>tr code. exits tr = [] \<and> seqs tr = [] \<and> code \<in> CODES \<and>
     (wd_trace t = wd_trace s @ tr \<or> wd_trace t = wd_trace s @ tr @ [Exited code]))"

lemma quiet_fires: "quiet s t \<Longrightarrow> fires t u \<Longrightarrow> fires s u"
  unfolding quiet_def fires_def
proof (elim conjE exE)
  fix x y code
  assume "wd_trace t = wd_trace s @ x" "exits x = []" "seqs x = []" "exits y = []" "seqs y = []" "code \<in> CODES"
    "wd_trace u = wd_trace t @ y \<or> wd_trace u = wd_trace t @ y @ [Exited code]" "wd_fired u" "wd_seq u = wd_seq t" "wd_seq t = wd_seq s"
  then show "wd_fired u \<and> wd_seq u = wd_seq s \<and> (\<exists>tr code. exits tr = [] \<and> seqs tr = [] \<and> code \<in> CODES \<and>
     (wd_trace u = wd_trace s @ tr \<or> wd_trace u = wd_trace s @ tr @ [Exited code]))"
    by (intro conjI exI [of _ "x @ y"] exI [of _ code]) auto
qed

text \<open>The effects of a fire before its exit.\<close>

definition fire_effects :: "'w wd_ops \<Rightarrow> int \<Rightarrow> fire_reason \<Rightarrow> ('w wdog, bool) act" where
  "fire_effects ops code reason =
     abind (safe_ages ops) (\<lambda>ages.
     abind (gets (\<lambda>s. Watchdog_Fired reason code ages (wd_armed s) (wd_seq s))) (\<lambda>ev.
     abind (wd_emit ops ev) (\<lambda>_.
     abind (wd_bounded ''watchdog_snapshot'' Snapshot_Tried (wo_snapshot ops)) (\<lambda>ok.
     abind (gets (\<lambda>s. Fire_Complete reason code ok (wd_counts s))) (\<lambda>ev'.
     abind (wd_emit ops ev') (\<lambda>_.
     case wo_close ops of None \<Rightarrow> ret False | Some close \<Rightarrow> wd_bounded ''watchdog_sink_close'' Close_Tried close))))))"

lemma quiet_fire_effects [quiets]: "moves quiet (fire_effects ops code reason)"
  unfolding fire_effects_def by (intro quiet.moves_rules quiets) simp_all

lemma abind_assoc: "abind (abind m f) g = abind m (\<lambda>a. abind (f a) g)"
  by (rule ext) (simp add: abind_def split: prod.split sum.split)

lemma wd_fire_effects:
  "wd_fire ops code reason s =
     (if wd_fired s then (Inr (), s)
      else case fire_effects ops code reason (s\<lparr>wd_fired := True\<rparr>) of
          (Inl e, t) \<Rightarrow> (Inl e, t) | (Inr _, t) \<Rightarrow> (Inr (), wd_note (Exited code) t))"
proof -
  have "wd_fire ops code reason = abind (gets wd_fired) (\<lambda>fired. if fired then ret ()
      else abind (modify (\<lambda>s. s\<lparr>wd_fired := True\<rparr>)) (\<lambda>_. abind (fire_effects ops code reason) (\<lambda>_. modify (wd_note (Exited code)))))"
    unfolding wd_fire_def fire_effects_def by (simp only: abind_assoc)
  then show ?thesis
    by (simp add: abind_def [of "gets wd_fired"] gets_def ret_def abind_def [of "modify (\<lambda>s. s\<lparr>wd_fired := True\<rparr>)"] modify_def
        abind_def [of "fire_effects ops code reason"] split: prod.split sum.split)
qed

lemma fire_fires:
  assumes "\<not> wd_fired s" "code \<in> CODES" "wd_fire ops code reason s = (r, t)"
  shows "fires s t"
proof -
  obtain x u where u: "fire_effects ops code reason (s\<lparr>wd_fired := True\<rparr>) = (x, u)" by fastforce
  from moves_run [OF quiet_fire_effects u] obtain tr where tr: "wd_trace u = wd_trace s @ tr" "exits tr = []" "seqs tr = []"
    "wd_fired u" "wd_seq u = wd_seq s" by (auto simp: quiet_def)
  from assms u have "t = u \<or> t = wd_note (Exited code) u"
    by (auto simp: wd_fire_effects split: sum.splits)
  then show ?thesis using tr assms(2) by (auto simp: fires_def wd_note_def)
qed

text \<open>A check either stays quiet and lets the poll go on, or has fired and stops it.\<close>

definition judged :: "('w wdog, bool) act \<Rightarrow> bool" where
  "judged m \<longleftrightarrow> (\<forall>s r t. m s = (r, t) \<and> \<not> wd_fired s \<longrightarrow> (quiet s t \<and> r \<noteq> Inr True) \<or> (fires s t \<and> r \<noteq> Inr False))"

lemma judgedD: "judged m \<Longrightarrow> m s = (r, t) \<Longrightarrow> \<not> wd_fired s \<Longrightarrow> (quiet s t \<and> r \<noteq> Inr True) \<or> (fires s t \<and> r \<noteq> Inr False)"
  unfolding judged_def by blast

lemma judged_no [simp]: "judged (ret False)"
  by (auto simp: judged_def ret_def quiet.stay)

lemma judged_fire: "code \<in> CODES \<Longrightarrow> judged (abind (wd_fire ops code reason) (\<lambda>_. ret True))"
  unfolding judged_def abind_def ret_def by (auto dest: fire_fires split: prod.splits sum.splits)

lemma judged_quiet: "moves quiet m \<Longrightarrow> (\<And>a. judged (f a)) \<Longrightarrow> judged (abind m f)"
  unfolding judged_def
proof (intro allI impI, elim conjE)
  fix s r t
  assume m: "moves quiet m" and f: "\<And>a. \<forall>s r t. f a s = (r, t) \<and> \<not> wd_fired s \<longrightarrow> (quiet s t \<and> r \<noteq> Inr True) \<or> (fires s t \<and> r \<noteq> Inr False)"
    and run: "abind m f s = (r, t)" and s: "\<not> wd_fired s"
  obtain x u where u: "m s = (x, u)" by fastforce
  have q: "quiet s u" by (rule moves_run [OF m u])
  show "(quiet s t \<and> r \<noteq> Inr True) \<or> (fires s t \<and> r \<noteq> Inr False)"
  proof (cases x)
    case (Inl e)
    then show ?thesis using run u q by (auto simp: abind_def)
  next
    case (Inr a)
    then have "f a u = (r, t)" using run u by (simp add: abind_def)
    moreover have "\<not> wd_fired u" using q s by (simp add: quiet_def)
    ultimately have "(quiet u t \<and> r \<noteq> Inr True) \<or> (fires u t \<and> r \<noteq> Inr False)" using f by blast
    then show ?thesis using q quiet.follow quiet_fires by blast
  qed
qed

lemma judged_then:
  assumes "judged m" "judged n"
  shows "judged (abind m (\<lambda>fired. if fired then ret True else n))"
  unfolding judged_def
proof (intro allI impI, elim conjE)
  fix s r t assume run: "abind m (\<lambda>fired. if fired then ret True else n) s = (r, t)" and s: "\<not> wd_fired s"
  obtain x u where u: "m s = (x, u)" by fastforce
  then have m: "(quiet s u \<and> x \<noteq> Inr True) \<or> (fires s u \<and> x \<noteq> Inr False)" using assms(1) s by (auto simp: judged_def)
  show "(quiet s t \<and> r \<noteq> Inr True) \<or> (fires s t \<and> r \<noteq> Inr False)"
  proof (cases "x = Inr False")
    case True
    then have q: "quiet s u" and "n u = (r, t)" "\<not> wd_fired u" using run u m s by (auto simp: abind_def quiet_def)
    then have "(quiet u t \<and> r \<noteq> Inr True) \<or> (fires u t \<and> r \<noteq> Inr False)" using assms(2) by (auto simp: judged_def)
    then show ?thesis using q quiet.follow quiet_fires by blast
  next
    case False
    then show ?thesis using run u m by (cases x) (auto simp: abind_def ret_def)
  qed
qed

lemma judged_if: "(b \<Longrightarrow> judged m) \<Longrightarrow> (\<not> b \<Longrightarrow> judged n) \<Longrightarrow> judged (if b then m else n)"
  by simp

lemma CODES_mem [simp]: "WATCHDOG_STALL_EXIT_CODE \<in> CODES" "PERSIST_FATAL_EXIT_CODE \<in> CODES" "ACTOR_LAG_EXIT_CODE \<in> CODES"
  by (simp_all add: CODES_def)

lemma quiet_then_no: "moves quiet m \<Longrightarrow> judged (abind m (\<lambda>_. ret False))"
  by (rule judged_quiet) simp_all

lemma judged_lag: "judged (check_actor_lag ops cfg)"
  unfolding check_actor_lag_def judge_lag_def Let_def
  by (auto split: option.split intro!: judged_quiet judged_fire quiets quiet.moves_rules quiet_same)

lemma judged_scan: "judged (stale_scan ops cfg ages beaten sources)"
  by (induction ops cfg ages beaten sources rule: stale_scan.induct)
    (auto simp: Let_def intro!: judged_quiet judged_fire quiets)

lemma judged_checks: "judged (poll_checks ops cfg)"
  unfolding poll_checks_def check_source_staleness_def check_close_out_overrun_def
  by (auto intro!: judged_quiet judged_then judged_lag judged_scan judged_fire quiets quiet.moves_rules judged_if split: option.split)

section \<open>Runs\<close>

text \<open>The states of a watchdog: the thread polls until it has fired, the main thread disarms in between,
  and what the world does between two steps is arbitrary.\<close>

inductive wd_reach :: "'w wd_ops \<Rightarrow> wd_cfg \<Rightarrow> 'w wdog \<Rightarrow> bool" for ops cfg where
  start: "wd_init cfg w = Inr s \<Longrightarrow> wd_arm ops cfg s = (Inr (), t) \<Longrightarrow> wd_reach ops cfg t"
| world: "wd_reach ops cfg s \<Longrightarrow> wd_reach ops cfg (s\<lparr>wd_world := w\<rparr>)"
| poll: "wd_reach ops cfg s \<Longrightarrow> \<not> wd_fired s \<Longrightarrow> guarded_poll ops cfg s = (r, t) \<Longrightarrow> wd_reach ops cfg t"
| disarm: "wd_reach ops cfg s \<Longrightarrow> exits (wd_trace s) = [] \<Longrightarrow> disarm_staleness_watch ops cfg s = (r, t) \<Longrightarrow> wd_reach ops cfg t"

text \<open>What a poll may add.\<close>

definition added :: "wtrace list \<Rightarrow> bool \<Rightarrow> bool" where
  "added tr fired \<longleftrightarrow> exits tr = [] \<or> (fired \<and> (\<exists>tr' code. tr = tr' @ [Exited code] \<and> exits tr' = [] \<and> code \<in> CODES))"

definition polled :: "'w wdog \<Rightarrow> 'w wdog \<Rightarrow> bool" where
  "polled s t \<longleftrightarrow> (\<exists>tr. wd_trace t = wd_trace s @ tr \<and> added tr (wd_fired t) \<and> wd_seq s \<le> wd_seq t \<and>
     (seqs tr = [] \<or> (wd_seq s < wd_seq t \<and> seqs tr = [wd_seq t])))"

lemma quiet_polled: "quiet s t \<Longrightarrow> polled s t"
  unfolding quiet_def polled_def added_def by auto

lemma fires_polled: "fires s t \<Longrightarrow> polled s t"
  unfolding fires_def polled_def added_def by (elim conjE exE disjE) auto

text \<open>A mirror attempt.\<close>

definition bumped :: "'w wdog \<Rightarrow> 'w wdog \<Rightarrow> bool" where
  "bumped s t \<longleftrightarrow> wd_fired t = wd_fired s \<and> wd_seq t = wd_seq s + 1 \<and>
     (\<exists>tr. wd_trace t = wd_trace s @ tr \<and> exits tr = [] \<and> (seqs tr = [] \<or> seqs tr = [wd_seq t]))"

lemma write_mirror_effect:
  assumes "write_mirror ops (wd_seq s) ages s = (r, t)"
  shows "wd_fired t = wd_fired s \<and> wd_seq t = wd_seq s \<and>
    (\<exists>tr. wd_trace t = wd_trace s @ tr \<and> exits tr = [] \<and> (seqs tr = [] \<or> seqs tr = [wd_seq s]))"
proof -
  have m: "seqs [Mirrored (write_heartbeat_file n pid ages wall)] = [n]" for n pid wall by (simp add: write_heartbeat_file_def)
  show ?thesis using assms m unfolding write_mirror_def by (auto split: prod.splits sum.splits if_splits)
qed

lemma mirror_bumps:
  assumes "mirror_file ops cfg s = (r, t)"
  shows "quiet s t \<or> bumped s t"
proof -
  obtain x u where u: "wd_call (wo_clock ops) s = (x, u)" by fastforce
  have q: "quiet s u" by (rule moves_run [OF quiet_call u])
  show ?thesis
  proof (cases "\<exists>now. x = Inr now \<and> \<not> mirror_early cfg now (wd_last_file_write u)")
    case False
    then have "t = u" using assms u by (cases x) (auto simp: mirror_file_def act_defs)
    then show ?thesis using q by simp
  next
    case True
    then obtain now where now: "x = Inr now" "\<not> mirror_early cfg now (wd_last_file_write u)" by blast
    let ?v = "u\<lparr>wd_last_file_write := Some now, wd_seq := wd_seq u + 1\<rparr>"
    obtain y v where v: "wd_call (wo_ages ops) ?v = (y, v)" by fastforce
    from moves_run [OF quiet_call v] q obtain tr where tr: "wd_trace v = wd_trace s @ tr" "exits tr = []" "seqs tr = []"
      "wd_fired v = wd_fired s" "wd_seq v = wd_seq s + 1" by (auto simp: quiet_def)
    have t: "case y of Inl e \<Rightarrow> t = v | Inr ages \<Rightarrow> write_mirror ops (wd_seq v) ages v = (r, t)"
      using assms u now v by (cases y) (auto simp: mirror_file_def act_defs)
    have "bumped s t"
    proof (cases y)
      case (Inl e)
      then show ?thesis using t tr by (auto simp: bumped_def)
    next
      case (Inr ages)
      with t have "write_mirror ops (wd_seq v) ages v = (r, t)" by simp
      from write_mirror_effect [OF this] tr show ?thesis unfolding bumped_def by force
    qed
    then show ?thesis ..
  qed
qed

text \<open>A poll from an unfired state is quiet, or mirrors, or fires.\<close>

lemma quiet_bumped: "quiet s t \<Longrightarrow> bumped t u \<Longrightarrow> bumped s u"
  unfolding quiet_def bumped_def by force

lemma poll_spec:
  assumes "\<not> wd_fired s" "poll_once ops cfg s = (r, t)"
  shows "quiet s t \<or> bumped s t \<or> fires s t"
proof -
  obtain x u where u: "wd_call (wo_persist_errors ops) s = (x, u)" by fastforce
  have q: "quiet s u" by (rule moves_run [OF quiet_call u])
  then have nf: "\<not> wd_fired u" using assms(1) by (simp add: quiet_def)
  show ?thesis
  proof (cases "\<exists>n. x = Inr n \<and> \<not> n > 0")
    case False
    then have "t = u \<or> (\<exists>n. wd_fire ops PERSIST_FATAL_EXIT_CODE (Persist_Fatal n) u = (r, t))"
      using assms u by (cases x) (auto simp: poll_once_def act_defs)
    then show ?thesis using q fire_fires [OF nf CODES_mem(2)] quiet_fires by blast
  next
    case True
    obtain y v where v: "poll_checks ops cfg u = (y, v)" by fastforce
    have c: "(quiet u v \<and> y \<noteq> Inr True) \<or> (fires u v \<and> y \<noteq> Inr False)" by (rule judgedD [OF judged_checks v nf])
    have t: "t = v \<or> (y = Inr False \<and> mirror_file ops cfg v = (r, t))"
      using assms u v True by (cases y) (auto simp: poll_once_def act_defs split: if_splits)
    from c show ?thesis
    proof (elim disjE conjE)
      assume "fires u v" "y \<noteq> Inr False"
      then show ?thesis using t quiet_fires [OF q] by blast
    next
      assume "quiet u v"
      then have sv: "quiet s v" by (rule quiet.follow [OF q])
      show ?thesis
      proof (cases "t = v")
        case False
        then have "quiet v t \<or> bumped v t" using t mirror_bumps by blast
        then show ?thesis using quiet.follow [OF sv] quiet_bumped [OF sv] by blast
      qed (simp add: sv)
    qed
  qed
qed

lemma bumped_polled: "bumped s t \<Longrightarrow> polled s t"
  unfolding bumped_def polled_def added_def by auto

lemma bumped_fires_polled: "bumped s t \<Longrightarrow> fires t u \<Longrightarrow> polled s u"
  unfolding bumped_def fires_def polled_def added_def
proof (elim conjE exE)
  fix x y code
  assume "wd_trace t = wd_trace s @ x" "exits x = []" "seqs x = [] \<or> seqs x = [wd_seq t]" "exits y = []" "seqs y = []" "code \<in> CODES"
    "wd_fired u" "wd_seq u = wd_seq t" "wd_seq t = wd_seq s + 1"
  note a = this
  assume "wd_trace u = wd_trace t @ y \<or> wd_trace u = wd_trace t @ y @ [Exited code]"
  then show "\<exists>tr. wd_trace u = wd_trace s @ tr \<and>
      (exits tr = [] \<or> wd_fired u \<and> (\<exists>tr' code. tr = tr' @ [Exited code] \<and> exits tr' = [] \<and> code \<in> CODES)) \<and>
      wd_seq s \<le> wd_seq u \<and> (seqs tr = [] \<or> wd_seq s < wd_seq u \<and> seqs tr = [wd_seq u])"
  proof (elim disjE)
    assume u: "wd_trace u = wd_trace t @ y"
    show ?thesis by (rule exI [of _ "x @ y"]) (use a u in auto)
  next
    assume u: "wd_trace u = wd_trace t @ y @ [Exited code]"
    show ?thesis
    proof (rule exI [of _ "x @ y @ [Exited code]"], intro conjI)
      show "exits (x @ y @ [Exited code]) = [] \<or> wd_fired u \<and>
          (\<exists>tr' code'. x @ y @ [Exited code] = tr' @ [Exited code'] \<and> exits tr' = [] \<and> code' \<in> CODES)"
        by (rule disjI2, intro conjI exI [of _ "x @ y"] exI [of _ code]) (use a in auto)
    qed (use a u in auto)
  qed
qed

lemma guarded_polled:
  assumes "\<not> wd_fired s" "guarded_poll ops cfg s = (r, t)"
  shows "polled s t"
proof -
  obtain x u where u: "poll_once ops cfg s = (x, u)" by fastforce
  have sp: "quiet s u \<or> bumped s u \<or> fires s u" by (rule poll_spec [OF assms(1) u])
  then have p: "polled s u" using quiet_polled bumped_polled fires_polled by blast
  have t: "t = u \<or> (\<exists>e y. wd_fire ops WATCHDOG_STALL_EXIT_CODE (Watchdog_Error e) u = (y, t))"
    using assms(2) u by (cases x) (auto simp: guarded_poll_def act_defs split: if_splits prod.splits sum.splits)
  show ?thesis
  proof (cases "t = u \<or> wd_fired u")
    case True
    then have "t = u" using t by (auto simp: wd_fire_effects)
    then show ?thesis using p by simp
  next
    case False
    then have "fires u t" using t fire_fires [OF _ CODES_mem(1)] by blast
    moreover have "quiet s u \<or> bumped s u" using False sp by (auto simp: fires_def)
    ultimately show ?thesis using quiet_fires fires_polled bumped_fires_polled by blast
  qed
qed

definition wd_inv :: "'w wdog \<Rightarrow> bool" where
  "wd_inv s \<longleftrightarrow> added (wd_trace s) (wd_fired s) \<and> sorted_wrt (<) (seqs (wd_trace s)) \<and> (\<forall>n \<in> set (seqs (wd_trace s)). n \<le> wd_seq s)"

lemma polled_inv:
  assumes "wd_inv s" "polled s t" "exits (wd_trace s) = []"
  shows "wd_inv t"
proof -
  obtain tr where tr: "wd_trace t = wd_trace s @ tr" "added tr (wd_fired t)" "wd_seq s \<le> wd_seq t"
    "seqs tr = [] \<or> (wd_seq s < wd_seq t \<and> seqs tr = [wd_seq t])" using assms(2) by (auto simp: polled_def)
  have "added (wd_trace t) (wd_fired t)" using tr(1,2) assms(3) unfolding added_def
  proof (elim disjE exE conjE)
    fix tr' code assume "tr = tr' @ [Exited code]" "exits tr' = []" "code \<in> CODES" "wd_fired t"
    then show "exits (wd_trace t) = [] \<or> wd_fired t \<and> (\<exists>tr' code. wd_trace t = tr' @ [Exited code] \<and> exits tr' = [] \<and> code \<in> CODES)"
      using tr(1) assms(3) by (intro disjI2 conjI exI [of _ "wd_trace s @ tr'"] exI [of _ code]) simp_all
  qed simp
  then show ?thesis using assms(1) tr(1,3,4) by (fastforce simp: wd_inv_def sorted_wrt_append)
qed

lemma disarm_polled:
  assumes "disarm_staleness_watch ops cfg s = (r, t)"
  shows "polled s t"
proof (cases "wd_armed s")
  case False
  then show ?thesis using assms by (auto simp: disarm_staleness_watch_def act_defs intro: quiet_polled quiet.stay)
next
  case True
  obtain x u where u: "wd_call (wo_clock ops) (s\<lparr>wd_armed := False\<rparr>) = (x, u)" by fastforce
  from moves_run [OF quiet_call u] obtain tr where tr: "wd_trace u = wd_trace s @ tr" "exits tr = []" "seqs tr = []" "wd_seq u = wd_seq s"
    by (auto simp: quiet_def)
  show ?thesis
  proof (cases x)
    case (Inl e)
    then have "t = u" using assms u True by (simp add: disarm_staleness_watch_def act_defs)
    then show ?thesis using tr by (simp add: polled_def added_def)
  next
    case (Inr now)
    then have "wd_emit ops (Staleness_Disarmed (wc_close_out_deadline cfg)) (u\<lparr>wd_close_out_started := Some now\<rparr>) = (r, t)"
      using assms u True by (simp add: disarm_staleness_watch_def act_defs)
    from moves_run [OF quiet_emit this] tr show ?thesis by (auto simp: quiet_def polled_def added_def)
  qed
qed

lemma reach_inv: "wd_reach ops cfg s \<Longrightarrow> wd_inv s \<and> (exits (wd_trace s) \<noteq> [] \<longrightarrow> wd_fired s)"
proof (induction rule: wd_reach.induct)
  case (start w s t)
  have "moves quiet (wd_arm ops cfg)"
    unfolding wd_arm_def Let_def by (intro quiet.moves_rules quiets)
  from moves_run [OF this start(2)] have "quiet s t" .
  moreover have "wd_trace s = []" "\<not> wd_fired s" using start(1) by (auto simp: wd_init_def rbind_Inr_iff)
  ultimately show ?case by (auto simp: quiet_def wd_inv_def added_def)
next
  case (world s w)
  then show ?case by (simp add: wd_inv_def)
next
  case (poll s r t)
  then have "exits (wd_trace s) = []" by blast
  then have "wd_inv t" using polled_inv [OF _ guarded_polled [OF poll(2,3)]] poll(4) by blast
  then show ?case by (auto simp: wd_inv_def added_def)
next
  case (disarm s r t)
  then have "wd_inv t" using polled_inv [OF _ disarm_polled [OF disarm(3)]] disarm(2) by blast
  then show ?case by (auto simp: wd_inv_def added_def)
qed

section \<open>Properties\<close>

text \<open>Neither the sink nor the registry unwinds the thread with a \<open>BaseException\<close>.\<close>

definition no_unwind :: "'w wd_ops \<Rightarrow> bool" where
  "no_unwind ops \<longleftrightarrow> (\<forall>w. fst (wo_ages ops w) \<noteq> Inl SystemExit) \<and>
     (case wo_emit ops of None \<Rightarrow> True | Some emit \<Rightarrow> \<forall>ev w. fst (emit ev w) \<noteq> Unwound)"

lemma safe_ages_runs:
  assumes "no_unwind ops"
  shows "\<exists>x u. safe_ages ops v = (Inr x, u) \<and> wd_trace u = wd_trace v \<and> wd_fired u = wd_fired v \<and> wd_armed u = wd_armed v \<and>
      wd_seq u = wd_seq v"
proof -
  obtain r w where r: "wo_ages ops (wd_world v) = (r, w)" by fastforce
  then have "r \<noteq> Inl SystemExit" using assms unfolding no_unwind_def by (metis fst_conv)
  then show ?thesis by (cases r) (simp_all add: safe_ages_def r as_effect_def best_effort_def)
qed

lemma emit_runs:
  assumes "no_unwind ops"
  shows "\<exists>u. wd_emit ops ev v = (Inr (), u) \<and> wd_fired u = wd_fired v \<and> wd_armed u = wd_armed v \<and> wd_seq u = wd_seq v \<and>
      wd_trace u = wd_trace v @ (if wo_emit ops = None then [] else [Emitted ev])"
proof (cases "wo_emit ops")
  case (Some emit)
  obtain e w where e: "emit ev (wd_world v) = (e, w)" by fastforce
  then have "e \<noteq> Unwound" using assms [unfolded no_unwind_def Some option.case] by (metis fst_conv)
  then show ?thesis by (cases e) (simp_all add: wd_emit_def Some e best_effort_def wd_note_def)
qed (simp add: wd_emit_def ret_def)

lemma bounded_runs:
  "\<exists>b u. wd_bounded label mark eff v = (Inr b, u) \<and> wd_fired u = wd_fired v \<and> wd_armed u = wd_armed v \<and>
      wd_seq u = wd_seq v \<and> wd_trace u = wd_trace v @ [mark]"
proof -
  obtain h w where h: "eff (wd_world v) = (h, w)" by fastforce
  show ?thesis
  proof (cases h)
    case (Finished e)
    obtain r c where "best_effort label e (wd_counts v) = (r, c)" by fastforce
    then show ?thesis by (simp add: wd_bounded_def h Finished wd_note_def)
  qed (rule exI [of _ False], simp add: wd_bounded_def h wd_note_def)
qed

lemma fire_runs:
  assumes "\<not> wd_fired s" "no_unwind ops"
  shows "\<exists>t ages counts ok. wd_fire ops code reason s = (Inr (), t) \<and> wd_fired t \<and>
    wd_trace t = wd_trace s
      @ (if wo_emit ops = None then [] else [Emitted (Watchdog_Fired reason code ages (wd_armed s) (wd_seq s))])
      @ [Snapshot_Tried]
      @ (if wo_emit ops = None then [] else [Emitted (Fire_Complete reason code ok counts)])
      @ (if wo_close ops = None then [] else [Close_Tried]) @ [Exited code]"
proof -
  let ?s = "s\<lparr>wd_fired := True\<rparr>"
  obtain x u1 where 1: "safe_ages ops ?s = (Inr x, u1)" "wd_trace u1 = wd_trace s" "wd_fired u1" "wd_armed u1 = wd_armed s" "wd_seq u1 = wd_seq s"
    using safe_ages_runs [OF assms(2), of ?s] by auto
  obtain u2 where 2: "wd_emit ops (Watchdog_Fired reason code x (wd_armed u1) (wd_seq u1)) u1 = (Inr (), u2)" "wd_fired u2 = wd_fired u1"
    "wd_trace u2 = wd_trace u1 @ (if wo_emit ops = None then [] else [Emitted (Watchdog_Fired reason code x (wd_armed u1) (wd_seq u1))])"
    using emit_runs [OF assms(2)] by blast
  obtain b u3 where 3: "wd_bounded ''watchdog_snapshot'' Snapshot_Tried (wo_snapshot ops) u2 = (Inr b, u3)" "wd_fired u3 = wd_fired u2"
    "wd_trace u3 = wd_trace u2 @ [Snapshot_Tried]" using bounded_runs by blast
  obtain u4 where 4: "wd_emit ops (Fire_Complete reason code b (wd_counts u3)) u3 = (Inr (), u4)" "wd_fired u4 = wd_fired u3"
    "wd_trace u4 = wd_trace u3 @ (if wo_emit ops = None then [] else [Emitted (Fire_Complete reason code b (wd_counts u3))])"
    using emit_runs [OF assms(2)] by blast
  obtain c u5 where 5: "(case wo_close ops of None \<Rightarrow> ret False | Some close \<Rightarrow> wd_bounded ''watchdog_sink_close'' Close_Tried close) u4 = (Inr c, u5)"
    "wd_fired u5 = wd_fired u4" "wd_trace u5 = wd_trace u4 @ (if wo_close ops = None then [] else [Close_Tried])"
  proof (cases "wo_close ops")
    case None
    then show thesis by (intro that [of False u4]) (simp_all add: ret_def)
  next
    case (Some close)
    from bounded_runs [of "''watchdog_sink_close''" Close_Tried close u4] show thesis using that by (auto simp: Some)
  qed
  have "fire_effects ops code reason ?s = (Inr c, u5)"
    by (simp add: fire_effects_def act_defs 1(1) 2(1) 3(1) 4(1) 5(1))
  then have "wd_fire ops code reason s = (Inr (), wd_note (Exited code) u5)" using assms(1) by (simp add: wd_fire_effects)
  then show ?thesis using 1 2 3 4 5
    by (intro exI [of _ "wd_note (Exited code) u5"] exI [of _ x] exI [of _ "wd_counts u3"] exI [of _ b]) (simp add: wd_note_def)
qed

text \<open>C7: The watchdog fires at most once: however its collaborators behave, and whenever the main thread
  disarms it, the process exits at most once, with 42, 43 or 45, as the thread's last effect; nothing is
  emitted or mirrored after it; and the sequence numbers mirrored to the heartbeat file strictly increase,
  so the supervisor never sees one go back.\<close>

theorem watchdog_fires_once:
  assumes "wd_reach ops cfg s"
  shows "(case exits (wd_trace s) of [] \<Rightarrow> True
      | code # rest \<Rightarrow> rest = [] \<and> code \<in> {42, 43, 45} \<and> wd_fired s \<and> last (wd_trace s) = Exited code) \<and>
    sorted_wrt (<) (seqs (wd_trace s)) \<and> (\<forall>n \<in> set (seqs (wd_trace s)). n \<le> wd_seq s)"
proof -
  have "wd_inv s" using reach_inv [OF assms] by blast
  then show ?thesis by (auto simp: wd_inv_def added_def CODES_def exit_codes)
qed

definition demo_wd_cfg :: wd_cfg where
  "demo_wd_cfg = \<lparr>wc_sources = [''train_step''], wc_deadlines = [(''train_step'', Fin 10)], wc_wired = [''train_step''],
     wc_file_interval = Fin 0, wc_close_out_deadline = Fin 100, wc_lag = None\<rparr>"

text \<open>A world that is a clock; the sink raises, the snapshot hangs.\<close>

definition demo_wd_ops :: "real wd_ops" where
  "demo_wd_ops = \<lparr>wo_persist_errors = ret 0, wo_clock = gets id, wo_learner_step = ret 0, wo_actor_step = ret 0,
     wo_ages = gets (\<lambda>now. [(''train_step'', now)]), wo_beaten = Some (ret []), wo_arm = None, wo_monitors = [],
     wo_emit = Some (\<lambda>ev w. (Failed OSError, w)), wo_close = Some (\<lambda>w. (Hung, w)), wo_snapshot = (\<lambda>w. (Hung, w)),
     wo_write = (\<lambda>j w. (Done (), w)), wo_pid = 7, wo_wall = ret 0, wo_stopped = (\<lambda>_. False), wo_wait = id\<rparr>"

definition demo_wd :: "real \<Rightarrow> real wdog" where
  "demo_wd w = \<lparr>wd_monitor_seen = [], wd_monitor_stalled = [], wd_last_monitor_sample = None, wd_lag_latched = False,
     wd_lag_negative = False, wd_counts = [], wd_armed = True, wd_close_out_started = None, wd_unwired_warned = [],
     wd_fired = False, wd_seq = 0, wd_last_file_write = None, wd_last_lag_sample = None, wd_trace = [], wd_world = w\<rparr>"

lemmas wd_defs = poll_once_def poll_checks_def check_monitor_liveness_def check_actor_lag_def check_source_staleness_def
  beaten_sources_def mirror_file_def mirror_early_def write_mirror_def wd_fire_def wd_emit_def wd_bounded_def safe_ages_def
  as_effect_def wd_call_def wd_note_def best_effort_def be_increment_def act_defs

lemma demo_wd_no_unwind: "no_unwind demo_wd_ops"
  by (simp add: no_unwind_def demo_wd_ops_def gets_def)

lemma demo_wd_arm:
  "\<exists>a. wd_arm demo_wd_ops demo_wd_cfg (demo_wd 20) = (Inr (), a) \<and> \<not> wd_fired a \<and> wd_armed a \<and> wd_world a = 20 \<and> exits (wd_trace a) = []"
  by (simp add: wd_arm_def beaten_sources_def wd_emit_def wd_note_def wd_call_def best_effort_def act_defs Let_def demo_wd_ops_def demo_wd_def)

lemma demo_wd_poll:
  assumes "\<not> wd_fired a" "wd_armed a" "wd_world a = 20"
  shows "guarded_poll demo_wd_ops demo_wd_cfg a =
    (case wd_fire demo_wd_ops 42 (Heartbeat_Stale ''train_step'' 20 (Fin 10)) a of (Inl e, t) \<Rightarrow>
        (if e = SystemExit then (Inl e, t) else
           case wd_fire demo_wd_ops 42 (Watchdog_Error e) t of (Inl e, t) \<Rightarrow> (Inl e, t) | (Inr _, t) \<Rightarrow> (Inr False, t))
      | (Inr _, t) \<Rightarrow> (Inr True, t))"
proof -
  have same: "a\<lparr>wd_world := 20\<rparr> = a" using assms(3) by (cases a) simp
  show ?thesis
    by (simp add: guarded_poll_def poll_once_def poll_checks_def check_monitor_liveness_def check_actor_lag_def
        check_source_staleness_def beaten_sources_def wd_call_def act_defs assms same deadline_of_def dget_def exit_codes
        demo_wd_cfg_def Let_def demo_wd_ops_def [THEN arg_cong [where f = wo_persist_errors]]
        demo_wd_ops_def [THEN arg_cong [where f = wo_ages]] demo_wd_ops_def [THEN arg_cong [where f = wo_beaten]]
        demo_wd_ops_def [THEN arg_cong [where f = wo_monitors]] split: prod.split sum.split)
qed

lemma demo_wd_run:
  "\<exists>a t. wd_arm demo_wd_ops demo_wd_cfg (demo_wd 20) = (Inr (), a) \<and> \<not> wd_fired a \<and>
     guarded_poll demo_wd_ops demo_wd_cfg a = (Inr True, t) \<and> exits (wd_trace t) = [42]"
proof -
  obtain a where a: "wd_arm demo_wd_ops demo_wd_cfg (demo_wd 20) = (Inr (), a)" "\<not> wd_fired a" "wd_armed a" "wd_world a = 20"
    "exits (wd_trace a) = []" using demo_wd_arm by blast
  from fire_runs [OF a(2) demo_wd_no_unwind, of 42 "Heartbeat_Stale ''train_step'' 20 (Fin 10)"]
  obtain t where t: "wd_fire demo_wd_ops 42 (Heartbeat_Stale ''train_step'' 20 (Fin 10)) a = (Inr (), t)" "exits (wd_trace t) = [42]"
    using a(5) by (auto split: if_splits)
  then have "guarded_poll demo_wd_ops demo_wd_cfg a = (Inr True, t)" by (simp add: demo_wd_poll [OF a(2-4)])
  then show ?thesis using a(1,2) t(2) by blast
qed

theorem watchdog_fires_once_witness:
  "\<exists>s. wd_reach demo_wd_ops demo_wd_cfg s \<and> exits (wd_trace s) = [42] \<and> last (wd_trace s) = Exited 42"
proof -
  obtain a t where a: "wd_arm demo_wd_ops demo_wd_cfg (demo_wd 20) = (Inr (), a)" and t: "\<not> wd_fired a"
    "guarded_poll demo_wd_ops demo_wd_cfg a = (Inr True, t)" "exits (wd_trace t) = [42]" using demo_wd_run by blast
  have "wd_init demo_wd_cfg (20 :: real) = Inr (demo_wd 20)"
    by (simp add: wd_init_def wd_check_def demo_wd_cfg_def demo_wd_def)
  then have "wd_reach demo_wd_ops demo_wd_cfg a" using a by (rule wd_reach.start)
  then have rt: "wd_reach demo_wd_ops demo_wd_cfg t" using t(1,2) by (rule wd_reach.poll)
  from watchdog_fires_once [OF rt] rt t(3) show ?thesis by auto
qed



section \<open>The verdict of a poll\<close>

text \<open>Collaborators that only read: the readings are functions of the world, and nothing changes it.\<close>

record 'w readings =
  rd_errors :: "'w \<Rightarrow> int"
  rd_now :: "'w \<Rightarrow> real"
  rd_learner :: "'w \<Rightarrow> int"
  rd_actor :: "'w \<Rightarrow> int"
  rd_ages :: "'w \<Rightarrow> (string, real) dict"
  rd_beaten :: "'w \<Rightarrow> string list"

definition reads :: "'w wd_ops \<Rightarrow> 'w readings \<Rightarrow> bool" where
  "reads ops rd \<longleftrightarrow> wo_persist_errors ops = gets (rd_errors rd) \<and> wo_clock ops = gets (rd_now rd) \<and>
     wo_learner_step ops = gets (rd_learner rd) \<and> wo_actor_step ops = gets (rd_actor rd) \<and> wo_ages ops = gets (rd_ages rd) \<and>
     wo_beaten ops = Some (gets (rd_beaten rd)) \<and> (\<forall>(n, f) \<in> set (wo_monitors ops). \<exists>g. f = gets g) \<and>
     (case wo_emit ops of None \<Rightarrow> True | Some emit \<Rightarrow> \<forall>ev w. \<exists>e. emit ev w = (e, w) \<and> e \<noteq> Unwound)"

fun first_stale :: "wd_cfg \<Rightarrow> (string, real) dict \<Rightarrow> string list \<Rightarrow> string list \<Rightarrow> string option" where
  "first_stale cfg ages beaten [] = None"
| "first_stale cfg ages beaten (s # ss) =
     (if pf_less (Fin 0) (deadline_of cfg s) \<and> (s \<in> set (wc_wired cfg) \<or> s \<in> set beaten) \<and> pf_le (deadline_of cfg s) (Fin (dget ages s 0))
      then Some s else first_stale cfg ages beaten ss)"

definition lag_fires :: "wd_cfg \<Rightarrow> int \<Rightarrow> bool" where
  "lag_fires cfg lag = (case wc_lag cfg of Some (threshold, True) \<Rightarrow> 0 \<le> lag \<and> threshold < lag | _ \<Rightarrow> False)"

text \<open>The exit code a poll owes: storage faults first, then - while staleness is armed - the actor's lag and
  the first source past its deadline, and during a close-out its overrun alone.\<close>

definition watchdog_verdict :: "wd_cfg \<Rightarrow> 'w readings \<Rightarrow> bool \<Rightarrow> real option \<Rightarrow> 'w \<Rightarrow> int option" where
  "watchdog_verdict cfg rd armed started w =
     (if 0 < rd_errors rd w then Some 43
      else if armed then
        (if lag_fires cfg (rd_learner rd w - rd_actor rd w) then Some 45
         else if first_stale cfg (rd_ages rd w) (rd_beaten rd w) (wc_sources cfg) \<noteq> None then Some 42 else None)
      else case started of None \<Rightarrow> None
        | Some t0 \<Rightarrow> if pf_less (Fin 0) (wc_close_out_deadline cfg) \<and> pf_le (wc_close_out_deadline cfg) (Fin (rd_now rd w - t0))
            then Some 42 else None)"

lemma reads_no_unwind: "reads ops rd \<Longrightarrow> no_unwind ops"
  unfolding reads_def no_unwind_def by (auto simp: gets_def split: option.splits) (metis fst_conv)+

lemma call_gets [simp]: "abind (wd_call (gets g)) f s = f (g (wd_world s)) s"
  by (simp add: abind_def wd_call_def gets_def)

definition still :: "('w wdog, 'a) act \<Rightarrow> 'w wdog \<Rightarrow> bool" where
  "still m s \<longleftrightarrow> (\<exists>a t. m s = (Inr a, t) \<and> quiet s t \<and> wd_world t = wd_world s)"

definition decides :: "('w wdog, bool) act \<Rightarrow> 'w wdog \<Rightarrow> int option \<Rightarrow> bool" where
  "decides m s c \<longleftrightarrow> (\<exists>t. m s = (Inr (c \<noteq> None), t) \<and> (case c of
      None \<Rightarrow> quiet s t \<and> wd_world t = wd_world s
    | Some code \<Rightarrow> wd_fired t \<and> exits (wd_trace t) = exits (wd_trace s) @ [code]))"

lemma quiet_exits: "quiet s t \<Longrightarrow> exits (wd_trace t) = exits (wd_trace s)"
  by (auto simp: quiet_def)

lemma still_bind: "still m s \<Longrightarrow> (\<And>a t. quiet s t \<Longrightarrow> wd_world t = wd_world s \<Longrightarrow> still (f a) t) \<Longrightarrow> still (abind m f) s"
  unfolding still_def by (auto simp: abind_def) (metis quiet.follow)

lemma decides_bind:
  assumes "still m s" "\<And>a t. quiet s t \<Longrightarrow> wd_world t = wd_world s \<Longrightarrow> decides (f a) t c"
  shows "decides (abind m f) s c"
proof -
  obtain a t where t: "m s = (Inr a, t)" "quiet s t" "wd_world t = wd_world s" using assms(1) by (auto simp: still_def)
  with assms(2) have "decides (f a) t c" by blast
  then show ?thesis using t quiet.follow [OF t(2)] quiet_exits [OF t(2)]
    by (auto simp: decides_def abind_def split: option.splits)
qed

lemma still_ret: "still (ret a) s"
  and still_gets: "still (gets h) s"
  by (simp_all add: still_def ret_def gets_def quiet.stay)

lemma still_modify: "quiet s (h s) \<Longrightarrow> wd_world (h s) = wd_world s \<Longrightarrow> still (modify h) s"
  by (simp add: still_def modify_def)

lemma still_emit: "reads ops rd \<Longrightarrow> still (wd_emit ops ev) s"
  unfolding still_def
proof (cases "wo_emit ops")
  case (Some emit)
  assume "reads ops rd"
  then obtain e where e: "emit ev (wd_world s) = (e, wd_world s)" "e \<noteq> Unwound" unfolding reads_def Some by fastforce
  then obtain u where "wd_emit ops ev s = (Inr (), u)" "wd_world u = wd_world s"
    by (cases e) (simp_all add: wd_emit_def Some best_effort_def wd_note_def)
  then show "\<exists>a t. wd_emit ops ev s = (Inr a, t) \<and> quiet s t \<and> wd_world t = wd_world s"
    using moves_run [OF quiet_emit] by blast
qed (simp add: wd_emit_def ret_def quiet.stay)

lemma still_call: "still (wd_call (gets g)) s"
  by (simp add: still_def wd_call_def gets_def quiet.stay)

lemma still_if: "(b \<Longrightarrow> still m s) \<Longrightarrow> (\<not> b \<Longrightarrow> still n s) \<Longrightarrow> still (if b then m else n) s"
  by simp

lemma still_option: "still m s \<Longrightarrow> (\<And>a. still (f a) s) \<Longrightarrow> still (case x of None \<Rightarrow> m | Some a \<Rightarrow> f a) s"
  by (cases x) simp_all

lemma still_prod: "(\<And>a b. still (f a b) s) \<Longrightarrow> still (case x of (a, b) \<Rightarrow> f a b) s"
  by (cases x) simp

lemmas still_rules = still_bind still_ret still_gets still_emit still_call still_if

lemma still_judge_monitor: "reads ops rd \<Longrightarrow> still (judge_monitor ops now name m) s"
  unfolding judge_monitor_def note_recovered_def note_stalled_def Let_def
  by (intro still_rules still_modify quiet_same; simp)

lemma still_judge_monitors:
  "reads ops rd \<Longrightarrow> \<forall>(n, f) \<in> set specs. \<exists>g. f = gets g \<Longrightarrow> still (judge_monitors ops now specs) s"
proof (induction specs arbitrary: s)
  case (Cons p specs)
  obtain name g where p: "p = (name, gets g)" using Cons.prems(2) by (cases p) auto
  have "still (judge_monitors ops now specs) u" for u using Cons by auto
  then show ?case unfolding p judge_monitors.simps
    by (intro still_bind [OF still_call] still_option still_bind [OF still_judge_monitor [OF Cons.prems(1)]] still_bind still_ret)
qed (simp add: still_ret)

lemma still_sampled: "reads ops rd \<Longrightarrow> (\<And>s. quiet s (h s)) \<Longrightarrow> (\<And>s. wd_world (h s) = wd_world s) \<Longrightarrow>
    still (abind (gets f) (\<lambda>(now_due, ev). if now_due then abind (modify h) (\<lambda>_. wd_emit ops ev) else ret ())) s"
  by (intro still_bind [OF still_gets] still_prod still_if still_bind [OF still_modify] still_emit still_ret)

lemma still_liveness: "reads ops rd \<Longrightarrow> still (check_monitor_liveness ops cfg) s"
proof -
  assume r: "reads ops rd"
  then have c: "wo_clock ops = gets (rd_now rd)" and m: "\<forall>(n, f) \<in> set (wo_monitors ops). \<exists>g. f = gets g"
    by (simp_all add: reads_def)
  show ?thesis unfolding check_monitor_liveness_def c
    by (intro still_if still_ret still_bind [OF still_call] still_bind [OF still_judge_monitors [OF r m]] still_sampled [OF r])
      (simp_all add: quiet_same)
qed

lemma still_sample_lag: "reads ops rd \<Longrightarrow> still (sample_lag ops cfg learner actor threshold) s"
proof -
  assume r: "reads ops rd"
  then have c: "wo_clock ops = gets (rd_now rd)" by (simp add: reads_def)
  show ?thesis unfolding sample_lag_def c
    by (intro still_bind [OF still_call] still_sampled [OF r]) (simp_all add: quiet_same)
qed

lemma still_warn: "reads ops rd \<Longrightarrow> still (warn_unwired ops source age deadline) s"
  unfolding warn_unwired_def
  by (intro still_bind [OF still_gets] still_if still_ret still_bind [OF still_modify] still_emit) (simp_all add: quiet_same)

lemma decides_no: "still m s \<Longrightarrow> decides (abind m (\<lambda>_. ret False)) s None"
  by (rule decides_bind) (simp_all add: decides_def ret_def quiet.stay)

lemma decides_ret: "decides (ret False) s None"
  by (simp add: decides_def ret_def quiet.stay)

lemma decides_fire:
  assumes "reads ops rd" "\<not> wd_fired s"
  shows "decides (abind (wd_fire ops code reason) (\<lambda>_. ret True)) s (Some code)"
proof -
  obtain t where t: "wd_fire ops code reason s = (Inr (), t)" "wd_fired t" "exits (wd_trace t) = exits (wd_trace s) @ [code]"
    using fire_runs [OF assms(2) reads_no_unwind [OF assms(1)], of code reason] by (auto split: if_splits)
  then show ?thesis by (simp add: decides_def abind_def ret_def)
qed

lemma decides_lag:
  assumes r: "reads ops rd" and s: "\<not> wd_fired s"
  shows "decides (check_actor_lag ops cfg) s
    (if lag_fires cfg (rd_learner rd (wd_world s) - rd_actor rd (wd_world s)) then Some 45 else None)"
proof (cases "wc_lag cfg")
  case None
  then show ?thesis by (simp add: check_actor_lag_def decides_ret lag_fires_def)
next
  case (Some p)
  obtain threshold enabled where p: "p = (threshold, enabled)" by fastforce
  define learner actor where d: "learner = rd_learner rd (wd_world s)" "actor = rd_actor rd (wd_world s)"
  have calls: "wo_learner_step ops = gets (rd_learner rd)" "wo_actor_step ops = gets (rd_actor rd)" using r by (simp_all add: reads_def)
  have "decides (judge_lag ops learner actor threshold enabled) t (if enabled \<and> 0 \<le> learner - actor \<and> threshold < learner - actor then Some 45 else None)"
    if "\<not> wd_fired t" for t
  proof -
    have exceed: "decides (abind (wd_fire ops ACTOR_LAG_EXIT_CODE (Actor_Lag_Exceeded learner actor threshold)) (\<lambda>_. ret True)) t (Some 45)"
      using decides_fire [OF r that, of 45] by (simp add: ACTOR_LAG_EXIT_CODE_def)
    have once: "decides (abind (gets h) (\<lambda>done. if done then ret False else abind (modify k) (\<lambda>_. abind (wd_emit ops ev) (\<lambda>_. ret False)))) t None"
      if "\<And>s. quiet s (k s)" "\<And>s. wd_world (k s) = wd_world s" for h k ev
      by (intro decides_bind [OF still_gets]) (auto intro!: decides_ret decides_bind [OF still_modify] decides_no still_emit [OF r] that)
    have clear: "decides (abind (modify (\<lambda>s. s\<lparr>wd_lag_latched := False\<rparr>)) (\<lambda>_. ret False)) t None"
      by (intro decides_no still_modify) (simp_all add: quiet_same)
    consider "learner - actor < 0" | "0 \<le> learner - actor" "learner - actor > threshold" "enabled"
      | "0 \<le> learner - actor" "learner - actor > threshold" "\<not> enabled" | "0 \<le> learner - actor" "\<not> learner - actor > threshold"
      by linarith
    then show ?thesis
      by cases (use exceed clear once in \<open>simp_all add: judge_lag_def Let_def quiet_same\<close>)
  qed
  then have "decides (abind (sample_lag ops cfg learner actor threshold) (\<lambda>_. judge_lag ops learner actor threshold enabled)) s
      (if enabled \<and> 0 \<le> learner - actor \<and> threshold < learner - actor then Some 45 else None)"
    using s by (intro decides_bind [OF still_sample_lag [OF r]]) (simp add: quiet_def)
  moreover have "lag_fires cfg (learner - actor) = (enabled \<and> 0 \<le> learner - actor \<and> threshold < learner - actor)"
    using Some by (cases enabled) (simp_all add: lag_fires_def p)
  ultimately show ?thesis using Some by (simp add: check_actor_lag_def p calls decides_def flip: d)
qed

lemma decides_scan:
  "reads ops rd \<Longrightarrow> \<not> wd_fired s \<Longrightarrow>
     decides (stale_scan ops cfg ages beaten sources) s (if first_stale cfg ages beaten sources \<noteq> None then Some 42 else None)"
proof (induction sources arbitrary: s)
  case Nil
  then show ?case by (simp add: decides_ret)
next
  case (Cons x xs)
  let ?d = "deadline_of cfg x" and ?age = "dget ages x 0"
  have fire: "decides (abind (wd_fire ops WATCHDOG_STALL_EXIT_CODE (Heartbeat_Stale x ?age ?d)) (\<lambda>_. ret True)) s (Some 42)"
    using decides_fire [OF Cons.prems, of 42] by (simp add: WATCHDOG_STALL_EXIT_CODE_def)
  have warn: "decides (abind (warn_unwired ops x ?age ?d) (\<lambda>_. stale_scan ops cfg ages beaten xs)) s
      (if first_stale cfg ages beaten xs \<noteq> None then Some 42 else None)"
    by (intro decides_bind [OF still_warn [OF Cons.prems(1)]] Cons.IH Cons.prems(1)) (use Cons.prems(2) in \<open>simp add: quiet_def\<close>)
  have pf: "pf_le ?d (Fin 0) \<longleftrightarrow> \<not> pf_less (Fin 0) ?d" if "?d \<noteq> NaN" using that by (cases ?d) auto
  show ?case
    using fire warn pf Cons.IH [OF Cons.prems] by (cases "?d = NaN") (auto simp: Let_def)
qed

lemma decides_overrun:
  assumes r: "reads ops rd" and s: "\<not> wd_fired s"
  shows "decides (check_close_out_overrun ops cfg) s (case wd_close_out_started s of None \<Rightarrow> None
    | Some t0 \<Rightarrow> if pf_less (Fin 0) (wc_close_out_deadline cfg) \<and> pf_le (wc_close_out_deadline cfg) (Fin (rd_now rd (wd_world s) - t0))
        then Some 42 else None)"
proof -
  have c: "wo_clock ops = gets (rd_now rd)" using r by (simp add: reads_def)
  have fire: "decides (abind (wd_fire ops WATCHDOG_STALL_EXIT_CODE reason) (\<lambda>_. ret True)) s (Some 42)" for reason
    using decides_fire [OF r s, of 42] by (simp add: WATCHDOG_STALL_EXIT_CODE_def)
  have nan: "pf_le x (Fin 0) \<longleftrightarrow> \<not> pf_less (Fin 0) x" if "x \<noteq> NaN" for x using that by (cases x) auto
  have "decides (check_close_out_overrun ops cfg) s = decides ((case wd_close_out_started s of None \<Rightarrow> ret False
      | Some t0 \<Rightarrow> if pf_le (wc_close_out_deadline cfg) (Fin 0) then ret False
          else if pf_le (wc_close_out_deadline cfg) (Fin (rd_now rd (wd_world s) - t0))
          then abind (wd_fire ops WATCHDOG_STALL_EXIT_CODE (Close_Out_Timeout (rd_now rd (wd_world s) - t0) (wc_close_out_deadline cfg))) (\<lambda>_. ret True)
          else ret False)) s"
    by (intro ext) (simp add: decides_def check_close_out_overrun_def c abind_def [of "gets _"] gets_def [of wd_close_out_started] split: option.split)
  then show ?thesis using fire nan decides_ret [of s]
    by (cases "wc_close_out_deadline cfg = NaN") (auto split: option.split)
qed

lemma decides_then:
  assumes "decides m s c" "\<And>t. quiet s t \<Longrightarrow> wd_world t = wd_world s \<Longrightarrow> decides n t d"
  shows "decides (abind m (\<lambda>fired. if fired then ret True else n)) s (case c of None \<Rightarrow> d | Some x \<Rightarrow> Some x)"
proof (cases c)
  case None
  then obtain t where t: "m s = (Inr False, t)" "quiet s t" "wd_world t = wd_world s" using assms(1) by (auto simp: decides_def)
  from assms(2) [OF t(2,3)] t show ?thesis using quiet.follow [OF t(2)] quiet_exits [OF t(2)]
    by (auto simp: decides_def abind_def None split: option.splits)
next
  case (Some x)
  then show ?thesis using assms(1) by (auto simp: decides_def abind_def ret_def)
qed

lemma decides_checks:
  assumes r: "reads ops rd" and s: "\<not> wd_fired s" and e: "\<not> 0 < rd_errors rd (wd_world s)"
  shows "decides (poll_checks ops cfg) s (watchdog_verdict cfg rd (wd_armed s) (wd_close_out_started s) (wd_world s))"
proof (cases "wd_armed s")
  case False
  then show ?thesis using decides_overrun [OF r s, of cfg] e
    by (simp add: poll_checks_def abind_def [of "gets _"] gets_def decides_def watchdog_verdict_def)
next
  case True
  let ?w = "wd_world s"
  have b: "wo_ages ops = gets (rd_ages rd)" "wo_beaten ops = Some (gets (rd_beaten rd))" using r by (simp_all add: reads_def)
  have scan: "decides (check_source_staleness ops cfg) t (if first_stale cfg (rd_ages rd ?w) (rd_beaten rd ?w) (wc_sources cfg) \<noteq> None then Some 42 else None)"
    if "\<not> wd_fired t" "wd_world t = ?w" for t
    using decides_scan [OF r that(1), of cfg "rd_ages rd ?w" "rd_beaten rd ?w" "wc_sources cfg"] that(2)
    by (simp add: check_source_staleness_def beaten_sources_def b decides_def)
  have "decides (abind (check_actor_lag ops cfg) (\<lambda>fired. if fired then ret True else check_source_staleness ops cfg)) t
      (watchdog_verdict cfg rd True (wd_close_out_started s) ?w)" if t: "quiet s t" "wd_world t = ?w" for t
  proof -
    have nf: "\<not> wd_fired t" using t(1) s by (simp add: quiet_def)
    have "decides (abind (check_actor_lag ops cfg) (\<lambda>fired. if fired then ret True else check_source_staleness ops cfg)) t
        (case (if lag_fires cfg (rd_learner rd (wd_world t) - rd_actor rd (wd_world t)) then Some 45 else None) of
           None \<Rightarrow> if first_stale cfg (rd_ages rd ?w) (rd_beaten rd ?w) (wc_sources cfg) \<noteq> None then Some 42 else None
         | Some x \<Rightarrow> Some x)"
      by (rule decides_then [OF decides_lag [OF r nf] scan]) (use nf t in \<open>auto simp: quiet_def\<close>)
    then show ?thesis using e t(2) by (simp add: watchdog_verdict_def split: if_splits)
  qed
  from decides_bind [OF still_liveness [OF r] this] True show ?thesis
    by (simp add: poll_checks_def abind_def [of "gets _"] gets_def decides_def)
qed

text \<open>C4: A poll fires exactly when its readings say so: with collaborators that only read, one poll of a
  watchdog that has not fired exits with 43 if a storage error was counted; else, while staleness is armed,
  with 45 if the enabled lag bound is exceeded, else with 42 if some enabled source - declared, or beaten
  once - has reached its deadline; else, during a close-out, with 42 if that has overrun; and in every
  other case it does not fire.\<close>

theorem watchdog_fires_exactly:
  assumes r: "reads ops rd" and s: "\<not> wd_fired s" and run: "poll_once ops cfg s = (x, t)"
  shows "exits (wd_trace t) = exits (wd_trace s) @
      (case watchdog_verdict cfg rd (wd_armed s) (wd_close_out_started s) (wd_world s) of None \<Rightarrow> [] | Some code \<Rightarrow> [code]) \<and>
    wd_fired t = (watchdog_verdict cfg rd (wd_armed s) (wd_close_out_started s) (wd_world s) \<noteq> None)"
proof -
  have p: "wo_persist_errors ops = gets (rd_errors rd)" using r by (simp add: reads_def)
  show ?thesis
  proof (cases "0 < rd_errors rd (wd_world s)")
    case True
    then have "wd_fire ops 43 (Persist_Fatal (rd_errors rd (wd_world s))) s = (x, t)"
      using run s by (simp add: poll_once_def p abind_def [of "gets _"] gets_def [of wd_fired] PERSIST_FATAL_EXIT_CODE_def)
    then show ?thesis using fire_runs [OF s reads_no_unwind [OF r], of 43 "Persist_Fatal (rd_errors rd (wd_world s))"] True
      by (auto simp: watchdog_verdict_def split: if_splits)
  next
    case False
    let ?v = "watchdog_verdict cfg rd (wd_armed s) (wd_close_out_started s) (wd_world s)"
    from decides_checks [OF r s False, of cfg] obtain u where u: "poll_checks ops cfg s = (Inr (?v \<noteq> None), u)"
      "case ?v of None \<Rightarrow> quiet s u \<and> wd_world u = wd_world s
        | Some code \<Rightarrow> wd_fired u \<and> exits (wd_trace u) = exits (wd_trace s) @ [code]" by (auto simp: decides_def)
    have run': "(if ?v \<noteq> None then (Inr (), u) else mirror_file ops cfg u) = (x, t)"
      using run s False u(1) by (cases ?v) (auto simp: poll_once_def p abind_def [of "gets _"] gets_def [of wd_fired]
        abind_def [of "poll_checks ops cfg"] ret_def)
    show ?thesis
    proof (cases ?v)
      case None
      then have m: "mirror_file ops cfg u = (x, t)" "quiet s u" using run' u(2) by simp_all
      from mirror_bumps [OF m(1)] have "quiet s t \<or> bumped s t" using m(2) quiet.follow quiet_bumped by blast
      then show ?thesis using None s by (auto simp: quiet_def bumped_def)
    next
      case (Some code)
      then show ?thesis using run' u(2) by simp
    qed
  qed
qed

definition demo_readings :: "real readings" where
  "demo_readings = \<lparr>rd_errors = (\<lambda>_. 0), rd_now = id, rd_learner = (\<lambda>_. 0), rd_actor = (\<lambda>_. 0),
     rd_ages = (\<lambda>now. [(''train_step'', now)]), rd_beaten = (\<lambda>_. [])\<rparr>"

lemma demo_reads: "reads demo_wd_ops demo_readings"
  by (auto simp: reads_def demo_wd_ops_def demo_readings_def ret_def gets_def)

theorem watchdog_fires_exactly_witness:
  "\<exists>x t y u. poll_once demo_wd_ops demo_wd_cfg (demo_wd 9) = (x, t) \<and> exits (wd_trace t) = [] \<and>
     poll_once demo_wd_ops demo_wd_cfg (demo_wd 10) = (y, u) \<and> exits (wd_trace u) = [42]"
proof -
  obtain x t where t: "poll_once demo_wd_ops demo_wd_cfg (demo_wd 9) = (x, t)" by fastforce
  obtain y u where u: "poll_once demo_wd_ops demo_wd_cfg (demo_wd 10) = (y, u)" by fastforce
  have v: "watchdog_verdict demo_wd_cfg demo_readings (wd_armed (demo_wd w)) (wd_close_out_started (demo_wd w)) (wd_world (demo_wd w)) =
      (if w \<ge> 10 then Some 42 else None)" for w
    by (simp add: watchdog_verdict_def lag_fires_def demo_readings_def demo_wd_cfg_def demo_wd_def deadline_of_def dget_def)
  have "\<not> wd_fired (demo_wd w)" "wd_trace (demo_wd w) = []" for w by (simp_all add: demo_wd_def)
  then have "exits (wd_trace t) = []" "exits (wd_trace u) = [42]"
    using watchdog_fires_exactly [OF demo_reads _ t] watchdog_fires_exactly [OF demo_reads _ u] by (simp_all add: v)
  then show ?thesis using t u by blast
qed

end
