(* ===== verification/Served_Graphs.thy ===== *)
theory Served_Graphs
  imports Prelude
begin

text \<open>
  The padded shapes the inference server replays (\<open>src/mantis/selfplay/served_graphs.py\<close>): the ladder of
  buckets from the fused-graph caps down, whose construction is a loop without a bound of its own, and the
  choice of a bucket for a part.  The float ratio 1.25 and its powers are exact reals.
\<close>

section \<open>Buckets\<close>

definition RATIO :: real where "RATIO = 5 / 4"
definition PAD_EDGES_PER_SINK :: int where "PAD_EDGES_PER_SINK = 256"

record bucket =
  bk_graphs :: int
  bk_nodes :: int
  bk_edges :: int
  bk_legal :: int

definition holds_part :: "int \<Rightarrow> int \<Rightarrow> int \<Rightarrow> bucket \<Rightarrow> bool" where
  "holds_part n_graphs n_nodes n_edges b \<longleftrightarrow> n_graphs < bk_graphs b \<and> n_nodes < bk_nodes b \<and> n_edges \<le> bk_edges b \<and>
     bk_edges b - n_edges \<le> (bk_nodes b - n_nodes) * PAD_EDGES_PER_SINK"

definition bucket_of :: "bucket list \<Rightarrow> int \<Rightarrow> int \<Rightarrow> int \<Rightarrow> bucket option" where
  "bucket_of ladder n_graphs n_nodes n_edges = find (holds_part n_graphs n_nodes n_edges) ladder"

definition scaled :: "int \<Rightarrow> nat \<Rightarrow> int" where
  "scaled cap k = \<lceil>real_of_int cap / RATIO ^ k\<rceil>"

definition rung :: "int \<Rightarrow> int \<Rightarrow> int \<Rightarrow> nat \<Rightarrow> bucket" where
  "rung max_nodes max_edges batch_size k = \<lparr>bk_graphs = batch_size + 1, bk_nodes = scaled max_nodes k + 1,
     bk_edges = scaled max_edges k, bk_legal = scaled max_nodes k + 1\<rparr>"

partial_function (option) bucket_loop :: "int \<Rightarrow> int \<Rightarrow> int \<Rightarrow> int \<Rightarrow> bucket list \<Rightarrow> bucket list option" where
  "bucket_loop max_nodes max_edges batch_size floor_nodes rungs =
     (if rungs \<noteq> [] \<and> scaled max_nodes (length rungs) < floor_nodes then Some (rev rungs)
      else bucket_loop max_nodes max_edges batch_size floor_nodes
             (rungs @ [rung max_nodes max_edges batch_size (length rungs)]))"

definition bucket_ladder :: "int \<Rightarrow> int \<Rightarrow> int \<Rightarrow> int \<Rightarrow> bucket list res option" where
  "bucket_ladder max_nodes max_edges batch_size floor_nodes =
     (if floor_nodes < 2 then Some (Inl ValueError)
      else map_option Inr (bucket_loop max_nodes max_edges batch_size floor_nodes []))"

section \<open>The ladder ends\<close>

lemma scaled_0 [simp]: "scaled cap 0 = cap"
  by (simp add: scaled_def)

lemma scaled_eventually_small: "\<exists>k. 0 < k \<and> scaled cap k < 2"
proof -
  obtain k where k: "real_of_int cap < RATIO ^ k" using real_arch_pow [of RATIO "real_of_int cap"] by (auto simp: RATIO_def)
  have "RATIO ^ k \<le> RATIO ^ Suc k" by (intro power_increasing) (simp_all add: RATIO_def)
  then have "real_of_int cap \<le> RATIO ^ Suc k" using k by simp
  moreover have "0 < RATIO ^ Suc k" by (simp add: RATIO_def)
  ultimately have "real_of_int cap / RATIO ^ Suc k \<le> 1" by (simp only: divide_le_eq_1_pos)
  then have "scaled cap (Suc k) \<le> 1" unfolding scaled_def by (simp add: ceiling_le_iff)
  then show ?thesis by (intro exI [of _ "Suc k"]) simp
qed

lemma scaled_antimono: "0 \<le> cap \<Longrightarrow> j \<le> k \<Longrightarrow> scaled cap k \<le> scaled cap j"
  unfolding scaled_def by (intro ceiling_mono divide_left_mono power_increasing) (simp_all add: RATIO_def)

text \<open>One rung down shrinks by the ratio, up to the rounding of the two ceilings.\<close>

lemma scaled_step: "real_of_int (scaled cap k) < RATIO * real_of_int (scaled cap (Suc k)) + 1"
proof -
  have "real_of_int (scaled cap k) < real_of_int cap / RATIO ^ k + 1" unfolding scaled_def by linarith
  also have "real_of_int cap / RATIO ^ k = RATIO * (real_of_int cap / RATIO ^ Suc k)" by (simp add: RATIO_def)
  also have "\<dots> \<le> RATIO * real_of_int (scaled cap (Suc k))"
    unfolding scaled_def by (intro mult_left_mono le_of_int_ceiling) (simp add: RATIO_def)
  finally show ?thesis by simp
qed

definition rungs :: "int \<Rightarrow> int \<Rightarrow> int \<Rightarrow> nat \<Rightarrow> bucket list" where
  "rungs max_nodes max_edges batch_size n = map (rung max_nodes max_edges batch_size) [0..<n]"

lemma bucket_loop_runs:
  assumes "\<forall>k. 0 < k \<and> j \<le> k \<and> k < n \<longrightarrow> \<not> scaled max_nodes k < floor_nodes" "scaled max_nodes n < floor_nodes" "j \<le> n" "0 < n"
  shows "bucket_loop max_nodes max_edges batch_size floor_nodes (rungs max_nodes max_edges batch_size j) =
    Some (rev (rungs max_nodes max_edges batch_size n))"
  using assms(1,3)
proof (induction "n - j" arbitrary: j)
  case 0
  then have "j = n" by simp
  then show ?case using assms(2,4) by (subst bucket_loop.simps) (simp add: rungs_def)
next
  case (Suc m)
  then have j: "j < n" "m = n - Suc j" by simp_all
  have "rungs max_nodes max_edges batch_size j @ [rung max_nodes max_edges batch_size j] = rungs max_nodes max_edges batch_size (Suc j)"
    by (simp add: rungs_def)
  moreover have "\<not> (rungs max_nodes max_edges batch_size j \<noteq> [] \<and> scaled max_nodes j < floor_nodes)"
    using Suc.prems(1) j(1) by (cases "j = 0") (simp_all add: rungs_def)
  moreover have "length (rungs max_nodes max_edges batch_size j) = j" by (simp add: rungs_def)
  ultimately show ?case using Suc.hyps(1) [OF j(2)] Suc.prems j(1) by (subst bucket_loop.simps) auto
qed

lemma ladder_shape:
  assumes "2 \<le> floor_nodes"
  shows "\<exists>n. 0 < n \<and> scaled max_nodes n < floor_nodes \<and> (\<forall>k. 0 < k \<and> k < n \<longrightarrow> floor_nodes \<le> scaled max_nodes k) \<and>
    bucket_ladder max_nodes max_edges batch_size floor_nodes = Some (Inr (rev (rungs max_nodes max_edges batch_size n)))"
proof -
  define n where "n = (LEAST k. 0 < k \<and> scaled max_nodes k < floor_nodes)"
  obtain k where "0 < k" "scaled max_nodes k < 2" using scaled_eventually_small by blast
  then have ex: "0 < k \<and> scaled max_nodes k < floor_nodes" using assms by simp
  have n: "0 < n" "scaled max_nodes n < floor_nodes" using LeastI [of "\<lambda>k. 0 < k \<and> scaled max_nodes k < floor_nodes", OF ex] by (simp_all add: n_def)
  have least: "\<not> scaled max_nodes j < floor_nodes" if "0 < j" "j < n" for j
    using not_less_Least [of j "\<lambda>k. 0 < k \<and> scaled max_nodes k < floor_nodes"] that by (auto simp: n_def)
  have "bucket_loop max_nodes max_edges batch_size floor_nodes (rungs max_nodes max_edges batch_size 0) =
      Some (rev (rungs max_nodes max_edges batch_size n))"
    by (rule bucket_loop_runs) (use n least in auto)
  then have "bucket_ladder max_nodes max_edges batch_size floor_nodes = Some (Inr (rev (rungs max_nodes max_edges batch_size n)))"
    using assms by (simp add: bucket_ladder_def rungs_def)
  then show ?thesis using n least by (intro exI [of _ n]) (auto simp: not_less)
qed

section \<open>Properties\<close>

text \<open>The ladder's loop ends: for every floor of at least two nodes and non-negative caps the ladder
  exists, is not empty, goes from the smallest bucket to the one of the caps themselves, and every bucket
  below that one keeps at least the floor's nodes; a smaller floor is refused.\<close>

theorem bucket_ladder_terminates:
  assumes "0 \<le> max_nodes"
  shows "if floor_nodes < 2 then bucket_ladder max_nodes max_edges batch_size floor_nodes = Some (Inl ValueError)
    else \<exists>ladder. bucket_ladder max_nodes max_edges batch_size floor_nodes = Some (Inr ladder) \<and> ladder \<noteq> [] \<and>
      last ladder = rung max_nodes max_edges batch_size 0 \<and> sorted (map bk_nodes ladder) \<and>
      (\<forall>b \<in> set (butlast ladder). floor_nodes < bk_nodes b)"
proof (cases "floor_nodes < 2")
  case True
  then show ?thesis by (simp add: bucket_ladder_def)
next
  case False
  then obtain n where n: "0 < n" "\<forall>k. 0 < k \<and> k < n \<longrightarrow> floor_nodes \<le> scaled max_nodes k"
    "bucket_ladder max_nodes max_edges batch_size floor_nodes = Some (Inr (rev (rungs max_nodes max_edges batch_size n)))"
    using ladder_shape [of floor_nodes max_nodes max_edges batch_size] by auto
  let ?l = "rev (rungs max_nodes max_edges batch_size n)"
  obtain m where m: "n = Suc m" using n(1) by (cases n) auto
  have split: "?l = rev (map (rung max_nodes max_edges batch_size) [1..<n]) @ [rung max_nodes max_edges batch_size 0]"
    by (simp add: rungs_def m upt_conv_Cons del: upt_Suc)
  have "sorted (map bk_nodes ?l)"
    unfolding sorted_iff_nth_mono
  proof (intro allI impI)
    fix i j assume ij: "i \<le> j" "j < length (map bk_nodes ?l)"
    then show "map bk_nodes ?l ! i \<le> map bk_nodes ?l ! j"
      using scaled_antimono [OF assms, of "n - Suc j" "n - Suc i"] by (simp add: rungs_def rev_nth rung_def)
  qed
  moreover have "\<forall>b \<in> set (butlast ?l). floor_nodes < bk_nodes b"
  proof
    fix b assume "b \<in> set (butlast ?l)"
    then obtain k where "1 \<le> k" "k < n" "b = rung max_nodes max_edges batch_size k" unfolding split by auto
    then show "floor_nodes < bk_nodes b" using n(2) by (auto simp: rung_def)
  qed
  ultimately show ?thesis using False n(3) split by auto
qed

theorem bucket_ladder_terminates_witness:
  "\<exists>ladder. bucket_ladder 5000 70000 64 1024 = Some (Inr ladder) \<and> last ladder = rung 5000 70000 64 0 \<and>
     (\<forall>b \<in> set (butlast ladder). 1024 < bk_nodes b)"
  using bucket_ladder_terminates [of 5000 1024 70000 64] by auto

text \<open>The bucket of a part: the chosen bucket holds the part with its padding graph, no smaller bucket of
  the ladder does, and it is either the smallest of all, or the part fills the nodes or the edges of the
  next smaller one - so that one of the two sizes grows by less than a quarter (and the rounding) - or that
  smaller one lacked the padding nodes its padding edges need.\<close>

theorem bucket_pads_by_ratio:
  assumes "bucket_ladder max_nodes max_edges batch_size floor_nodes = Some (Inr ladder)"
    and "bucket_of ladder n_graphs n_nodes n_edges = Some b" "n_graphs \<le> batch_size"
  shows "holds_part n_graphs n_nodes n_edges b \<and>
    (b = hd ladder \<or>
     real_of_int (bk_nodes b) < RATIO * real_of_int n_nodes + 2 \<or>
     real_of_int (bk_edges b) < RATIO * real_of_int n_edges + 1 \<or>
     (\<exists>i. Suc i < length ladder \<and> b = ladder ! Suc i \<and> n_nodes < bk_nodes (ladder ! i) \<and> n_edges \<le> bk_edges (ladder ! i) \<and>
        (bk_nodes (ladder ! i) - n_nodes) * PAD_EDGES_PER_SINK < bk_edges (ladder ! i) - n_edges))"
proof -
  have "2 \<le> floor_nodes" using assms(1) by (auto simp: bucket_ladder_def split: if_splits)
  then obtain n where n: "ladder = rev (rungs max_nodes max_edges batch_size n)"
    using ladder_shape [of floor_nodes max_nodes max_edges batch_size] assms(1) by auto
  obtain j where j: "j < length ladder" "b = ladder ! j" "holds_part n_graphs n_nodes n_edges b"
    "\<forall>i < j. \<not> holds_part n_graphs n_nodes n_edges (ladder ! i)"
    using assms(2) by (auto simp: bucket_of_def find_Some_iff)
  show ?thesis
  proof (cases j)
    case 0
    then show ?thesis using j by (simp add: hd_conv_nth)
  next
    case (Suc i)
    define k where "k = n - Suc j"
    have "ladder ! i = rung max_nodes max_edges batch_size (Suc k)" "b = rung max_nodes max_edges batch_size k"
      using j(1,2) Suc by (simp_all add: n rungs_def rev_nth k_def Suc_diff_Suc)
    then have low: "bk_nodes (ladder ! i) = scaled max_nodes (Suc k) + 1" "bk_edges (ladder ! i) = scaled max_edges (Suc k)"
      "bk_graphs (ladder ! i) = batch_size + 1" and top: "bk_nodes b = scaled max_nodes k + 1" "bk_edges b = scaled max_edges k"
      by (simp_all add: rung_def)
    have "\<not> holds_part n_graphs n_nodes n_edges (ladder ! i)" using j(4) Suc by simp
    then consider "scaled max_nodes (Suc k) + 1 \<le> n_nodes" | "scaled max_edges (Suc k) < n_edges"
      | "n_nodes < bk_nodes (ladder ! i)" "n_edges \<le> bk_edges (ladder ! i)"
        "(bk_nodes (ladder ! i) - n_nodes) * PAD_EDGES_PER_SINK < bk_edges (ladder ! i) - n_edges"
      using assms(3) unfolding holds_part_def low by force
    then show ?thesis
    proof cases
      case 1
      then have "RATIO * real_of_int (scaled max_nodes (Suc k)) \<le> RATIO * real_of_int n_nodes"
        by (intro mult_left_mono) (simp_all add: RATIO_def)
      then have "real_of_int (bk_nodes b) < RATIO * real_of_int n_nodes + 2" using scaled_step [of max_nodes k] top(1) by simp
      then show ?thesis using j(3) by blast
    next
      case 2
      then have "RATIO * real_of_int (scaled max_edges (Suc k)) \<le> RATIO * real_of_int n_edges"
        by (intro mult_left_mono) (simp_all add: RATIO_def)
      then have "real_of_int (bk_edges b) < RATIO * real_of_int n_edges + 1" using scaled_step [of max_edges k] top(2) by simp
      then show ?thesis using j(3) by blast
    next
      case 3
      then show ?thesis using j(1-3) Suc by blast
    qed
  qed
qed

lemma ladder_10: "bucket_ladder 10 100 2 8 = Some (Inr [rung 10 100 2 1, rung 10 100 2 0])"
proof -
  have one: "scaled 10 1 = 8" by (simp add: scaled_def RATIO_def)
  have two: "scaled 10 2 = 7" by (simp add: scaled_def RATIO_def power2_eq_square)
  show ?thesis unfolding bucket_ladder_def
    by (subst bucket_loop.simps, subst bucket_loop.simps, subst bucket_loop.simps)
      (use one two in \<open>simp add: numeral_2_eq_2\<close>)
qed

lemma rungs_10:
  "rung 10 100 2 0 = \<lparr>bk_graphs = 3, bk_nodes = 11, bk_edges = 100, bk_legal = 11\<rparr>"
  "rung 10 100 2 1 = \<lparr>bk_graphs = 3, bk_nodes = 9, bk_edges = 80, bk_legal = 9\<rparr>"
  by (simp_all add: rung_def scaled_def RATIO_def)

theorem bucket_pads_by_ratio_witness:
  "holds_part 2 10 90 (rung 10 100 2 0) \<and> rung 10 100 2 0 \<noteq> hd [rung 10 100 2 1, rung 10 100 2 0] \<and>
   real_of_int (bk_nodes (rung 10 100 2 0)) < RATIO * 10 + 2"
proof -
  have "bucket_of [rung 10 100 2 1, rung 10 100 2 0] 2 10 90 = Some (rung 10 100 2 0)"
    unfolding rungs_10 by (simp add: bucket_of_def holds_part_def PAD_EDGES_PER_SINK_def)
  from bucket_pads_by_ratio [OF ladder_10 this] have "holds_part 2 10 90 (rung 10 100 2 0)" by simp
  then show ?thesis unfolding rungs_10 by (simp add: RATIO_def)
qed

end
