(* ===== verification/Config_Tree.thy ===== *)
theory Config_Tree
  imports Bundle
begin

text \<open>
  The nested mappings a checkpoint stores and the readers of their dotted paths: the values
  \<open>torch.load(weights_only=True)\<close> gives, Python's equality and conversions on them,
  \<open>src/mantis/config/retired.py\<close> (the paths the schema retired), \<open>config/resolve/arch_scope.py\<close> and
  \<open>config/resolve/gnn_widths.py\<close> (the arch-scoped trunk widths of a configuration).

  Mapping keys are strings (the integer keys of an optimizer's state are carried as text), tuples are
  lists.  No tensor occurs where the code reads a number, a text or a truth value.
\<close>

section \<open>Values\<close>

datatype 't pv =
    PNone | PBool bool | PInt int | PFloat pyfloat | PStr string
  | PList "'t pv list" | PDict "(string \<times> 't pv) list" | PTensor 't

type_synonym 't tree = "(string, 't pv) dict"

lemma size_entry: "(k, v) \<in> set d \<Longrightarrow> size v < size (PDict d)"
  by (induction d) auto

lemma size_item: "v \<in> set vs \<Longrightarrow> size v < size (PList vs)"
  by (induction vs) auto

lemma size_zip_item: "(v, w) \<in> set (zip vs ws) \<Longrightarrow> size v < size (PList vs)"
  by (meson set_zip_leftD size_item)

fun num_of :: "'t pv \<Rightarrow> pyfloat option" where
  "num_of (PBool b) = Some (Fin (if b then 1 else 0))"
| "num_of (PInt i) = Some (Fin (of_int i))"
| "num_of (PFloat x) = Some x"
| "num_of v = None"

text \<open>\<open>v == w\<close>: numbers compare by value, lists in order, mappings without order.\<close>

function py_eq :: "'t pv \<Rightarrow> 't pv \<Rightarrow> bool" where
  "py_eq v w = (case (v, w) of
     (PNone, PNone) \<Rightarrow> True
   | (PStr s, PStr t) \<Rightarrow> s = t
   | (PTensor a, PTensor b) \<Rightarrow> a = b
   | (PList xs, PList ys) \<Rightarrow> length xs = length ys \<and> list_all (\<lambda>(x, y). py_eq x y) (zip xs ys)
   | (PDict d, PDict e) \<Rightarrow> length d = length e \<and>
       list_all (\<lambda>(k, x). case map_of e k of None \<Rightarrow> False | Some y \<Rightarrow> py_eq x y) d
   | _ \<Rightarrow> (case (num_of v, num_of w) of (Some x, Some y) \<Rightarrow> x \<noteq> NaN \<and> x = y | _ \<Rightarrow> False))"
  by pat_completeness auto
termination
  by (relation "measure (\<lambda>(v, w). size v)") (auto dest: size_zip_item size_entry)

declare py_eq.simps [simp del]

lemma py_eq_simps [simp]:
  "py_eq PNone PNone" "py_eq (PStr s) (PStr t) = (s = t)" "\<not> py_eq PNone (PStr t)" "\<not> py_eq (PStr s) PNone"
  "py_eq (PInt i) (PInt j) = (i = j)" "py_eq (PBool b) (PBool c) = (b = c)" "\<not> py_eq PNone (PInt j)" "\<not> py_eq (PStr s) (PInt j)"
  by (simp_all add: py_eq.simps)

fun p_truthy :: "'t pv \<Rightarrow> bool" where
  "p_truthy PNone = False"
| "p_truthy (PBool b) = b"
| "p_truthy (PInt i) = (i \<noteq> 0)"
| "p_truthy (PFloat x) = (x \<noteq> Fin 0)"
| "p_truthy (PStr s) = (s \<noteq> [])"
| "p_truthy (PList vs) = (vs \<noteq> [])"
| "p_truthy (PDict d) = (d \<noteq> [])"
| "p_truthy (PTensor t) = True"

fun p_int :: "'t pv \<Rightarrow> int res" where
  "p_int (PBool b) = Inr (if b then 1 else 0)"
| "p_int (PInt i) = Inr i"
| "p_int (PFloat (Fin x)) = Inr (trunc x)"
| "p_int (PFloat NaN) = Inl ValueError"
| "p_int (PFloat _) = Inl OverflowError"
| "p_int (PStr s) = int_of_str s"
| "p_int _ = Inl TypeError"

text \<open>\<open>dict(v)\<close>: a copy of a mapping, or a mapping from a list of pairs with string keys.\<close>

fun p_pairs :: "'t pv list \<Rightarrow> 't tree \<Rightarrow> 't tree res" where
  "p_pairs [] d = Inr d"
| "p_pairs (PList [PStr k, v] # vs) d = p_pairs vs (AList.update k v d)"
| "p_pairs (_ # vs) d = Inl TypeError"

fun p_dict :: "'t pv \<Rightarrow> 't tree res" where
  "p_dict (PDict d) = Inr d"
| "p_dict (PList vs) = p_pairs vs []"
| "p_dict (PStr s) = (if s = [] then Inr [] else Inl ValueError)"
| "p_dict _ = Inl TypeError"

text \<open>\<open>d.get(k)\<close>, and the same where \<open>d\<close> need not be a mapping and then reads as \<open>None\<close>.\<close>

abbreviation pget :: "'t tree \<Rightarrow> string \<Rightarrow> 't pv" where
  "pget d k \<equiv> dget d k PNone"

fun get_or_none :: "'t pv \<Rightarrow> string \<Rightarrow> 't pv" where
  "get_or_none (PDict d) k = pget d k"
| "get_or_none v k = PNone"

section \<open>Dotted paths\<close>

fun dotted_from :: "string \<Rightarrow> string \<Rightarrow> string list" where
  "dotted_from acc [] = [rev acc]"
| "dotted_from acc (c # cs) = (if c = CHR ''.'' then rev acc # dotted_from [] cs else dotted_from (c # acc) cs)"

definition dotted :: "string \<Rightarrow> string list" where
  "dotted s = dotted_from [] s"

lemma dotted_Nil [simp]: "dotted s \<noteq> []"
proof -
  have "dotted_from acc s \<noteq> []" for acc by (induction s arbitrary: acc) auto
  then show ?thesis by (simp add: dotted_def)
qed

definition node_at :: "'t tree \<Rightarrow> string list \<Rightarrow> 't pv" where
  "node_at config ks = foldl get_or_none (PDict config) ks"

definition parent :: "'t tree \<Rightarrow> string \<Rightarrow> 't pv \<times> string" where
  "parent config path = (node_at config (butlast (dotted path)), last (dotted path))"

definition leaf_in :: "'t tree \<Rightarrow> string \<Rightarrow> 't pv option" where
  "leaf_in config path = (case parent config path of (PDict d, leaf) \<Rightarrow> map_of d leaf | _ \<Rightarrow> None)"

text \<open>An assignment to or a deletion in the mapping at the end of a path.\<close>

fun edit_at :: "string list \<Rightarrow> ('t tree \<Rightarrow> 't tree) \<Rightarrow> 't tree \<Rightarrow> 't tree" where
  "edit_at [] f d = f d"
| "edit_at (k # ks) f d = (case map_of d k of Some (PDict e) \<Rightarrow> AList.update k (PDict (edit_at ks f e)) d | _ \<Rightarrow> d)"

definition pop_leaf :: "string \<Rightarrow> 't tree \<Rightarrow> 't tree" where
  "pop_leaf path = edit_at (butlast (dotted path)) (AList.delete (last (dotted path)))"

definition set_leaf :: "string \<Rightarrow> 't pv \<Rightarrow> 't tree \<Rightarrow> 't tree" where
  "set_leaf path v = edit_at (butlast (dotted path)) (AList.update (last (dotted path)) v)"

section \<open>Retired paths\<close>

definition RETIRED_PATHS :: "string list" where
  "RETIRED_PATHS = [''search'', ''eval.ladder'', ''eval.sealbot_model_sims'', ''eval.rung_concurrency'',
     ''monitor.wr_hard_abort_enabled'', ''monitor.wr_rolling_consecutive_evals'', ''monitor.wr_rolling_threshold'',
     ''monitor.wr_rolling_min_step'', ''monitor.wr_collapse_from_peak_ratio'', ''monitor.wr_collapse_min_step'',
     ''monitor.wr_collapse_consecutive_evals'', ''monitor.wr_early_death_threshold'', ''monitor.wr_early_death_min_step'',
     ''train.value_target'', ''train.draw_reward'', ''train.ply_cap_value'', ''selfplay.playout_cap.fast_sims'',
     ''selfplay.playout_cap.fast_prob'', ''selfplay.playout_cap.standard_sims'', ''selfplay.mcts.n_simulations'',
     ''train.policy_loss_weight_schedule'', ''train.total_steps'', ''train.replay_capacity_schedule'',
     ''train.fast_policy_weight'', ''train.recency_weight'', ''train.policy_loss_trough_abort'', ''eval.gate.screen_games'',
     ''eval.gate.confirm_games'', ''eval.gate.screen_confirm_lo'', ''eval.gate.promotion_winrate'',
     ''train.hard_gn_threshold'', ''train.hard_gn_min_steps'', ''train.value_target_lambda'']"

definition RETIRED_NULL_POSTURES :: "string list" where
  "RETIRED_NULL_POSTURES = [''eval.gate.sequential'']"

definition FOLDED_PATHS :: "(string \<times> string) list" where
  "FOLDED_PATHS = [(''train.total_steps'', ''train.scheduler_t_max''),
     (''selfplay.mcts.n_simulations'', ''selfplay.playout_cap.n_sims_full''),
     (''train.value_target_lambda'', ''train.value_target_search_weight'')]"

definition BOOL_BLOCKS :: "(string \<times> 't tree) list" where
  "BOOL_BLOCKS = [(''selfplay.decided_tails'', [(''value_weight'', PFloat (Fin 1))])]"

type_synonym 't split = "'t tree \<times> 't tree"

definition retire :: "string \<Rightarrow> 't split \<Rightarrow> 't split" where
  "retire path s = (case s of (kept, removed) \<Rightarrow> case leaf_in kept path of
     None \<Rightarrow> s | Some v \<Rightarrow> (pop_leaf path kept, AList.update path v removed))"

definition retire_null :: "string \<Rightarrow> 't split \<Rightarrow> 't split" where
  "retire_null path s = (case s of (kept, removed) \<Rightarrow> case leaf_in kept path of
     Some PNone \<Rightarrow> (pop_leaf path kept, AList.update path PNone removed) | _ \<Rightarrow> s)"

definition fold_path :: "string \<times> string \<Rightarrow> 't split \<Rightarrow> 't split" where
  "fold_path st s = (case (st, s) of ((source, target), (kept, removed)) \<Rightarrow>
     case (map_of removed source, parent kept target) of
       (Some v, (PDict d, leaf)) \<Rightarrow>
         if pget d leaf = PNone \<or> py_eq (pget d leaf) (PInt 0) then (set_leaf target v kept, removed) else s
     | _ \<Rightarrow> s)"

definition read_block :: "string \<times> 't tree \<Rightarrow> 't split \<Rightarrow> 't split" where
  "read_block pb s = (case (pb, s) of ((path, block), (kept, removed)) \<Rightarrow> case leaf_in kept path of
     Some (PBool b) \<Rightarrow> (set_leaf path (if b then PDict block else PNone) kept, AList.update path (PBool b) removed)
   | _ \<Rightarrow> s)"

definition split_retired :: "'t tree \<Rightarrow> 't split" where
  "split_retired config = fold read_block BOOL_BLOCKS (fold fold_path FOLDED_PATHS
     (fold retire_null (sort RETIRED_NULL_POSTURES) (fold retire (sort RETIRED_PATHS) (config, []))))"

section \<open>Arch-scoped widths\<close>

definition ARCH_SCOPED_KEYS :: "(string \<times> string \<times> string) list" where
  "ARCH_SCOPED_KEYS = [(''train'', ''microbatch_caps'', ''graph''), (''inference'', ''fused_graph_caps'', ''graph''),
     (''model'', ''gnn'', ''graph'')]"

definition declared_representation :: "'t tree \<Rightarrow> string option" where
  "declared_representation config = (case get_or_none (pget config ''identity'') ''representation'' of PStr s \<Rightarrow> Some s | _ \<Rightarrow> None)"

definition refuse_outside_its_arch :: "'t tree \<Rightarrow> string \<Rightarrow> string \<Rightarrow> unit res" where
  "refuse_outside_its_arch config sect fld = (case find (\<lambda>(s, f, a). s = sect \<and> f = fld) ARCH_SCOPED_KEYS of
     None \<Rightarrow> Inl KeyError
   | Some (_, _, arch) \<Rightarrow> (case declared_representation config of
       Some r \<Rightarrow> if r \<noteq> arch then Inl ArchScopedKeyOutsideItsArchError else Inr ()
     | None \<Rightarrow> Inr ()))"

definition GNN_WIDTH_FIELDS :: "string list" where
  "GNN_WIDTH_FIELDS = [''hidden'', ''num_layers'']"

definition resolve_gnn_widths :: "'t tree \<Rightarrow> (int \<times> int) res" where
  "resolve_gnn_widths config = rbind (refuse_outside_its_arch config ''model'' ''gnn'') (\<lambda>_.
     if map_of config ''model'' = None then Inl MissingGnnWidthsError
     else case get_or_none (pget config ''model'') ''gnn'' of
       PDict block \<Rightarrow>
         if \<not> list_all (\<lambda>m. map_of block m \<noteq> None) GNN_WIDTH_FIELDS then Inl MissingGnnWidthsError
         else rbind (p_int (pget block ''hidden'')) (\<lambda>h. rbind (p_int (pget block ''num_layers'')) (\<lambda>n. Inr (h, n)))
     | _ \<Rightarrow> Inl MissingGnnWidthsError)"

definition declared_gnn_widths :: "'t tree \<Rightarrow> (string \<times> int) list res" where
  "declared_gnn_widths config = (if pget config ''model'' = PNone then Inr []
     else case resolve_gnn_widths config of
       Inl e \<Rightarrow> Inl (if e = MissingGnnWidthsError then RepresentationMismatch else e)
     | Inr (h, n) \<Rightarrow> Inr [(''hidden'', h), (''num_layers'', n)])"

definition declared_arch_kind :: "'t tree \<Rightarrow> 't pv" where
  "declared_arch_kind config = get_or_none (pget config ''identity'') ''arch_kind''"

section \<open>Edits of a tree\<close>

text \<open>What a tree holds at a path.\<close>

fun here :: "string list \<Rightarrow> 't pv \<Rightarrow> 't pv option" where
  "here [] v = Some v"
| "here (k # ks) (PDict d) = (case map_of d k of None \<Rightarrow> None | Some v \<Rightarrow> here ks v)"
| "here (k # ks) v = None"

definition found_at :: "string \<Rightarrow> 't tree \<Rightarrow> 't pv option" where
  "found_at path config = here (dotted path) (PDict config)"

lemma foldl_get_none: "foldl get_or_none PNone ks = PNone"
  by (induction ks) simp_all

lemma here_not_dict: "ks \<noteq> [] \<Longrightarrow> \<forall>d. v \<noteq> PDict d \<Longrightarrow> here ks v = None"
  by (cases ks; cases v) auto

lemma foldl_get_here: "(case foldl get_or_none v ks of PDict d \<Rightarrow> map_of d k | _ \<Rightarrow> None) = here (ks @ [k]) v"
proof (induction ks arbitrary: v)
  case Nil
  show ?case by (cases v) (auto split: option.split)
next
  case (Cons a ks)
  have none: "(case foldl get_or_none PNone ks of PDict d \<Rightarrow> map_of d k | _ \<Rightarrow> None) = None" by (simp add: foldl_get_none)
  show ?case
  proof (cases v)
    case (PDict d)
    then show ?thesis using Cons [of "pget d a"] none by (cases "map_of d a") (simp_all add: dget_def here_not_dict del: map_of_None_dkeys)
  qed (use none in simp_all)
qed

lemma leaf_in_found: "leaf_in config path = found_at path config"
  unfolding leaf_in_def parent_def node_at_def found_at_def
  using foldl_get_here [where v = "PDict config" and ks = "butlast (dotted path)" and k = "last (dotted path)"] by simp

lemma here_delete:
  "here q (PDict (edit_at ks (AList.delete k) d)) = Some w \<Longrightarrow>
    \<not> prefix (ks @ [k]) q \<and> (\<exists>w'. here q (PDict d) = Some w' \<and> (w = w' \<or> (\<exists>x y. w = PDict x \<and> w' = PDict y)))"
proof (induction ks arbitrary: q d w)
  case Nil
  then show ?case by (cases q) (auto simp: delete_conv' simp del: map_of_None_dkeys split: option.splits if_splits)
next
  case (Cons a ks)
  show ?case
  proof (cases "\<exists>e. map_of d a = Some (PDict e)")
    case True
    then obtain e where e: "map_of d a = Some (PDict e)" by blast
    show ?thesis
    proof (cases q)
      case (Cons b q')
      show ?thesis
      proof (cases "b = a")
        case True
        then show ?thesis using Cons.prems Cons.IH [of q' e w] e Cons by (simp add: update_conv')
      next
        case False
        then show ?thesis using Cons.prems e Cons by (auto simp: update_conv' split: option.splits)
      qed
    qed (use Cons.prems e in auto)
  next
    case False
    then have same: "edit_at (a # ks) (AList.delete k) d = d" by (auto split: option.split pv.split)
    have "\<not> prefix ((a # ks) @ [k]) q"
    proof
      assume "prefix ((a # ks) @ [k]) q"
      then obtain r where q: "q = a # (ks @ [k]) @ r" by (auto simp: prefix_def)
      then obtain v where v: "map_of d a = Some v" "here ((ks @ [k]) @ r) v = Some w" using Cons.prems same by (auto split: option.splits)
      then have "\<forall>e. v \<noteq> PDict e" using False by blast
      then show False using here_not_dict [of "(ks @ [k]) @ r" v] v(2) by simp
    qed
    then show ?thesis using Cons.prems same by simp
  qed
qed

lemma here_update:
  "here q (PDict (edit_at ks (AList.update k v) d)) = Some w \<Longrightarrow> \<not> prefix (ks @ [k]) q \<Longrightarrow>
    \<exists>w'. here q (PDict d) = Some w' \<and> (w = w' \<or> (\<exists>x y. w = PDict x \<and> w' = PDict y))"
proof (induction ks arbitrary: q d w)
  case Nil
  then show ?case by (cases q) (auto simp: update_conv' split: option.splits if_splits)
next
  case (Cons a ks)
  show ?case
  proof (cases "\<exists>e. map_of d a = Some (PDict e)")
    case True
    then obtain e where e: "map_of d a = Some (PDict e)" by blast
    show ?thesis
    proof (cases q)
      case (Cons b q')
      show ?thesis
      proof (cases "b = a")
        case True
        then show ?thesis using Cons.prems Cons.IH [of q' e w] e Cons by (simp add: update_conv')
      next
        case False
        then show ?thesis using Cons.prems e Cons by (auto simp: update_conv' split: option.splits)
      qed
    qed (use Cons.prems e in auto)
  next
    case False
    then have same: "edit_at (a # ks) (AList.update k v) d = d" by (auto split: option.split pv.split)
    then show ?thesis using Cons.prems by simp
  qed
qed

lemma here_updated: "here (ks @ [k]) (PDict (edit_at ks (AList.update k v) d)) = Some w \<Longrightarrow> w = v"
proof (induction ks arbitrary: d)
  case (Cons a ks)
  show ?case
  proof (cases "\<exists>e. map_of d a = Some (PDict e)")
    case True
    then show ?thesis using Cons by (auto simp: update_conv')
  next
    case False
    then have "here (ks @ [k]) x = None" if "map_of d a = Some x" for x using that by (intro here_not_dict) auto
    moreover have "edit_at (a # ks) (AList.update k v) d = d" using False by (auto split: option.split pv.split)
    ultimately show ?thesis using Cons.prems by (cases "map_of d a") simp_all
  qed
qed (simp add: update_conv')

text \<open>A path not under the edited one and not above it is not touched.\<close>

lemma here_edit_apart:
  assumes "\<And>e. map_of (f e) = (map_of e) (k := map_of (f e) k)" "\<not> prefix (ks @ [k]) q" "\<not> prefix q (ks @ [k])"
  shows "here q (PDict (edit_at ks f d)) = here q (PDict d)"
  using assms(2,3)
proof (induction ks arbitrary: q d)
  case Nil
  then obtain b q' where q: "q = b # q'" "b \<noteq> k" by (cases q) auto
  have "map_of (f d) b = map_of d b" using fun_cong [OF assms(1) [of d], of b] q(2) by (metis fun_upd_apply)
  then show ?case using q(1) by simp
next
  case (Cons a ks)
  then obtain b q' where q: "q = b # q'" by (cases q) auto
  show ?case
  proof (cases "\<exists>e. map_of d a = Some (PDict e)")
    case True
    then obtain e where e: "map_of d a = Some (PDict e)" by blast
    show ?thesis using Cons q e by (cases "b = a") (simp_all add: update_conv')
  next
    case False
    then have "edit_at (a # ks) f d = d" by (auto split: option.split pv.split)
    then show ?thesis by simp
  qed
qed

section \<open>Splitting off the retired paths\<close>

definition alike :: "'t pv \<Rightarrow> 't pv \<Rightarrow> bool" where
  "alike v w \<longleftrightarrow> v = w \<or> (\<exists>x y. v = PDict x \<and> w = PDict y)"

lemma found_pop: "found_at q (pop_leaf p d) = Some w \<Longrightarrow> \<not> prefix (dotted p) (dotted q) \<and> (\<exists>w'. found_at q d = Some w' \<and> alike w w')"
  using here_delete [of "dotted q" "butlast (dotted p)" "last (dotted p)" d w]
  by (simp add: found_at_def pop_leaf_def alike_def)

lemma found_pop_same: "found_at p (pop_leaf p d) = None"
  using found_pop [of p p d] by (cases "found_at p (pop_leaf p d)") auto

lemma found_set:
  "found_at q (set_leaf p v d) = Some w \<Longrightarrow> \<not> prefix (dotted p) (dotted q) \<Longrightarrow> \<exists>w'. found_at q d = Some w' \<and> alike w w'"
  using here_update [of "dotted q" "butlast (dotted p)" "last (dotted p)" v d w]
  by (simp add: found_at_def set_leaf_def alike_def)

lemma found_set_same: "found_at p (set_leaf p v d) = Some w \<Longrightarrow> w = v"
  using here_updated [of "butlast (dotted p)" "last (dotted p)" v d w] by (simp add: found_at_def set_leaf_def)

text \<open>
  What a path may still hold once it is settled, where the values excluded there are never a mapping's:
  an edit at a path that is not above it keeps it settled.
\<close>

definition bars :: "('t pv \<Rightarrow> bool) \<Rightarrow> string set \<Rightarrow> 't tree \<Rightarrow> bool" where
  "bars bad Q d \<longleftrightarrow> (\<forall>q \<in> Q. \<forall>w. found_at q d = Some w \<longrightarrow> \<not> bad w)"

definition kind_blind :: "('t pv \<Rightarrow> bool) \<Rightarrow> bool" where
  "kind_blind bad \<longleftrightarrow> (\<forall>v w. alike v w \<longrightarrow> bad v = bad w)"

definition below_none :: "string \<Rightarrow> string set \<Rightarrow> bool" where
  "below_none p Q \<longleftrightarrow> (\<forall>q \<in> Q. \<not> prefix (dotted p) (dotted q))"

lemma bars_pop: "bars bad Q d \<Longrightarrow> kind_blind bad \<Longrightarrow> bars bad Q (pop_leaf p d)"
  unfolding bars_def kind_blind_def by (meson found_pop)

lemma bars_set: "bars bad Q d \<Longrightarrow> kind_blind bad \<Longrightarrow> below_none p Q \<Longrightarrow> bars bad Q (set_leaf p v d)"
  unfolding bars_def kind_blind_def below_none_def by (meson found_set)

definition keeps_bars :: "('t pv \<Rightarrow> bool) \<Rightarrow> string set \<Rightarrow> ('t split \<Rightarrow> 't split) \<Rightarrow> bool" where
  "keeps_bars bad Q f \<longleftrightarrow> (\<forall>s. bars bad Q (fst s) \<longrightarrow> bars bad Q (fst (f s)))"

lemma keeps_barsD: "keeps_bars bad Q f \<Longrightarrow> bars bad Q (fst s) \<Longrightarrow> bars bad Q (fst (f s))"
  unfolding keeps_bars_def by blast

lemma keeps_bars_retire: "kind_blind bad \<Longrightarrow> keeps_bars bad Q (retire p)"
  and keeps_bars_null: "kind_blind bad \<Longrightarrow> keeps_bars bad Q (retire_null p)"
  by (auto simp: keeps_bars_def retire_def retire_null_def bars_pop split: option.split pv.split)

lemma keeps_bars_fold_path: "kind_blind bad \<Longrightarrow> below_none (snd st) Q \<Longrightarrow> keeps_bars bad Q (fold_path st)"
  by (cases st) (auto simp: keeps_bars_def fold_path_def bars_set split: option.split pv.split prod.split)

lemma keeps_bars_block: "kind_blind bad \<Longrightarrow> below_none (fst pb) Q \<Longrightarrow> keeps_bars bad Q (read_block pb)"
  by (cases pb) (auto simp: keeps_bars_def read_block_def bars_set split: option.split pv.split)

lemma keeps_bars_fold: "(\<And>x. x \<in> set xs \<Longrightarrow> keeps_bars bad Q (f x)) \<Longrightarrow> keeps_bars bad Q (fold f xs)"
proof (induction xs)
  case (Cons x xs)
  then have "keeps_bars bad Q (f x)" "keeps_bars bad Q (fold f xs)" by simp_all
  then show ?case unfolding keeps_bars_def fold.simps comp_def by blast
qed (simp add: keeps_bars_def)

text \<open>A step that settles its own path, over a list of paths.\<close>

lemma bars_fold:
  assumes own: "\<And>x s. bars bad {g x} (fst (f x s))" and keep: "\<And>x Q. x \<in> set xs \<Longrightarrow> Q \<subseteq> g ` set xs \<Longrightarrow> keeps_bars bad Q (f x)"
  shows "bars bad (g ` set xs) (fst (fold f xs s))"
proof -
  have "bars bad Q (fst s) \<Longrightarrow> Q \<subseteq> g ` set xs \<Longrightarrow> set ys \<subseteq> set xs \<Longrightarrow> bars bad (Q \<union> g ` set ys) (fst (fold f ys s))" for Q ys s
  proof (induction ys arbitrary: Q s)
    case (Cons y ys)
    then have "bars bad Q (fst (f y s))" using keep [of y Q] by (intro keeps_barsD [of bad Q "f y"]) auto
    then have "bars bad (insert (g y) Q) (fst (f y s))" using own [of y s] by (auto simp: bars_def)
    then show ?case using Cons.IH [of "insert (g y) Q" "f y s"] Cons.prems by auto
  qed simp
  from this [of "{}" s xs] show ?thesis by (simp add: bars_def)
qed

abbreviation (input) retired_at :: "'t pv \<Rightarrow> bool" where "retired_at \<equiv> \<lambda>_. True"
abbreviation (input) null_at :: "'t pv \<Rightarrow> bool" where "null_at \<equiv> \<lambda>v. v = PNone"
abbreviation (input) bool_at :: "'t pv \<Rightarrow> bool" where "bool_at \<equiv> \<lambda>v. \<exists>b. v = PBool b"

lemma blind: "kind_blind retired_at" "kind_blind null_at" "kind_blind bool_at"
  by (auto simp: kind_blind_def alike_def)

lemma retire_settles: "bars retired_at {p} (fst (retire p s))"
  by (auto simp: bars_def retire_def leaf_in_found found_pop_same split: prod.split option.split)

lemma null_settles: "bars null_at {p} (fst (retire_null p s))"
  by (auto simp: bars_def retire_null_def leaf_in_found found_pop_same split: prod.split option.split pv.split)

lemma block_settles: "bars bool_at {fst pb} (fst (read_block pb s))"
  by (auto simp: bars_def read_block_def leaf_in_found dest!: found_set_same split: prod.split option.split pv.split)

definition settled :: "'t tree \<Rightarrow> bool" where
  "settled d \<longleftrightarrow> bars retired_at (set RETIRED_PATHS) d \<and> bars null_at (set RETIRED_NULL_POSTURES) d \<and>
     bars bool_at (fst ` set (BOOL_BLOCKS :: (string \<times> 't tree) list)) d"

lemma paths_apart:
  "list_all (\<lambda>t. list_all (\<lambda>q. \<not> prefix (dotted t) (dotted q)) (RETIRED_PATHS @ RETIRED_NULL_POSTURES))
     (map snd FOLDED_PATHS @ [''selfplay.decided_tails''])"
  by code_simp

lemma targets_apart:
  "st \<in> set FOLDED_PATHS \<Longrightarrow> below_none (snd st) (set RETIRED_PATHS) \<and> below_none (snd st) (set RETIRED_NULL_POSTURES)"
  "pb \<in> set BOOL_BLOCKS \<Longrightarrow> below_none (fst pb) (set RETIRED_PATHS) \<and> below_none (fst pb) (set RETIRED_NULL_POSTURES)"
  using paths_apart by (auto simp: below_none_def list_all_iff BOOL_BLOCKS_def)

lemma settled_split: "settled (fst (split_retired config))"
proof -
  let ?a = "fold retire (sort RETIRED_PATHS) (config, [])"
  let ?b = "fold retire_null (sort RETIRED_NULL_POSTURES) ?a"
  let ?c = "fold fold_path FOLDED_PATHS ?b"
  have a: "bars retired_at (set RETIRED_PATHS) (fst ?a)"
    using bars_fold [where bad = retired_at and g = "\<lambda>p. p" and xs = "sort RETIRED_PATHS", OF retire_settles keeps_bars_retire [OF blind(1)]]
    by (simp only: image_ident set_sort)
  have b: "bars retired_at (set RETIRED_PATHS) (fst ?b)"
    using keeps_bars_fold [of "sort RETIRED_NULL_POSTURES" retired_at "set RETIRED_PATHS" retire_null] keeps_bars_null [OF blind(1)] a
    by (blast intro: keeps_barsD)
  have b': "bars null_at (set RETIRED_NULL_POSTURES) (fst ?b)"
    using bars_fold [where bad = null_at and g = "\<lambda>p. p" and xs = "sort RETIRED_NULL_POSTURES", OF null_settles keeps_bars_null [OF blind(2)]]
    by (simp only: image_ident set_sort)
  have c: "bars retired_at (set RETIRED_PATHS) (fst ?c)" "bars null_at (set RETIRED_NULL_POSTURES) (fst ?c)"
    by (rule keeps_barsD [OF keeps_bars_fold], rule keeps_bars_fold_path [OF blind(1)], simp add: targets_apart(1), rule b)
      (rule keeps_barsD [OF keeps_bars_fold], rule keeps_bars_fold_path [OF blind(2)], simp add: targets_apart(1), rule b')
  have "bars retired_at (set RETIRED_PATHS) (fst (fold read_block BOOL_BLOCKS ?c))"
    "bars null_at (set RETIRED_NULL_POSTURES) (fst (fold read_block BOOL_BLOCKS ?c))"
    by (rule keeps_barsD [OF keeps_bars_fold], rule keeps_bars_block [OF blind(1)], simp add: targets_apart(2), rule c)
      (rule keeps_barsD [OF keeps_bars_fold], rule keeps_bars_block [OF blind(2)], simp add: targets_apart(2), rule c)
  moreover have "bars bool_at (fst ` set (BOOL_BLOCKS :: (string \<times> 'a tree) list)) (fst (fold read_block BOOL_BLOCKS ?c))"
    using block_settles [of "hd BOOL_BLOCKS" ?c] by (simp add: BOOL_BLOCKS_def)
  ultimately show ?thesis by (simp add: settled_def split_retired_def)
qed

lemma fold_still: "(\<And>x. x \<in> set xs \<Longrightarrow> f x s = s) \<Longrightarrow> fold f xs s = s"
  by (induction xs) simp_all

lemma settled_still: "settled d \<Longrightarrow> split_retired d = (d, [])"
proof -
  assume d: "settled d"
  have "fold retire (sort RETIRED_PATHS) (d, []) = (d, [])"
    using d by (intro fold_still) (auto simp: retire_def leaf_in_found settled_def bars_def split: option.split)
  moreover have "fold retire_null (sort RETIRED_NULL_POSTURES) (d, []) = (d, [])"
    using d by (intro fold_still) (auto simp: retire_null_def leaf_in_found settled_def bars_def split: option.split pv.split)
  moreover have "fold fold_path FOLDED_PATHS (d, []) = (d, [])"
    by (intro fold_still) (auto simp: fold_path_def)
  moreover have "fold read_block BOOL_BLOCKS (d, []) = (d, [])"
    using d by (intro fold_still) (force simp: read_block_def leaf_in_found settled_def bars_def split: option.split pv.split)
  ultimately show ?thesis by (simp add: split_retired_def)
qed

text \<open>What the split records and what it leaves alone.\<close>

definition apart :: "string list \<Rightarrow> string list \<Rightarrow> bool" where
  "apart p q \<longleftrightarrow> \<not> prefix p q \<and> \<not> prefix q p"

definition RULED_PATHS :: "string list" where
  "RULED_PATHS = RETIRED_PATHS @ RETIRED_NULL_POSTURES @ map snd FOLDED_PATHS @ map fst (BOOL_BLOCKS :: (string \<times> unit tree) list)"

lemma path_split: "butlast (dotted p) @ [last (dotted p)] = dotted p"
  by simp

lemma apart_pop: "apart (dotted p) q \<Longrightarrow> here q (PDict (pop_leaf p d)) = here q (PDict d)"
  unfolding pop_leaf_def by (rule here_edit_apart [where ks = "butlast (dotted p)" and k = "last (dotted p)", unfolded path_split]) (auto simp: apart_def delete_conv')

lemma apart_set: "apart (dotted p) q \<Longrightarrow> here q (PDict (set_leaf p v d)) = here q (PDict d)"
  unfolding set_leaf_def by (rule here_edit_apart [where ks = "butlast (dotted p)" and k = "last (dotted p)", unfolded path_split]) (auto simp: apart_def update_conv')

lemma apart_steps:
  "apart (dotted p) q \<Longrightarrow> here q (PDict (fst (retire p s))) = here q (PDict (fst s))"
  "apart (dotted p) q \<Longrightarrow> here q (PDict (fst (retire_null p s))) = here q (PDict (fst s))"
  "apart (dotted (snd st)) q \<Longrightarrow> here q (PDict (fst (fold_path st s))) = here q (PDict (fst s))"
  "apart (dotted (fst pb)) q \<Longrightarrow> here q (PDict (fst (read_block pb s))) = here q (PDict (fst s))"
  by (auto simp: retire_def retire_null_def fold_path_def read_block_def apart_pop apart_set split: prod.split option.split pv.split)

lemma fold_keeps: "(\<And>x s. x \<in> set xs \<Longrightarrow> g (f x s) = g s) \<Longrightarrow> g (fold f xs s) = g s"
  by (induction xs arbitrary: s) simp_all

lemma retired_pairwise_apart: "distinct RETIRED_PATHS \<and>
    list_all (\<lambda>p. list_all (\<lambda>q. p = q \<or> apart p q) (map dotted RETIRED_PATHS)) (map dotted RETIRED_PATHS) \<and>
    distinct (map dotted RETIRED_PATHS)"
  by code_simp

lemma retire_records:
  assumes "distinct ps" "\<forall>p \<in> set ps. \<forall>q \<in> set ps. p = q \<or> apart (dotted p) (dotted q)" "p \<in> set ps" "map_of (snd s) p = None"
  shows "map_of (snd (fold retire ps s)) p = found_at p (fst s)"
  using assms
proof (induction ps arbitrary: s)
  case (Cons a ps)
  have other: "map_of (snd (retire x t)) p = map_of (snd t) p" if "x \<noteq> p" for x t
    using that by (auto simp: retire_def update_conv' simp del: map_of_None_dkeys split: prod.split option.split)
  show ?case
  proof (cases "a = p")
    case True
    have "map_of (snd (fold retire ps (retire a s))) p = map_of (snd (retire a s)) p"
      by (rule fold_keeps [where g = "\<lambda>t. map_of (snd t) p"], rule other) (use Cons.prems(1) True in auto)
    moreover have "map_of (snd (retire p s)) p = found_at p (fst s)" using Cons.prems(4)
      by (cases s) (auto simp: retire_def leaf_in_found update_conv' simp del: map_of_None_dkeys split: option.split)
    ultimately show ?thesis using True by simp
  next
    case False
    then have p: "p \<in> set ps" "apart (dotted a) (dotted p)" using Cons.prems by auto
    have "map_of (snd (fold retire ps (retire a s))) p = found_at p (fst (retire a s))"
      using Cons.IH [of "retire a s"] Cons.prems p(1) other [OF False, of s] by simp
    then show ?thesis using apart_steps(1) [OF p(2), of s] by (simp add: found_at_def)
  qed
qed simp

lemma other_records:
  assumes "p \<in> set RETIRED_PATHS"
  shows "x \<in> set (sort RETIRED_NULL_POSTURES) \<Longrightarrow> map_of (snd (retire_null x s)) p = map_of (snd s) p"
    and "map_of (snd (fold_path st s)) p = map_of (snd s) p"
    and "pb \<in> set BOOL_BLOCKS \<Longrightarrow> map_of (snd (read_block pb s)) p = map_of (snd s) p"
  using assms by (auto simp: retire_null_def fold_path_def read_block_def update_conv' RETIRED_NULL_POSTURES_def BOOL_BLOCKS_def
      RETIRED_PATHS_def simp del: map_of_None_dkeys split: prod.split option.split pv.split)

text \<open>Splitting a stamped configuration is idempotent: what it keeps holds no retired path, no
  retired null and no bool where a block is read, so that reading it a second time changes and records
  nothing; and every retired path is recorded with the value it had, or was absent.\<close>

theorem split_retired_settles:
  "split_retired (fst (split_retired config)) = (fst (split_retired config), []) \<and>
   (\<forall>p \<in> set RETIRED_PATHS. found_at p (fst (split_retired config)) = None \<and>
      map_of (snd (split_retired config)) p = found_at p config)"
proof (intro conjI ballI)
  show "split_retired (fst (split_retired config)) = (fst (split_retired config), [])"
    by (rule settled_still [OF settled_split])
  fix p assume p: "p \<in> set RETIRED_PATHS"
  show "found_at p (fst (split_retired config)) = None"
    using settled_split [of config] p by (cases "found_at p (fst (split_retired config))") (auto simp: settled_def bars_def)
  let ?a = "fold retire (sort RETIRED_PATHS) (config, [])"
  let ?b = "fold retire_null (sort RETIRED_NULL_POSTURES) ?a"
  let ?c = "fold fold_path FOLDED_PATHS ?b"
  have "map_of (snd ?a) p = found_at p config"
    using retire_records [of "sort RETIRED_PATHS" p "(config, [])"] retired_pairwise_apart p
    by (auto simp: list_all_iff distinct_map inj_on_def)
  moreover have "map_of (snd ?b) p = map_of (snd ?a) p"
    by (rule fold_keeps [where g = "\<lambda>t. map_of (snd t) p"]) (rule other_records(1) [OF p])
  moreover have "map_of (snd ?c) p = map_of (snd ?b) p"
    by (rule fold_keeps [where g = "\<lambda>t. map_of (snd t) p"]) (rule other_records(2) [OF p])
  moreover have "map_of (snd (fold read_block BOOL_BLOCKS ?c)) p = map_of (snd ?c) p"
    by (rule fold_keeps [where g = "\<lambda>t. map_of (snd t) p"]) (rule other_records(3) [OF p])
  ultimately show "map_of (snd (split_retired config)) p = found_at p config" unfolding split_retired_def by simp
qed

theorem split_retired_settles_witness:
  "split_retired [(''train'', PDict [(''lr'', PFloat (Fin 1)), (''total_steps'', PInt 7), (''scheduler_t_max'', PInt (0 :: int))] :: unit pv),
       (''search'', PNone)] =
     ([(''train'', PDict [(''lr'', PFloat (Fin 1)), (''scheduler_t_max'', PInt 7)])], [(''search'', PNone), (''train.total_steps'', PInt 7)]) \<and>
   found_at ''search'' (fst (split_retired [(''search'', PNone :: unit pv)])) = None"
proof (intro conjI)
  show "found_at ''search'' (fst (split_retired [(''search'', PNone :: unit pv)])) = None"
    using split_retired_settles [of "[(''search'', PNone :: unit pv)]"] by (simp add: RETIRED_PATHS_def)
qed code_simp

text \<open>A path apart from every ruled one is not touched by the split.\<close>

lemma split_retired_keeps_rest:
  assumes "\<forall>p \<in> set RULED_PATHS. apart (dotted p) q"
  shows "here q (PDict (fst (split_retired config))) = here q (PDict config)"
proof -
  let ?a = "fold retire (sort RETIRED_PATHS) (config, [])"
  let ?b = "fold retire_null (sort RETIRED_NULL_POSTURES) ?a"
  let ?c = "fold fold_path FOLDED_PATHS ?b"
  have in_null: "p \<in> set RETIRED_NULL_POSTURES \<Longrightarrow> p \<in> set RULED_PATHS" and in_fold: "st \<in> set FOLDED_PATHS \<Longrightarrow> snd st \<in> set RULED_PATHS"
    and in_block: "pb \<in> set (BOOL_BLOCKS :: (string \<times> 'a tree) list) \<Longrightarrow> fst pb \<in> set RULED_PATHS" for p st pb
    by (auto simp: RULED_PATHS_def BOOL_BLOCKS_def)
  have "here q (PDict (fst ?a)) = here q (PDict (fst (config, [] :: 'a tree)))"
    by (rule fold_keeps [where g = "\<lambda>s. here q (PDict (fst s))"], rule apart_steps(1)) (use assms in \<open>simp add: RULED_PATHS_def\<close>)
  moreover have "here q (PDict (fst ?b)) = here q (PDict (fst ?a))"
    by (rule fold_keeps [where g = "\<lambda>s. here q (PDict (fst s))"], rule apart_steps(2)) (use assms in_null in simp)
  moreover have "here q (PDict (fst ?c)) = here q (PDict (fst ?b))"
    by (rule fold_keeps [where g = "\<lambda>s. here q (PDict (fst s))"], rule apart_steps(3)) (use assms in_fold in simp)
  moreover have "here q (PDict (fst (fold read_block BOOL_BLOCKS ?c))) = here q (PDict (fst ?c))"
    by (rule fold_keeps [where g = "\<lambda>s. here q (PDict (fst s))"], rule apart_steps(4)) (use assms in_block in simp)
  ultimately show ?thesis unfolding split_retired_def by simp
qed

end
