(* ===== verification/Checkpoints.thy ===== *)
theory Checkpoints
  imports Config_Tree
begin

text \<open>
  \<open>src/mantis/train/checkpoints.py\<close>: the checkpoint envelope - the declared architecture and its serialized
  form (\<open>src/mantis/model/arch.py\<close>), the stamp written once, the content hash, the provenance file name, the
  one write path with its quarantine and its two counters, and the two readers.

  The environment \<open>'t env\<close> is what the code calls outside this file: the schema's errors on a
  configuration (\<open>RunConfig.model_validate\<close>), \<open>hashlib.sha256\<close>, \<open>repr\<close>, the bytes of a tensor, \<open>git\<close>, the
  clock, \<open>torch.save\<close> and \<open>torch.load\<close>, the temporary name of the atomic write and the encoding registry.
  The checkpoint directory is the \<open>disk\<close> of theory \<open>Bundle\<close>, whose every operation may raise.
\<close>

section \<open>Architectures\<close>

datatype arch_kind = GnnArch | GnnArchV2 | GnnArchV2SoftPolicy | GnnArchV2SoftPolicyFuture

record 't arch =
  ar_kind :: arch_kind
  ar_in_dim :: "'t pv"
  ar_edge_dim :: "'t pv"
  ar_hidden :: "'t pv"
  ar_num_layers :: "'t pv"
  ar_policy_hidden :: "'t pv"
  ar_value_hidden :: "'t pv"
  ar_n_value_bins :: "'t pv"
  ar_representation :: "'t pv"

fun kind_name :: "arch_kind \<Rightarrow> string" where
  "kind_name GnnArch = ''GnnArch''"
| "kind_name GnnArchV2 = ''GnnArchV2''"
| "kind_name GnnArchV2SoftPolicy = ''GnnArchV2SoftPolicy''"
| "kind_name GnnArchV2SoftPolicyFuture = ''GnnArchV2SoftPolicyFuture''"

definition ARCH_KINDS :: "(string, arch_kind) dict" where
  "ARCH_KINDS = map (\<lambda>k. (kind_name k, k)) [GnnArch, GnnArchV2, GnnArchV2SoftPolicy, GnnArchV2SoftPolicyFuture]"

definition ARCH_KINDS_BY_REPRESENTATION :: "(string, string list) dict" where
  "ARCH_KINDS_BY_REPRESENTATION = [(''graph'', [''GnnArch'', ''GnnArchV2'', ''GnnArchV2SoftPolicy'', ''GnnArchV2SoftPolicyFuture''])]"

definition INCUMBENT_ARCH_KIND :: "(string, string) dict" where
  "INCUMBENT_ARCH_KIND = [(''graph'', ''GnnArch'')]"

definition FUTURE_OCCUPANCY_ARCH_KINDS :: "string list" where
  "FUTURE_OCCUPANCY_ARCH_KINDS = [''GnnArchV2SoftPolicyFuture'']"

text \<open>\<open>cls(**d)\<close>: the two dimensions are required, the rest have defaults, a name that is no field raises.\<close>

definition arch_defaults :: "'t tree" where
  "arch_defaults = [(''hidden'', PInt 128), (''num_layers'', PInt 4), (''policy_hidden'', PInt 128), (''value_hidden'', PInt 32),
     (''n_value_bins'', PInt 65), (''representation'', PStr ''graph'')]"

definition build_arch :: "arch_kind \<Rightarrow> 't tree \<Rightarrow> 't arch res" where
  "build_arch kind d = (let given = (\<lambda>f. case map_of d f of Some v \<Rightarrow> v | None \<Rightarrow> pget arch_defaults f) in
     if \<not> list_all (\<lambda>k. k \<in> {''in_dim'', ''edge_dim''} \<or> map_of (arch_defaults :: 't tree) k \<noteq> None) (map fst d) then Inl TypeError
     else if map_of d ''in_dim'' = None \<or> map_of d ''edge_dim'' = None then Inl TypeError
     else Inr \<lparr>ar_kind = kind, ar_in_dim = given ''in_dim'', ar_edge_dim = given ''edge_dim'', ar_hidden = given ''hidden'',
       ar_num_layers = given ''num_layers'', ar_policy_hidden = given ''policy_hidden'', ar_value_hidden = given ''value_hidden'',
       ar_n_value_bins = given ''n_value_bins'', ar_representation = given ''representation''\<rparr>)"

definition arch_fields :: "'t arch \<Rightarrow> 't tree" where
  "arch_fields a = [(''in_dim'', ar_in_dim a), (''edge_dim'', ar_edge_dim a), (''hidden'', ar_hidden a),
     (''num_layers'', ar_num_layers a), (''policy_hidden'', ar_policy_hidden a), (''value_hidden'', ar_value_hidden a),
     (''n_value_bins'', ar_n_value_bins a), (''representation'', ar_representation a)]"

section \<open>The environment\<close>

record enc_spec =
  es_name :: string
  es_representation :: string
  es_n_planes :: int
  es_state_stride :: int
  es_policy_logit_count :: int
  es_node_feat_dim :: "int option"
  es_edge_feat_dim :: "int option"

record 't env =
  en_schema_errors :: "'t tree \<Rightarrow> (string \<times> string) list"
  en_sha256 :: "string \<Rightarrow> string"
  en_repr :: "'t pv \<Rightarrow> string"
  en_shape :: "'t \<Rightarrow> string"
  en_dtype :: "'t \<Rightarrow> string"
  en_bytes :: "'t \<Rightarrow> string option"
  en_bytes64 :: "'t \<Rightarrow> string"
  en_head_sha :: "string option"
  en_now :: string
  en_save :: "'t pv \<Rightarrow> string"
  en_load :: "string \<Rightarrow> 't pv res"
  en_tmp :: "string \<Rightarrow> string"
  en_specs :: "(string, enc_spec) dict"

definition text_of :: "'t env \<Rightarrow> 't pv \<Rightarrow> string" where
  "text_of E v = (case v of PStr s \<Rightarrow> s | _ \<Rightarrow> en_repr E v)"

text \<open>The registry's \<open>lookup\<close>, on the specifications the engine compiled in; a name that cannot be hashed raises.\<close>

definition lookup :: "'t env \<Rightarrow> 't pv \<Rightarrow> enc_spec res" where
  "lookup E name = (case name of
     PStr s \<Rightarrow> (case map_of (en_specs E) s of None \<Rightarrow> Inl EncodingRegistryError | Some spec \<Rightarrow> Inr spec)
   | PList _ \<Rightarrow> Inl TypeError | PDict _ \<Rightarrow> Inl TypeError | _ \<Rightarrow> Inl EncodingRegistryError)"

definition model_validate :: "'t env \<Rightarrow> 't tree \<Rightarrow> unit res" where
  "model_validate E config = (if en_schema_errors E config = [] then Inr () else Inl ValidationError)"

section \<open>Serialized architectures\<close>

definition arch_to_dict :: "'t arch \<Rightarrow> 't tree" where
  "arch_to_dict a = arch_fields a @ [(''arch_kind'', PStr (kind_name (ar_kind a)))]"

definition legacy_by_representation :: "'t env \<Rightarrow> 't pv \<Rightarrow> arch_kind option" where
  "legacy_by_representation E rep = (if text_of E rep = ''graph'' then Some GnnArch else None)"

text \<open>\<open>d.pop(key, None)\<close>, then the class and its construction; a \<open>TypeError\<close> is re-raised by name.\<close>

definition arch_from_dict :: "'t env \<Rightarrow> 't tree \<Rightarrow> 't arch res" where
  "arch_from_dict E d = (let kind = pget d ''arch_kind''; rest = AList.delete ''arch_kind'' d in
     case (if kind \<noteq> PNone then map_of ARCH_KINDS (text_of E kind) else legacy_by_representation E (pget rest ''representation'')) of
       None \<Rightarrow> Inl RepresentationMismatch
     | Some cls \<Rightarrow> (case build_arch cls rest of Inl TypeError \<Rightarrow> Inl RepresentationMismatch | r \<Rightarrow> r))"

text \<open>\<open>metadata\<close> is a mapping or \<open>None\<close>, its \<open>arch\<close> entry a mapping or anything else.\<close>

definition stamped_arch_kind :: "'t env \<Rightarrow> 't pv \<Rightarrow> string \<Rightarrow> string res" where
  "stamped_arch_kind E metadata rep = (let kind = get_or_none (get_or_none metadata ''arch'') ''arch_kind'' in
     if kind \<noteq> PNone then (if map_of ARCH_KINDS (text_of E kind) = None then Inl RepresentationMismatch else Inr (text_of E kind))
     else case legacy_by_representation E (PStr rep) of None \<Rightarrow> Inl RepresentationMismatch | Some cls \<Rightarrow> Inr (kind_name cls))"

text \<open>\<open>getattr(arch, field)\<close> for the two trunk widths.\<close>

definition width_of :: "'t arch \<Rightarrow> string \<Rightarrow> 't pv" where
  "width_of a f = pget (arch_fields a) f"

definition gnn_widths_block :: "'t arch \<Rightarrow> 't tree res" where
  "gnn_widths_block a = rmap (\<lambda>f. rbind (p_int (width_of a f)) (\<lambda>i. Inr (f, PInt i))) GNN_WIDTH_FIELDS"

definition width_drift :: "'t tree \<Rightarrow> 't arch \<Rightarrow> string list res" where
  "width_drift config a = rbind (declared_gnn_widths config) (\<lambda>widths.
     rbind (rmap (\<lambda>(f, v). rbind (p_int (width_of a f)) (\<lambda>i. Inr (f, v \<noteq> i))) widths) (\<lambda>rows.
       Inr (map fst (filter snd rows))))"

definition refuse_shape_lie :: "'t tree \<Rightarrow> 't arch option \<Rightarrow> unit res" where
  "refuse_shape_lie config arch = (case arch of None \<Rightarrow> Inr ()
     | Some a \<Rightarrow> rbind (width_drift config a) (\<lambda>drift. if drift \<noteq> [] then Inl CheckpointStampError else Inr ()))"

text \<open>\<open>select_arch\<close>: the flat head-width keys are read as they are.\<close>

definition GRAPH_CONFIG_KEYS :: "(string \<times> string) list" where
  "GRAPH_CONFIG_KEYS = [(''gnn_policy_hidden'', ''policy_hidden''), (''gnn_value_hidden'', ''value_hidden''), (''n_value_bins'', ''n_value_bins'')]"

definition flat_widths :: "'t tree \<Rightarrow> 't tree" where
  "flat_widths config = concat (map (\<lambda>(k, f). if pget config k \<noteq> PNone then [(f, pget config k)] else []) GRAPH_CONFIG_KEYS)"

definition select_arch :: "enc_spec \<Rightarrow> 't tree \<Rightarrow> string \<Rightarrow> 't arch res" where
  "select_arch spec config arch_kind = (case map_of ARCH_KINDS arch_kind of
     None \<Rightarrow> Inl UnknownArchKind
   | Some cls \<Rightarrow>
       if arch_kind \<notin> set (dget ARCH_KINDS_BY_REPRESENTATION (es_representation spec) []) then Inl UnknownArchKind
       else (case (es_node_feat_dim spec, es_edge_feat_dim spec) of
         (Some n, Some e) \<Rightarrow>
           if pget config ''value_head_type'' \<noteq> PNone \<and> \<not> py_eq (pget config ''value_head_type'') (PStr ''dist65'')
           then Inl RepresentationMismatch
           else rbind (declared_gnn_widths config) (\<lambda>widths. build_arch cls
             ([(''in_dim'', PInt n), (''edge_dim'', PInt e)] @ map (\<lambda>(f, v). (f, PInt v)) widths @ flat_widths config))
       | _ \<Rightarrow> Inl RepresentationMismatch))"

text \<open>\<open>arch_from_spec_and_config\<close>: the configuration's row, else the representation's incumbent; a row that is no text is no kind.\<close>

definition arch_from_spec_and_config :: "enc_spec \<Rightarrow> 't tree \<Rightarrow> 't arch res" where
  "arch_from_spec_and_config spec config =
     (if declared_representation config \<notin> {None, Some (es_representation spec)} then Inl RepresentationMismatch
      else case declared_arch_kind config of
        PNone \<Rightarrow> (case map_of INCUMBENT_ARCH_KIND (es_representation spec) of
            None \<Rightarrow> Inl RepresentationMismatch | Some k \<Rightarrow> select_arch spec config k)
      | PStr k \<Rightarrow> select_arch spec config k
      | PList _ \<Rightarrow> Inl TypeError | PDict _ \<Rightarrow> Inl TypeError | _ \<Rightarrow> Inl UnknownArchKind)"

section \<open>Stamps\<close>

definition CHECKPOINT_SCHEMA_VERSION :: int where "CHECKPOINT_SCHEMA_VERSION = 2"

definition KILLED_PREFIXES :: "string list" where
  "KILLED_PREFIXES = [''cluster_pool.'', ''global_encoder.'', ''gpool_bias_branch.'']"

definition reject_killed_prefixes :: "'t tree \<Rightarrow> unit res" where
  "reject_killed_prefixes state = (if list_ex (\<lambda>k. list_ex (\<lambda>p. prefix p k) KILLED_PREFIXES) (map fst state)
     then Inl RepresentationMismatch else Inr ())"

text \<open>\<open>value.get("version") or value.get("name")\<close> of a mapping, else the value.\<close>

definition stamp_name :: "'t pv \<Rightarrow> 't pv" where
  "stamp_name v = (case v of PDict d \<Rightarrow> if p_truthy (pget d ''version'') then pget d ''version'' else pget d ''name'' | _ \<Rightarrow> v)"

fun lineage_tags :: "'t pv list \<Rightarrow> string list res" where
  "lineage_tags [] = Inr []"
| "lineage_tags (PStr t # vs) = (if t = [] then Inl CheckpointStampError else rbind (lineage_tags vs) (\<lambda>ts. Inr (t # ts)))"
| "lineage_tags (_ # vs) = Inl CheckpointStampError"

definition lineage_list :: "'t pv \<Rightarrow> string list res" where
  "lineage_list v = (case v of PNone \<Rightarrow> Inr [] | PList vs \<Rightarrow> lineage_tags vs | _ \<Rightarrow> Inl CheckpointStampError)"

text \<open>The caller's metadata: plain values, and the architecture it declares, if any.\<close>

record 't stamp_args =
  sa_values :: "'t tree"
  sa_arch :: "'t arch option"

definition resolve_commit_sha :: "'t env \<Rightarrow> string" where
  "resolve_commit_sha E = (case en_head_sha E of None \<Rightarrow> ''unknown'' | Some s \<Rightarrow> if s = [] then ''unknown'' else s)"

definition now_iso :: "'t env \<Rightarrow> string" where "now_iso E = en_now E @ ''Z''"

definition nonempty_text :: "'t pv \<Rightarrow> string res" where
  "nonempty_text v = (case v of PStr s \<Rightarrow> if s = [] then Inl CheckpointStampError else Inr s | _ \<Rightarrow> Inl CheckpointStampError)"

definition stamp_dict :: "'t env \<Rightarrow> 't pv \<Rightarrow> 't pv \<Rightarrow> int \<Rightarrow> 't pv \<Rightarrow> 't pv \<Rightarrow> string list \<Rightarrow> 't tree" where
  "stamp_dict E enc run_id step arch corpus tags =
     [(''encoding_name'', enc), (''run_id'', run_id), (''step'', PInt step), (''commit_sha'', PStr (resolve_commit_sha E)),
      (''created_utc'', PStr (now_iso E)), (''arch'', arch), (''corpus_sha256'', corpus), (''lineage'', PList (map PStr tags))]"

definition build_stamped_metadata :: "'t env \<Rightarrow> 't stamp_args \<Rightarrow> int \<Rightarrow> 't tree res" where
  "build_stamped_metadata E md step = (let v = pget (sa_values md) in
     if map_of (sa_values md) ''created_utc'' \<noteq> None \<or> map_of (sa_values md) ''commit_sha'' \<noteq> None then Inl CheckpointStampError
     else rbind (nonempty_text (v ''encoding_name'')) (\<lambda>enc. rbind (nonempty_text (v ''run_id'')) (\<lambda>run_id.
       case sa_arch md of None \<Rightarrow> Inl CheckpointStampError
       | Some a \<Rightarrow> rbind (lineage_list (v ''lineage'')) (\<lambda>tags.
           Inr (stamp_dict E (PStr enc) (PStr run_id) step (PDict (arch_to_dict a)) (v ''corpus_sha256'') tags)))))"

text \<open>\<open>value or default\<close>.\<close>

definition or_else :: "'t pv \<Rightarrow> string \<Rightarrow> 't pv" where
  "or_else v dflt = (if p_truthy v then v else PStr dflt)"

definition quarantine_metadata :: "'t env \<Rightarrow> 't stamp_args \<Rightarrow> int \<Rightarrow> 't tree res" where
  "quarantine_metadata E md step = (let v = pget (sa_values md) in rbind (lineage_list (v ''lineage'')) (\<lambda>tags.
     Inr (stamp_dict E (or_else (v ''encoding_name'') []) (or_else (v ''run_id'') ''unknown'') step
       (case sa_arch md of None \<Rightarrow> PNone | Some a \<Rightarrow> PDict (arch_to_dict a)) (v ''corpus_sha256'') tags)))"

section \<open>Payloads and their names\<close>

text \<open>What \<open>_hash_update\<close> feeds the digest.\<close>

fun hash_bytes :: "'t env \<Rightarrow> 't pv \<Rightarrow> string" where
  "hash_bytes E (PTensor t) = [CHR 0x01, CHR ''T''] @ en_shape E t @ en_dtype E t @
     (case en_bytes E t of Some b \<Rightarrow> b | None \<Rightarrow> en_bytes64 E t)"
| "hash_bytes E (PDict d) = [CHR 0x01, CHR ''D''] @
     concat (map snd (sort_key (\<lambda>(r, s). r) (map (\<lambda>(k, v). (en_repr E (PStr k), en_repr E (PStr k) @ hash_bytes E v)) d)))"
| "hash_bytes E (PList vs) = [CHR 0x01, CHR ''L''] @ concat (map (hash_bytes E) vs)"
| "hash_bytes E v = [CHR 0x01, CHR ''P''] @ en_repr E v"

definition content_sha8 :: "'t env \<Rightarrow> 't tree \<Rightarrow> string" where
  "content_sha8 E payload = take 8 (en_sha256 E (hash_bytes E (PDict payload)))"

text \<open>\<open>f"{step:08d}"\<close>: the sign counts towards the width.\<close>

definition fmt08 :: "int \<Rightarrow> string" where
  "fmt08 i = (let ds = str_nat (nat \<bar>i\<bar>); sgn = (if i < 0 then ''-'' else [])
     in sgn @ replicate (8 - length sgn - length ds) (CHR ''0'') @ ds)"

definition checkpoint_filename :: "string \<Rightarrow> int \<Rightarrow> string \<Rightarrow> string" where
  "checkpoint_filename run_id step sha8 = run_id @ ''_'' @ fmt08 step @ ''_'' @ sha8 @ ''.ckpt''"

definition assemble_payload ::
  "string \<Rightarrow> 't tree \<Rightarrow> 't tree \<Rightarrow> 't tree \<Rightarrow> 't pv \<Rightarrow> 't pv \<Rightarrow> 't pv \<Rightarrow> 't tree option \<Rightarrow> 't tree" where
  "assemble_payload kind model_state metadata config optimizer scaler scheduler ema =
     [(''schema_version'', PInt CHECKPOINT_SCHEMA_VERSION), (''kind'', PStr kind), (''model_state'', PDict model_state),
      (''metadata'', PDict metadata), (''config'', PDict config)] @
     (if kind = ''full'' then [(''optimizer_state'', optimizer), (''scaler_state'', scaler), (''scheduler_state'', scheduler)] else []) @
     (case ema of None \<Rightarrow> [] | Some s \<Rightarrow> [(''ema_state'', PDict s)])"

section \<open>The write path\<close>

text \<open>The directory and the module's two counters.\<close>

record saver =
  sv_disk :: disk
  sv_persist_errors_total :: nat
  sv_quarantine_writes_total :: nat

definition on_disk :: "(disk, 'a) act \<Rightarrow> (saver, 'a) act" where
  "on_disk m s = (case m (sv_disk s) of (r, d) \<Rightarrow> (r, s\<lparr>sv_disk := d\<rparr>))"

definition count_persist_error :: "saver \<Rightarrow> saver" where
  "count_persist_error s = s\<lparr>sv_persist_errors_total := Suc (sv_persist_errors_total s)\<rparr>"

definition count_quarantine :: "saver \<Rightarrow> saver" where
  "count_quarantine s = s\<lparr>sv_quarantine_writes_total := Suc (sv_quarantine_writes_total s)\<rparr>"

text \<open>\<open>mkdir(parents=True, exist_ok=True)\<close> of the checkpoint directory changes no file and may raise.\<close>

definition mkdir :: "(saver, unit) act" where
  "mkdir = on_disk (disk_step id)"

definition write_payload :: "'t env \<Rightarrow> string \<Rightarrow> 't tree \<Rightarrow> (saver, unit) act" where
  "write_payload E path payload = on_disk (atomic_write (en_tmp E path) path (Blob (en_save E (PDict payload))))"

record 't save_args =
  sg_model_state :: "'t tree"
  sg_optimizer :: "'t pv"
  sg_scaler :: "'t pv"
  sg_scheduler :: "'t pv"
  sg_step :: int
  sg_config :: "'t tree"
  sg_metadata_kwargs :: "'t stamp_args"
  sg_kind :: string
  sg_allow_quarantine :: bool
  sg_ema :: "'t tree option"

definition payload_of :: "'t save_args \<Rightarrow> 't tree \<Rightarrow> 't tree option \<Rightarrow> 't tree" where
  "payload_of a metadata ema = assemble_payload (sg_kind a) (sg_model_state a) metadata (sg_config a) (sg_optimizer a)
     (sg_scaler a) (sg_scheduler a) ema"

definition write_quarantine :: "'t env \<Rightarrow> 't save_args \<Rightarrow> (saver, string) act" where
  "write_quarantine E a = abind (lift (quarantine_metadata E (sg_metadata_kwargs a) (sg_step a))) (\<lambda>q_meta.
     let payload = payload_of a q_meta None;
         qpath = checkpoint_filename (text_of E (pget q_meta ''run_id'')) (sg_step a) (content_sha8 E payload) @ ''.quarantine''
     in abind mkdir (\<lambda>_. abind (write_payload E qpath payload) (\<lambda>_. abind (modify count_quarantine) (\<lambda>_. ret qpath))))"

definition stamp_of :: "'t env \<Rightarrow> 't save_args \<Rightarrow> 't tree res" where
  "stamp_of E a = rbind (build_stamped_metadata E (sg_metadata_kwargs a) (sg_step a)) (\<lambda>metadata.
     rbind (refuse_shape_lie (sg_config a) (sa_arch (sg_metadata_kwargs a))) (\<lambda>_. Inr metadata))"

definition write_v2_payload :: "'t env \<Rightarrow> 't save_args \<Rightarrow> (saver, string) act" where
  "write_v2_payload E a = abind (lift (model_validate E (sg_config a))) (\<lambda>_. case stamp_of E a of
     Inl e \<Rightarrow> if e = CheckpointStampError \<and> sg_allow_quarantine a then write_quarantine E a else lift (Inl e)
   | Inr metadata \<Rightarrow>
       let payload = payload_of a metadata (sg_ema a);
           path = checkpoint_filename (text_of E (pget metadata ''run_id'')) (sg_step a) (content_sha8 E payload)
       in abind mkdir (\<lambda>_. abind
            (catching (write_payload E path payload) (\<lambda>e. abind (modify count_persist_error) (\<lambda>_. lift (Inl e))))
            (\<lambda>_. ret path)))"

text \<open>A module: a compiled one wraps the original, whose state is saved; the optimizer, scaler and scheduler by their states.\<close>

record 't net =
  nt_orig_mod :: "'t tree option"
  nt_state_dict :: "'t tree"

record 't save_request =
  sq_model :: "'t net"
  sq_optimizer :: "'t pv option"
  sq_scaler :: "'t pv option"
  sq_scheduler :: "'t pv option"

definition state_or_none :: "'t pv option \<Rightarrow> 't pv" where
  "state_or_none v = (case v of None \<Rightarrow> PNone | Some s \<Rightarrow> s)"

definition save_args_of ::
  "'t save_request \<Rightarrow> int \<Rightarrow> 't tree \<Rightarrow> 't stamp_args \<Rightarrow> string \<Rightarrow> bool \<Rightarrow> 't tree option \<Rightarrow> 't save_args" where
  "save_args_of q step config metadata_kwargs kind allow_quarantine ema_state = (let full = kind = ''full'' in
     \<lparr>sg_model_state = (case nt_orig_mod (sq_model q) of Some s \<Rightarrow> s | None \<Rightarrow> nt_state_dict (sq_model q)),
      sg_optimizer = (if full then state_or_none (sq_optimizer q) else PNone),
      sg_scaler = (if full then state_or_none (sq_scaler q) else PNone),
      sg_scheduler = (if full then state_or_none (sq_scheduler q) else PNone),
      sg_step = step, sg_config = config, sg_metadata_kwargs = metadata_kwargs, sg_kind = kind,
      sg_allow_quarantine = allow_quarantine, sg_ema = ema_state\<rparr>)"

definition save_checkpoint_v2 ::
  "'t env \<Rightarrow> 't save_request \<Rightarrow> int \<Rightarrow> 't tree \<Rightarrow> 't stamp_args \<Rightarrow> string \<Rightarrow> bool \<Rightarrow> 't tree option \<Rightarrow> (saver, string) act" where
  "save_checkpoint_v2 E q step config metadata_kwargs kind allow_quarantine ema_state =
     write_v2_payload E (save_args_of q step config metadata_kwargs kind allow_quarantine ema_state)"

section \<open>The read path\<close>

record 't checkpoint_metadata =
  cm_encoding_name :: "'t pv"
  cm_run_id :: "'t pv"
  cm_step :: int
  cm_commit_sha :: "'t pv"
  cm_created_utc :: "'t pv"
  cm_arch :: "'t arch option"
  cm_corpus_sha256 :: "'t pv"
  cm_lineage :: "string list"

record 't checkpoint =
  ck_schema_version :: int
  ck_kind :: string
  ck_model_state :: "'t tree"
  ck_metadata :: "'t checkpoint_metadata"
  ck_config :: "'t tree"
  ck_optimizer_state :: "'t pv"
  ck_scaler_state :: "'t pv"
  ck_scheduler_state :: "'t pv"
  ck_ema_state :: "'t tree option"

definition deploy_state :: "'t checkpoint \<Rightarrow> 't tree \<times> string" where
  "deploy_state ck = (case ck_ema_state ck of Some s \<Rightarrow> (s, ''ema'') | None \<Rightarrow> (ck_model_state ck, ''learner''))"

definition torch_load :: "'t env \<Rightarrow> files \<Rightarrow> string \<Rightarrow> 't pv res" where
  "torch_load E fs path = (case map_of fs path of None \<Rightarrow> Inl FileNotFoundError
     | Some (Blob b) \<Rightarrow> en_load E b | Some (Doc _) \<Rightarrow> Inl RuntimeError)"

definition is_v2 :: "'t pv \<Rightarrow> 't tree option" where
  "is_v2 raw = (case raw of PDict d \<Rightarrow> if py_eq (pget d ''schema_version'') (PInt CHECKPOINT_SCHEMA_VERSION) then Some d else None | _ \<Rightarrow> None)"

definition stamped_lineage :: "'t env \<Rightarrow> files \<Rightarrow> string \<Rightarrow> string list res" where
  "stamped_lineage E fs path = rbind (torch_load E fs path) (\<lambda>raw. case is_v2 raw of None \<Rightarrow> Inr []
     | Some d \<Rightarrow> lineage_list (get_or_none (pget d ''metadata'') ''lineage''))"

text \<open>\<open>s.rsplit("_", 2)\<close>.\<close>

fun rsplit :: "nat \<Rightarrow> string \<Rightarrow> string list" where
  "rsplit 0 s = [s]"
| "rsplit (Suc n) s = (if CHR ''_'' \<in> set s
     then (let t = takeWhile (\<lambda>c. c \<noteq> CHR ''_'') (rev s) in rsplit n (take (length s - Suc (length t)) s) @ [rev t])
     else [s])"

definition step_agrees :: "'t pv \<Rightarrow> string \<Rightarrow> bool res" where
  "step_agrees md_step fn_step = (if md_step = PNone then Inr False
     else case rbind (p_int md_step) (\<lambda>i. rbind (int_of_str fn_step) (\<lambda>j. Inr (i = j))) of
       Inl TypeError \<Rightarrow> Inr False | Inl ValueError \<Rightarrow> Inr False | r \<Rightarrow> r)"

definition verify_provenance :: "'t env \<Rightarrow> string \<Rightarrow> 't tree \<Rightarrow> 't tree \<Rightarrow> string option \<Rightarrow> unit res" where
  "verify_provenance E path payload metadata expected_run_id = (case rsplit 2 (stem path) of
     [fn_run_id, fn_step, fn_sha8] \<Rightarrow>
       if \<not> py_eq (pget metadata ''run_id'') (PStr fn_run_id) then Inl CheckpointStampError
       else rbind (step_agrees (pget metadata ''step'') fn_step) (\<lambda>ok.
         if \<not> ok then Inl CheckpointStampError
         else if content_sha8 E payload \<noteq> fn_sha8 then Inl CheckpointStampError
         else case expected_run_id of None \<Rightarrow> Inr ()
           | Some r \<Rightarrow> if py_eq (pget metadata ''run_id'') (PStr r) then Inr () else Inl CheckpointStampError)
   | _ \<Rightarrow> Inl CheckpointStampError)"

definition rehydrate_metadata :: "'t env \<Rightarrow> 't tree \<Rightarrow> 't checkpoint_metadata res" where
  "rehydrate_metadata E md = rbind (if pget md ''arch'' = PNone then Inr None
       else rbind (p_dict (pget md ''arch'')) (\<lambda>d. rbind (arch_from_dict E d) (\<lambda>a. Inr (Some a)))) (\<lambda>arch.
     rbind (p_int (dget md ''step'' (PInt 0))) (\<lambda>step. rbind (lineage_list (pget md ''lineage'')) (\<lambda>tags.
       Inr \<lparr>cm_encoding_name = dget md ''encoding_name'' (PStr []), cm_run_id = dget md ''run_id'' (PStr []), cm_step = step,
            cm_commit_sha = dget md ''commit_sha'' (PStr []), cm_created_utc = dget md ''created_utc'' (PStr []), cm_arch = arch,
            cm_corpus_sha256 = pget md ''corpus_sha256'', cm_lineage = tags\<rparr>)))"

definition config_encoding :: "'t pv \<Rightarrow> 't pv" where
  "config_encoding config = get_or_none (get_or_none config ''identity'') ''encoding''"

text \<open>Missing leaves are logged, any other error refuses.\<close>

definition validate_stamped_config :: "'t env \<Rightarrow> 't tree \<Rightarrow> unit res" where
  "validate_stamped_config E config =
     (if list_all (\<lambda>(loc, what). what = ''missing'') (en_schema_errors E (fst (split_retired config))) then Inr () else Inl ValidationError)"

text \<open>The encoding checks, in their order; a decode override is logged and never raises.\<close>

definition check_encodings :: "'t pv \<Rightarrow> 't pv \<Rightarrow> 't pv \<Rightarrow> 't pv \<Rightarrow> unit res" where
  "check_encodings stamp_enc cfg_enc declared override =
     (if declared \<noteq> PNone \<and> override \<noteq> PNone then Inl ValueError
      else if stamp_enc \<noteq> PNone \<and> cfg_enc \<noteq> PNone \<and> \<not> py_eq (stamp_name stamp_enc) (stamp_name cfg_enc) then Inl CheckpointStampError
      else if declared \<noteq> PNone \<and> stamp_enc \<noteq> PNone \<and> stamp_name stamp_enc \<noteq> PNone \<and>
          \<not> py_eq (stamp_name declared) (stamp_name stamp_enc) then Inl DeclaredEncodingMismatchError
      else Inr ())"

definition check_ema :: "'t tree \<Rightarrow> 't pv \<Rightarrow> 't tree option res" where
  "check_ema model_state ema = (case ema of PNone \<Rightarrow> Inr None
     | PDict d \<Rightarrow> if dkeys d \<noteq> dkeys model_state then Inl CheckpointStampError
         else rbind (reject_killed_prefixes d) (\<lambda>_. Inr (Some d))
     | _ \<Rightarrow> Inl CheckpointStampError)"

definition carries_future_head :: "'t arch option \<Rightarrow> bool" where
  "carries_future_head arch = (case arch of None \<Rightarrow> False | Some a \<Rightarrow> kind_name (ar_kind a) \<in> set FUTURE_OCCUPANCY_ARCH_KINDS)"

definition future_head_declared :: "'t tree \<Rightarrow> bool res" where
  "future_head_declared config = (case declared_arch_kind config of PStr k \<Rightarrow> Inr (k \<in> set FUTURE_OCCUPANCY_ARCH_KINDS)
     | PList _ \<Rightarrow> Inl TypeError | PDict _ \<Rightarrow> Inl TypeError | _ \<Rightarrow> Inr False)"

record 't reader =
  rd_declared_encoding :: "'t pv"
  rd_declared_future_head :: "bool option"
  rd_expected_run_id :: "string option"
  rd_decode_override :: "'t pv"

definition read_blocks :: "'t tree \<Rightarrow> ('t tree \<times> 't tree) res" where
  "read_blocks payload = (case (pget payload ''metadata'', pget payload ''model_state'') of
     (PDict md, PDict ms) \<Rightarrow> Inr (md, ms) | _ \<Rightarrow> Inl CheckpointStampError)"

definition config_dict :: "'t pv \<Rightarrow> 't tree" where
  "config_dict v = (case v of PDict d \<Rightarrow> d | _ \<Rightarrow> [])"

definition load_payload :: "'t env \<Rightarrow> string \<Rightarrow> 't reader \<Rightarrow> 't tree \<Rightarrow> 't checkpoint res" where
  "load_payload E path r payload =
     rbind (read_blocks payload) (\<lambda>(metadata, model_state).
     rbind (verify_provenance E path payload metadata (rd_expected_run_id r)) (\<lambda>_.
     rbind (reject_killed_prefixes model_state) (\<lambda>_. let config = pget payload ''config'' in
     rbind (check_encodings (pget metadata ''encoding_name'') (config_encoding config) (rd_declared_encoding r) (rd_decode_override r)) (\<lambda>_.
     rbind (case config of PDict c \<Rightarrow> validate_stamped_config E c | _ \<Rightarrow> Inr ()) (\<lambda>_.
     rbind (case pget payload ''kind'' of PStr k \<Rightarrow> Inr k | _ \<Rightarrow> Inl CheckpointStampError) (\<lambda>kind.
     rbind (check_ema model_state (pget payload ''ema_state'')) (\<lambda>ema.
     rbind (rehydrate_metadata E metadata) (\<lambda>md.
       if rd_declared_future_head r \<notin> {None, Some (carries_future_head (cm_arch md))} then Inl DeclaredFutureHeadMismatchError
       else Inr \<lparr>ck_schema_version = CHECKPOINT_SCHEMA_VERSION, ck_kind = kind, ck_model_state = model_state, ck_metadata = md,
         ck_config = config_dict config, ck_optimizer_state = pget payload ''optimizer_state'',
         ck_scaler_state = pget payload ''scaler_state'', ck_scheduler_state = pget payload ''scheduler_state'',
         ck_ema_state = ema\<rparr>))))))))"

definition load_checkpoint :: "'t env \<Rightarrow> files \<Rightarrow> string \<Rightarrow> 't reader \<Rightarrow> 't checkpoint res" where
  "load_checkpoint E fs path r = rbind (torch_load E fs path) (\<lambda>raw. case is_v2 raw of
     None \<Rightarrow> Inl CheckpointStampError | Some payload \<Rightarrow> load_payload E path r payload)"

end
