(* ===== verification/Checkpoint_Laws.thy ===== *)
theory Checkpoint_Laws
  imports Checkpoints
begin

text \<open>
  What the envelope of theory \<open>Checkpoints\<close> promises: a stamped save reads back as what was saved, a load
  accepts only what the file name, the hash and the declared facts say, a save that fails is counted and
  leaves what the directory held, and a quarantined save is never read back.
\<close>

section \<open>File names\<close>

lemma stem_ckpt: "x \<noteq> [] \<Longrightarrow> stem (x @ ''.ckpt'') = x"
  by (simp add: stem_def)

lemma rsplit_last:
  "CHR ''_'' \<notin> set h \<Longrightarrow> rsplit (Suc n) (x @ CHR ''_'' # h) = rsplit n x @ [h]"
proof -
  assume h: "CHR ''_'' \<notin> set h"
  then have "takeWhile (\<lambda>c. c \<noteq> CHR ''_'') (rev (x @ CHR ''_'' # h)) = rev h"
    using takeWhile_append2 [of "rev h" "\<lambda>c. c \<noteq> CHR ''_''" "CHR ''_'' # rev x"] by auto
  then show ?thesis by (simp add: Let_def)
qed

lemma rsplit_name: "CHR ''_'' \<notin> set s \<Longrightarrow> CHR ''_'' \<notin> set h \<Longrightarrow> rsplit 2 (r @ ''_'' @ s @ ''_'' @ h) = [r, s, h]"
  using rsplit_last [of h 1 "r @ CHR ''_'' # s"] rsplit_last [of s 0 r] by (simp add: numeral_2_eq_2)

lemma digits_are: "c \<in> digit_chars \<Longrightarrow> is_digit c"
  using digit_inj by (auto simp: digit_chars_def is_digit_def)

lemma digit_run_all: "s \<noteq> [] \<Longrightarrow> list_all is_digit s \<Longrightarrow> digit_run s = Some s"
proof (induction s rule: digit_run.induct)
  case (3 c d s)
  have "\<not> is_digit CHR ''_''" by (simp add: is_digit_def)
  then show ?case using 3 by auto
qed simp_all

lemma str_nat_nonempty: "str_nat n \<noteq> []"
  by (subst str_nat.simps) simp

definition padded :: "int \<Rightarrow> string" where
  "padded i = replicate (8 - (if i < 0 then 1 else 0) - length (str_nat (nat \<bar>i\<bar>))) CHR ''0'' @ str_nat (nat \<bar>i\<bar>)"

lemma fmt08_padded: "fmt08 i = (if i < 0 then ''-'' else []) @ padded i"
  by (simp add: fmt08_def padded_def Let_def)

lemma padded_digits: "padded i \<noteq> [] \<and> list_all is_digit (padded i)"
  using str_nat_chars [of "nat \<bar>i\<bar>"] digits_are by (auto simp: padded_def str_nat_nonempty list_all_iff is_digit_def)

lemma fmt08_chars: "c \<in> set (fmt08 i) \<Longrightarrow> is_digit c \<or> c = CHR ''-''"
  using padded_digits [of i] by (auto simp: fmt08_padded list_all_iff split: if_splits)

lemma strip_id: "s \<noteq> [] \<Longrightarrow> \<not> white (hd s) \<Longrightarrow> \<not> white (last s) \<Longrightarrow> strip s = s"
proof -
  assume s: "s \<noteq> []" "\<not> white (hd s)" "\<not> white (last s)"
  then have "dropWhile white (rev s) = rev s" by (cases s rule: rev_cases) auto
  then show ?thesis using s(1,2) by (cases s) (simp_all add: strip_def)
qed

lemma int_of_fmt08: "int_of_str (fmt08 i) = Inr i"
proof -
  obtain c cs where p: "padded i = c # cs" using padded_digits [of i] by (cases "padded i") auto
  have digits: "list_all is_digit (padded i)" using padded_digits by blast
  then have c: "is_digit c" "is_digit (last (padded i))" using p by (auto simp: list_all_iff)
  have dig: "\<not> white d \<and> d \<noteq> CHR ''-'' \<and> d \<noteq> CHR ''+''" if "is_digit d" for d
    using that by (auto simp: is_digit_def white_def)
  have "strip (fmt08 i) = fmt08 i"
    using dig [OF c(1)] dig [OF c(2)] p by (intro strip_id) (auto simp: fmt08_padded white_def)
  moreover have "digit_run (padded i) = Some (padded i)" using padded_digits digit_run_all by blast
  moreover have "undigits (padded i) = nat \<bar>i\<bar>" by (simp add: padded_def undigits_zeros undigits_str_nat)
  ultimately show ?thesis using dig [OF c(1)] p by (auto simp: int_of_str_def fmt08_padded)
qed

lemma fmt08_no: "CHR ''_'' \<notin> set (fmt08 i)"
  using fmt08_chars [of "CHR ''_''" i] by (auto simp: is_digit_def)

definition hex8 :: "string \<Rightarrow> bool" where
  "hex8 h \<longleftrightarrow> length h = 8 \<and> list_all is_hex h"

lemma hex8_no: "hex8 h \<Longrightarrow> CHR ''_'' \<notin> set h \<and> CHR ''.'' \<notin> set h"
  by (auto simp: hex8_def list_all_iff is_hex_def is_digit_def)

lemma filename_parts: "hex8 h \<Longrightarrow> rsplit 2 (stem (checkpoint_filename r s h)) = [r, fmt08 s, h]"
  using stem_ckpt [of "r @ ''_'' @ fmt08 s @ ''_'' @ h"] rsplit_name [OF fmt08_no, of h r s] hex8_no [of h]
  by (simp add: checkpoint_filename_def)

section \<open>Architectures read back\<close>

lemma arch_roundtrip: "arch_from_dict E (arch_to_dict a) = Inr a"
proof -
  have rest: "AList.delete ''arch_kind'' (arch_to_dict a) = arch_fields a"
    by (simp add: arch_to_dict_def arch_fields_def)
  have "pget (arch_to_dict a) ''arch_kind'' = PStr (kind_name (ar_kind a))"
    by (simp add: arch_to_dict_def arch_fields_def dget_def)
  moreover have "map_of ARCH_KINDS (kind_name (ar_kind a)) = Some (ar_kind a)"
    by (cases "ar_kind a") (simp_all add: ARCH_KINDS_def)
  moreover have "build_arch (ar_kind a) (arch_fields a) = Inr a"
    by (simp add: build_arch_def arch_fields_def arch_defaults_def Let_def)
  ultimately show ?thesis by (simp add: arch_from_dict_def rest text_of_def)
qed

lemma lineage_roundtrip: "lineage_list v = Inr tags \<Longrightarrow> lineage_list (PList (map PStr tags) :: 'u pv) = Inr tags"
proof -
  have "lineage_tags vs = Inr tags \<Longrightarrow> lineage_tags (map PStr tags :: 'u pv list) = Inr tags" for vs :: "'a pv list"
    by (induction vs arbitrary: tags rule: lineage_tags.induct) (auto simp: rbind_Inr_iff split: if_splits)
  then show "lineage_list v = Inr tags \<Longrightarrow> lineage_list (PList (map PStr tags) :: 'u pv) = Inr tags"
    by (auto simp: lineage_list_def split: pv.splits)
qed

section \<open>What a save stamps\<close>

definition payload_fields :: "'t save_args \<Rightarrow> 't tree \<Rightarrow> 't tree option \<Rightarrow> bool" where
  "payload_fields a md ema \<longleftrightarrow> (let p = payload_of a md ema in
     pget p ''schema_version'' = PInt CHECKPOINT_SCHEMA_VERSION \<and> pget p ''kind'' = PStr (sg_kind a) \<and>
     pget p ''model_state'' = PDict (sg_model_state a) \<and> pget p ''metadata'' = PDict md \<and> pget p ''config'' = PDict (sg_config a) \<and>
     pget p ''ema_state'' = (case ema of None \<Rightarrow> PNone | Some s \<Rightarrow> PDict s) \<and>
     pget p ''optimizer_state'' = (if sg_kind a = ''full'' then sg_optimizer a else PNone) \<and>
     pget p ''scaler_state'' = (if sg_kind a = ''full'' then sg_scaler a else PNone) \<and>
     pget p ''scheduler_state'' = (if sg_kind a = ''full'' then sg_scheduler a else PNone))"

lemma payload_lookups: "payload_fields a md ema"
  by (cases ema) (simp_all add: payload_fields_def payload_of_def assemble_payload_def dget_def Let_def)

lemma stamp_lookups:
  assumes "stamp_of E a = Inr md"
  obtains enc run_id arch tags where
    "md = stamp_dict E (PStr enc) (PStr run_id) (sg_step a) (PDict (arch_to_dict arch)) (pget (sa_values (sg_metadata_kwargs a)) ''corpus_sha256'') tags"
    "pget (sa_values (sg_metadata_kwargs a)) ''encoding_name'' = PStr enc" "pget (sa_values (sg_metadata_kwargs a)) ''run_id'' = PStr run_id"
    "sa_arch (sg_metadata_kwargs a) = Some arch" "lineage_list (pget (sa_values (sg_metadata_kwargs a)) ''lineage'') = Inr tags"
    "refuse_shape_lie (sg_config a) (Some arch) = Inr ()" "run_id \<noteq> []"
  using assms
  by (auto simp: stamp_of_def build_stamped_metadata_def rbind_Inr_iff nonempty_text_def Let_def
      split: if_splits option.splits pv.splits)

lemma stamp_dict_lookups [simp]:
  "pget (stamp_dict E enc r s ar c ts) ''encoding_name'' = enc" "pget (stamp_dict E enc r s ar c ts) ''run_id'' = r"
  "pget (stamp_dict E enc r s ar c ts) ''step'' = PInt s" "pget (stamp_dict E enc r s ar c ts) ''arch'' = ar"
  "pget (stamp_dict E enc r s ar c ts) ''lineage'' = PList (map PStr ts)"
  by (simp_all add: stamp_dict_def dget_def)

definition stamped_as :: "'t env \<Rightarrow> string \<Rightarrow> string \<Rightarrow> int \<Rightarrow> 't arch option \<Rightarrow> 't pv \<Rightarrow> string list \<Rightarrow> 't checkpoint_metadata" where
  "stamped_as E enc run_id step arch corpus tags = \<lparr>cm_encoding_name = PStr enc, cm_run_id = PStr run_id, cm_step = step,
     cm_commit_sha = PStr (resolve_commit_sha E), cm_created_utc = PStr (now_iso E), cm_arch = arch, cm_corpus_sha256 = corpus,
     cm_lineage = tags\<rparr>"

lemma rehydrate_stamp:
  fixes E :: "'t env"
  assumes "lineage_list v = Inr tags"
  shows "rehydrate_metadata E (stamp_dict E (PStr enc) (PStr run_id) step (PDict (arch_to_dict arch)) corpus tags) =
    Inr (stamped_as E enc run_id step (Some arch) corpus tags)"
  using lineage_roundtrip [OF assms, where 'u = 't] arch_roundtrip [of E arch]
  by (simp add: rehydrate_metadata_def stamped_as_def) (simp add: stamp_dict_def dget_def)

section \<open>The write path\<close>

text \<open>A digest of lower-case hexadecimal digits, and a load that gives back the value a save serialised.\<close>

definition hex_digest :: "'t env \<Rightarrow> bool" where
  "hex_digest E \<longleftrightarrow> (\<forall>s. hex8 (take 8 (en_sha256 E s)))"

definition pickles :: "'t env \<Rightarrow> 't pv \<Rightarrow> bool" where
  "pickles E v \<longleftrightarrow> en_load E (en_save E v) = Inr v"

lemma write_payload_done: "write_payload E path payload s = (Inr u, s') \<Longrightarrow>
    torch_load E (dk_files (sv_disk s')) path = en_load E (en_save E (PDict payload))"
  by (auto simp: write_payload_def on_disk_def torch_load_def dest: atomic_write_Inr split: prod.splits)

definition ckpt_path :: "'t env \<Rightarrow> 't save_args \<Rightarrow> 't tree \<Rightarrow> string" where
  "ckpt_path E a md = checkpoint_filename (text_of E (pget md ''run_id'')) (sg_step a) (content_sha8 E (payload_of a md (sg_ema a)))"

lemma write_v2_done:
  assumes "write_v2_payload E a s = (Inr path, s')" "\<not> sg_allow_quarantine a"
  obtains md where "stamp_of E a = Inr md" "path = ckpt_path E a md" "en_schema_errors E (sg_config a) = []"
    "torch_load E (dk_files (sv_disk s')) path = en_load E (en_save E (PDict (payload_of a md (sg_ema a))))"
proof -
  obtain u1 s1 where valid: "model_validate E (sg_config a) = Inr ()"
    using assms(1) by (auto simp: write_v2_payload_def abind_Inr_iff lift_def)
  show thesis
  proof (cases "stamp_of E a")
    case (Inl e)
    then show ?thesis using assms by (auto simp: write_v2_payload_def abind_Inr_iff lift_def)
  next
    case (Inr md)
    obtain s1 where mk: "abind mkdir (\<lambda>_. abind (catching (write_payload E (ckpt_path E a md) (payload_of a md (sg_ema a)))
        (\<lambda>e. abind (modify count_persist_error) (\<lambda>_. lift (Inl e)))) (\<lambda>_. ret (ckpt_path E a md))) s = (Inr path, s')"
      using assms(1) valid Inr by (simp add: write_v2_payload_def abind_def lift_def Let_def ckpt_path_def)
    then obtain t u where "catching (write_payload E (ckpt_path E a md) (payload_of a md (sg_ema a)))
        (\<lambda>e. abind (modify count_persist_error) (\<lambda>_. lift (Inl e))) t = (Inr u, s')" "path = ckpt_path E a md"
      by (auto simp: abind_Inr_iff ret_def)
    then have "write_payload E (ckpt_path E a md) (payload_of a md (sg_ema a)) t = (Inr u, s')"
      by (auto simp: catching_def abind_def modify_def lift_def split: prod.splits sum.splits)
    from write_payload_done [OF this] show ?thesis using valid \<open>path = ckpt_path E a md\<close>
      by (intro that [OF Inr]) (auto simp: model_validate_def split: if_splits)
  qed
qed

section \<open>Reading back\<close>

lemma killed_keys: "dkeys d = dkeys e \<Longrightarrow> reject_killed_prefixes d = reject_killed_prefixes e"
  by (simp add: reject_killed_prefixes_def list_ex_iff dkeys_def)

text \<open>What a save hands over can be read back: its configuration still validates without its retired
  paths, no weight belongs to a deleted branch, the shadow has the net's keys, and the configuration names
  no other encoding than the stamp.\<close>

definition reads_back :: "'t env \<Rightarrow> 't tree \<Rightarrow> 't tree \<Rightarrow> 't stamp_args \<Rightarrow> 't tree option \<Rightarrow> bool" where
  "reads_back E model_state config md ema \<longleftrightarrow>
     list_all (\<lambda>(loc, what). what = ''missing'') (en_schema_errors E (fst (split_retired config))) \<and>
     reject_killed_prefixes model_state = Inr () \<and> (\<forall>d. ema = Some d \<longrightarrow> dkeys d = dkeys model_state) \<and>
     (config_encoding (PDict config) = PNone \<or>
      py_eq (pget (sa_values md) ''encoding_name'') (stamp_name (config_encoding (PDict config))))"

text \<open>A reader that declares nothing, or what the stamp says.\<close>

definition declares_as :: "'t stamp_args \<Rightarrow> 't reader \<Rightarrow> bool" where
  "declares_as md r \<longleftrightarrow> rd_declared_encoding r \<in> {PNone, pget (sa_values md) ''encoding_name''} \<and> rd_decode_override r = PNone \<and>
     (\<forall>i. rd_expected_run_id r = Some i \<longrightarrow> pget (sa_values md) ''run_id'' = PStr i) \<and>
     rd_declared_future_head r \<in> {None, Some (carries_future_head (sa_arch md))}"

lemma stamp_name_text [simp]: "stamp_name (PStr s) = PStr s"
  by (simp add: stamp_name_def)

lemma provenance_ok:
  assumes "hex_digest E" "pget md ''run_id'' = PStr r" "pget md ''step'' = PInt n" "expected = None \<or> expected = Some r"
  shows "verify_provenance E (checkpoint_filename r n (content_sha8 E p)) p md expected = Inr ()"
proof -
  have "hex8 (content_sha8 E p)" using assms(1) by (simp add: hex_digest_def content_sha8_def)
  then show ?thesis using assms(2-4)
    by (auto simp: verify_provenance_def filename_parts step_agrees_def int_of_fmt08)
qed

lemma load_stamped:
  assumes E: "hex_digest E" and md: "stamp_of E a = Inr md" and rb: "reads_back E (sg_model_state a) (sg_config a) (sg_metadata_kwargs a) (sg_ema a)"
    and r: "declares_as (sg_metadata_kwargs a) r"
  shows "\<exists>m. load_payload E (ckpt_path E a md) r (payload_of a md (sg_ema a)) = Inr
      \<lparr>ck_schema_version = 2, ck_kind = sg_kind a, ck_model_state = sg_model_state a, ck_metadata = m, ck_config = sg_config a,
       ck_optimizer_state = (if sg_kind a = ''full'' then sg_optimizer a else PNone),
       ck_scaler_state = (if sg_kind a = ''full'' then sg_scaler a else PNone),
       ck_scheduler_state = (if sg_kind a = ''full'' then sg_scheduler a else PNone), ck_ema_state = sg_ema a\<rparr> \<and>
     cm_encoding_name m = pget (sa_values (sg_metadata_kwargs a)) ''encoding_name'' \<and>
     cm_run_id m = pget (sa_values (sg_metadata_kwargs a)) ''run_id'' \<and> cm_step m = sg_step a \<and>
     cm_arch m = sa_arch (sg_metadata_kwargs a) \<and> Inr (cm_lineage m) = lineage_list (pget (sa_values (sg_metadata_kwargs a)) ''lineage'')"
proof -
  obtain enc run_id arch tags where st:
    "md = stamp_dict E (PStr enc) (PStr run_id) (sg_step a) (PDict (arch_to_dict arch)) (pget (sa_values (sg_metadata_kwargs a)) ''corpus_sha256'') tags"
    "pget (sa_values (sg_metadata_kwargs a)) ''encoding_name'' = PStr enc" "pget (sa_values (sg_metadata_kwargs a)) ''run_id'' = PStr run_id"
    "sa_arch (sg_metadata_kwargs a) = Some arch" "lineage_list (pget (sa_values (sg_metadata_kwargs a)) ''lineage'') = Inr tags"
    using stamp_lookups [OF md] by metis
  let ?p = "payload_of a md (sg_ema a)"
  note fields = payload_lookups [of a md "sg_ema a", unfolded payload_fields_def Let_def]
  have expected: "rd_expected_run_id r = None \<or> rd_expected_run_id r = Some run_id"
    using r st(3) by (cases "rd_expected_run_id r") (simp_all add: declares_as_def)
  have "pget md ''run_id'' = PStr run_id" "pget md ''step'' = PInt (sg_step a)" by (simp_all add: st(1))
  from provenance_ok [OF E this expected, of ?p] have prov: "verify_provenance E (ckpt_path E a md) ?p md (rd_expected_run_id r) = Inr ()"
    by (simp add: ckpt_path_def st(1) text_of_def)
  have enc: "check_encodings (PStr enc) (config_encoding (PDict (sg_config a))) (rd_declared_encoding r) (rd_decode_override r) = Inr ()"
    using r rb st(2) by (auto simp: check_encodings_def declares_as_def reads_back_def)
  have ema: "check_ema (sg_model_state a) (pget ?p ''ema_state'') = Inr (sg_ema a)"
  proof (cases "sg_ema a")
    case (Some d)
    then have "dkeys d = dkeys (sg_model_state a)" "reject_killed_prefixes (sg_model_state a) = Inr ()" using rb by (simp_all add: reads_back_def)
    then show ?thesis using fields Some killed_keys [of d "sg_model_state a"] by (simp add: check_ema_def)
  qed (use fields in \<open>simp add: check_ema_def\<close>)
  have head: "rd_declared_future_head r \<in> {None, Some (carries_future_head (Some arch))}" using r st(4) by (simp add: declares_as_def)
  have blocks: "read_blocks ?p = Inr (md, sg_model_state a)" using fields by (simp add: read_blocks_def)
  have "load_payload E (ckpt_path E a md) r ?p = Inr
      \<lparr>ck_schema_version = 2, ck_kind = sg_kind a, ck_model_state = sg_model_state a,
       ck_metadata = stamped_as E enc run_id (sg_step a) (Some arch) (pget (sa_values (sg_metadata_kwargs a)) ''corpus_sha256'') tags,
       ck_config = sg_config a,
       ck_optimizer_state = (if sg_kind a = ''full'' then sg_optimizer a else PNone),
       ck_scaler_state = (if sg_kind a = ''full'' then sg_scaler a else PNone),
       ck_scheduler_state = (if sg_kind a = ''full'' then sg_scheduler a else PNone), ck_ema_state = sg_ema a\<rparr>"
    unfolding load_payload_def blocks rbind_simps prod.case prov ema Let_def
    using rb head enc rehydrate_stamp [OF st(5), of E enc run_id "sg_step a" arch] fields
    by (simp add: st(1) reads_back_def validate_stamped_config_def config_dict_def CHECKPOINT_SCHEMA_VERSION_def stamped_as_def)
  then show ?thesis using st by (auto simp: stamped_as_def)
qed

text \<open>C28: A stamped save reads back: whatever \<open>save_checkpoint\<close> wrote and returned the path of loads, from
  the directory it left, as exactly the kind, the weights, the configuration, the optimizer, scaler and
  scheduler states (of a full save), the shadow, and the step, run, encoding, architecture and lineage it was
  given - for every reader that declares nothing or what the stamp says.\<close>

theorem save_load_roundtrip:
  assumes "hex_digest E" and "save_checkpoint_v2 E q step config md kind False ema s = (Inr path, s')"
    and "\<forall>m. stamp_of E (save_args_of q step config md kind False ema) = Inr m \<longrightarrow>
      pickles E (PDict (payload_of (save_args_of q step config md kind False ema) m ema))"
    and "state = (case nt_orig_mod (sq_model q) of Some t \<Rightarrow> t | None \<Rightarrow> nt_state_dict (sq_model q))"
    and "reads_back E state config md ema" and "declares_as md r"
  shows "\<exists>m. load_checkpoint E (dk_files (sv_disk s')) path r = Inr
      \<lparr>ck_schema_version = 2, ck_kind = kind, ck_model_state = state, ck_metadata = m, ck_config = config,
       ck_optimizer_state = (if kind = ''full'' then state_or_none (sq_optimizer q) else PNone),
       ck_scaler_state = (if kind = ''full'' then state_or_none (sq_scaler q) else PNone),
       ck_scheduler_state = (if kind = ''full'' then state_or_none (sq_scheduler q) else PNone), ck_ema_state = ema\<rparr> \<and>
     cm_encoding_name m = pget (sa_values md) ''encoding_name'' \<and> cm_run_id m = pget (sa_values md) ''run_id'' \<and> cm_step m = step \<and>
     cm_arch m = sa_arch md \<and> Inr (cm_lineage m) = lineage_list (pget (sa_values md) ''lineage'')"
proof -
  define a where "a = save_args_of q step config md kind False ema"
  have sels: "sg_model_state a = state" "sg_config a = config" "sg_metadata_kwargs a = md" "sg_ema a = ema" "sg_kind a = kind" "sg_step a = step"
    "sg_optimizer a = (if kind = ''full'' then state_or_none (sq_optimizer q) else PNone)"
    "sg_scaler a = (if kind = ''full'' then state_or_none (sq_scaler q) else PNone)"
    "sg_scheduler a = (if kind = ''full'' then state_or_none (sq_scheduler q) else PNone)" "\<not> sg_allow_quarantine a"
    by (simp_all add: a_def save_args_of_def assms(4) Let_def)
  have w: "write_v2_payload E a s = (Inr path, s')" using assms(2) by (simp add: save_checkpoint_v2_def a_def)
  obtain meta where meta: "stamp_of E a = Inr meta" "path = ckpt_path E a meta"
    "torch_load E (dk_files (sv_disk s')) path = en_load E (en_save E (PDict (payload_of a meta (sg_ema a))))"
    using write_v2_done [OF w sels(10)] by metis
  then have "torch_load E (dk_files (sv_disk s')) path = Inr (PDict (payload_of a meta (sg_ema a)))"
    using assms(3) by (simp add: a_def [symmetric] pickles_def sels)
  moreover have "is_v2 (PDict (payload_of a meta (sg_ema a))) = Some (payload_of a meta (sg_ema a))"
    using payload_lookups [of a meta "sg_ema a"] by (simp add: is_v2_def payload_fields_def Let_def)
  ultimately have load: "load_checkpoint E (dk_files (sv_disk s')) path r = load_payload E (ckpt_path E a meta) r (payload_of a meta (sg_ema a))"
    by (simp add: load_checkpoint_def meta(2))
  have "reads_back E (sg_model_state a) (sg_config a) (sg_metadata_kwargs a) (sg_ema a)" "declares_as (sg_metadata_kwargs a) r"
    using assms(5,6) by (simp_all add: sels)
  from load_stamped [OF assms(1) meta(1) this] show ?thesis unfolding load sels by (simp split: if_splits)
qed

text \<open>A directory, a net and an environment for the examples: one weight, a digest and a pickle that are constant.\<close>

definition demo_arch :: "unit arch" where
  "demo_arch = \<lparr>ar_kind = GnnArchV2, ar_in_dim = PInt 11, ar_edge_dim = PInt 5, ar_hidden = PInt 128, ar_num_layers = PInt 4,
     ar_policy_hidden = PInt 128, ar_value_hidden = PInt 32, ar_n_value_bins = PInt 65, ar_representation = PStr ''graph''\<rparr>"

definition demo_kwargs :: "unit stamp_args" where
  "demo_kwargs = \<lparr>sa_values = [(''encoding_name'', PStr ''gnn_axis_v1''), (''run_id'', PStr ''run_7''), (''lineage'', PList [PStr ''teacher''])],
     sa_arch = Some demo_arch\<rparr>"

definition demo_request :: "unit save_request" where
  "demo_request = \<lparr>sq_model = \<lparr>nt_orig_mod = Some [(''w'', PTensor ())], nt_state_dict = [(''_orig_mod.w'', PTensor ())]\<rparr>,
     sq_optimizer = Some (PDict []), sq_scaler = None, sq_scheduler = None\<rparr>"

definition demo_env0 :: "unit env" where
  "demo_env0 = \<lparr>en_schema_errors = (\<lambda>_. []), en_sha256 = (\<lambda>_. ''0123abcd''), en_repr = (\<lambda>_. []), en_shape = (\<lambda>_. []), en_dtype = (\<lambda>_. []),
     en_bytes = (\<lambda>_. None), en_bytes64 = (\<lambda>_. []), en_head_sha = None, en_now = ''2026-01-01T00:00:00'', en_save = (\<lambda>_. []),
     en_load = (\<lambda>_. Inl RuntimeError), en_tmp = (\<lambda>p. p @ ''.tmp''), en_specs = []\<rparr>"

definition demo_config :: "unit tree" where
  "demo_config = [(''identity'', PDict [(''encoding'', PStr ''gnn_axis_v1''), (''representation'', PStr ''graph'')]),
     (''model'', PDict [(''gnn'', PDict [(''hidden'', PInt 128), (''num_layers'', PInt 4)])])]"

definition demo_args :: "bool \<Rightarrow> unit save_args" where
  "demo_args quarantine = save_args_of demo_request 1234 demo_config demo_kwargs ''full'' quarantine None"

definition demo_stamp :: "unit tree" where
  "demo_stamp = stamp_dict demo_env0 (PStr ''gnn_axis_v1'') (PStr ''run_7'') 1234 (PDict (arch_to_dict demo_arch)) PNone [''teacher'']"

definition demo_env :: "unit env" where
  "demo_env = demo_env0\<lparr>en_load := (\<lambda>_. Inr (PDict (payload_of (demo_args False) demo_stamp None)))\<rparr>"

definition demo_saver :: saver where
  "demo_saver = \<lparr>sv_disk = \<lparr>dk_files = [], dk_faults = [], dk_crash = []\<rparr>, sv_persist_errors_total = 0, sv_quarantine_writes_total = 0\<rparr>"

definition plain_reader :: "'t reader" where
  "plain_reader = \<lparr>rd_declared_encoding = PNone, rd_declared_future_head = None, rd_expected_run_id = None, rd_decode_override = PNone\<rparr>"

lemma demo_stamped: "stamp_of demo_env (demo_args False) = Inr demo_stamp"
  by code_simp

theorem save_load_roundtrip_witness:
  "\<exists>ck s'. save_checkpoint_v2 demo_env demo_request 1234 demo_config demo_kwargs ''full'' False None demo_saver =
       (Inr ''run_7_00001234_0123abcd.ckpt'', s') \<and>
     load_checkpoint demo_env (dk_files (sv_disk s')) ''run_7_00001234_0123abcd.ckpt'' plain_reader = Inr ck \<and>
     ck_model_state ck = [(''w'', PTensor ())] \<and> cm_lineage (ck_metadata ck) = [''teacher'']"
proof -
  have hex: "hex_digest demo_env" by (simp add: hex_digest_def demo_env_def demo_env0_def hex8_def is_hex_def is_digit_def)
  have saved: "fst (save_checkpoint_v2 demo_env demo_request 1234 demo_config demo_kwargs ''full'' False None demo_saver) =
      Inr ''run_7_00001234_0123abcd.ckpt''"
    by code_simp
  define s' where "s' = snd (save_checkpoint_v2 demo_env demo_request 1234 demo_config demo_kwargs ''full'' False None demo_saver)"
  have run: "save_checkpoint_v2 demo_env demo_request 1234 demo_config demo_kwargs ''full'' False None demo_saver =
      (Inr ''run_7_00001234_0123abcd.ckpt'', s')"
    using saved by (simp add: s'_def prod_eq_iff)
  have state: "[(''w'', PTensor ())] = (case nt_orig_mod (sq_model demo_request) of Some t \<Rightarrow> t | None \<Rightarrow> nt_state_dict (sq_model demo_request))"
    by (simp add: demo_request_def)
  have pick: "\<forall>m. stamp_of demo_env (save_args_of demo_request 1234 demo_config demo_kwargs ''full'' False None) = Inr m \<longrightarrow>
      pickles demo_env (PDict (payload_of (save_args_of demo_request 1234 demo_config demo_kwargs ''full'' False None) m None))"
    using demo_stamped by (simp add: demo_args_def [symmetric] pickles_def demo_env_def)
  have rb: "reads_back demo_env [(''w'', PTensor ())] demo_config demo_kwargs None"
    by (simp add: reads_back_def demo_env_def demo_env0_def) code_simp
  have dec: "declares_as demo_kwargs plain_reader" by (simp add: declares_as_def plain_reader_def)
  from save_load_roundtrip [OF hex run pick state rb dec] show ?thesis
    using run by (fastforce simp: demo_kwargs_def lineage_list_def dget_def)
qed

section \<open>What a load accepts\<close>

lemma is_v2_Some: "is_v2 raw = Some d \<longleftrightarrow> raw = PDict d \<and> py_eq (pget d ''schema_version'') (PInt CHECKPOINT_SCHEMA_VERSION)"
  by (cases raw) (auto simp: is_v2_def)

lemma step_agrees_True:
  assumes "step_agrees v s = Inr True" shows "v \<noteq> PNone \<and> (\<exists>i. p_int v = Inr i \<and> int_of_str s = Inr i)"
proof -
  define x where "x = rbind (p_int v) (\<lambda>i. rbind (int_of_str s) (\<lambda>j. Inr (i = j)))"
  have v: "v \<noteq> PNone" and c: "(case x of Inl TypeError \<Rightarrow> Inr False | Inl ValueError \<Rightarrow> Inr False | r \<Rightarrow> r) = Inr True"
    using assms by (auto simp: step_agrees_def x_def split: if_splits)
  have "x = Inr True"
  proof (cases x)
    case (Inl e)
    then show ?thesis using c by (cases e) simp_all
  qed (use c in simp)
  then show ?thesis using v by (auto simp: x_def rbind_Inr_iff)
qed

lemma rehydrate_step:
  assumes "rehydrate_metadata E md = Inr m" shows "p_int (dget md ''step'' (PInt 0)) = Inr (cm_step m)"
  using assms unfolding rehydrate_metadata_def by (elim rbindE) auto

lemma check_ema_says:
  assumes "check_ema ms v = Inr ema"
  shows "case ema of None \<Rightarrow> v = PNone | Some e \<Rightarrow> v = PDict e \<and> dkeys e = dkeys ms \<and> reject_killed_prefixes e = Inr ()"
  using assms by (cases v) (auto simp: check_ema_def rbind_Inr_iff split: if_splits)

lemma provenance_says:
  assumes "verify_provenance E path p md expected = Inr ()"
  shows "\<exists>run_id s. rsplit 2 (stem path) = [run_id, s, content_sha8 E p] \<and> py_eq (pget md ''run_id'') (PStr run_id) \<and>
    step_agrees (pget md ''step'') s = Inr True \<and> (expected \<noteq> None \<longrightarrow> py_eq (pget md ''run_id'') (PStr (the expected)))"
proof -
  define parts where "parts = rsplit 2 (stem path)"
  have "parts \<noteq> [] \<and> tl parts \<noteq> [] \<and> tl (tl parts) \<noteq> [] \<and> tl (tl (tl parts)) = []"
    using assms unfolding verify_provenance_def parts_def [symmetric] by (auto split: list.splits)
  then obtain r s h where q: "parts = [r, s, h]" by (cases parts; cases "tl parts"; cases "tl (tl parts)") auto
  note run = assms [unfolded verify_provenance_def parts_def [symmetric] q list.case]
  then have r: "py_eq (pget md ''run_id'') (PStr r)" by (simp split: if_splits)
  with run have "rbind (step_agrees (pget md ''step'') s) (\<lambda>ok. if \<not> ok then Inl CheckpointStampError
      else if content_sha8 E p \<noteq> h then Inl CheckpointStampError
      else case expected of None \<Rightarrow> Inr () | Some r \<Rightarrow> if py_eq (pget md ''run_id'') (PStr r) then Inr () else Inl CheckpointStampError) = Inr ()"
    by simp
  then show ?thesis using q r by (elim rbindE) (auto simp: parts_def split: if_splits option.splits)
qed

lemma demo_loads:
  "case load_checkpoint demo_env [(''run_7_00001234_0123abcd.ckpt'', Blob [])] ''run_7_00001234_0123abcd.ckpt'' plain_reader of
     Inr ck \<Rightarrow> ck_model_state ck = [(''w'', PTensor ())] \<and> ck_kind ck = ''full'' | Inl _ \<Rightarrow> False"
  by code_simp



section \<open>How a save ends\<close>

text \<open>What a save is about to write, and under what name, or why it writes nothing.\<close>

definition save_target :: "'t env \<Rightarrow> 't save_args \<Rightarrow> (string \<times> 't tree) res" where
  "save_target E a = rbind (model_validate E (sg_config a)) (\<lambda>_. case stamp_of E a of
     Inr md \<Rightarrow> Inr (ckpt_path E a md, payload_of a md (sg_ema a))
   | Inl e \<Rightarrow> if e = CheckpointStampError \<and> sg_allow_quarantine a
       then rbind (quarantine_metadata E (sg_metadata_kwargs a) (sg_step a)) (\<lambda>q. let p = payload_of a q None in
         Inr (checkpoint_filename (text_of E (pget q ''run_id'')) (sg_step a) (content_sha8 E p) @ ''.quarantine'', p))
       else Inl e)"

text \<open>Every directory the save passes through is the old one, but for the temporary file and the whole new one.\<close>

definition only_commits :: "files \<Rightarrow> string \<Rightarrow> string \<Rightarrow> content \<Rightarrow> saver \<Rightarrow> saver \<Rightarrow> bool" where
  "only_commits F tmp path c s s' \<longleftrightarrow> crash_inv (committing F tmp path c) (sv_disk s) (sv_disk s')"

interpretation commits: state_order "only_commits F tmp path c" for F tmp path c
  by unfold_locales (auto simp: only_commits_def intro: crash.stay crash.follow)

lemma commits_on_disk: "moves (crash_inv (committing F tmp path c)) m \<Longrightarrow> moves (only_commits F tmp path c) (on_disk m)"
  unfolding moves_def only_commits_def on_disk_def by (metis (mono_tags, lifting) case_prod_beta saver.select_convs(1) saver.surjective saver.update_convs(1) snd_conv)

lemma commits_mkdir: "moves (only_commits F tmp path c) mkdir"
  unfolding mkdir_def by (intro commits_on_disk crash_disk_step) simp

lemma commits_write:
  "en_tmp E path \<noteq> path \<Longrightarrow> moves (only_commits F (en_tmp E path) path (Blob (en_save E (PDict p)))) (write_payload E path p)"
  unfolding write_payload_def by (intro commits_on_disk atomic_write_commits)

lemma mkdir_keeps: "mkdir s = (r, s') \<Longrightarrow> sv_persist_errors_total s' = sv_persist_errors_total s \<and>
    sv_quarantine_writes_total s' = sv_quarantine_writes_total s \<and> dk_files (sv_disk s') = dk_files (sv_disk s)"
  by (auto simp: mkdir_def on_disk_def disk_step_def split: list.splits bool.splits)

lemma write_keeps: "write_payload E path p s = (r, s') \<Longrightarrow> sv_persist_errors_total s' = sv_persist_errors_total s \<and>
    sv_quarantine_writes_total s' = sv_quarantine_writes_total s"
  by (auto simp: write_payload_def on_disk_def split: prod.splits)

lemma write_lands: "write_payload E path p s = (Inr u, s') \<Longrightarrow> map_of (dk_files (sv_disk s')) path = Some (Blob (en_save E (PDict p)))"
  by (auto simp: write_payload_def on_disk_def dest: atomic_write_Inr split: prod.splits)

definition tallies :: "saver \<Rightarrow> nat \<times> nat" where
  "tallies s = (sv_persist_errors_total s, sv_quarantine_writes_total s)"

text \<open>A stamped save: its write's failure is counted; a directory that cannot be made writes nothing.\<close>

definition stamped_save :: "'t env \<Rightarrow> string \<Rightarrow> 't tree \<Rightarrow> (saver, string) act" where
  "stamped_save E path p = abind mkdir (\<lambda>_. abind
     (catching (write_payload E path p) (\<lambda>e. abind (modify count_persist_error) (\<lambda>_. lift (Inl e)))) (\<lambda>_. ret path))"

definition quarantined_save :: "'t env \<Rightarrow> string \<Rightarrow> 't tree \<Rightarrow> (saver, string) act" where
  "quarantined_save E path p = abind mkdir (\<lambda>_. abind (write_payload E path p) (\<lambda>_. abind (modify count_quarantine) (\<lambda>_. ret path)))"

lemma write_v2_cases:
  "write_v2_payload E a s = (case save_target E a of Inl e \<Rightarrow> (Inl e, s)
     | Inr (path, p) \<Rightarrow> (if \<exists>md. stamp_of E a = Inr md then stamped_save E path p s else quarantined_save E path p s))"
proof (cases "stamp_of E a")
  case (Inl e)
  then show ?thesis
    by (simp add: write_v2_payload_def write_quarantine_def save_target_def quarantined_save_def abind_def lift_def Let_def split: sum.split)
next
  case (Inr md)
  then show ?thesis
    by (simp add: write_v2_payload_def save_target_def stamped_save_def abind_def lift_def Let_def ckpt_path_def split: sum.split)
qed

lemma stamped_ends:
  assumes "stamped_save E path p s = (res, s')"
  shows "case res of Inr n \<Rightarrow> n = path \<and> map_of (dk_files (sv_disk s')) path = Some (Blob (en_save E (PDict p))) \<and> tallies s' = tallies s
    | Inl e \<Rightarrow> (if fst (mkdir s) = Inr () then tallies s' = (Suc (sv_persist_errors_total s), sv_quarantine_writes_total s)
        else tallies s' = tallies s \<and> dk_files (sv_disk s') = dk_files (sv_disk s))"
proof -
  obtain r1 s1 where mk: "mkdir s = (r1, s1)" by (cases "mkdir s")
  obtain r2 s2 where wr: "write_payload E path p s1 = (r2, s2)" by (cases "write_payload E path p s1")
  show ?thesis using assms mkdir_keeps [OF mk] write_keeps [OF wr] write_lands [of E path p s1]
    by (cases r1; cases r2) (auto simp: stamped_save_def abind_def catching_def modify_def lift_def ret_def mk wr tallies_def count_persist_error_def)
qed

lemma quarantined_ends:
  assumes "quarantined_save E path p s = (res, s')"
  shows "case res of Inr n \<Rightarrow> n = path \<and> map_of (dk_files (sv_disk s')) path = Some (Blob (en_save E (PDict p))) \<and>
      tallies s' = (sv_persist_errors_total s, Suc (sv_quarantine_writes_total s))
    | Inl e \<Rightarrow> tallies s' = tallies s"
proof -
  obtain r1 s1 where mk: "mkdir s = (r1, s1)" by (cases "mkdir s")
  obtain r2 s2 where wr: "write_payload E path p s1 = (r2, s2)" by (cases "write_payload E path p s1")
  show ?thesis using assms mkdir_keeps [OF mk] write_keeps [OF wr] write_lands [of E path p s1]
    by (cases r1; cases r2) (auto simp: quarantined_save_def abind_def modify_def lift_def ret_def mk wr tallies_def count_quarantine_def)
qed

lemma commits_modify: "sv_disk (f s) = sv_disk s \<Longrightarrow> only_commits F tmp path c s (f s)"
  using commits.stay [of F tmp path c s] by (simp add: only_commits_def)

lemma saves_commit:
  assumes "en_tmp E path \<noteq> path"
  shows "moves (only_commits F (en_tmp E path) path (Blob (en_save E (PDict p)))) (stamped_save E path p)"
    and "moves (only_commits F (en_tmp E path) path (Blob (en_save E (PDict p)))) (quarantined_save E path p)"
  unfolding stamped_save_def quarantined_save_def
  by (intro commits.moves_rules commits_mkdir commits_write [OF assms] commits.moves_modify;
      rule commits_modify; simp add: count_persist_error_def count_quarantine_def)+


definition full_disk :: saver where
  "full_disk = demo_saver\<lparr>sv_disk := \<lparr>dk_files = [], dk_faults = [False, False, True], dk_crash = []\<rparr>\<rparr>"


section \<open>Names of the two kinds of save\<close>

lemma length_str_nat: "n < 10 ^ Suc k \<Longrightarrow> length (str_nat n) \<le> Suc k"
proof (induction k arbitrary: n)
  case 0
  then show ?case by (subst str_nat.simps) simp
next
  case (Suc k)
  then show ?case using Suc.IH [of "n div 10"] by (subst str_nat.simps) (auto simp: less_mult_imp_div_less)
qed

lemma padded_length: "0 \<le> i \<Longrightarrow> i < 10 ^ 8 \<Longrightarrow> length (padded i) = 8"
  using length_str_nat [of "nat i" 7] by (simp add: padded_def nat_less_iff)

lemma step_of_checkpoint:
  assumes "hex8 h" "r \<noteq> []" "0 \<le> i" "i < 10 ^ 8"
  shows "step_of (checkpoint_filename r i h) = Some i"
proof -
  have name: "stem (checkpoint_filename r i h) = r @ ''_'' @ padded i @ ''_'' @ h"
    using stem_ckpt [of "r @ ''_'' @ padded i @ ''_'' @ h"] assms(3) by (simp add: checkpoint_filename_def fmt08_padded)
  let ?t = "CHR ''_'' # rev (padded i) @ CHR ''_'' # rev r"
  have rev: "rev (stem (checkpoint_filename r i h)) = rev h @ ?t" by (simp add: name)
  have hex: "takeWhile is_hex (rev h @ ?t) = rev h"
    using assms(1) by (subst takeWhile_append2) (auto simp: hex8_def list_all_iff is_hex_def is_digit_def)
  have len: "length (padded i) = 8" using assms(3,4) by (rule padded_length)
  have ds: "take 8 (drop 1 ?t) = rev (padded i)" "drop 9 ?t = CHR ''_'' # rev r" using len by simp_all
  have "undigits (padded i) = nat i" using assms(3) by (simp add: padded_def undigits_zeros undigits_str_nat)
  moreover have "h \<noteq> []" "list_all is_digit (padded i)" using assms(1) padded_digits [of i] by (auto simp: hex8_def)
  ultimately show ?thesis unfolding step_of_def rev Let_def hex
    using ds len assms(2,3) by (simp add: list_all_iff)
qed

lemma quarantine_stem: "stem (checkpoint_filename r i h @ ''.quarantine'') = checkpoint_filename r i h"
  by (simp add: stem_def checkpoint_filename_def)

lemma quarantine_refused:
  assumes "hex_digest E" "hex8 h"
  shows "load_checkpoint E fs (checkpoint_filename r i h @ ''.quarantine'') rd \<noteq> Inr ck"
proof
  assume "load_checkpoint E fs (checkpoint_filename r i h @ ''.quarantine'') rd = Inr ck"
  then obtain p md where "verify_provenance E (checkpoint_filename r i h @ ''.quarantine'') p md (rd_expected_run_id rd) = Inr ()"
    by (auto simp: load_checkpoint_def rbind_Inr_iff is_v2_Some load_payload_def Let_def split: option.splits)
  from provenance_says [OF this] obtain run_id st where parts: "rsplit 2 (checkpoint_filename r i h) = [run_id, st, content_sha8 E p]"
    by (auto simp: quarantine_stem)
  have "rsplit 2 (checkpoint_filename r i h) = [r, fmt08 i, h @ ''.ckpt'']"
    using rsplit_name [OF fmt08_no, of "h @ ''.ckpt''" r i] hex8_no [OF assms(2)] by (simp add: checkpoint_filename_def)
  then have "content_sha8 E p = h @ ''.ckpt''" using parts by simp
  moreover have "length (content_sha8 E p) = 8" using assms(1) by (simp add: hex_digest_def content_sha8_def hex8_def)
  ultimately show False using assms(2) by (simp add: hex8_def)
qed

lemma quarantine_no_step: "step_of (checkpoint_filename r i h @ ''.quarantine'') = None"
proof -
  have "rev (checkpoint_filename r i h) = ''tpkc.'' @ rev h @ CHR ''_'' # rev (fmt08 i) @ CHR ''_'' # rev r"
    by (simp add: checkpoint_filename_def)
  then show ?thesis unfolding step_of_def quarantine_stem by (simp add: is_hex_def is_digit_def Let_def)
qed

text \<open>The name a save returns tells what it is: a stamped save's name parses to its own step, the one
  the bundles are ordered by; a quarantined save's name has no step, so that no bundle takes it up, and no
  load ever accepts it, whatever the file holds.\<close>

theorem save_names_apart:
  assumes "hex_digest E" and "save_checkpoint_v2 E q step config md kind allow ema s = (Inr n, s')" and "0 \<le> step" "step < 10 ^ 8"
  shows "if \<exists>m. stamp_of E (save_args_of q step config md kind allow ema) = Inr m then step_of n = Some step
    else step_of n = None \<and> (\<forall>fs r ck. load_checkpoint E fs n r \<noteq> Inr ck)"
proof -
  define a where "a = save_args_of q step config md kind allow ema"
  have a: "sg_step a = step" by (simp add: a_def save_args_of_def Let_def)
  have w: "write_v2_payload E a s = (Inr n, s')" using assms(2) by (simp add: save_checkpoint_v2_def a_def)
  have hex: "hex8 (content_sha8 E p)" for p using assms(1) by (simp add: hex_digest_def content_sha8_def)
  obtain p where t: "save_target E a = Inr (n, p)"
  proof (cases "save_target E a")
    case (Inr t)
    then show ?thesis using w that stamped_ends [of E "fst t" "snd t" s "Inr n" s'] quarantined_ends [of E "fst t" "snd t" s "Inr n" s']
      by (cases t) (auto simp: write_v2_cases split: if_splits)
  qed (use w in \<open>simp add: write_v2_cases\<close>)
  show ?thesis
  proof (cases "stamp_of E a")
    case (Inr m)
    then obtain run_id where "pget m ''run_id'' = PStr run_id" "run_id \<noteq> []" by (rule stamp_lookups) auto
    moreover have "n = ckpt_path E a m" using t Inr by (auto simp: save_target_def rbind_Inr_iff)
    ultimately have "step_of n = Some step" using step_of_checkpoint [OF hex _ assms(3,4)] by (simp add: ckpt_path_def text_of_def a)
    then show ?thesis using Inr by (simp add: a_def)
  next
    case (Inl e)
    then obtain r h where "n = checkpoint_filename r step h @ ''.quarantine''" "hex8 h"
      using t hex by (auto simp: save_target_def rbind_Inr_iff Let_def a split: if_splits)
    then show ?thesis using Inl quarantine_refused [OF assms(1)] quarantine_no_step by (simp add: a_def)
  qed
qed

theorem save_names_apart_witness:
  "\<exists>n s'. save_checkpoint_v2 demo_env demo_request 1234 demo_config (demo_kwargs\<lparr>sa_arch := None\<rparr>) ''full'' True None demo_saver = (Inr n, s') \<and>
     step_of n = None \<and> (\<forall>fs r ck. load_checkpoint demo_env fs n r \<noteq> Inr ck)"
proof -
  have "case fst (save_checkpoint_v2 demo_env demo_request 1234 demo_config (demo_kwargs\<lparr>sa_arch := None\<rparr>) ''full'' True None demo_saver) of
      Inr _ \<Rightarrow> True | Inl _ \<Rightarrow> False" by code_simp
  then obtain n s' where run: "save_checkpoint_v2 demo_env demo_request 1234 demo_config (demo_kwargs\<lparr>sa_arch := None\<rparr>) ''full'' True None demo_saver =
      (Inr n, s')" by (metis (no_types, lifting) prod.collapse sum.case_eq_if sum.collapse(2))
  have hex: "hex_digest demo_env" by (simp add: hex_digest_def demo_env_def demo_env0_def hex8_def is_hex_def is_digit_def)
  have "stamp_of demo_env (save_args_of demo_request 1234 demo_config (demo_kwargs\<lparr>sa_arch := None\<rparr>) ''full'' True None) = Inl CheckpointStampError"
    by code_simp
  then show ?thesis using save_names_apart [OF hex run] run by auto
qed

end
