(* ===== verification/Restamp.thy ===== *)
theory Restamp
  imports Checkpoint_Laws
begin

text \<open>
  The two readers of older checkpoints in \<open>src/mantis/train/checkpoints.py\<close>: \<open>load_legacy_weights\<close>, which gives a
  pre-version-2 payload a checkpoint without minting a stamp, and \<open>strip_and_restamp\<close>, the one path on which
  weights take a new stamp.  A \<open>model_state\<close> that is no mapping is refused with \<open>TypeError\<close>.
\<close>

section \<open>Legacy payloads\<close>

text \<open>The envelope \<open>{model_state, ...}\<close> or a bare state dictionary.\<close>

definition legacy_shape :: "'t tree \<Rightarrow> 't tree \<times> 't tree \<times> bool" where
  "legacy_shape raw = (case pget raw ''model_state'' of
     PDict ms \<Rightarrow> (ms, config_dict (pget raw ''metadata''), pget raw ''optimizer_state'' \<noteq> PNone \<and> pget raw ''scaler_state'' \<noteq> PNone)
   | _ \<Rightarrow> (raw, [], False))"

definition legacy_encoding :: "'t pv \<Rightarrow> 't pv \<Rightarrow> 't pv res" where
  "legacy_encoding declared embedded =
     (if declared \<noteq> PNone \<and> embedded \<noteq> PNone \<and> \<not> py_eq (stamp_name declared) (stamp_name embedded) then Inl DeclaredEncodingMismatchError
      else let resolved = (if declared \<noteq> PNone then stamp_name declared else embedded)
        in case resolved of PStr s \<Rightarrow> if s = [] then Inl CheckpointStampError else Inr (PStr s) | _ \<Rightarrow> Inl CheckpointStampError)"

definition legacy_arch :: "'t env \<Rightarrow> 't tree \<Rightarrow> enc_spec \<Rightarrow> 't tree \<Rightarrow> 't arch res" where
  "legacy_arch E meta spec config = rbind (stamped_arch_kind E (PDict meta) (es_representation spec)) (\<lambda>kind.
     if declared_arch_kind config \<noteq> PNone \<and> text_of E (declared_arch_kind config) \<noteq> kind then Inl CheckpointStampError
     else case pget meta ''arch'' of
       PDict d \<Rightarrow> if map_of d ''arch_kind'' \<noteq> None then arch_from_dict E d else select_arch spec config kind
     | _ \<Rightarrow> select_arch spec config kind)"

definition legacy_step :: "'t pv \<Rightarrow> int" where
  "legacy_step v = (case v of PInt i \<Rightarrow> i | PBool b \<Rightarrow> if b then 1 else 0 | _ \<Rightarrow> 0)"

definition load_legacy_weights :: "'t env \<Rightarrow> files \<Rightarrow> string \<Rightarrow> 't pv \<Rightarrow> 't pv \<Rightarrow> 't checkpoint res" where
  "load_legacy_weights E fs path declared_encoding decode_override =
     (if declared_encoding \<noteq> PNone \<and> decode_override \<noteq> PNone then Inl ValueError
      else rbind (torch_load E fs path) (\<lambda>loaded. case loaded of PDict raw \<Rightarrow>
        (case legacy_shape raw of (model_state, meta, is_full) \<Rightarrow>
         rbind (reject_killed_prefixes model_state) (\<lambda>_.
         rbind (legacy_encoding declared_encoding (pget meta ''encoding_name'')) (\<lambda>enc.
         rbind (lookup E enc) (\<lambda>spec. let config = config_dict (pget raw ''config'') in
         rbind (if config = [] then Inr () else model_validate E config) (\<lambda>_.
         rbind (legacy_arch E meta spec config) (\<lambda>arch. let full = (\<lambda>k. if is_full then pget raw k else PNone) in
           Inr \<lparr>ck_schema_version = 1, ck_kind = (if is_full then ''full'' else ''weights''), ck_model_state = model_state,
             ck_metadata = \<lparr>cm_encoding_name = enc, cm_run_id = PStr [], cm_step = legacy_step (pget raw ''step''),
               cm_commit_sha = dget meta ''commit_sha'' (PStr []), cm_created_utc = dget meta ''training_date'' (PStr []),
               cm_arch = Some arch, cm_corpus_sha256 = pget meta ''corpus_sha256'', cm_lineage = []\<rparr>,
             ck_config = config, ck_optimizer_state = full ''optimizer_state'', ck_scaler_state = full ''scaler_state'',
             ck_scheduler_state = full ''scheduler_state'', ck_ema_state = None\<rparr>))))))
      | _ \<Rightarrow> Inl CheckpointStampError))"

section \<open>Strip and restamp\<close>

definition wire_signature :: "enc_spec \<Rightarrow> int \<times> int \<times> int" where
  "wire_signature spec = (es_n_planes spec, es_state_stride spec, es_policy_logit_count spec)"

text \<open>The weights of the source and the encoding it declares.\<close>

definition strip_source :: "'t pv \<Rightarrow> 't pv \<Rightarrow> ('t tree \<times> 't pv) res" where
  "strip_source loaded declared = (let meta_encoding = (\<lambda>raw. case pget raw ''metadata'' of
       PDict d \<Rightarrow> Inr (pget d ''encoding_name'') | v \<Rightarrow> if p_truthy v then Inl AttributeError else Inr PNone) in
     case loaded of PDict raw \<Rightarrow>
       if is_v2 loaded \<noteq> None then (case map_of raw ''model_state'' of
           None \<Rightarrow> Inl KeyError
         | Some (PDict ms) \<Rightarrow> rbind (meta_encoding raw) (\<lambda>e. Inr (ms, stamp_name e))
         | Some _ \<Rightarrow> Inl TypeError)
       else (case pget raw ''model_state'' of
           PDict ms \<Rightarrow> if declared \<noteq> PNone then Inr (ms, stamp_name declared) else rbind (meta_encoding raw) (\<lambda>e. Inr (ms, e))
         | _ \<Rightarrow> Inr (raw, stamp_name declared))
     | _ \<Rightarrow> Inl CheckpointStampError)"

definition strip_arch :: "'t env \<Rightarrow> 't pv \<Rightarrow> enc_spec \<Rightarrow> enc_spec \<Rightarrow> 't arch res" where
  "strip_arch E meta old_spec new_spec = (case get_or_none meta ''arch'' of
     PDict d \<Rightarrow> rbind (arch_from_dict E d) (\<lambda>a.
       if text_of E (ar_representation a) \<noteq> es_representation new_spec then Inl CheckpointStampError else Inr a)
   | _ \<Rightarrow> rbind (stamped_arch_kind E PNone (es_representation old_spec)) (select_arch new_spec []))"

text \<open>The placeholder configuration of a stripped artifact.\<close>

abbreviation real_at :: "real \<Rightarrow> 't pv" where "real_at x \<equiv> PFloat (Fin x)"

definition synth_eval :: "'t tree" where
  "synth_eval = [(''random_model_sims'', PInt 1), (''random_floor_games'', PInt 0), (''worker_device'', PStr ''cpu''),
     (''round_timeout_sec'', real_at 1), (''worker_kill_grace_sec'', real_at 1), (''ply_cap_adjudication'', PNone),
     (''strength_floor'', PNone), (''max_plies'', PInt 1),
     (''gate'', PDict [(''stride'', PInt 1), (''deploy_sims'', PInt 1), (''opening_book'', PStr ''book_v1_s20260625_p4''),
       (''bootstrap_resamples'', PInt 1), (''min_distinct_per_pair'', PInt 1), (''seed_base'', PInt 1),
       (''sequential'', PDict [(''mu0'', real_at 0.42), (''mu1'', real_at 0.52), (''alpha'', real_at 0.05), (''beta'', real_at 0.1),
         (''check_every_pairs'', PInt 2), (''min_pairs'', PInt 2), (''max_pairs'', PInt 2), (''at_max_pairs'', PStr ''promote'')])])]"

definition synth_train :: "'t tree" where
  "synth_train = [(''lr'', real_at 0.001), (''weight_decay'', real_at 0.0001), (''grad_clip'', real_at 1),
     (''ema'', PDict [(''enabled'', PBool False), (''decay'', real_at 0.999), (''update_every'', PInt 10)]), (''device'', PStr ''cpu''),
     (''lr_schedule'', PStr ''cosine''), (''scheduler_t_max'', PInt 1000000), (''eta_min'', real_at 0.0005), (''lr_cycle'', PNone),
     (''checkpoint_interval'', PInt 0), (''actor_sync_cadence_steps'', PInt 1), (''max_train_steps'', PInt 1000000),
     (''draw_rate_abort'', PNone), (''ply_cap_abort'', PNone), (''heldout_gap'', PNone), (''eval_interval'', PInt 1000),
     (''log_interval'', PInt 1000), (''min_buf_size'', PInt 1), (''replay_capacity'', PInt 100000), (''ring_preload'', PNone),
     (''training_steps_per_game'', real_at 1), (''training_steps_fill_ramp'', PBool False), (''max_train_burst'', PInt 1),
     (''batch_size'', PInt 256), (''augment'', PBool False), (''terminal_eval_enabled'', PBool True),
     (''selfplay_stall_timeout_sec'', real_at 1800), (''policy_target'', PStr ''raw_visit_distribution''),
     (''value_target_search_weight'', real_at 0), (''value_target_search_encoding'', PNone), (''value_mask_redraw_p'', real_at 0)]"

definition synth_selfplay :: "'t tree" where
  "synth_selfplay = [(''search'', PDict [(''kind'', PStr ''puct''), (''tactics'', PNone)]), (''n_workers'', PInt 1),
     (''leaf_batch_size'', PInt 8), (''max_game_moves'', PInt 128), (''c_visit'', real_at 50), (''c_scale'', real_at 1),
     (''q_rescale'', PBool True), (''gumbel_m'', PInt 16), (''gumbel_m_quick'', PInt 16), (''gumbel_explore_moves'', PInt 10),
     (''search_stats_every'', PInt 0), (''results_queue_cap'', PInt 10000), (''random_opening_plies'', PInt 0),
     (''decided_tails'', PNone), (''log_investigation_metrics'', PBool True),
     (''mcts'', PDict [(''c_puct'', real_at 1.5), (''fpu_reduction'', real_at 0.25), (''quiescence_enabled'', PBool True),
       (''quiescence_blend_2'', real_at 0.3), (''dirichlet_alpha'', real_at 0.3), (''dirichlet_epsilon'', real_at 0.25),
       (''dirichlet_enabled'', PBool True)]),
     (''playout_cap'', PDict [(''full_search_prob'', real_at 0), (''n_sims_quick'', PInt 0), (''n_sims_full'', PInt 50),
       (''temperature_threshold_compound_moves'', PInt 0), (''temp_min'', real_at 0.5)])]"

definition synth_monitor :: "'t tree" where
  "synth_monitor = [(''gate_interval'', PInt 1000), (''alert_entropy_min'', real_at 1), (''collapse_threshold_nats'', real_at 1.5),
     (''alert_grad_norm_max'', real_at 10), (''alert_loss_increase_window'', PInt 3), (''axis_warn'', real_at 0.45),
     (''axis_alert'', real_at 0.5), (''heartbeat_deadline_train_step_sec'', real_at 1800),
     (''heartbeat_deadline_inference_dispatch_sec'', real_at 1800), (''heartbeat_deadline_selfplay_drain_sec'', real_at 1800),
     (''heartbeat_deadline_eval_round_sec'', real_at 1800), (''heartbeat_poll_interval_sec'', real_at 5),
     (''heartbeat_file_interval_sec'', real_at 15), (''heartbeat_close_out_deadline_sec'', real_at 14400),
     (''heartbeat_fire_effect_timeout_sec'', real_at 30), (''supervisor_stale_after_sec'', real_at 900),
     (''supervisor_poll_interval_sec'', real_at 30), (''supervisor_kill_grace_sec'', real_at 30), (''supervisor_max_relaunches'', PInt 5),
     (''actor_lag_threshold_steps'', PInt 100), (''actor_lag_abort_enabled'', PBool False),
     (''drain'', PDict [(''final_eval_drain_timeout_sec'', real_at 900), (''eval_final_drain_safety_factor'', real_at 3),
       (''eval_final_drain_hard_cap_sec'', real_at 14400), (''terminal_eval_hard_cap_sec'', real_at 14400)]),
     (''disk_guard'', PDict [(''interval_sec'', real_at 60), (''warn_gb'', real_at 10), (''fail_gb'', real_at 5)])]"

definition synth_config :: "string \<Rightarrow> string \<Rightarrow> string \<Rightarrow> 't tree" where
  "synth_config run_id new_encoding rep = [(''schema_version'', PInt 1), (''run_id'', PStr run_id), (''seed'', PInt 0),
     (''eval_enabled'', PBool True), (''allocator_posture'', PNone),
     (''identity'', PDict [(''encoding'', PStr new_encoding), (''representation'', PStr rep)]),
     (''model'', PDict [(''aux_soft_policy'', PNone), (''aux_future_occupancy'', PNone)]),
     (''deploy'', PDict [(''search'', PDict [(''kind'', PStr ''puct''), (''tactics'', PNone)])]),
     (''eval'', PDict synth_eval), (''train'', PDict synth_train), (''selfplay'', PDict synth_selfplay),
     (''inference'', PDict [(''inference_batch_size'', PInt 64), (''inference_max_wait_ms'', PInt 10)]), (''monitor'', PDict synth_monitor)]"

text \<open>The arch-scoped block of the stamped architecture, by section and field; a block without one raises.\<close>

definition synth_arch_scoped :: "string \<Rightarrow> string \<Rightarrow> 't arch \<Rightarrow> 't tree res" where
  "synth_arch_scoped sect fld a =
     (if (sect, fld) = (''train'', ''microbatch_caps'') then Inr [(''max_edges'', PInt 100000000), (''max_nodes'', PInt 4000000)]
      else if (sect, fld) = (''inference'', ''fused_graph_caps'') then Inr [(''max_fused_edges'', PInt 57149441), (''max_fused_nodes'', PInt 1785921)]
      else if (sect, fld) = (''model'', ''gnn'') then gnn_widths_block a else Inl KeyError)"

fun splice_arch_scoped :: "string \<Rightarrow> 't arch \<Rightarrow> (string \<times> string \<times> string) list \<Rightarrow> 't tree \<Rightarrow> 't tree res" where
  "splice_arch_scoped rep a [] config = Inr config"
| "splice_arch_scoped rep a ((sect, fld, arch) # keys) config =
     (if rep = arch then rbind (synth_arch_scoped sect fld a) (\<lambda>block.
        splice_arch_scoped rep a keys (edit_at [sect] (AList.update fld (PDict block)) config))
      else splice_arch_scoped rep a keys config)"

definition strip_plan :: "'t env \<Rightarrow> 't pv \<Rightarrow> string \<Rightarrow> string \<Rightarrow> 't pv \<Rightarrow> int \<Rightarrow> 't save_args res" where
  "strip_plan E loaded new_encoding run_id declared_encoding step =
     rbind (strip_source loaded declared_encoding) (\<lambda>(model_state, old_enc).
     rbind (reject_killed_prefixes model_state) (\<lambda>_.
     if \<not> p_truthy old_enc then Inl CheckpointStampError
     else rbind (lookup E old_enc) (\<lambda>old_spec. rbind (lookup E (PStr new_encoding)) (\<lambda>new_spec.
       if wire_signature old_spec \<noteq> wire_signature new_spec then Inl CheckpointStampError
       else let meta = get_or_none loaded ''metadata'' in
         rbind (strip_arch E meta old_spec new_spec) (\<lambda>arch.
         rbind (splice_arch_scoped (es_representation new_spec) arch ARCH_SCOPED_KEYS
                  (synth_config run_id new_encoding (es_representation new_spec))) (\<lambda>config.
           Inr \<lparr>sg_model_state = model_state, sg_optimizer = PNone, sg_scaler = PNone, sg_scheduler = PNone, sg_step = step,
                sg_config = config,
                sg_metadata_kwargs = \<lparr>sa_values = [(''encoding_name'', PStr new_encoding), (''run_id'', PStr run_id),
                    (''lineage'', get_or_none meta ''lineage'')], sa_arch = Some arch\<rparr>,
                sg_kind = ''weights'', sg_allow_quarantine = False, sg_ema = None\<rparr>))))))"

definition strip_and_restamp :: "'t env \<Rightarrow> files \<Rightarrow> string \<Rightarrow> string \<Rightarrow> string \<Rightarrow> 't pv \<Rightarrow> int \<Rightarrow> (saver, string) act" where
  "strip_and_restamp E src src_path new_encoding run_id declared_encoding step =
     abind (lift (rbind (torch_load E src src_path) (\<lambda>loaded. strip_plan E loaded new_encoding run_id declared_encoding step)))
       (write_v2_payload E)"

section \<open>The placeholder configuration has no retired path\<close>

lemma settled_code:
  "settled d \<longleftrightarrow> list_all (\<lambda>p. found_at p d = None) RETIRED_PATHS \<and>
     list_all (\<lambda>p. found_at p d \<noteq> Some PNone) RETIRED_NULL_POSTURES \<and> (\<forall>b. found_at ''selfplay.decided_tails'' d \<noteq> Some (PBool b))"
  by (auto simp: settled_def bars_def list_all_iff BOOL_BLOCKS_def)

lemma synth_retired: "list_all (\<lambda>p. found_at p (synth_config run_id enc rep :: 'a tree) = None) RETIRED_PATHS"
  by code_simp

lemma synth_settled: "settled (synth_config run_id enc rep)"
proof -
  have "found_at ''eval.gate.sequential'' (synth_config run_id enc rep :: 'a tree) \<noteq> Some PNone"
    "\<forall>b. found_at ''selfplay.decided_tails'' (synth_config run_id enc rep :: 'a tree) \<noteq> Some (PBool b)"
    by (simp_all add: found_at_def dotted_def synth_config_def synth_eval_def synth_selfplay_def)
  then show ?thesis using synth_retired [of run_id enc rep]
    by (simp add: settled_code RETIRED_NULL_POSTURES_def)
qed

lemma blocks_apart:
  "list_all (\<lambda>(sect, fld, arch). list_all (\<lambda>p. \<not> prefix [sect, fld] p)
     (map dotted (RETIRED_PATHS @ RETIRED_NULL_POSTURES @ [''selfplay.decided_tails'']))) ARCH_SCOPED_KEYS"
  by code_simp

lemma bars_edit:
  assumes "bars bad Q d" "kind_blind bad" "\<forall>q \<in> Q. \<not> prefix [sect, fld] (dotted q)"
  shows "bars bad Q (edit_at [sect] (AList.update fld v) d)"
  unfolding bars_def
proof (intro ballI allI impI)
  fix q w assume q: "q \<in> Q" "found_at q (edit_at [sect] (AList.update fld v) d) = Some w"
  then obtain w' where "found_at q d = Some w'" "alike w w'"
    using here_update [of "dotted q" "[sect]" fld v d w] assms(3) unfolding found_at_def alike_def by fastforce
  then show "\<not> bad w" using assms(1,2) q(1) by (auto simp: bars_def kind_blind_def)
qed

lemma settled_edit:
  assumes "settled d" "\<forall>p \<in> set RETIRED_PATHS \<union> set RETIRED_NULL_POSTURES \<union> {''selfplay.decided_tails''}. \<not> prefix [sect, fld] (dotted p)"
  shows "settled (edit_at [sect] (AList.update fld v) d)"
  using assms unfolding settled_def
  by (intro conjI; elim conjE; intro bars_edit blind; simp only: BOOL_BLOCKS_def; auto)

lemma edit_other: "k \<noteq> sect \<Longrightarrow> pget (edit_at [sect] f d) k = pget d k"
  by (auto simp: dget_def update_conv' simp del: map_of_None_dkeys split: option.split pv.split)

lemma splice_keeps:
  assumes "splice_arch_scoped rep a keys config = Inr config'" "set keys \<subseteq> set ARCH_SCOPED_KEYS" "settled config"
  shows "settled config' \<and> pget config' ''identity'' = pget config ''identity''"
  using assms
proof (induction rep a keys config rule: splice_arch_scoped.induct)
  case (2 rep a sect fld arch keys config)
  have apart: "\<forall>p \<in> set RETIRED_PATHS \<union> set RETIRED_NULL_POSTURES \<union> {''selfplay.decided_tails''}. \<not> prefix [sect, fld] (dotted p)"
    and sect: "sect \<noteq> ''identity''"
    using blocks_apart 2(4) by (fastforce simp: list_all_iff ARCH_SCOPED_KEYS_def)+
  show ?case
  proof (cases "rep = arch")
    case True
    then obtain block where b: "synth_arch_scoped sect fld a = Inr block"
      "splice_arch_scoped rep a keys (edit_at [sect] (AList.update fld (PDict block)) config) = Inr config'"
      using 2(3) by (auto simp: rbind_Inr_iff)
    show ?thesis using 2(1) [OF True b(2)] 2(4) settled_edit [OF 2(5) apart] edit_other [of "''identity''" sect] sect by simp
  next
    case False
    then show ?thesis using 2 by simp
  qed
qed simp

section \<open>A stripped artifact reads back\<close>

lemma strip_planned:
  assumes "strip_plan E loaded enc run_id declared step = Inr a"
  obtains ms old_enc old_spec new_spec arch where
    "strip_source loaded declared = Inr (ms, old_enc)" "reject_killed_prefixes ms = Inr ()" "lookup E old_enc = Inr old_spec"
    "lookup E (PStr enc) = Inr new_spec" "wire_signature old_spec = wire_signature new_spec"
    "strip_arch E (get_or_none loaded ''metadata'') old_spec new_spec = Inr arch" "sg_model_state a = ms" "sg_step a = step"
    "splice_arch_scoped (es_representation new_spec) arch ARCH_SCOPED_KEYS (synth_config run_id enc (es_representation new_spec)) = Inr (sg_config a)"
    "sg_metadata_kwargs a = \<lparr>sa_values = [(''encoding_name'', PStr enc), (''run_id'', PStr run_id),
       (''lineage'', get_or_none (get_or_none loaded ''metadata'') ''lineage'')], sa_arch = Some arch\<rparr>"
    "sg_kind a = ''weights''" "\<not> sg_allow_quarantine a" "sg_ema a = None"
proof -
  obtain ms old_enc where src: "strip_source loaded declared = Inr (ms, old_enc)"
    using assms unfolding strip_plan_def by (elim rbindE) auto
  note run = assms [unfolded strip_plan_def src rbind_simps prod.case]
  have truthy: "p_truthy old_enc" using run by (auto split: if_splits elim!: rbindE)
  note run' = run [simplified truthy not_True_eq_False if_False]
  show thesis
    using run' src by (elim rbindE) (auto split: if_splits elim!: rbindE simp: Let_def intro!: that)
qed

text \<open>Strip and restamp: the artifact it writes loads with exactly the source's weights and lineage,
  under the new encoding and run; its architecture is the source stamp's own (or, for a source with no
  stamped architecture, the one its representation always had), and it is written only when the two
  encodings have the same wire signature and no weight belongs to a deleted branch.\<close>

theorem strip_reads_back:
  assumes "hex_digest E" and "torch_load E src src_path = Inr loaded"
    and "strip_and_restamp E src src_path enc run_id declared step s = (Inr path, s')"
    and "\<forall>a m. strip_plan E loaded enc run_id declared step = Inr a \<longrightarrow> stamp_of E a = Inr m \<longrightarrow> pickles E (PDict (payload_of a m None))"
  shows "\<exists>ms old_enc old_spec new_spec arch ck. strip_source loaded declared = Inr (ms, old_enc) \<and> reject_killed_prefixes ms = Inr () \<and>
    lookup E old_enc = Inr old_spec \<and> lookup E (PStr enc) = Inr new_spec \<and> wire_signature old_spec = wire_signature new_spec \<and>
    strip_arch E (get_or_none loaded ''metadata'') old_spec new_spec = Inr arch \<and>
    load_checkpoint E (dk_files (sv_disk s')) path plain_reader = Inr ck \<and> ck_model_state ck = ms \<and> ck_kind ck = ''weights'' \<and>
    cm_arch (ck_metadata ck) = Some arch \<and> cm_encoding_name (ck_metadata ck) = PStr enc \<and> cm_run_id (ck_metadata ck) = PStr run_id \<and>
    Inr (cm_lineage (ck_metadata ck)) = lineage_list (get_or_none (get_or_none loaded ''metadata'') ''lineage'')"
proof -
  obtain a where a: "strip_plan E loaded enc run_id declared step = Inr a" "write_v2_payload E a s = (Inr path, s')"
    using assms(2,3) by (auto simp: strip_and_restamp_def abind_Inr_iff lift_def)
  obtain ms old_enc old_spec new_spec arch where p: "strip_source loaded declared = Inr (ms, old_enc)" "reject_killed_prefixes ms = Inr ()"
    "lookup E old_enc = Inr old_spec" "lookup E (PStr enc) = Inr new_spec" "wire_signature old_spec = wire_signature new_spec"
    "strip_arch E (get_or_none loaded ''metadata'') old_spec new_spec = Inr arch" "sg_model_state a = ms" "sg_step a = step"
    "splice_arch_scoped (es_representation new_spec) arch ARCH_SCOPED_KEYS (synth_config run_id enc (es_representation new_spec)) = Inr (sg_config a)"
    "sg_metadata_kwargs a = \<lparr>sa_values = [(''encoding_name'', PStr enc), (''run_id'', PStr run_id),
       (''lineage'', get_or_none (get_or_none loaded ''metadata'') ''lineage'')], sa_arch = Some arch\<rparr>"
    "sg_kind a = ''weights''" "\<not> sg_allow_quarantine a" "sg_ema a = None"
    using strip_planned [OF a(1)] by metis
  obtain m where m: "stamp_of E a = Inr m" "path = ckpt_path E a m" "en_schema_errors E (sg_config a) = []"
    "torch_load E (dk_files (sv_disk s')) path = en_load E (en_save E (PDict (payload_of a m (sg_ema a))))"
    using write_v2_done [OF a(2) p(12)] by metis
  have config: "settled (sg_config a)" "pget (sg_config a) ''identity'' = PDict [(''encoding'', PStr enc), (''representation'', PStr (es_representation new_spec))]"
    using splice_keeps [OF p(9) subset_refl synth_settled] by (auto simp: synth_config_def dget_def)
  have "config_encoding (PDict (sg_config a)) = PStr enc" by (simp add: config_encoding_def config(2)) (simp add: dget_def)
  then have "reads_back E (sg_model_state a) (sg_config a) (sg_metadata_kwargs a) (sg_ema a)"
    using m(3) p(2) by (simp add: reads_back_def settled_still [OF config(1)] p dget_def)
  moreover have "declares_as (sg_metadata_kwargs a) plain_reader" by (simp add: declares_as_def plain_reader_def)
  ultimately have "\<exists>ck. load_payload E path plain_reader (payload_of a m None) = Inr ck \<and> ck_model_state ck = ms \<and> ck_kind ck = ''weights'' \<and>
    cm_encoding_name (ck_metadata ck) = PStr enc \<and> cm_run_id (ck_metadata ck) = PStr run_id \<and> cm_arch (ck_metadata ck) = Some arch \<and>
    Inr (cm_lineage (ck_metadata ck)) = lineage_list (get_or_none (get_or_none loaded ''metadata'') ''lineage'')"
    using load_stamped [OF assms(1) m(1), of plain_reader] by (auto simp: m(2) p dget_def)
  then obtain ck where ck: "load_payload E path plain_reader (payload_of a m None) = Inr ck" "ck_model_state ck = ms" "ck_kind ck = ''weights''"
    "cm_encoding_name (ck_metadata ck) = PStr enc" "cm_run_id (ck_metadata ck) = PStr run_id" "cm_arch (ck_metadata ck) = Some arch"
    "Inr (cm_lineage (ck_metadata ck)) = lineage_list (get_or_none (get_or_none loaded ''metadata'') ''lineage'')"
    by blast
  have "torch_load E (dk_files (sv_disk s')) path = Inr (PDict (payload_of a m None))"
    using m(1,4) a(1) assms(4) by (simp add: p pickles_def)
  then have "load_checkpoint E (dk_files (sv_disk s')) path plain_reader = Inr ck"
    using ck(1) payload_lookups [of a m None] by (simp add: load_checkpoint_def is_v2_def payload_fields_def Let_def)
  then show ?thesis using p(1-6) ck by blast
qed

definition strip_source_demo :: "unit pv" where
  "strip_source_demo = PDict [(''schema_version'', PInt 2), (''kind'', PStr ''weights''), (''model_state'', PDict [(''w'', PTensor ())]),
     (''metadata'', PDict [(''encoding_name'', PStr ''old''), (''run_id'', PStr ''run_6''), (''arch'', PDict (arch_to_dict demo_arch)),
       (''lineage'', PList [PStr ''teacher''])])]"

definition strip_spec :: enc_spec where
  "strip_spec = \<lparr>es_name = ''new'', es_representation = ''graph'', es_n_planes = 8, es_state_stride = 2, es_policy_logit_count = 361,
     es_node_feat_dim = Some 11, es_edge_feat_dim = Some 5\<rparr>"

definition strip_env0 :: "unit env" where
  "strip_env0 = demo_env0\<lparr>en_specs := [(''old'', strip_spec), (''new'', strip_spec)], en_save := (\<lambda>_. ''new'')\<rparr>"

definition strip_args_demo :: "unit save_args" where
  "strip_args_demo = projr (strip_plan strip_env0 strip_source_demo ''new'' ''run_7'' PNone 0)"

definition strip_env :: "unit env" where
  "strip_env = strip_env0\<lparr>en_load := (\<lambda>b. if b = ''new'' then Inr (PDict (payload_of strip_args_demo (projr (stamp_of strip_env0 strip_args_demo)) None))
     else Inr strip_source_demo)\<rparr>"

lemma strip_env_sels: "en_specs strip_env = en_specs strip_env0" "en_repr strip_env = en_repr strip_env0"
    "en_head_sha strip_env = en_head_sha strip_env0" "en_now strip_env = en_now strip_env0"
  by (simp_all add: strip_env_def)

lemma strip_env_readers: "lookup strip_env = lookup strip_env0" "text_of strip_env = text_of strip_env0"
  unfolding fun_eq_iff lookup_def text_of_def strip_env_sels by simp_all

lemma strip_env_arch: "strip_arch strip_env = strip_arch strip_env0"
  unfolding fun_eq_iff strip_arch_def arch_from_dict_def stamped_arch_kind_def legacy_by_representation_def strip_env_readers by simp

lemma strip_env_plan: "strip_plan strip_env l n r d k = strip_plan strip_env0 l n r d k"
  unfolding strip_plan_def strip_env_readers strip_env_arch by simp

lemma strip_env_stamp: "stamp_of strip_env a = stamp_of strip_env0 a"
proof -
  have "stamp_dict strip_env = stamp_dict strip_env0"
    unfolding fun_eq_iff stamp_dict_def resolve_commit_sha_def now_iso_def strip_env_sels by simp
  then show ?thesis unfolding stamp_of_def build_stamped_metadata_def by (simp only:)
qed

theorem strip_reads_back_witness:
  "\<exists>path s' ck. strip_and_restamp strip_env [(''old.ckpt'', Blob [])] ''old.ckpt'' ''new'' ''run_7'' PNone 0 demo_saver = (Inr path, s') \<and>
     load_checkpoint strip_env (dk_files (sv_disk s')) path plain_reader = Inr ck \<and> cm_arch (ck_metadata ck) = Some demo_arch"
proof -
  let ?run = "strip_and_restamp strip_env [(''old.ckpt'', Blob [])] ''old.ckpt'' ''new'' ''run_7'' PNone 0 demo_saver"
  have hex: "hex_digest strip_env" by (simp add: hex_digest_def strip_env_def strip_env0_def demo_env0_def hex8_def is_hex_def is_digit_def)
  have src: "torch_load strip_env [(''old.ckpt'', Blob [])] ''old.ckpt'' = Inr strip_source_demo" by (simp add: torch_load_def strip_env_def)
  have "case fst ?run of Inr _ \<Rightarrow> True | Inl _ \<Rightarrow> False" by code_simp
  then obtain path s' where run: "?run = (Inr path, s')" by (cases ?run) (auto split: sum.splits)
  have pick: "\<forall>a m. strip_plan strip_env strip_source_demo ''new'' ''run_7'' PNone 0 = Inr a \<longrightarrow> stamp_of strip_env a = Inr m \<longrightarrow>
      pickles strip_env (PDict (payload_of a m None))"
    unfolding strip_env_plan strip_env_stamp by (simp add: pickles_def strip_env_def strip_args_demo_def strip_env0_def)
  have arch: "strip_arch strip_env (get_or_none strip_source_demo ''metadata'') strip_spec strip_spec = Inr demo_arch" by code_simp
  have source: "strip_source strip_source_demo PNone = Inr ([(''w'', PTensor ())], PStr ''old'')" by code_simp
  have specs: "lookup strip_env (PStr ''old'') = Inr strip_spec" "lookup strip_env (PStr ''new'') = Inr strip_spec"
    by (simp_all add: lookup_def strip_env_def strip_env0_def)
  obtain ck where "load_checkpoint strip_env (dk_files (sv_disk s')) path plain_reader = Inr ck" "cm_arch (ck_metadata ck) = Some demo_arch"
    using strip_reads_back [OF hex src run pick] by (auto simp: source specs arch)
  then show ?thesis using run by blast
qed

end
