(* ===== verification/Resume_Config.thy ===== *)
theory Resume_Config
  imports Restamp
begin

text \<open>
  Resuming from a checkpoint (\<open>src/mantis/train/checkpoints.py\<close>): the merge of the launch's configuration onto
  the one the checkpoint carries, the drifts a resume refuses, the provenance of the learning rate, and
  \<open>resume_trainer\<close>, which restores a trainer.

  The emitted events are the state of the actions here, so that they stay emitted when a later step raises.
  \<open>resumer\<close> is what the code calls elsewhere: building a net and loading weights into it, constructing the
  trainer, loading a state into one of its parts, and \<open>float\<close> of a text.
\<close>

section \<open>The merge\<close>

record 't deferral =
  df_knob :: string
  df_base_default :: "'t pv"
  df_checkpoint_baked :: "'t pv"

definition RESUME_DIRECTIVE_KEYS :: "string list" where
  "RESUME_DIRECTIVE_KEYS = [''allow_fresh_scheduler'', ''torch_compile'', ''torch_compile_mode'', ''resume_owned_launch_values'']"

lemma size_section [simp]: "size (PDict ov) < size (PDict ((k, PDict ov) # overrides))"
  by simp

function update_leafwise :: "'t tree \<Rightarrow> 't tree \<Rightarrow> 't tree" where
  "update_leafwise target [] = target"
| "update_leafwise target ((k, v) # overrides) = update_leafwise
     (case (v, map_of target k) of
        (PDict ov, Some (PDict cur)) \<Rightarrow> AList.update k (PDict (update_leafwise cur ov)) target
      | _ \<Rightarrow> AList.update k v target) overrides"
  by pat_completeness auto
termination by (relation "measure (\<lambda>(t, ov). size (PDict ov))") auto

function merge_leafwise :: "'t tree \<Rightarrow> 't tree \<Rightarrow> string \<Rightarrow> string list \<Rightarrow> 't tree \<times> 't deferral list" where
  "merge_leafwise resolved [] pre declared = (resolved, [])"
| "merge_leafwise resolved ((k, v) # overrides) pre declared =
     (case (if pre @ k \<in> set declared \<or> k \<in> set declared then (AList.update k v resolved, [])
        else case (v, map_of resolved k) of
          (PDict ov, Some (PDict cur)) \<Rightarrow> (case merge_leafwise cur ov (pre @ k @ ''.'') declared of
             (m, es) \<Rightarrow> (AList.update k (PDict m) resolved, es))
        | (_, Some cur) \<Rightarrow> (resolved, if py_eq v cur then [] else [\<lparr>df_knob = pre @ k, df_base_default = v, df_checkpoint_baked = cur\<rparr>])
        | (_, None) \<Rightarrow> (AList.update k v resolved, [])) of
      (r1, e1) \<Rightarrow> (case merge_leafwise r1 overrides pre declared of (r2, e2) \<Rightarrow> (r2, e1 @ e2)))"
  by pat_completeness auto
termination by (relation "measure (\<lambda>(r, ov, pre, d). size (PDict ov))") auto

definition apply_config_overrides_f1 ::
  "'t tree option \<Rightarrow> 't tree \<Rightarrow> string list option \<Rightarrow> 't tree \<times> 't deferral list" where
  "apply_config_overrides_f1 baked overrides declared_keys = (case (baked, declared_keys) of
     (Some b, Some d) \<Rightarrow> merge_leafwise b overrides [] (d @ filter (\<lambda>k. map_of overrides k \<noteq> None) RESUME_DIRECTIVE_KEYS)
   | _ \<Rightarrow> (update_leafwise (case baked of None \<Rightarrow> [] | Some b \<Rightarrow> b) overrides, []))"

section \<open>What the merge does\<close>

text \<open>A step of the merge on one key, apart from the recursion over the others.\<close>

definition merge_key :: "'t tree \<Rightarrow> string \<Rightarrow> 't pv \<Rightarrow> string \<Rightarrow> string list \<Rightarrow> 't tree \<times> 't deferral list" where
  "merge_key resolved k v pre declared = (if pre @ k \<in> set declared \<or> k \<in> set declared then (AList.update k v resolved, [])
     else case (v, map_of resolved k) of
       (PDict ov, Some (PDict cur)) \<Rightarrow> (case merge_leafwise cur ov (pre @ k @ ''.'') declared of
          (m, es) \<Rightarrow> (AList.update k (PDict m) resolved, es))
     | (_, Some cur) \<Rightarrow> (resolved, if py_eq v cur then [] else [\<lparr>df_knob = pre @ k, df_base_default = v, df_checkpoint_baked = cur\<rparr>])
     | (_, None) \<Rightarrow> (AList.update k v resolved, []))"

lemma merge_Cons:
  "merge_leafwise resolved ((k, v) # overrides) pre declared =
     (case merge_key resolved k v pre declared of (r1, e1) \<Rightarrow> case merge_leafwise r1 overrides pre declared of (r2, e2) \<Rightarrow> (r2, e1 @ e2))"
  by (simp add: merge_key_def)

lemma fst_merge_Cons: "fst (merge_leafwise r ((k, v) # ov) pre d) = fst (merge_leafwise (fst (merge_key r k v pre d)) ov pre d)"
  and snd_merge_Cons: "snd (merge_leafwise r ((k, v) # ov) pre d) = snd (merge_key r k v pre d) @ snd (merge_leafwise (fst (merge_key r k v pre d)) ov pre d)"
  unfolding merge_Cons by (simp_all split: prod.split)

lemma merge_key_other: "k' \<noteq> k \<Longrightarrow> map_of (fst (merge_key r k v pre d)) k' = map_of r k'"
  by (auto simp: merge_key_def update_conv' simp del: map_of_None_dkeys split: pv.split option.split prod.split)

lemma merge_other: "k \<notin> fst ` set ov \<Longrightarrow> map_of (fst (merge_leafwise r ov pre d)) k = map_of r k"
proof (induction ov arbitrary: r)
  case (Cons p ov)
  then show ?case by (cases p) (simp add: fst_merge_Cons merge_key_other del: merge_leafwise.simps map_of_None_dkeys)
qed simp

text \<open>The declarations along a path: its dotted name, or its last key, at any depth.\<close>

fun declares :: "string list \<Rightarrow> string \<Rightarrow> string list \<Rightarrow> bool" where
  "declares D pre [] = False"
| "declares D pre (k # ks) = (pre @ k \<in> set D \<or> k \<in> set D \<or> declares D (pre @ k @ ''.'') ks)"

definition leafy :: "'t pv \<Rightarrow> bool" where "leafy v \<longleftrightarrow> (\<forall>d. v \<noteq> PDict d)"

text \<open>Induction along the merge: into the section of a key, and on to the other keys.\<close>

lemma merge_induct [case_names Nil Cons]:
  assumes nil: "\<And>r pre. P r [] pre"
    and step: "\<And>r k v ov pre. (\<And>o2 cur. v = PDict o2 \<Longrightarrow> map_of r k = Some (PDict cur) \<Longrightarrow> P cur o2 (pre @ k @ ''.'')) \<Longrightarrow>
      P (fst (merge_key r k v pre D)) ov pre \<Longrightarrow> P r ((k, v) # ov) pre"
  shows "P r ov pre"
proof (induction "size (PDict ov)" arbitrary: r ov pre rule: less_induct)
  case (less ov r pre)
  show ?case
  proof (cases ov)
    case (Cons p rest)
    obtain k v where p: "p = (k, v)" by (cases p)
    have "P cur o2 (pre @ k @ ''.'')" if "v = PDict o2" for o2 cur
      by (rule less) (use that in \<open>simp add: Cons p\<close>)
    moreover have "P (fst (merge_key r k v pre D)) rest pre" by (rule less) (simp add: Cons p)
    ultimately show ?thesis unfolding Cons p by (rule step)
  qed (simp add: nil)
qed

lemma merge_key_cases:
  obtains (declared) "pre @ k \<in> set D \<or> k \<in> set D" "merge_key r k v pre D = (AList.update k v r, [])"
  | (fresh) "\<not> (pre @ k \<in> set D \<or> k \<in> set D)" "map_of r k = None" "merge_key r k v pre D = (AList.update k v r, [])"
  | (sect) o2 cur where "\<not> (pre @ k \<in> set D \<or> k \<in> set D)" "v = PDict o2" "map_of r k = Some (PDict cur)"
      "merge_key r k v pre D = (AList.update k (PDict (fst (merge_leafwise cur o2 (pre @ k @ ''.'') D))) r, snd (merge_leafwise cur o2 (pre @ k @ ''.'') D))"
  | (baked) cur where "\<not> (pre @ k \<in> set D \<or> k \<in> set D)" "map_of r k = Some cur" "leafy v \<or> leafy cur"
      "merge_key r k v pre D = (r, if py_eq v cur then [] else [\<lparr>df_knob = pre @ k, df_base_default = v, df_checkpoint_baked = cur\<rparr>])"
proof -
  consider "pre @ k \<in> set D \<or> k \<in> set D" | "\<not> (pre @ k \<in> set D \<or> k \<in> set D)" "map_of r k = None"
    | o2 cur where "\<not> (pre @ k \<in> set D \<or> k \<in> set D)" "v = PDict o2" "map_of r k = Some (PDict cur)"
    | cur where "\<not> (pre @ k \<in> set D \<or> k \<in> set D)" "map_of r k = Some cur" "leafy v \<or> leafy cur"
    unfolding leafy_def by (metis option.exhaust)
  then show thesis
  proof cases
    case 1
    then show ?thesis using declared by (simp add: merge_key_def)
  next
    case 2
    then have "merge_key r k v pre D = (AList.update k v r, [])"
      by (cases v) (simp_all add: merge_key_def del: map_of_None_dkeys)
    then show ?thesis using fresh 2 by blast
  next
    case (3 o2 cur)
    then show ?thesis using sect by (simp add: merge_key_def case_prod_beta)
  next
    case (4 cur)
    then have "merge_key r k v pre D = (r, if py_eq v cur then [] else [\<lparr>df_knob = pre @ k, df_base_default = v, df_checkpoint_baked = cur\<rparr>])"
      by (auto simp: merge_key_def leafy_def split: pv.split)
    then show ?thesis using baked 4 by blast
  qed
qed

lemma merge_keeps_baked:
  "here p (PDict r) = Some w \<Longrightarrow> leafy w \<Longrightarrow> \<not> declares D pre p \<Longrightarrow> here p (PDict (fst (merge_leafwise r ov pre D))) = Some w"
proof (induction r ov pre arbitrary: p rule: merge_induct [where D = D])
  case (Cons r k v ov pre)
  obtain a q where p: "p = a # q" using Cons.prems(1,2) by (cases p) (auto simp: leafy_def)
  have "here p (PDict (fst (merge_key r k v pre D))) = Some w"
  proof (cases "a = k")
    case False
    then show ?thesis using Cons.prems(1) p merge_key_other [of a k r v pre D] by simp
  next
    case True
    then obtain u where u: "map_of r k = Some u" "here q u = Some w" using Cons.prems(1) p by (auto split: option.splits)
    show ?thesis
    proof (cases rule: merge_key_cases [of pre k D r v])
      case (sect o2 cur)
      then have "here q (PDict (fst (merge_leafwise cur o2 (pre @ k @ ''.'') D))) = Some w"
        using Cons.IH(1) [OF sect(2,3), of q] Cons.prems(2,3) u p True by simp
      then show ?thesis using sect p True by (simp add: update_conv')
    qed (use Cons.prems p True u in simp_all)
  qed
  then show ?case using Cons.IH(2) Cons.prems(2,3) by (simp add: fst_merge_Cons del: merge_leafwise.simps)
qed simp

text \<open>Every leaf of the launch's configuration is taken, equal to what the resume runs on, or said aloud.\<close>

fun distinct_tree :: "'t pv \<Rightarrow> bool" where
  "distinct_tree (PDict d) = (distinct (map fst d) \<and> list_all (\<lambda>(k, v). distinct_tree v) d)"
| "distinct_tree v = True"

definition told :: "'t deferral list \<Rightarrow> string \<Rightarrow> string list \<Rightarrow> bool" where
  "told es pre p \<longleftrightarrow> (\<exists>e \<in> set es. \<exists>n. 0 < n \<and> n \<le> length p \<and> df_knob e = pre @ concat (map (\<lambda>k. k @ ''.'') (take (n - 1) p)) @ p ! (n - 1))"

lemma told_more: "told es pre p \<Longrightarrow> set es \<subseteq> set es' \<Longrightarrow> told es' pre p"
  unfolding told_def by blast

lemma told_section: "told es (pre @ k @ ''.'') q \<Longrightarrow> told es pre (k # q)"
proof -
  assume "told es (pre @ k @ ''.'') q"
  then obtain e n where e: "e \<in> set es" "0 < n" "n \<le> length q"
    "df_knob e = (pre @ k @ ''.'') @ concat (map (\<lambda>k. k @ ''.'') (take (n - 1) q)) @ q ! (n - 1)"
    unfolding told_def by blast
  then show ?thesis unfolding told_def by (intro bexI [of _ e] exI [of _ "Suc n"]) (cases n; simp)+
qed

lemma py_eq_section: "py_eq (PDict d) w \<Longrightarrow> \<exists>e. w = PDict e"
  by (cases w) (simp_all add: py_eq.simps)

lemma here_leafy: "here q u = Some v \<Longrightarrow> leafy u \<Longrightarrow> q = [] \<and> u = v"
  by (cases q; cases u) (auto simp: leafy_def)

lemma merge_not_silent:
  "distinct (map fst ov) \<Longrightarrow> list_all (\<lambda>(k, v). distinct_tree v) ov \<Longrightarrow> here p (PDict ov) = Some v \<Longrightarrow> leafy v \<Longrightarrow>
   (\<exists>w. here p (PDict (fst (merge_leafwise r ov pre D))) = Some w \<and> (w = v \<or> py_eq v w)) \<or> told (snd (merge_leafwise r ov pre D)) pre p"
proof (induction r ov pre arbitrary: p rule: merge_induct [where D = D])
  case (Nil r pre)
  then show ?case by (cases p) (auto simp: leafy_def)
next
  case (Cons r k u ov pre)
  obtain a q where p: "p = a # q" using Cons.prems(3,4) by (cases p) (auto simp: leafy_def)
  show ?case
  proof (cases "a = k")
    case False
    then have "here p (PDict ov) = Some v" using Cons.prems(3) p by simp
    then show ?thesis using Cons.IH(2) [of p] Cons.prems(1,2,4)
      by (auto simp: fst_merge_Cons snd_merge_Cons simp del: merge_leafwise.simps intro: told_more)
  next
    case True
    have q: "here q u = Some v" using Cons.prems(3) p True by simp
    have k: "k \<notin> fst ` set ov" using Cons.prems(1) by simp
    have final: "map_of (fst (merge_leafwise r ((k, u) # ov) pre D)) k = map_of (fst (merge_key r k u pre D)) k"
      using merge_other [OF k] by (simp add: fst_merge_Cons del: merge_leafwise.simps map_of_None_dkeys)
    have es: "set (snd (merge_key r k u pre D)) \<subseteq> set (snd (merge_leafwise r ((k, u) # ov) pre D))"
      by (simp add: snd_merge_Cons del: merge_leafwise.simps)
    show ?thesis
    proof (cases rule: merge_key_cases [of pre k D r u])
      case (sect o2 cur)
      have "(\<exists>w. here q (PDict (fst (merge_leafwise cur o2 (pre @ k @ ''.'') D))) = Some w \<and> (w = v \<or> py_eq v w)) \<or>
          told (snd (merge_leafwise cur o2 (pre @ k @ ''.'') D)) (pre @ k @ ''.'') q"
        using Cons.IH(1) [OF sect(2,3), of q] Cons.prems(2,4) q sect(2) by simp
      then show ?thesis using sect(4) final es p True
        by (auto simp: update_conv' simp del: merge_leafwise.simps intro: told_more [OF told_section])
    next
      case (baked cur)
      show ?thesis
      proof (cases "py_eq u cur")
        case True
        then have "leafy u" using baked(3) py_eq_section [of _ cur] by (auto simp: leafy_def)
        then have "q = []" "u = v" using q here_leafy by blast+
        then show ?thesis using final baked True p \<open>a = k\<close> by (simp del: merge_leafwise.simps)
      next
        case False
        then have "told (snd (merge_key r k u pre D)) pre p" using baked p \<open>a = k\<close> unfolding told_def
          by (intro bexI [of _ "\<lparr>df_knob = pre @ k, df_base_default = u, df_checkpoint_baked = cur\<rparr>"] exI [of _ 1]) auto
        then show ?thesis using told_more [OF _ es] by blast
      qed
    qed (use final q p True in \<open>auto simp: update_conv' simp del: merge_leafwise.simps\<close>)
  qed
qed



section \<open>Drifts a resume refuses\<close>

text \<open>\<open>_leaf\<close>: the value at a dotted path, \<open>None\<close> when any segment is absent.\<close>

definition leaf_or_none :: "'t tree option \<Rightarrow> string \<Rightarrow> 't pv" where
  "leaf_or_none config path = (case config of None \<Rightarrow> PNone | Some c \<Rightarrow> foldl get_or_none (PDict c) (dotted path))"

definition IDENTITY_LEAVES :: "string list" where
  "IDENTITY_LEAVES = [''encoding'', ''representation'', ''arch_kind'']"

definition TARGET_SEMANTICS_LEAVES :: "string list list" where
  "TARGET_SEMANTICS_LEAVES = [[''train'', ''policy_target''], [''selfplay'', ''search'', ''kind'']]"

definition TARGET_SEMANTICS_RETIRED_PATHS :: "(string list, string list) dict" where
  "TARGET_SEMANTICS_RETIRED_PATHS = [([''selfplay'', ''search'', ''kind''], [''search'', ''kind''])]"

text \<open>\<open>_leaf_at\<close>: unreadable (\<open>None\<close>) when a parent is no mapping; an absent leaf reads as Python's \<open>None\<close>.\<close>

definition leaf_at :: "'t tree \<Rightarrow> string list \<Rightarrow> 't pv option" where
  "leaf_at config path = (case foldl get_or_none (PDict config) (butlast path) of PDict d \<Rightarrow> Some (pget d (last path)) | _ \<Rightarrow> None)"

definition semantics_leaf :: "'t tree \<Rightarrow> string list \<Rightarrow> 't pv option" where
  "semantics_leaf baked path = (case (leaf_at baked path, map_of TARGET_SEMANTICS_RETIRED_PATHS path) of
     (None, Some old) \<Rightarrow> leaf_at baked old | (v, _) \<Rightarrow> v)"

definition refuse_target_semantics_drift :: "'t tree option \<Rightarrow> 't tree \<Rightarrow> unit res" where
  "refuse_target_semantics_drift baked effective = (case baked of None \<Rightarrow> Inr () | Some b \<Rightarrow>
     if b = [] then Inr ()
     else if list_ex (\<lambda>path. case (semantics_leaf b path, leaf_at effective path) of
         (Some want, Some got) \<Rightarrow> \<not> py_eq want got | _ \<Rightarrow> False) TARGET_SEMANTICS_LEAVES
     then Inl ResumeTargetSemanticsError else Inr ())"

definition stamped_identity :: "'t arch \<Rightarrow> 't tree" where
  "stamped_identity a = [(''representation'', ar_representation a), (''arch_kind'', PStr (kind_name (ar_kind a)))]"

definition identity_drift :: "'t tree option \<Rightarrow> 't tree \<Rightarrow> 't arch \<Rightarrow> string list" where
  "identity_drift baked effective a = (case (get_or_none (PDict (case baked of None \<Rightarrow> [] | Some b \<Rightarrow> b)) ''identity'', pget effective ''identity'') of
     (PDict bi, PDict ei) \<Rightarrow> filter (\<lambda>leaf. \<not> py_eq (stamp_name (dget bi leaf (pget (stamped_identity a) leaf)))
         (stamp_name (dget ei leaf (pget (stamped_identity a) leaf)))) IDENTITY_LEAVES
   | _ \<Rightarrow> [])"

definition refuse_identity_drift :: "'t tree option \<Rightarrow> 't tree \<Rightarrow> 't arch \<Rightarrow> unit res" where
  "refuse_identity_drift baked effective a = (let drift = identity_drift baked effective a in
     if drift \<noteq> [] then Inl ResumeIdentityMismatchError
     else rbind (width_drift effective a) (\<lambda>rows. if rows \<noteq> [] then Inl ResumeIdentityMismatchError else Inr ()))"

section \<open>The learning rate's provenance\<close>

text \<open>\<open>float(v)\<close>; a text is parsed elsewhere.\<close>

fun p_float :: "(string \<Rightarrow> pyfloat res) \<Rightarrow> 't pv \<Rightarrow> pyfloat res" where
  "p_float parse (PBool b) = Inr (Fin (if b then 1 else 0))"
| "p_float parse (PInt i) = rbind (float_of_int i) (\<lambda>x. Inr (Fin x))"
| "p_float parse (PFloat x) = Inr x"
| "p_float parse (PStr s) = parse s"
| "p_float parse _ = Inl TypeError"

fun pf_abs :: "pyfloat \<Rightarrow> pyfloat" where
  "pf_abs (Fin x) = Fin \<bar>x\<bar>"
| "pf_abs NaN = NaN"
| "pf_abs _ = PosInf"

text \<open>\<open>max(x, 1.0)\<close> keeps \<open>x\<close> unless \<open>1.0\<close> is greater.\<close>

definition pf_max1 :: "pyfloat \<Rightarrow> pyfloat" where
  "pf_max1 x = (if pf_less x (Fin 1) then Fin 1 else x)"

fun pf_scale :: "real \<Rightarrow> pyfloat \<Rightarrow> pyfloat" where
  "pf_scale c (Fin x) = Fin (c * x)"
| "pf_scale c x = x"

record lr_provenance =
  lp_declared :: "pyfloat option"
  lp_baked :: "pyfloat option"
  lp_effective :: "pyfloat option"
  lp_override_ignored :: bool

definition opt_float :: "(string \<Rightarrow> pyfloat res) \<Rightarrow> 't pv \<Rightarrow> pyfloat option res" where
  "opt_float parse v = (if v = PNone then Inr None else rbind (p_float parse v) (\<lambda>x. Inr (Some x)))"

definition resolve_lr_provenance :: "(string \<Rightarrow> pyfloat res) \<Rightarrow> 't pv \<Rightarrow> 't pv \<Rightarrow> 't pv \<Rightarrow> lr_provenance res" where
  "resolve_lr_provenance parse declared baked effective =
     rbind (opt_float parse declared) (\<lambda>d. rbind (opt_float parse baked) (\<lambda>b. rbind (opt_float parse effective) (\<lambda>e.
       Inr \<lparr>lp_declared = d, lp_baked = b, lp_effective = e, lp_override_ignored = (case (d, b) of
         (Some x, Some y) \<Rightarrow> pf_less (pf_scale (1 / 10 ^ 9) (pf_max1 (pf_abs y))) (pf_abs (pf_add x (pf_neg y))) | _ \<Rightarrow> False)\<rparr>)))"

section \<open>Resuming a trainer\<close>

datatype 't resume_event =
    Deferred_To_Baked "'t deferral"
  | Lr_Override_Ignored lr_provenance
  | Owned_Launch_Value_Ignored string "'t pv" "'t pv"
  | Scheduler_Missing_Fresh_Start
  | Ema_Shadow_Reseeded string int

text \<open>A part that may be absent (\<open>None\<close>) holds its state.\<close>

record ('t, 'm) trainer =
  tr_model :: 'm
  tr_config :: "'t tree"
  tr_arch :: "'t arch"
  tr_hp_lr :: "'t pv"
  tr_f1_deferred_keys :: "string list"
  tr_lineage :: "string list"
  tr_loaded_from_full :: bool
  tr_optimizer :: "'t pv"
  tr_scaler :: "'t pv"
  tr_scheduler :: "'t pv option"
  tr_ema_model :: "'t tree option"
  tr_step :: int

record ('t, 'm) resumer =
  ru_env :: "'t env"
  ru_load_weights :: "'t arch \<Rightarrow> 't tree \<Rightarrow> bool \<Rightarrow> 'm res"
  ru_new_trainer :: "'m \<Rightarrow> 't tree \<Rightarrow> 't arch \<Rightarrow> ('t, 'm) trainer res"
  ru_accepts :: "string \<Rightarrow> 't pv \<Rightarrow> unit res"
  ru_parse_float :: "string \<Rightarrow> pyfloat res"

type_synonym ('t, 'a) emitting = "('t resume_event list, 'a) act"

definition emit_event :: "'t resume_event \<Rightarrow> ('t, unit) emitting" where
  "emit_event e = modify (\<lambda>es. es @ [e])"

record 't resume_args =
  ra_declared_encoding :: "'t pv"
  ra_fallback_config :: "'t tree"
  ra_config_overrides :: "'t tree"
  ra_declared_keys :: "string list option"

definition read_either :: "'t env \<Rightarrow> files \<Rightarrow> string \<Rightarrow> 't pv \<Rightarrow> 't checkpoint res" where
  "read_either E fs path declared = rbind (torch_load E fs path) (\<lambda>raw.
     if is_v2 raw \<noteq> None
     then load_checkpoint E fs path \<lparr>rd_declared_encoding = declared, rd_declared_future_head = None, rd_expected_run_id = None, rd_decode_override = PNone\<rparr>
     else load_legacy_weights E fs path declared PNone)"

definition baked_of :: "'t checkpoint \<Rightarrow> 't tree option" where
  "baked_of ck = (if ck_config ck = [] then None else Some (ck_config ck))"

definition resolve_config :: "'t resume_args \<Rightarrow> 't tree option \<Rightarrow> 't tree \<times> 't deferral list" where
  "resolve_config ra baked = (if ra_config_overrides ra \<noteq> [] then apply_config_overrides_f1 baked (ra_config_overrides ra) (ra_declared_keys ra)
     else (case baked of Some b \<Rightarrow> b | None \<Rightarrow> ra_fallback_config ra, []))"

definition carried_config :: "'t tree \<Rightarrow> 't tree" where
  "carried_config resolved = fst (split_retired (filter (\<lambda>(k, v). k \<notin> set RESUME_DIRECTIVE_KEYS) resolved))"

definition declared_lr :: "'t resume_args \<Rightarrow> 't pv" where
  "declared_lr ra = (case ra_declared_keys ra of None \<Rightarrow> PNone
     | Some ks \<Rightarrow> if ''lr'' \<in> set ks then pget (ra_config_overrides ra) ''lr'' else PNone)"

definition report_lr :: "('t, 'm) resumer \<Rightarrow> 't resume_args \<Rightarrow> 't tree option \<Rightarrow> 't pv \<Rightarrow> ('t, unit) emitting" where
  "report_lr u ra baked hp_lr = abind (lift (resolve_lr_provenance (ru_parse_float u) (declared_lr ra)
       (get_or_none (case baked of None \<Rightarrow> PNone | Some b \<Rightarrow> pget b ''train'') ''lr'') hp_lr)) (\<lambda>p.
     if lp_override_ignored p then emit_event (Lr_Override_Ignored p) else ret ())"

fun report_owned :: "'t tree option \<Rightarrow> 't tree \<Rightarrow> ('t, unit) emitting" where
  "report_owned baked [] = ret ()"
| "report_owned baked ((path, launch) # vals) = (let b = leaf_or_none baked path in
     abind (if b \<noteq> PNone \<and> \<not> py_eq launch b then emit_event (Owned_Launch_Value_Ignored path launch b) else ret ())
       (\<lambda>_. report_owned baked vals))"

definition owned_values :: "'t resume_args \<Rightarrow> 't tree res" where
  "owned_values ra = (case pget (ra_config_overrides ra) ''resume_owned_launch_values'' of
     PDict d \<Rightarrow> Inr d | v \<Rightarrow> if p_truthy v then Inl AttributeError else Inr [])"

definition restore_full :: "('t, 'm) resumer \<Rightarrow> 't resume_args \<Rightarrow> 't checkpoint \<Rightarrow> ('t, 'm) trainer \<Rightarrow> ('t, ('t, 'm) trainer) emitting" where
  "restore_full u ra ck t =
     abind (if ck_optimizer_state ck = PNone then ret t
            else abind (lift (ru_accepts u ''optimizer'' (ck_optimizer_state ck))) (\<lambda>_. ret (t\<lparr>tr_optimizer := ck_optimizer_state ck\<rparr>))) (\<lambda>t.
     abind (if ck_scaler_state ck = PNone then ret t
            else abind (lift (ru_accepts u ''scaler'' (ck_scaler_state ck))) (\<lambda>_. ret (t\<lparr>tr_scaler := ck_scaler_state ck\<rparr>))) (\<lambda>t.
     case tr_scheduler t of None \<Rightarrow> ret t
     | Some _ \<Rightarrow>
         if ck_scheduler_state ck = PNone
         then (if p_truthy (dget (ra_config_overrides ra) ''allow_fresh_scheduler'' (PBool False))
               then abind (emit_event Scheduler_Missing_Fresh_Start) (\<lambda>_. ret t) else lift (Inl ValueError))
         else abind (lift (ru_accepts u ''scheduler'' (ck_scheduler_state ck))) (\<lambda>_. ret (t\<lparr>tr_scheduler := Some (ck_scheduler_state ck)\<rparr>))))"

definition restore_ema_shadow :: "('t, 'm) resumer \<Rightarrow> 't checkpoint \<Rightarrow> string \<Rightarrow> ('t, 'm) trainer \<Rightarrow> ('t, ('t, 'm) trainer) emitting" where
  "restore_ema_shadow u ck path t = (case (tr_ema_model t, ck_ema_state ck) of
     (None, _) \<Rightarrow> ret t
   | (Some _, Some e) \<Rightarrow> abind (lift (ru_accepts u ''ema_model'' (PDict e))) (\<lambda>_. ret (t\<lparr>tr_ema_model := Some e\<rparr>))
   | (Some _, None) \<Rightarrow> abind (emit_event (Ema_Shadow_Reseeded path (cm_step (ck_metadata ck)))) (\<lambda>_. ret t))"

definition build_trainer :: "('t, 'm) resumer \<Rightarrow> 't resume_args \<Rightarrow> 't checkpoint \<Rightarrow> 't arch \<Rightarrow> ('t, ('t, 'm) trainer) emitting" where
  "build_trainer u ra ck arch = abind (lift (ru_load_weights u arch (ck_model_state ck) (ck_kind ck = ''full''))) (\<lambda>model.
     case resolve_config ra (baked_of ck) of (resolved, deferred) \<Rightarrow>
       abind (modify (\<lambda>es. es @ map Deferred_To_Baked deferred)) (\<lambda>_. let config = carried_config resolved in
       abind (lift (refuse_identity_drift (baked_of ck) config arch)) (\<lambda>_.
       abind (lift (refuse_target_semantics_drift (baked_of ck) config)) (\<lambda>_.
       abind (lift (ru_new_trainer u model config arch)) (\<lambda>t.
         ret (t\<lparr>tr_f1_deferred_keys := map df_knob deferred, tr_lineage := cm_lineage (ck_metadata ck)\<rparr>))))))"

definition resume_trainer :: "('t, 'm) resumer \<Rightarrow> files \<Rightarrow> string \<Rightarrow> 't resume_args \<Rightarrow> ('t, ('t, 'm) trainer) emitting" where
  "resume_trainer u fs path ra = abind (lift (read_either (ru_env u) fs path (ra_declared_encoding ra))) (\<lambda>ck.
     case cm_arch (ck_metadata ck) of None \<Rightarrow> lift (Inl CheckpointStampError)
     | Some arch \<Rightarrow> abind (build_trainer u ra ck arch) (\<lambda>t.
         abind (report_lr u ra (baked_of ck) (tr_hp_lr t)) (\<lambda>_.
         abind (lift (owned_values ra)) (\<lambda>owned. abind (report_owned (baked_of ck) owned) (\<lambda>_.
         let full = ck_kind ck = ''full''; t = t\<lparr>tr_loaded_from_full := full\<rparr> in
         abind (if full then restore_full u ra ck t else ret t) (\<lambda>t.
           restore_ema_shadow u ck path (t\<lparr>tr_step := cm_step (ck_metadata ck)\<rparr>)))))))"

section \<open>What a resume keeps\<close>

text \<open>The trainer is built on the configuration, the architecture and the model it is given.\<close>

definition trainer_keeps :: "('t, 'm) resumer \<Rightarrow> bool" where
  "trainer_keeps u \<longleftrightarrow> (\<forall>m c a t. ru_new_trainer u m c a = Inr t \<longrightarrow> tr_config t = c \<and> tr_arch t = a \<and> tr_model t = m)"

definition same_setup :: "('t, 'm) trainer \<Rightarrow> ('t, 'm) trainer \<Rightarrow> bool" where
  "same_setup t t' \<longleftrightarrow> tr_config t' = tr_config t \<and> tr_arch t' = tr_arch t \<and> tr_model t' = tr_model t \<and> tr_lineage t' = tr_lineage t \<and>
     tr_loaded_from_full t' = tr_loaded_from_full t \<and> tr_step t' = tr_step t"

lemma restore_full_setup: "restore_full u ra ck t es = (Inr t', es') \<Longrightarrow> same_setup t t'"
  by (auto simp: restore_full_def same_setup_def abind_Inr_iff ret_def lift_def emit_event_def modify_def split: if_splits option.splits)

lemma restore_ema_setup: "restore_ema_shadow u ck path t es = (Inr t', es') \<Longrightarrow> same_setup t t'"
  by (auto simp: restore_ema_shadow_def same_setup_def abind_Inr_iff ret_def lift_def emit_event_def modify_def split: if_splits option.splits)

lemma resume_built:
  assumes "resume_trainer u fs path ra es = (Inr t, es')"
  obtains ck arch t0 es1 es2 where "read_either (ru_env u) fs path (ra_declared_encoding ra) = Inr ck" "cm_arch (ck_metadata ck) = Some arch"
    "build_trainer u ra ck arch es1 = (Inr t0, es2)" "tr_config t = tr_config t0" "tr_arch t = tr_arch t0" "tr_model t = tr_model t0"
    "tr_lineage t = tr_lineage t0" "tr_loaded_from_full t \<longleftrightarrow> ck_kind ck = ''full''" "tr_step t = cm_step (ck_metadata ck)"
proof -
  obtain ck where ck: "read_either (ru_env u) fs path (ra_declared_encoding ra) = Inr ck"
    using assms by (auto simp: resume_trainer_def abind_Inr_iff lift_def)
  obtain arch where arch: "cm_arch (ck_metadata ck) = Some arch"
    using assms ck by (cases "cm_arch (ck_metadata ck)") (auto simp: resume_trainer_def abind_Inr_iff lift_def)
  obtain t0 es2 t1 es3 t2 es4 where b: "build_trainer u ra ck arch es = (Inr t0, es2)"
    and f: "(if ck_kind ck = ''full'' then restore_full u ra ck (t0\<lparr>tr_loaded_from_full := ck_kind ck = ''full''\<rparr>)
        else ret (t0\<lparr>tr_loaded_from_full := ck_kind ck = ''full''\<rparr>)) es3 = (Inr t2, es4)"
    and e: "restore_ema_shadow u ck path (t2\<lparr>tr_step := cm_step (ck_metadata ck)\<rparr>) es4 = (Inr t, es')"
    using assms ck arch by (auto simp: resume_trainer_def abind_Inr_iff lift_def Let_def)
  have "same_setup (t0\<lparr>tr_loaded_from_full := ck_kind ck = ''full''\<rparr>) t2"
  proof (cases "ck_kind ck = ''full''")
    case True
    then show ?thesis using f restore_full_setup [of u ra ck _ es3 t2 es4] by simp
  next
    case False
    then show ?thesis using f by (simp add: ret_def same_setup_def)
  qed
  then show thesis using restore_ema_setup [OF e] by (intro that [OF ck arch b]) (auto simp: same_setup_def)
qed

lemma directives_apart: "list_all (\<lambda>k. list_all (\<lambda>p. apart (dotted p) [k]) RULED_PATHS) RESUME_DIRECTIVE_KEYS"
  by code_simp

lemma carried_no_directive: "k \<in> set RESUME_DIRECTIVE_KEYS \<Longrightarrow> map_of (carried_config c) k = None"
proof -
  assume k: "k \<in> set RESUME_DIRECTIVE_KEYS"
  let ?f = "filter (\<lambda>(k, v). k \<notin> set RESUME_DIRECTIVE_KEYS) c"
  have "here [k] (PDict (carried_config c)) = here [k] (PDict ?f)"
    unfolding carried_config_def using directives_apart k by (intro split_retired_keeps_rest) (simp add: list_all_iff)
  then have "map_of (carried_config c) k = map_of ?f k"
    by (cases "map_of (carried_config c) k"; cases "map_of ?f k") (simp_all del: map_of_None_dkeys)
  moreover have "map_of ?f k = None" using k by (auto simp: dkeys_def)
  ultimately show ?thesis by simp
qed

lemma carried_no_retired: "p \<in> set RETIRED_PATHS \<Longrightarrow> found_at p (carried_config c) = None"
  using settled_split [of "filter (\<lambda>(k, v). k \<notin> set RESUME_DIRECTIVE_KEYS) c"] unfolding carried_config_def
  by (cases "found_at p (fst (split_retired (filter (\<lambda>(k, v). k \<notin> set RESUME_DIRECTIVE_KEYS) c)))") (auto simp: settled_def bars_def)

lemma build_trainer_checks:
  assumes "build_trainer u ra ck arch es = (Inr t, es')" "trainer_keeps u"
  obtains resolved where "tr_config t = carried_config resolved" "tr_arch t = arch" "tr_lineage t = cm_lineage (ck_metadata ck)"
    "ru_load_weights u arch (ck_model_state ck) (ck_kind ck = ''full'') = Inr (tr_model t)"
    "refuse_identity_drift (baked_of ck) (tr_config t) arch = Inr ()" "refuse_target_semantics_drift (baked_of ck) (tr_config t) = Inr ()"
proof -
  obtain resolved deferred where r: "resolve_config ra (baked_of ck) = (resolved, deferred)" by (cases "resolve_config ra (baked_of ck)")
  show thesis using assms r that [of resolved]
    by (auto simp: build_trainer_def abind_Inr_iff lift_def modify_def ret_def Let_def trainer_keeps_def)
qed

text \<open>The identity and target-semantics leaves, where both configurations carry them, and the trunk's widths.\<close>

definition resumes_as :: "'t tree \<Rightarrow> 't tree \<Rightarrow> 't arch \<Rightarrow> bool" where
  "resumes_as baked config a \<longleftrightarrow>
     (\<forall>leaf \<in> set IDENTITY_LEAVES. \<forall>v w. here [''identity'', leaf] (PDict baked) = Some v \<and> here [''identity'', leaf] (PDict config) = Some w \<longrightarrow>
        py_eq (stamp_name v) (stamp_name w)) \<and>
     (\<forall>path \<in> set TARGET_SEMANTICS_LEAVES. \<forall>v w. here path (PDict baked) = Some v \<and> here path (PDict config) = Some w \<longrightarrow> py_eq v w) \<and>
     (\<forall>ws. declared_gnn_widths config = Inr ws \<longrightarrow> (\<forall>(f, i) \<in> set ws. p_int (width_of a f) = Inr i))"

lemma rmap_rows: "rmap g xs = Inr ys \<Longrightarrow> x \<in> set xs \<Longrightarrow> \<exists>y \<in> set ys. g x = Inr y"
  by (induction xs arbitrary: ys) (auto simp: rbind_Inr_iff)

lemma width_drift_none:
  assumes "width_drift config a = Inr []" "declared_gnn_widths config = Inr ws" "(f, i) \<in> set ws"
  shows "p_int (width_of a f) = Inr i"
proof -
  obtain rows where r: "rmap (\<lambda>(f, v). rbind (p_int (width_of a f)) (\<lambda>i. Inr (f, v \<noteq> i))) ws = Inr rows" "filter snd rows = []"
    using assms(1,2) by (auto simp: width_drift_def rbind_Inr_iff)
  obtain y where "y \<in> set rows" "rbind (p_int (width_of a f)) (\<lambda>j. Inr (f, i \<noteq> j)) = Inr y" using rmap_rows [OF r(1) assms(3)] by auto
  then show ?thesis using r(2) by (auto simp: rbind_Inr_iff filter_empty_conv)
qed

lemma identity_agrees:
  assumes "identity_drift (Some b) config a = []" "leaf \<in> set IDENTITY_LEAVES"
    "here [''identity'', leaf] (PDict b) = Some v" "here [''identity'', leaf] (PDict config) = Some w"
  shows "py_eq (stamp_name v) (stamp_name w)"
proof -
  obtain bi ei where lk: "map_of b ''identity'' = Some (PDict bi)" "map_of bi leaf = Some v"
    "map_of config ''identity'' = Some (PDict ei)" "map_of ei leaf = Some w"
    using assms(3,4) by (auto split: option.splits elim!: here.elims)
  have "pget b ''identity'' = PDict bi" "pget config ''identity'' = PDict ei" by (simp_all add: dget_def lk)
  then have "\<forall>x \<in> set IDENTITY_LEAVES. py_eq (stamp_name (dget bi x (pget (stamped_identity a) x)))
      (stamp_name (dget ei x (pget (stamped_identity a) x)))"
    using assms(1) by (simp add: identity_drift_def filter_empty_conv)
  from bspec [OF this assms(2)] show ?thesis by (simp add: dget_def lk)
qed

lemma leaf_at_here: "path \<noteq> [] \<Longrightarrow> here path (PDict c) = Some v \<Longrightarrow> leaf_at c path = Some v"
proof -
  assume p: "path \<noteq> []" "here path (PDict c) = Some v"
  then have "(case foldl get_or_none (PDict c) (butlast path) of PDict d \<Rightarrow> map_of d (last path) | _ \<Rightarrow> None) = Some v"
    using foldl_get_here [where v = "PDict c" and ks = "butlast path" and k = "last path"] by simp
  then show ?thesis by (auto simp: leaf_at_def dget_def split: pv.splits)
qed

lemma semantics_agrees:
  assumes "refuse_target_semantics_drift (Some b) config = Inr ()" "path \<in> set TARGET_SEMANTICS_LEAVES"
    "here path (PDict b) = Some v" "here path (PDict config) = Some w"
  shows "py_eq v w"
proof -
  have p: "path \<noteq> []" using assms(2) by (auto simp: TARGET_SEMANTICS_LEAVES_def)
  have "b \<noteq> []" using assms(3) p by (cases path) auto
  moreover have "semantics_leaf b path = Some v" "leaf_at config path = Some w"
    using leaf_at_here [OF p assms(3)] leaf_at_here [OF p assms(4)] by (simp_all add: semantics_leaf_def)
  ultimately show ?thesis using assms(1,2) by (auto simp: refuse_target_semantics_drift_def list_ex_iff split: if_splits)
qed


section \<open>Resuming one's own save\<close>

text \<open>\<open>v == v\<close>, which a NaN anywhere in it spoils, is inherited by what a mapping holds.\<close>

lemma py_eq_refl_get: "py_eq v v \<Longrightarrow> py_eq (get_or_none v k) (get_or_none v k)"
proof (cases v)
  case (PDict d)
  assume "py_eq v v"
  then have "\<forall>(k, x) \<in> set d. case map_of d k of None \<Rightarrow> False | Some y \<Rightarrow> py_eq x y"
    by (simp add: PDict list_all_iff py_eq.simps [of "PDict d"])
  then have "py_eq x x" if "map_of d k = Some x" for x using map_of_SomeD [OF that] that by fastforce
  then show ?thesis by (cases "map_of d k") (simp_all add: PDict dget_def del: map_of_None_dkeys)
qed simp_all

lemma py_eq_refl_stamp: "py_eq v v \<Longrightarrow> py_eq (stamp_name v) (stamp_name v)"
  using py_eq_refl_get [of v "''version''"] py_eq_refl_get [of v "''name''"] by (cases v) (simp_all add: stamp_name_def)

lemma py_eq_refl_path: "py_eq v v \<Longrightarrow> py_eq (foldl get_or_none v ks) (foldl get_or_none v ks)"
  by (induction ks arbitrary: v) (simp_all add: py_eq_refl_get)

lemma py_eq_refl_dget: "py_eq (PDict d) (PDict d) \<Longrightarrow> py_eq x x \<Longrightarrow> py_eq (dget d k x) (dget d k x)"
  using py_eq_refl_get [of "PDict d" k] by (cases "map_of d k") (simp_all add: dget_def del: map_of_None_dkeys)

definition self_equal :: "'t tree \<Rightarrow> 't arch \<Rightarrow> bool" where
  "self_equal config a \<longleftrightarrow> py_eq (PDict config) (PDict config) \<and> py_eq (ar_representation a) (ar_representation a)"

lemma no_drift_with_itself:
  assumes "self_equal config a" "refuse_shape_lie config (Some a) = Inr ()"
  shows "refuse_identity_drift (Some config) config a = Inr ()" "refuse_target_semantics_drift (Some config) config = Inr ()"
proof -
  have ident: "py_eq (pget config ''identity'') (pget config ''identity'')"
    using assms(1) py_eq_refl_get [of "PDict config" "''identity''"] by (simp add: self_equal_def)
  have stamped: "py_eq (pget (stamped_identity a) leaf) (pget (stamped_identity a) leaf)" for leaf
    using assms(1) by (simp add: stamped_identity_def self_equal_def dget_def)
  have "identity_drift (Some config) config a = []"
  proof (cases "pget config ''identity''")
    case (PDict bi)
    then show ?thesis using ident stamped by (simp add: identity_drift_def filter_empty_conv py_eq_refl_stamp py_eq_refl_dget)
  qed (simp_all add: identity_drift_def)
  moreover have "width_drift config a = Inr []"
    using assms(2) by (auto simp: refuse_shape_lie_def rbind_Inr_iff split: if_splits)
  ultimately show "refuse_identity_drift (Some config) config a = Inr ()" by (simp add: refuse_identity_drift_def)
  have leaf: "py_eq v v" if "leaf_at config path = Some v" "path \<noteq> []" for path v
  proof -
    have "py_eq (foldl get_or_none (PDict config) path) (foldl get_or_none (PDict config) path)"
      using assms(1) by (intro py_eq_refl_path) (simp add: self_equal_def)
    moreover have "foldl get_or_none (PDict config) path = get_or_none (foldl get_or_none (PDict config) (butlast path)) (last path)"
      using that(2) by (metis append_butlast_last_id foldl_Cons foldl_Nil foldl_append)
    ultimately show ?thesis using that(1) by (auto simp: leaf_at_def split: pv.splits)
  qed
  have "semantics_leaf config path = Some want \<Longrightarrow> leaf_at config path = Some got \<Longrightarrow> path \<in> set TARGET_SEMANTICS_LEAVES \<Longrightarrow> py_eq want got" for path want got
    using leaf [of path got] by (auto simp: semantics_leaf_def TARGET_SEMANTICS_LEAVES_def)
  then show "refuse_target_semantics_drift (Some config) config = Inr ()"
    by (auto simp: refuse_target_semantics_drift_def list_ex_iff split: option.splits)
qed

text \<open>A machine that can rebuild the trainer: the weights load, the parts accept their own states, and the rates are numbers.\<close>

definition rebuilds :: "('t, 'm) resumer \<Rightarrow> 't arch \<Rightarrow> 't tree \<Rightarrow> 't tree \<Rightarrow> ('t, 'm) trainer \<Rightarrow> bool" where
  "rebuilds u a state config t0 \<longleftrightarrow> (\<exists>m. ru_load_weights u a state True = Inr m \<and> ru_new_trainer u m config a = Inr t0) \<and>
     (\<forall>part v. ru_accepts u part v = Inr ()) \<and>
     (\<exists>p. resolve_lr_provenance (ru_parse_float u) PNone (get_or_none (pget config ''train'') ''lr'') (tr_hp_lr t0) = Inr p)"

definition restored :: "('t, 'm) trainer \<Rightarrow> 't save_request \<Rightarrow> 't tree option \<Rightarrow> int \<Rightarrow> string list \<Rightarrow> ('t, 'm) trainer" where
  "restored t0 q ema step tags = t0\<lparr>tr_f1_deferred_keys := [], tr_lineage := tags, tr_loaded_from_full := True,
     tr_optimizer := (if state_or_none (sq_optimizer q) = PNone then tr_optimizer t0 else state_or_none (sq_optimizer q)),
     tr_scaler := (if state_or_none (sq_scaler q) = PNone then tr_scaler t0 else state_or_none (sq_scaler q)),
     tr_scheduler := (case tr_scheduler t0 of None \<Rightarrow> None | Some _ \<Rightarrow> Some (state_or_none (sq_scheduler q))),
     tr_ema_model := (case tr_ema_model t0 of None \<Rightarrow> None | Some _ \<Rightarrow> ema), tr_step := step\<rparr>"

lemma resume_loaded:
  assumes ck: "read_either (ru_env u) fs path PNone = Inr ck" "ck_kind ck = ''full''" "cm_arch (ck_metadata ck) = Some a"
    "ck_config ck = config" "ck_model_state ck = state" "ck_optimizer_state ck = state_or_none (sq_optimizer q)"
    "ck_scaler_state ck = state_or_none (sq_scaler q)" "ck_scheduler_state ck = state_or_none (sq_scheduler q)" "ck_ema_state ck = ema"
    and "config \<noteq> []" "carried_config config = config" "self_equal config a" "refuse_shape_lie config (Some a) = Inr ()"
    and "rebuilds u a state config t0" "tr_scheduler t0 = None \<or> state_or_none (sq_scheduler q) \<noteq> PNone"
    and "tr_ema_model t0 = None \<or> ema \<noteq> None"
  shows "resume_trainer u fs path \<lparr>ra_declared_encoding = PNone, ra_fallback_config = [], ra_config_overrides = [], ra_declared_keys = None\<rparr> es =
    (Inr (restored t0 q ema (cm_step (ck_metadata ck)) (cm_lineage (ck_metadata ck))), es)"
proof -
  let ?ra = "\<lparr>ra_declared_encoding = PNone, ra_fallback_config = [], ra_config_overrides = [], ra_declared_keys = None\<rparr>"
  let ?t1 = "t0\<lparr>tr_f1_deferred_keys := [], tr_lineage := cm_lineage (ck_metadata ck)\<rparr>"
  obtain m where m: "ru_load_weights u a state True = Inr m" "ru_new_trainer u m config a = Inr t0"
    and acc: "\<And>part v. ru_accepts u part v = Inr ()"
    using assms(14) by (auto simp: rebuilds_def)
  obtain p where lr: "resolve_lr_provenance (ru_parse_float u) PNone (get_or_none (pget config ''train'') ''lr'') (tr_hp_lr t0) = Inr p"
    using assms(14) by (auto simp: rebuilds_def)
  have quiet: "\<not> lp_override_ignored p" using lr by (auto simp: resolve_lr_provenance_def opt_float_def rbind_Inr_iff)
  have baked: "baked_of ck = Some config" using ck assms(10) by (simp add: baked_of_def)
  have built: "build_trainer u ?ra ck a es = (Inr ?t1, es)"
    using m ck no_drift_with_itself [OF assms(12,13)]
    by (simp add: build_trainer_def baked abind_def lift_def modify_def ret_def resolve_config_def assms(11) Let_def)
  have reported: "report_lr u ?ra (Some config) (tr_hp_lr t0) es = (Inr (), es)"
    by (simp add: report_lr_def declared_lr_def lr abind_def lift_def ret_def quiet)
  have full: "restore_full u ?ra ck (?t1\<lparr>tr_loaded_from_full := True\<rparr>) es = (Inr (?t1\<lparr>tr_loaded_from_full := True,
      tr_optimizer := (if state_or_none (sq_optimizer q) = PNone then tr_optimizer t0 else state_or_none (sq_optimizer q)),
      tr_scaler := (if state_or_none (sq_scaler q) = PNone then tr_scaler t0 else state_or_none (sq_scaler q)),
      tr_scheduler := (case tr_scheduler t0 of None \<Rightarrow> None | Some _ \<Rightarrow> Some (state_or_none (sq_scheduler q)))\<rparr>), es)"
    using assms(15) ck acc by (auto simp: restore_full_def abind_def lift_def ret_def split: option.split)
  show ?thesis using ck assms(16) acc full reported
    by (auto simp: resume_trainer_def abind_def lift_def ret_def built baked owned_values_def Let_def restore_ema_shadow_def restored_def
        split: option.splits)
qed


definition demo_trainer :: "unit tree \<Rightarrow> unit arch \<Rightarrow> (unit, unit) trainer" where
  "demo_trainer c a = \<lparr>tr_model = (), tr_config = c, tr_arch = a, tr_hp_lr = PFloat (Fin 1), tr_f1_deferred_keys = [], tr_lineage = [],
     tr_loaded_from_full = False, tr_optimizer = PNone, tr_scaler = PNone, tr_scheduler = None, tr_ema_model = None, tr_step = 0\<rparr>"

definition demo_resumer :: "(unit, unit) resumer" where
  "demo_resumer = \<lparr>ru_env = demo_env, ru_load_weights = (\<lambda>_ _ _. Inr ()), ru_new_trainer = (\<lambda>m c a. Inr (demo_trainer c a)),
     ru_accepts = (\<lambda>_ _. Inr ()), ru_parse_float = (\<lambda>_. Inl ValueError)\<rparr>"

definition plain_resume :: "'t resume_args" where
  "plain_resume = \<lparr>ra_declared_encoding = PNone, ra_fallback_config = [], ra_config_overrides = [], ra_declared_keys = None\<rparr>"


lemma demo_resumes:
  "case fst (resume_trainer demo_resumer [(''run_7_00001234_0123abcd.ckpt'', Blob [])] ''run_7_00001234_0123abcd.ckpt'' plain_resume []) of
     Inr t \<Rightarrow> tr_arch t = demo_arch | Inl _ \<Rightarrow> False"
  by code_simp


end
