(* ===== verification/Arming.thy ===== *)
theory Arming
  imports Guards Watchdog
begin

text \<open>
  \<open>src/mantis/config/armed_aborts.py\<close>: the manifest of the aborts a production configuration must arm, the
  audit that every required row is armed, the audit that every armed row can still fire inside the run, and
  the exit code of a fired rule.

  A validated configuration is a JSON-like value whose sections are mappings (attribute access reads a key)
  and whose enumeration members are their strings. A probe is an operation on a world of any type. The
  \<open>note\<close> of a row and the \<open>detail\<close> of a verdict are texts for the reader and are left out.
\<close>

section \<open>Numbers a configuration may hold\<close>

fun py_float_of :: "json \<Rightarrow> pyfloat res" where
  "py_float_of (JInt i) = rbind (float_of_int i) (\<lambda>x. Inr (Fin x))"
| "py_float_of (JFloat x) = Inr x"
| "py_float_of _ = Inl TypeError"

fun is_real_number :: "json \<Rightarrow> bool res" where
  "is_real_number (JInt i) = rbind (float_of_int i) (\<lambda>_. Inr True)"
| "is_real_number (JFloat x) = Inr (isfinite x)"
| "is_real_number _ = Inr False"

text \<open>\<open>all(_is_real_number(v) for v in values)\<close> stops at the first value that is none.\<close>

fun all_real :: "json list \<Rightarrow> bool res" where
  "all_real [] = Inr True"
| "all_real (v # vs) = rbind (is_real_number v) (\<lambda>b. if b then all_real vs else Inr False)"

section \<open>The vocabulary of a row\<close>

datatype status = REQUIRED | DEFERRED

datatype mechanism =
    CONFIG_BOOL | CONFIG_THRESHOLD_GT_ZERO | CONFIG_ENUM_VALUED | CONFIG_THRESHOLD_GT_ZERO_WITH_LIVE_PRODUCER

definition gt_zero :: "json \<Rightarrow> bool res" where
  "gt_zero v = rbind (py_float_of v) (\<lambda>x. Inr (pf_less (Fin 0) x))"

definition is_armed :: "mechanism \<Rightarrow> json \<Rightarrow> bool option \<Rightarrow> bool res" where
  "is_armed m v producer_live = (case m of
     CONFIG_BOOL \<Rightarrow> Inr (v = JBool True)
   | CONFIG_ENUM_VALUED \<Rightarrow> Inr (case v of JStr s \<Rightarrow> s \<noteq> [] | _ \<Rightarrow> False)
   | CONFIG_THRESHOLD_GT_ZERO \<Rightarrow> (case v of JInt _ \<Rightarrow> gt_zero v | JFloat _ \<Rightarrow> gt_zero v | _ \<Rightarrow> Inr False)
   | CONFIG_THRESHOLD_GT_ZERO_WITH_LIVE_PRODUCER \<Rightarrow>
       if (case v of JInt _ \<Rightarrow> False | JFloat _ \<Rightarrow> False | _ \<Rightarrow> True) then Inr False
       else rbind (gt_zero v) (\<lambda>b. Inr (b \<and> producer_live \<noteq> Some False)))"

definition EARLIEST_FIRE_FRACTION :: real where "EARLIEST_FIRE_FRACTION = 1 / 4"
definition RUN_LENGTH_PATH :: string where "RUN_LENGTH_PATH = ''train.max_train_steps''"

datatype sample_clock = TRAIN_STEP | GATE_BOUNDARY | NO_STEP_CLOCK

definition period_path :: "sample_clock \<Rightarrow> string option" where
  "period_path c = (if c = GATE_BOUNDARY then Some ''monitor.gate_interval'' else None)"

definition is_step_clocked :: "sample_clock \<Rightarrow> bool" where
  "is_step_clocked c \<longleftrightarrow> c \<noteq> NO_STEP_CLOCK"

text \<open>\<open>_dotted\<close>: a section that is explicitly \<open>None\<close> ends the walk with \<open>None\<close>.\<close>

fun split_dots :: "string \<Rightarrow> string list" where
  "split_dots [] = [[]]"
| "split_dots (c # s) = (case split_dots s of [] \<Rightarrow> [] | w # ws \<Rightarrow> if c = CHR ''.'' then [] # w # ws else (c # w) # ws)"

fun walk_path :: "json \<Rightarrow> string list \<Rightarrow> json res" where
  "walk_path v [] = Inr v"
| "walk_path JNull (p # ps) = Inr JNull"
| "walk_path (JObj d) (p # ps) = (case map_of d p of None \<Rightarrow> Inl ArmingSurfaceMissingError | Some v \<Rightarrow> walk_path v ps)"
| "walk_path v (p # ps) = Inl ArmingSurfaceMissingError"

definition dotted_value :: "json \<Rightarrow> string \<Rightarrow> json res" where
  "dotted_value cfg path = walk_path cfg (split_dots path)"

definition period_steps :: "sample_clock \<Rightarrow> json \<Rightarrow> pyfloat res" where
  "period_steps c cfg = (if c = TRAIN_STEP then Inr (Fin 1)
     else case period_path c of None \<Rightarrow> Inl SampleClockNotDerivableError
       | Some path \<Rightarrow> rbind (dotted_value cfg path) (\<lambda>v. rbind (is_real_number v) (\<lambda>ok.
           if ok then py_float_of v else Inl SampleClockNotDerivableError)))"

datatype cadence =
    GATE_INTERVAL_CONSEC | TRAIN_STEP_FLOOR | STEP_LAG_THRESHOLD | WALL_CLOCK_POLL | CLOSE_OUT_TERMINAL | CONSTRUCTION_TIME

fun cadence_clock :: "cadence \<Rightarrow> sample_clock" where
  "cadence_clock GATE_INTERVAL_CONSEC = GATE_BOUNDARY"
| "cadence_clock TRAIN_STEP_FLOOR = TRAIN_STEP"
| "cadence_clock STEP_LAG_THRESHOLD = TRAIN_STEP"
| "cadence_clock _ = NO_STEP_CLOCK"

fun arity :: "cadence \<Rightarrow> nat" where
  "arity GATE_INTERVAL_CONSEC = 2"
| "arity TRAIN_STEP_FLOOR = 1"
| "arity STEP_LAG_THRESHOLD = 1"
| "arity _ = 0"

definition step_floor :: "cadence \<Rightarrow> pyfloat option res" where
  "step_floor c = (if is_step_clocked (cadence_clock c) then Inl SampleClockNotDerivableError
     else Inr (if c = CLOSE_OUT_TERMINAL then None else Some (Fin 0)))"

text \<open>\<open>float(values[0])\<close> and the unpacking of the two operands: an operand missing or in excess raises.\<close>

definition operand :: "json list \<Rightarrow> pyfloat res" where
  "operand vs = (case vs of [] \<Rightarrow> Inl IndexError | v # _ \<Rightarrow> py_float_of v)"

definition two_operands :: "json list \<Rightarrow> (pyfloat \<times> pyfloat) res" where
  "two_operands vs = rbind (rmap py_float_of vs) (\<lambda>xs. case xs of [a, b] \<Rightarrow> Inr (a, b) | _ \<Rightarrow> Inl ValueError)"

text \<open>\<open>math.ceil(min_step / period)\<close> of two finite floats, the period at least 1.\<close>

fun ceil_over :: "pyfloat \<Rightarrow> pyfloat \<Rightarrow> pyfloat" where
  "ceil_over (Fin a) (Fin b) = Fin (of_int \<lceil>a / b\<rceil>)"
| "ceil_over a b = a"

definition pf_max :: "pyfloat \<Rightarrow> pyfloat \<Rightarrow> pyfloat" where
  "pf_max x y = (if pf_less x y then y else x)"

definition earliest_fire_samples :: "cadence \<Rightarrow> json list \<Rightarrow> pyfloat \<Rightarrow> pyfloat res" where
  "earliest_fire_samples c vs period =
     (if \<not> is_step_clocked (cadence_clock c) then Inl SampleClockNotDerivableError
      else if \<not> isfinite period then Inl SampleClockNotDerivableError
      else rbind (all_real vs) (\<lambda>ok.
        if \<not> ok then Inr PosInf
        else if c = STEP_LAG_THRESHOLD then rbind (operand vs) (\<lambda>x. Inr (pf_add x (Fin 1)))
        else if c = TRAIN_STEP_FLOOR then operand vs
        else rbind (two_operands vs) (\<lambda>(consec, min_step).
          if pf_less period (Fin 1) \<or> pf_less consec (Fin 1) then Inr PosInf
          else Inr (pf_max consec (ceil_over min_step period)))))"

text \<open>The product of two finite floats.\<close>

fun pf_times :: "pyfloat \<Rightarrow> pyfloat \<Rightarrow> pyfloat" where
  "pf_times (Fin a) (Fin b) = Fin (a * b)"
| "pf_times _ _ = NaN"

definition earliest_fire_step :: "cadence \<Rightarrow> json list \<Rightarrow> pyfloat option \<Rightarrow> pyfloat option res" where
  "earliest_fire_step c vs period_opt =
     (if \<not> is_step_clocked (cadence_clock c)
      then (if period_opt \<noteq> None then Inl SampleClockNotDerivableError else step_floor c)
      else case period_opt of None \<Rightarrow> Inl SampleClockNotDerivableError
        | Some period \<Rightarrow> rbind (earliest_fire_samples c vs period) (\<lambda>samples.
            Inr (Some (if \<not> isfinite samples then samples else pf_times samples period))))"

section \<open>The manifest\<close>

record armed_abort =
  aa_name :: string
  aa_config_path :: string
  aa_mechanism :: mechanism
  aa_status :: status
  aa_exit_code :: "int option"
  aa_owner :: "string option"
  aa_source_pin :: "(string \<times> string) option"
  aa_cadence :: "cadence option"
  aa_cadence_paths :: "string list"
  aa_producer_probe :: "string option"

definition given :: "string option \<Rightarrow> bool" where
  "given x = (case x of None \<Rightarrow> False | Some s \<Rightarrow> s \<noteq> [])"

text \<open>\<open>__post_init__\<close>: the constructor returns the row or refuses it.\<close>

definition make_row :: "armed_abort \<Rightarrow> armed_abort res" where
  "make_row r =
     (let needs_probe = (aa_mechanism r = CONFIG_THRESHOLD_GT_ZERO_WITH_LIVE_PRODUCER);
          wanted = (case aa_cadence r of None \<Rightarrow> 0 | Some c \<Rightarrow> arity c)
      in if aa_status r = DEFERRED \<and> \<not> given (aa_owner r) then Inl ValueError
         else if aa_status r = DEFERRED \<and> aa_source_pin r = None then Inl ValueError
         else if aa_status r = REQUIRED \<and> given (aa_owner r) then Inl ValueError
         else if needs_probe \<and> \<not> given (aa_producer_probe r) then Inl ValueError
         else if \<not> needs_probe \<and> given (aa_producer_probe r) then Inl ValueError
         else if length (aa_cadence_paths r) \<noteq> wanted then Inl ValueError
         else Inr r)"

definition DISK_SPACE_ABORT_RULE :: string where "DISK_SPACE_ABORT_RULE = ''disk_space_exhausted''"
definition TERMINAL_EVAL_BROKEN_ABORT_RULE :: string where "TERMINAL_EVAL_BROKEN_ABORT_RULE = ''terminal_eval_broken''"
definition DISK_GUARD_LIVENESS_PROBE :: string where "DISK_GUARD_LIVENESS_PROBE = ''disk_guard_checks_completed''"

definition actor_lag_row :: armed_abort where
  "actor_lag_row = \<lparr>aa_name = ''actor_lag'', aa_config_path = ''monitor.actor_lag_abort_enabled'',
     aa_mechanism = CONFIG_BOOL, aa_status = REQUIRED, aa_exit_code = Some ACTOR_LAG_EXIT_CODE, aa_owner = None,
     aa_source_pin = None, aa_cadence = Some STEP_LAG_THRESHOLD,
     aa_cadence_paths = [''monitor.actor_lag_threshold_steps''], aa_producer_probe = None\<rparr>"

definition draw_rate_row :: armed_abort where
  "draw_rate_row = \<lparr>aa_name = ''draw_rate_collapse'', aa_config_path = ''train.draw_rate_abort.threshold'',
     aa_mechanism = CONFIG_THRESHOLD_GT_ZERO, aa_status = REQUIRED, aa_exit_code = Some DRAW_RATE_COLLAPSE_EXIT_CODE,
     aa_owner = None,
     aa_source_pin = Some (''src/mantis/run.py'', ''draw_rate_abort=resolve_draw_rate_abort(config.train)''),
     aa_cadence = Some GATE_INTERVAL_CONSEC,
     aa_cadence_paths = [''train.draw_rate_abort.consec'', ''train.draw_rate_abort.min_step''], aa_producer_probe = None\<rparr>"

definition ply_cap_row :: armed_abort where
  "ply_cap_row = \<lparr>aa_name = ''ply_cap_attractor'', aa_config_path = ''train.ply_cap_abort.rate'',
     aa_mechanism = CONFIG_THRESHOLD_GT_ZERO, aa_status = DEFERRED, aa_exit_code = Some PLY_CAP_ATTRACTOR_EXIT_CODE,
     aa_owner = Some ''a production config that is a finished run's record mints null truthfully; the row flips REQUIRED (one field) when every production config arms it'',
     aa_source_pin = Some (''src/mantis/run.py'', ''ply_cap_abort=resolve_ply_cap_abort(config.train)''),
     aa_cadence = Some TRAIN_STEP_FLOOR, aa_cadence_paths = [''train.ply_cap_abort.min_step''], aa_producer_probe = None\<rparr>"

definition disk_space_row :: armed_abort where
  "disk_space_row = \<lparr>aa_name = DISK_SPACE_ABORT_RULE, aa_config_path = ''monitor.disk_guard.fail_gb'',
     aa_mechanism = CONFIG_THRESHOLD_GT_ZERO_WITH_LIVE_PRODUCER, aa_status = REQUIRED,
     aa_exit_code = Some DISK_SPACE_EXHAUSTED_EXIT_CODE, aa_owner = None,
     aa_source_pin = Some (''src/mantis/run.py'', ''shutdown.record_abort(DISK_SPACE_ABORT_RULE)''),
     aa_cadence = Some WALL_CLOCK_POLL, aa_cadence_paths = [], aa_producer_probe = Some DISK_GUARD_LIVENESS_PROBE\<rparr>"

definition terminal_eval_row :: armed_abort where
  "terminal_eval_row = \<lparr>aa_name = TERMINAL_EVAL_BROKEN_ABORT_RULE, aa_config_path = ''train.terminal_eval_enabled'',
     aa_mechanism = CONFIG_BOOL, aa_status = REQUIRED, aa_exit_code = Some TERMINAL_EVAL_BROKEN_EXIT_CODE, aa_owner = None,
     aa_source_pin = Some (''src/mantis/run.py'', ''shutdown.record_abort(TERMINAL_EVAL_BROKEN_ABORT_RULE)''),
     aa_cadence = Some CLOSE_OUT_TERMINAL, aa_cadence_paths = [], aa_producer_probe = None\<rparr>"

definition fused_caps_row :: armed_abort where
  "fused_caps_row = \<lparr>aa_name = ''fused_graph_caps_calibrated'',
     aa_config_path = ''inference.fused_graph_caps.max_fused_edges'', aa_mechanism = CONFIG_THRESHOLD_GT_ZERO,
     aa_status = REQUIRED, aa_exit_code = None, aa_owner = None,
     aa_source_pin = Some (''src/mantis/config/resolve/fused_graph_caps.py'', ''raise UncalibratedFusedGraphCapsError(''),
     aa_cadence = Some CONSTRUCTION_TIME, aa_cadence_paths = [], aa_producer_probe = None\<rparr>"

definition allocator_row :: armed_abort where
  "allocator_row = \<lparr>aa_name = ''allocator_posture_minted'', aa_config_path = ''allocator_posture'',
     aa_mechanism = CONFIG_ENUM_VALUED, aa_status = REQUIRED, aa_exit_code = None, aa_owner = None,
     aa_source_pin = Some (''src/mantis/config/resolve/allocator_posture.py'', ''raise UncalibratedAllocatorPostureError(''),
     aa_cadence = Some CONSTRUCTION_TIME, aa_cadence_paths = [], aa_producer_probe = None\<rparr>"

definition MANIFEST :: "armed_abort list" where
  "MANIFEST = [actor_lag_row, draw_rate_row, ply_cap_row, disk_space_row, terminal_eval_row, fused_caps_row, allocator_row]"

section \<open>The audits\<close>

record audit_result =
  ar_required :: "armed_abort list"
  ar_deferred :: "armed_abort list"
  ar_disarmed :: "armed_abort list"

definition row_armed :: "json \<Rightarrow> armed_abort \<Rightarrow> bool option \<Rightarrow> bool res" where
  "row_armed cfg row live = rbind (dotted_value cfg (aa_config_path row)) (\<lambda>v. is_armed (aa_mechanism row) v live)"

text \<open>The rows a test refuses, in order; the first exception ends the walk.\<close>

fun refused_rows :: "(armed_abort \<Rightarrow> bool res) \<Rightarrow> armed_abort list \<Rightarrow> armed_abort list res" where
  "refused_rows armed [] = Inr []"
| "refused_rows armed (row # rows) = rbind (armed row) (\<lambda>ok. rbind (refused_rows armed rows) (\<lambda>rs.
     Inr (if ok then rs else row # rs)))"

definition audit_arming :: "json \<Rightarrow> armed_abort list \<Rightarrow> audit_result res" where
  "audit_arming cfg rows =
     (let required = filter (\<lambda>r. aa_status r = REQUIRED) rows;
          deferred = filter (\<lambda>r. aa_status r = DEFERRED) rows
      in rbind (refused_rows (\<lambda>r. row_armed cfg r None) required) (\<lambda>disarmed.
           Inr \<lparr>ar_required = required, ar_deferred = deferred, ar_disarmed = disarmed\<rparr>))"

fun live_walk :: "json \<Rightarrow> (string, ('w, bool) act) dict \<Rightarrow> armed_abort list \<Rightarrow> ('w, armed_abort list) act" where
  "live_walk cfg probes [] = ret []"
| "live_walk cfg probes (row # rows) =
     abind (case aa_producer_probe row of None \<Rightarrow> ret None
            | Some p \<Rightarrow> (case map_of probes p of None \<Rightarrow> lift (Inl ProducerProbeMissingError)
                | Some probe \<Rightarrow> abind probe (\<lambda>b. ret (Some b)))) (\<lambda>live.
     abind (lift (row_armed cfg row live)) (\<lambda>ok.
     abind (live_walk cfg probes rows) (\<lambda>rs. ret (if ok then rs else row # rs))))"

definition audit_arming_live ::
  "json \<Rightarrow> (string, ('w, bool) act) dict \<Rightarrow> armed_abort list \<Rightarrow> ('w, audit_result) act" where
  "audit_arming_live cfg probes rows =
     (let required = filter (\<lambda>r. aa_status r = REQUIRED) rows;
          deferred = filter (\<lambda>r. aa_status r = DEFERRED) rows
      in abind (live_walk cfg probes required) (\<lambda>disarmed.
           ret \<lparr>ar_required = required, ar_deferred = deferred, ar_disarmed = disarmed\<rparr>))"

record cadence_verdict =
  vd_row :: armed_abort
  vd_clock :: sample_clock
  vd_period :: "pyfloat option"
  vd_samples :: "pyfloat option"
  vd_step :: "pyfloat option"
  vd_bound :: pyfloat
  vd_bound_samples :: "pyfloat option"
  vd_within :: bool

text \<open>The bound on the run, and the quotient of the bound and a finite period of at least 1.\<close>

definition run_bound :: "json \<Rightarrow> real \<Rightarrow> json \<Rightarrow> pyfloat res" where
  "run_bound cfg share len = rbind (is_real_number len) (\<lambda>ok.
     if ok then rbind (py_float_of len) (\<lambda>x. Inr (pf_times (Fin share) x)) else Inr NegInf)"

fun pf_div :: "pyfloat \<Rightarrow> pyfloat \<Rightarrow> pyfloat" where
  "pf_div (Fin a) (Fin b) = Fin (a / b)"
| "pf_div a b = a"

definition judge_row :: "json \<Rightarrow> pyfloat \<Rightarrow> armed_abort \<Rightarrow> cadence_verdict res" where
  "judge_row cfg bound row = (case aa_cadence row of
     None \<Rightarrow> Inr \<lparr>vd_row = row, vd_clock = NO_STEP_CLOCK, vd_period = None, vd_samples = None, vd_step = Some PosInf,
        vd_bound = bound, vd_bound_samples = None, vd_within = False\<rparr>
   | Some c \<Rightarrow> rbind (rmap (dotted_value cfg) (aa_cadence_paths row)) (\<lambda>vs.
       if is_step_clocked (cadence_clock c) then
         rbind (period_steps (cadence_clock c) cfg) (\<lambda>period.
         rbind (earliest_fire_samples c vs period) (\<lambda>samples.
         rbind (earliest_fire_step c vs (Some period)) (\<lambda>earliest.
         let bound_samples = (if pf_le (Fin 1) period then pf_div bound period else NegInf)
         in Inr \<lparr>vd_row = row, vd_clock = cadence_clock c, vd_period = Some period, vd_samples = Some samples,
              vd_step = earliest, vd_bound = bound, vd_bound_samples = Some bound_samples,
              vd_within = pf_le samples bound_samples\<rparr>)))
       else rbind (earliest_fire_step c vs None) (\<lambda>earliest.
         Inr \<lparr>vd_row = row, vd_clock = cadence_clock c, vd_period = None, vd_samples = None, vd_step = earliest,
            vd_bound = bound, vd_bound_samples = None,
            vd_within = (case earliest of None \<Rightarrow> True | Some x \<Rightarrow> pf_le x bound)\<rparr>)))"

definition audit_cadence :: "json \<Rightarrow> armed_abort list \<Rightarrow> real \<Rightarrow> cadence_verdict list res" where
  "audit_cadence cfg rows share =
     rbind (audit_arming cfg rows) (\<lambda>armed.
     rbind (dotted_value cfg RUN_LENGTH_PATH) (\<lambda>len.
     rbind (run_bound cfg share len) (\<lambda>bound.
       rmap (judge_row cfg bound)
         (filter (\<lambda>r. aa_name r \<notin> aa_name ` set (ar_disarmed armed)) (ar_required armed)))))"

text \<open>The first row of that name answers; \<open>None\<close> is no authored code.\<close>

fun exit_code_for_abort :: "string \<Rightarrow> armed_abort list \<Rightarrow> int option" where
  "exit_code_for_abort rule [] = None"
| "exit_code_for_abort rule (row # rows) = (if aa_name row = rule then aa_exit_code row else exit_code_for_abort rule rows)"

end
