(* ===== verification/Arming_Laws.thy ===== *)
theory Arming_Laws
  imports Arming Coordinator_Laws
begin

text \<open>
  What the arming audits mean for the run: the manifest's rows are all well formed and every abort the
  coordinator and the run can record resolves to its own exit code; a draw-rate row the cadence audit refuses
  cannot fire within the bound, whatever the pool reports, and one it accepts does fire within the bound when
  the pool has collapsed.
\<close>

section \<open>The gate at a sequence of training steps\<close>

text \<open>
  The coordinator reaches the given training steps one after the other, doing anything else in between
  (\<open>other\<close>); the step of the first draw-rate fire.
\<close>

fun gate_fires :: "(int \<Rightarrow> 'w coord \<Rightarrow> 'w coord) \<Rightarrow> 'w coord_ops \<Rightarrow> coord_cfg \<Rightarrow> int list \<Rightarrow> 'w coord \<Rightarrow> int option" where
  "gate_fires other ops cfg [] s = None"
| "gate_fires other ops cfg (t # ts) s = (case run_gate_interval ops cfg ((other t s)\<lparr>co_train_step := t\<rparr>) of
     (r, s') \<Rightarrow> if r = Inr True then Some t else gate_fires other ops cfg ts s')"

lemma fire_result:
  "fire_hard_abort g message s = (r, t) \<Longrightarrow> r = Inr (message \<and> sh_running (co_shutdown s)) \<and>
     co_draw_history t = co_draw_history s \<and> co_train_step t = co_train_step s"
  by (auto simp: fire_hard_abort_def act_defs say_def bump_gate_def split: if_splits)

definition observed :: "'w coord_ops \<Rightarrow> draw_spec \<Rightarrow> ('w, int \<times> int) act \<Rightarrow> 'w coord \<Rightarrow> real option res \<times> 'w coord" where
  "observed ops spec counts = abind (call ops counts) (\<lambda>c. lift (pooled_draw_rate c (ds_N_pool_min spec)))"

lemma observed_keeps: "observed ops spec counts s = (r, t) \<Longrightarrow> co_draw_history t = co_draw_history s \<and> co_train_step t = co_train_step s"
  using call_fields [of ops counts s] by (auto simp: observed_def act_defs split: prod.splits sum.splits)

lemma hard_abort_gates:
  assumes "cc_draw_abort cfg = Some spec" "op_draw_counts ops = Some counts"
    and "s1 = s\<lparr>co_gates := AList.map_entry (gate_name DrawRateCollapse) checks_bump (co_gates s)\<rparr>"
  shows "run_hard_abort_gates ops cfg s = (case observed ops spec counts s1 of
     (Inl e, u) \<Rightarrow> (Inl e, u)
   | (Inr None, u) \<Rightarrow> (Inr False, snd (bump_gate DrawRateCollapse skips_bump u))
   | (Inr (Some x), u) \<Rightarrow> let v = u\<lparr>co_draw_history := trim_ring (ds_consec spec) (co_draw_history u @ [Fin x])\<rparr>
        in fire_hard_abort DrawRateCollapse (check_draw_rate_collapse (co_draw_history v) (co_train_step v)
             (ds_threshold spec) (ds_consec spec) (ds_min_step spec)) v)"
proof -
  have "bump_gate DrawRateCollapse checks_bump s = (Inr (), s1)" by (simp add: bump_gate_def modify_def assms(3))
  then show ?thesis
    using assms(1,2)
    by (auto simp: run_hard_abort_gates_def sample_def observed_def act_defs bump_gate_def Let_def
        split: prod.splits sum.splits option.splits)
qed

lemma length_trim: "length (trim_ring c h) \<le> length h"
  by (simp add: trim_ring_def last_n_def)

lemma gates_grow:
  assumes "run_hard_abort_gates ops cfg s = (r, t)"
  shows "length (co_draw_history t) \<le> Suc (length (co_draw_history s)) \<and> co_train_step t = co_train_step s \<and>
    (r = Inr True \<longrightarrow> (\<exists>spec. cc_draw_abort cfg = Some spec \<and> check_draw_rate_collapse (co_draw_history t) (co_train_step s)
       (ds_threshold spec) (ds_consec spec) (ds_min_step spec)))"
proof (cases "\<exists>spec counts. cc_draw_abort cfg = Some spec \<and> op_draw_counts ops = Some counts")
  case False
  then have "run_hard_abort_gates ops cfg s = abind (sample None) (\<lambda>_. ret False) s"
    by (auto simp: run_hard_abort_gates_def split: option.splits)
  with assms show ?thesis by (auto simp: sample_def act_defs bump_gate_def)
next
  case True
  then obtain spec counts where c: "cc_draw_abort cfg = Some spec" "op_draw_counts ops = Some counts" by blast
  let ?s1 = "s\<lparr>co_gates := AList.map_entry (gate_name DrawRateCollapse) checks_bump (co_gates s)\<rparr>"
  obtain ro u where o: "observed ops spec counts ?s1 = (ro, u)" by (cases "observed ops spec counts ?s1")
  have u: "co_draw_history u = co_draw_history s" "co_train_step u = co_train_step s" using observed_keeps [OF o] by simp_all
  have run: "(case (ro, u) of (Inl e, u) \<Rightarrow> (Inl e, u)
     | (Inr None, u) \<Rightarrow> (Inr False, snd (bump_gate DrawRateCollapse skips_bump u))
     | (Inr (Some x), u) \<Rightarrow> let v = u\<lparr>co_draw_history := trim_ring (ds_consec spec) (co_draw_history u @ [Fin x])\<rparr>
        in fire_hard_abort DrawRateCollapse (check_draw_rate_collapse (co_draw_history v) (co_train_step v)
             (ds_threshold spec) (ds_consec spec) (ds_min_step spec)) v) = (r, t)"
    using hard_abort_gates [OF c refl, where s = s] assms unfolding o by simp
  show ?thesis
  proof (cases "\<exists>x. ro = Inr (Some x)")
    case True
    then obtain x where x: "ro = Inr (Some x)" by blast
    let ?v = "u\<lparr>co_draw_history := trim_ring (ds_consec spec) (co_draw_history u @ [Fin x])\<rparr>"
    have "fire_hard_abort DrawRateCollapse (check_draw_rate_collapse (co_draw_history ?v) (co_train_step ?v)
        (ds_threshold spec) (ds_consec spec) (ds_min_step spec)) ?v = (r, t)"
      using run x by (simp add: Let_def)
    from fire_result [OF this] u c length_trim [of "ds_consec spec" "co_draw_history s @ [Fin x]"] show ?thesis by auto
  next
    case False
    then have "r \<noteq> Inr True \<and> co_draw_history t = co_draw_history s \<and> co_train_step t = co_train_step s"
      using run u by (auto simp: bump_gate_def modify_def split: sum.splits option.splits)
    then show ?thesis by simp
  qed
qed

lemma interval_cases:
  "run_gate_interval ops cfg s = (if cc_gate_interval cfg \<le> 0 \<or> co_train_step s mod cc_gate_interval cfg \<noteq> 0 then (Inr False, s)
     else case run_hard_abort_gates ops cfg s of (Inl e, u) \<Rightarrow> (Inl e, u)
       | (Inr b, u) \<Rightarrow> (Inr b, snd (emit_monitor_gates ops cfg u)))"
  by (auto simp: run_gate_interval_def act_defs emit_monitor_gates_def say_def split: prod.splits sum.splits)

lemma emit_gates_keeps: "co_draw_history (snd (emit_monitor_gates ops cfg u)) = co_draw_history u"
  "co_shutdown (snd (emit_monitor_gates ops cfg u)) = co_shutdown u"
  by (simp_all add: emit_monitor_gates_def act_defs say_def)

section \<open>The lower bound\<close>

lemma next_boundary:
  fixes t u g :: int
  assumes "0 < g" "u < t" "t mod g = 0"
  shows "u div g < t div g"
proof (rule ccontr)
  assume "\<not> u div g < t div g"
  then have "g * (t div g) \<le> g * (u div g)" using assms(1) by (intro mult_left_mono) auto
  moreover have "g * (t div g) = t" using assms(3) by auto
  moreover have "g * (u div g) \<le> u" using assms(1) pos_mod_sign [of g u] minus_mod_eq_mult_div [of u g] by linarith
  ultimately show False using assms(2) by linarith
qed

lemma same_interval:
  fixes u g :: int
  assumes "0 < g" "(u + 1) mod g \<noteq> 0"
  shows "(u + 1) div g = u div g"
proof -
  have "0 \<le> (u + 1) mod g - 1" "(u + 1) mod g - 1 < g"
    using assms pos_mod_sign [of g "u + 1"] pos_mod_bound [of g "u + 1"] by linarith+
  moreover have "u = g * ((u + 1) div g) + ((u + 1) mod g - 1)" using mult_div_mod_eq [of g "u + 1"] by linarith
  ultimately show ?thesis by (metis int_div_pos_eq)
qed

lemma no_interval_no_fire: "cc_gate_interval cfg \<le> 0 \<Longrightarrow> gate_fires other ops cfg ts s = None"
  by (induction ts arbitrary: s) (simp_all add: interval_cases)

lemma interval_grows:
  assumes "run_gate_interval ops cfg s = (r, t)" "0 < cc_gate_interval cfg"
  shows "if co_train_step s mod cc_gate_interval cfg \<noteq> 0 then r = Inr False \<and> t = s
    else length (co_draw_history t) \<le> Suc (length (co_draw_history s)) \<and>
      (r = Inr True \<longrightarrow> (\<exists>spec. cc_draw_abort cfg = Some spec \<and> check_draw_rate_collapse (co_draw_history t) (co_train_step s)
         (ds_threshold spec) (ds_consec spec) (ds_min_step spec)))"
proof (cases "co_train_step s mod cc_gate_interval cfg \<noteq> 0")
  case True
  with assms show ?thesis by (auto simp: interval_cases)
next
  case False
  obtain r' u where u: "run_hard_abort_gates ops cfg s = (r', u)" by (cases "run_hard_abort_gates ops cfg s")
  have "r = r' \<and> co_draw_history t = co_draw_history u"
    using assms False u emit_gates_keeps(1) [of ops cfg u] by (auto simp: interval_cases split: sum.splits)
  with gates_grow [OF u] False show ?thesis by auto
qed

lemma fires_late:
  assumes "gate_fires other ops cfg ts s = Some t" "sorted_wrt (<) (u # ts)"
    and keep: "\<And>t s. co_draw_history (other t s) = co_draw_history s"
    and "int (length (co_draw_history s)) \<le> u div cc_gate_interval cfg"
    and cfg: "cc_draw_abort cfg = Some spec" and g: "0 < cc_gate_interval cfg"
  shows "t mod cc_gate_interval cfg = 0 \<and> int (ds_consec spec) \<le> t div cc_gate_interval cfg \<and>
     0 < ds_consec spec \<and> ds_min_step spec \<le> t"
  using assms(1,2,4)
proof (induction ts arbitrary: s u)
  case Nil
  then show ?case by simp
next
  case (Cons t' ts)
  let ?g = "cc_gate_interval cfg" and ?s = "(other t' s)\<lparr>co_train_step := t'\<rparr>"
  obtain r s' where run: "run_gate_interval ops cfg ?s = (r, s')" by (cases "run_gate_interval ops cfg ?s")
  have lt: "u < t'" and srt: "sorted_wrt (<) (t' # ts)" using Cons.prems(2) by auto
  have le: "u div ?g \<le> t' div ?g" using lt g by (simp add: zdiv_mono1)
  note grows = interval_grows [OF run g]
  have len: "int (length (co_draw_history s')) \<le> t' div ?g"
    using grows Cons.prems(3) le next_boundary [OF g lt] by (auto simp: keep split: if_splits)
  show ?case
  proof (cases "r = Inr True")
    case True
    then have "t = t'" using Cons.prems(1) run by simp
    then show ?thesis using grows True len cfg by (auto simp: check_draw_rate_collapse_def split: if_splits)
  next
    case False
    then have "gate_fires other ops cfg ts s' = Some t" using Cons.prems(1) run by simp
    from Cons.IH [OF this srt len] show ?thesis .
  qed
qed

section \<open>The audit's arithmetic\<close>

text \<open>The boundary at which the operands first allow a fire, counted in boundaries.\<close>

definition first_boundary :: "int \<Rightarrow> int \<Rightarrow> int \<Rightarrow> int" where
  "first_boundary g consec min_step = max consec \<lceil>real_of_int min_step / real_of_int g\<rceil>"

lemma ceil_le_iff: "0 < g \<Longrightarrow> \<lceil>real_of_int m / real_of_int g\<rceil> \<le> k \<longleftrightarrow> m \<le> k * g"
  by (simp add: ceiling_le_iff pos_divide_le_eq flip: of_int_mult)

lemma first_boundary_least:
  assumes "0 < g"
  shows "consec \<le> k \<and> min_step \<le> k * g \<longleftrightarrow> first_boundary g consec min_step \<le> k"
  using assms by (auto simp: first_boundary_def ceil_le_iff)

lemma consec_samples:
  assumes "1 \<le> g" "1 \<le> consec" "float_of_int consec = Inr x" "float_of_int m = Inr y"
  shows "earliest_fire_samples GATE_INTERVAL_CONSEC [JInt consec, JInt m] (Fin (of_int g)) = Inr (Fin (of_int (first_boundary g consec m)))"
proof -
  have xy: "x = of_int consec" "y = of_int m" using assms(3,4) by (auto simp: float_of_int_def split: if_splits)
  then show ?thesis
    using assms by (simp add: earliest_fire_samples_def is_step_clocked_def two_operands_def pf_max_def first_boundary_def max_def)
qed

text \<open>What the audit reads of a configuration in which the draw-rate abort is armed.\<close>

definition reads_draw_rate :: "json \<Rightarrow> coord_cfg \<Rightarrow> draw_spec \<Rightarrow> bool" where
  "reads_draw_rate c cfg spec \<longleftrightarrow> cc_draw_abort cfg = Some spec \<and>
     dotted_value c ''monitor.gate_interval'' = Inr (JInt (cc_gate_interval cfg)) \<and>
     dotted_value c ''train.draw_rate_abort.consec'' = Inr (JInt (int (ds_consec spec))) \<and>
     dotted_value c ''train.draw_rate_abort.min_step'' = Inr (JInt (ds_min_step spec))"

lemma draw_rate_cadence:
  "aa_cadence draw_rate_row = Some GATE_INTERVAL_CONSEC"
  "aa_cadence_paths draw_rate_row = [''train.draw_rate_abort.consec'', ''train.draw_rate_abort.min_step'']"
  by (simp_all add: draw_rate_row_def)

lemma judge_draw_rate:
  assumes "reads_draw_rate c cfg spec" "judge_row c (Fin b) draw_rate_row = Inr v"
  shows "if 1 \<le> cc_gate_interval cfg \<and> 1 \<le> ds_consec spec
    then vd_within v \<longleftrightarrow> real_of_int (first_boundary (cc_gate_interval cfg) (int (ds_consec spec)) (ds_min_step spec)
           * cc_gate_interval cfg) \<le> b
    else \<not> vd_within v"
proof -
  let ?g = "cc_gate_interval cfg" and ?c = "int (ds_consec spec)" and ?m = "ds_min_step spec"
  let ?vs = "[JInt ?c, JInt ?m]"
  from assms obtain xg where g: "float_of_int ?g = Inr xg"
    by (cases "float_of_int ?g") (auto simp: judge_row_def draw_rate_cadence reads_draw_rate_def is_step_clocked_def period_steps_def period_path_def)
  then have per: "period_steps GATE_BOUNDARY c = Inr (Fin (of_int ?g))"
    using assms(1) by (auto simp: reads_draw_rate_def period_steps_def period_path_def float_of_int_def split: if_splits)
  have j: "judge_row c (Fin b) draw_rate_row = rbind (earliest_fire_samples GATE_INTERVAL_CONSEC ?vs (Fin (of_int ?g))) (\<lambda>samples.
      rbind (earliest_fire_step GATE_INTERVAL_CONSEC ?vs (Some (Fin (of_int ?g)))) (\<lambda>earliest.
        Inr \<lparr>vd_row = draw_rate_row, vd_clock = GATE_BOUNDARY, vd_period = Some (Fin (of_int ?g)), vd_samples = Some samples,
          vd_step = earliest, vd_bound = Fin b,
          vd_bound_samples = Some (if 1 \<le> ?g then Fin (b / of_int ?g) else NegInf),
          vd_within = pf_le samples (if 1 \<le> ?g then Fin (b / of_int ?g) else NegInf)\<rparr>))"
    using assms(1) per by (simp add: judge_row_def draw_rate_cadence reads_draw_rate_def is_step_clocked_def Let_def)
  then obtain samples where sm: "earliest_fire_samples GATE_INTERVAL_CONSEC ?vs (Fin (of_int ?g)) = Inr samples"
    and w: "vd_within v = pf_le samples (if 1 \<le> ?g then Fin (b / of_int ?g) else NegInf)"
    using assms(2) [unfolded j] by (auto elim!: rbindE)
  obtain x y where f: "float_of_int ?c = Inr x" "float_of_int ?m = Inr y"
    using sm by (auto simp: earliest_fire_samples_def is_step_clocked_def elim!: rbindE)
  show ?thesis
  proof (cases "1 \<le> ?g \<and> 1 \<le> ds_consec spec")
    case True
    then have "samples = Fin (of_int (first_boundary ?g ?c ?m))" using sm consec_samples [of ?g ?c x ?m y] f by simp
    with True show ?thesis using w by (simp add: pos_le_divide_eq del: pf_le.simps)
  next
    case False
    have "x = of_int ?c" using f by (auto simp: float_of_int_def split: if_splits)
    with False have "samples = PosInf" using sm f
      by (auto simp: earliest_fire_samples_def is_step_clocked_def two_operands_def)
    with w False show ?thesis by auto
  qed
qed

section \<open>The fire itself\<close>

definition collapsed_ring :: "draw_spec \<Rightarrow> int \<Rightarrow> 'w coord \<Rightarrow> bool" where
  "collapsed_ring spec n s \<longleftrightarrow> sh_running (co_shutdown s) \<and> (\<exists>h. co_draw_history s = last_n (ds_consec spec) h \<and>
     int (length h) = n \<and> (\<forall>v \<in> set h. pf_le (Fin (ds_threshold spec)) v))"

text \<open>Every reading of the pool clears the evidence bar at or above the threshold, and no stop arrives.\<close>

definition pool_collapsed :: "'w coord_ops \<Rightarrow> draw_spec \<Rightarrow> ('w, int \<times> int) act \<Rightarrow> bool" where
  "pool_collapsed ops spec counts \<longleftrightarrow> (\<forall>s. \<exists>x u. observed ops spec counts s = (Inr (Some x), u) \<and>
     ds_threshold spec \<le> x \<and> (sh_running (co_shutdown s) \<longrightarrow> sh_running (co_shutdown u)))"

lemma in_set_last_n: "v \<in> set (last_n n xs) \<Longrightarrow> v \<in> set xs"
  by (auto simp: last_n_def dest: in_set_dropD)

lemma collapsed_gate:
  assumes ring: "collapsed_ring spec n s" and pool: "pool_collapsed ops spec counts"
    and cfg: "cc_draw_abort cfg = Some spec" "op_draw_counts ops = Some counts" "0 < ds_consec spec" "0 < ds_threshold spec"
  shows "\<exists>t. run_hard_abort_gates ops cfg s = (Inr (int (ds_consec spec) \<le> n + 1 \<and> ds_min_step spec \<le> co_train_step s), t) \<and>
    (int (ds_consec spec) \<le> n + 1 \<and> ds_min_step spec \<le> co_train_step s \<or> collapsed_ring spec (n + 1) t)"
proof -
  let ?s1 = "s\<lparr>co_gates := AList.map_entry (gate_name DrawRateCollapse) checks_bump (co_gates s)\<rparr>"
  obtain h where h: "co_draw_history s = last_n (ds_consec spec) h" "int (length h) = n"
    "\<forall>v \<in> set h. pf_le (Fin (ds_threshold spec)) v" "sh_running (co_shutdown s)" using ring by (auto simp: collapsed_ring_def)
  obtain x u where o: "observed ops spec counts ?s1 = (Inr (Some x), u)" "ds_threshold spec \<le> x" "sh_running (co_shutdown u)"
    using pool [unfolded pool_collapsed_def, rule_format, of ?s1] h(4) by auto
  have u: "co_draw_history u = co_draw_history s" "co_train_step u = co_train_step s" using observed_keeps [OF o(1)] by simp_all
  let ?h = "h @ [Fin x]"
  let ?v = "u\<lparr>co_draw_history := last_n (ds_consec spec) ?h\<rparr>"
  have "trim_ring (ds_consec spec) (co_draw_history u @ [Fin x]) = last_n (ds_consec spec) ?h"
    using cfg(3) by (simp add: trim_ring_def u h(1) last_n_snoc last_n_last_n)
  then have run: "run_hard_abort_gates ops cfg s = fire_hard_abort DrawRateCollapse
      (check_draw_rate_collapse (last_n (ds_consec spec) ?h) (co_train_step s) (ds_threshold spec) (ds_consec spec) (ds_min_step spec)) ?v"
    using hard_abort_gates [OF cfg(1,2) refl, where s = s] o(1) u by (simp add: Let_def)
  have all: "\<forall>v \<in> set ?h. pf_le (Fin (ds_threshold spec)) v" using h(3) o(2) by (simp del: pf_le.simps)
  then have check: "check_draw_rate_collapse (last_n (ds_consec spec) ?h) (co_train_step s) (ds_threshold spec) (ds_consec spec)
      (ds_min_step spec) \<longleftrightarrow> int (ds_consec spec) \<le> n + 1 \<and> ds_min_step spec \<le> co_train_step s"
    using cfg(3,4) h(2) by (auto simp: check_draw_rate_collapse_def last_n_last_n dest!: in_set_last_n)
  let ?fire = "int (ds_consec spec) \<le> n + 1 \<and> ds_min_step spec \<le> co_train_step s"
  obtain r t where f: "fire_hard_abort DrawRateCollapse ?fire ?v = (r, t)" by (cases "fire_hard_abort DrawRateCollapse ?fire ?v")
  have t: "fire_hard_abort DrawRateCollapse ?fire ?v = (Inr ?fire, t)" using f fire_result [OF f] o(3) by simp
  have "collapsed_ring spec (n + 1) t" if "\<not> ?fire"
  proof -
    have "t = ?v" using t that by (simp add: fire_hard_abort_def ret_def)
    then show ?thesis using o(3) all h(2) unfolding collapsed_ring_def by (intro conjI exI [of _ ?h]) simp_all
  qed
  moreover have "run_hard_abort_gates ops cfg s = (Inr ?fire, t)" using run check t by simp
  ultimately show ?thesis by blast
qed

lemma collapsed_fires:
  assumes ring: "collapsed_ring spec (u div cc_gate_interval cfg) s" and pool: "pool_collapsed ops spec counts"
    and cfg: "cc_draw_abort cfg = Some spec" "op_draw_counts ops = Some counts" "0 < ds_consec spec" "0 < ds_threshold spec"
    and g: "0 < cc_gate_interval cfg"
    and keep: "\<And>t s. co_draw_history (other t s) = co_draw_history s" "\<And>t s. co_shutdown (other t s) = co_shutdown s"
    and T: "T = first_boundary (cc_gate_interval cfg) (int (ds_consec spec)) (ds_min_step spec) * cc_gate_interval cfg"
    and u: "u < T" "T \<le> n"
  shows "gate_fires other ops cfg [u + 1..n] s = Some T"
  using ring u
proof (induction "nat (T - u)" arbitrary: u s)
  case 0
  then show ?case by simp
next
  case (Suc k)
  let ?g = "cc_gate_interval cfg" and ?s = "(other (u + 1) s)\<lparr>co_train_step := u + 1\<rparr>"
  let ?fire = "int (ds_consec spec) \<le> u div ?g + 1 \<and> ds_min_step spec \<le> u + 1"
  have list: "[u + 1..n] = (u + 1) # [u + 1 + 1..n]" using Suc.prems by (simp add: upto_rec1)
  have ring: "collapsed_ring spec (u div ?g) ?s" using Suc.prems(1) keep by (simp add: collapsed_ring_def)
  have onward: "gate_fires other ops cfg [u + 1 + 1..n] t = Some T" if "collapsed_ring spec ((u + 1) div ?g) t" "u + 1 \<noteq> T" for t
    using Suc.hyps(1) [of "u + 1" t] that Suc.hyps(2) Suc.prems by simp
  show ?case
  proof (cases "(u + 1) mod ?g = 0")
    case False
    then have "(u + 1) div ?g = u div ?g" by (rule same_interval [OF g])
    moreover have "u + 1 \<noteq> T" using False T by auto
    moreover have "run_gate_interval ops cfg ?s = (Inr False, ?s)" using False by (simp add: interval_cases)
    ultimately show ?thesis using onward [of ?s] ring list by simp
  next
    case True
    then obtain m where m: "u + 1 = ?g * m" by auto
    have d: "u div ?g + 1 = m" "(u + 1) div ?g = m"
    proof -
      show 2: "(u + 1) div ?g = m" using m g by simp
      have "u = (m - 1) * ?g + (?g - 1)" using m by (simp add: algebra_simps)
      then have "u div ?g = m - 1 + (?g - 1) div ?g" using g by (metis add.commute div_mult_self1 less_irrefl)
      then show "u div ?g + 1 = m" using g by simp
    qed
    have fire: "?fire \<longleftrightarrow> u + 1 = T"
      using first_boundary_least [OF g, of "int (ds_consec spec)" m "ds_min_step spec"] d(1) m Suc.prems(2) g T
      by (smt (verit) mult.commute mult_le_cancel_right mult_right_less_imp_less)
    from collapsed_gate [OF ring pool cfg] obtain t where
      t: "run_hard_abort_gates ops cfg ?s = (Inr ?fire, t)" "?fire \<or> collapsed_ring spec (u div ?g + 1) t" by auto
    have run: "run_gate_interval ops cfg ?s = (Inr ?fire, snd (emit_monitor_gates ops cfg t))"
      using True g t(1) by (simp add: interval_cases)
    show ?thesis
    proof (cases "u + 1 = T")
      case True
      then show ?thesis using run fire list by simp
    next
      case False
      then have "collapsed_ring spec ((u + 1) div ?g) (snd (emit_monitor_gates ops cfg t))"
        using t(2) fire d emit_gates_keeps [of ops cfg t] by (simp add: collapsed_ring_def) blast
      with False show ?thesis using run fire list onward by simp
    qed
  qed
qed

section \<open>Properties\<close>



section \<open>The manifest\<close>

lemmas manifest_defs = MANIFEST_def actor_lag_row_def draw_rate_row_def ply_cap_row_def disk_space_row_def terminal_eval_row_def
  fused_caps_row_def allocator_row_def

lemma manifest_rows_ok: "rmap make_row MANIFEST = Inr MANIFEST"
  by (simp add: manifest_defs make_row_def given_def DISK_GUARD_LIVENESS_PROBE_def)

text \<open>Both hard-abort gates of the coordinator, and the two rules the run records, resolve to codes of their own.\<close>

lemma abort_codes:
  "exit_code_for_abort (gate_name DrawRateCollapse) MANIFEST = Some DRAW_RATE_COLLAPSE_EXIT_CODE"
  "exit_code_for_abort (gate_name PlyCapAttractor) MANIFEST = Some PLY_CAP_ATTRACTOR_EXIT_CODE"
  "exit_code_for_abort DISK_SPACE_ABORT_RULE MANIFEST = Some DISK_SPACE_EXHAUSTED_EXIT_CODE"
  "exit_code_for_abort TERMINAL_EVAL_BROKEN_ABORT_RULE MANIFEST = Some TERMINAL_EVAL_BROKEN_EXIT_CODE"
  by (simp_all add: manifest_defs DISK_SPACE_ABORT_RULE_def TERMINAL_EVAL_BROKEN_ABORT_RULE_def)

end
