(* ===== verification/Game_Shape.thy ===== *)
theory Game_Shape
  imports Axis
begin

text \<open>
  The structural measures of a finished game (\<open>src/mantis/selfplay/instrumentation.py\<close> and the distance of
  \<open>src/mantis/util/coordinates.py\<close>): the stride-5 chains and the row density, the split of the stones by
  player, the colony extension, the longest straight run and the connected components.

  A Python set is a list without repetition; where the code iterates over a set the order is the list's, and
  the results proved here do not depend on it. The axes and the win length are the engine's constants.
\<close>

section \<open>Distance\<close>

definition axial_distance :: "cell \<Rightarrow> cell \<Rightarrow> int" where
  "axial_distance a b = max (max \<bar>fst a - fst b\<bar> \<bar>snd a - snd b\<bar>) \<bar>(fst a + snd a) - (fst b + snd b)\<bar>"

lemma axial_le_iff:
  "axial_distance a b \<le> k \<longleftrightarrow> \<bar>fst a - fst b\<bar> \<le> k \<and> \<bar>snd a - snd b\<bar> \<le> k \<and> \<bar>(fst a + snd a) - (fst b + snd b)\<bar> \<le> k"
  by (simp add: axial_distance_def conj_assoc)

lemmas axial_bounds = iffD1 [OF axial_le_iff order_refl]

lemma axial_sym: "axial_distance a b = axial_distance b a"
  by (simp add: axial_distance_def abs_minus_commute)

lemma axial_zero: "axial_distance a b = 0 \<longleftrightarrow> a = b"
proof
  assume "axial_distance a b = 0"
  with axial_bounds [of a b] show "a = b" by (simp add: prod_eq_iff)
qed (simp add: axial_distance_def)

lemma axial_triangle: "axial_distance a c \<le> axial_distance a b + axial_distance b c"
proof -
  note ab = axial_bounds [of a b] and bc = axial_bounds [of b c]
  have "\<bar>fst a - fst c\<bar> \<le> axial_distance a b + axial_distance b c" using ab bc by linarith
  moreover have "\<bar>snd a - snd c\<bar> \<le> axial_distance a b + axial_distance b c" using ab bc by linarith
  moreover have "\<bar>(fst a + snd a) - (fst c + snd c)\<bar> \<le> axial_distance a b + axial_distance b c" using ab bc by linarith
  ultimately show ?thesis unfolding axial_le_iff by blast
qed

section \<open>Rows and stride-5 chains\<close>

definition STRIDE5_STEP :: int where "STRIDE5_STEP = 5"

text \<open>\<open>buckets.setdefault(k, set()).add(v)\<close>\<close>

definition add_to :: "int \<Rightarrow> int \<Rightarrow> (int, int list) dict \<Rightarrow> (int, int list) dict" where
  "add_to k v d = AList.update k (List.insert v (dget d k [])) d"

fun bucketed :: "(cell \<Rightarrow> int) \<Rightarrow> (cell \<Rightarrow> int) \<Rightarrow> cell list \<Rightarrow> (int, int list) dict \<Rightarrow> (int, int list) dict" where
  "bucketed key val [] d = d"
| "bucketed key val (c # cs) d = bucketed key val cs (add_to (key c) (val c) d)"

function chain_from :: "int list \<Rightarrow> int \<Rightarrow> nat" where
  "chain_from posset cur = (if cur + STRIDE5_STEP \<in> set posset then Suc (chain_from posset (cur + STRIDE5_STEP)) else 1)"
  by pat_completeness auto
termination
proof (relation "measure (\<lambda>(ps, cur). card {x \<in> set ps. cur < x})")
  fix ps :: "int list" and cur :: int
  assume "cur + STRIDE5_STEP \<in> set ps"
  then have "cur + STRIDE5_STEP \<in> {x \<in> set ps. cur < x}" by (simp add: STRIDE5_STEP_def)
  moreover have "{x \<in> set ps. cur + STRIDE5_STEP < x} \<subseteq> {x \<in> set ps. cur < x}" by (auto simp: STRIDE5_STEP_def)
  ultimately have "{x \<in> set ps. cur + STRIDE5_STEP < x} \<subset> {x \<in> set ps. cur < x}" by blast
  then show "((ps, cur + STRIDE5_STEP), ps, cur) \<in> measure (\<lambda>(ps, cur). card {x \<in> set ps. cur < x})"
    using psubset_card_mono [of "{x \<in> set ps. cur < x}"] by simp
qed simp

declare chain_from.simps [simp del]

fun chains :: "int list \<Rightarrow> int list \<Rightarrow> nat \<Rightarrow> nat" where
  "chains posset [] best = best"
| "chains posset (p # ps) best =
     (if p - STRIDE5_STEP \<in> set posset then chains posset ps best
      else chains posset ps (if chain_from posset p > best then chain_from posset p else best))"

fun scan_rows :: "int list list \<Rightarrow> nat \<times> nat \<Rightarrow> nat \<times> nat" where
  "scan_rows [] acc = acc"
| "scan_rows (posset # rows) (stride5_max, row_max) =
     (let n = length posset; row_max' = (if n > row_max then n else row_max)
      in scan_rows rows (if n < 2 then stride5_max else chains posset posset stride5_max, row_max'))"

definition compute_stride5_metrics :: "cell list \<Rightarrow> nat \<times> nat" where
  "compute_stride5_metrics history = (if history = [] then (0, 0)
     else scan_rows (map snd (bucketed snd fst history []) @ map snd (bucketed fst snd history [])
            @ map snd (bucketed (\<lambda>(q, r). - q - r) fst history [])) (0, 0))"

section \<open>Players\<close>

fun split_from :: "nat \<Rightarrow> cell list \<Rightarrow> cell list \<times> cell list" where
  "split_from ply [] = ([], [])"
| "split_from ply (c # cs) = (case split_from (Suc ply) cs of (p1, p2) \<Rightarrow>
     if ply = 0 \<or> ((ply - 1) div 2) mod 2 = 1 then (c # p1, p2) else (p1, c # p2))"

definition split_players :: "cell list \<Rightarrow> cell list \<times> cell list" where
  "split_players history = split_from 0 history"

definition COLONY_EXT_HEX_DIST :: int where "COLONY_EXT_HEX_DIST = 6"

fun least_distance :: "cell \<Rightarrow> cell list \<Rightarrow> int" where
  "least_distance s [] = 0"
| "least_distance s [o1] = axial_distance s o1"
| "least_distance s (o1 # opp) = min (axial_distance s o1) (least_distance s opp)"

definition extension_of :: "cell list \<Rightarrow> cell list \<Rightarrow> nat \<times> nat" where
  "extension_of own opp = (if opp = [] then (0, 0)
     else (length (filter (\<lambda>s. least_distance s opp > COLONY_EXT_HEX_DIST) own), length own))"

definition compute_colony_extension :: "cell list \<Rightarrow> nat \<times> nat" where
  "compute_colony_extension history = (if history = [] then (0, 0)
     else case split_players history of (p1, p2) \<Rightarrow>
       (fst (extension_of p1 p2) + fst (extension_of p2 p1), snd (extension_of p1 p2) + snd (extension_of p2 p1)))"

section \<open>Straight runs\<close>

definition HEX_AXES :: "cell list" where "HEX_AXES = [(1, 0), (0, 1), (1, - 1)]"
definition WIN_LENGTH :: nat where "WIN_LENGTH = 6"

text \<open>The walk of the code goes on for ever when its direction is \<open>(0, 0)\<close> and the cell is in the set.\<close>

partial_function (option) walk_line :: "cell set \<Rightarrow> cell \<Rightarrow> cell \<Rightarrow> nat \<Rightarrow> nat option" where
  "walk_line cells c d n = (let c' = (fst c + fst d, snd c + snd d) in
     if c' \<notin> cells then Some n else walk_line cells c' d (Suc n))"

definition line_run :: "cell set \<Rightarrow> cell \<Rightarrow> cell \<Rightarrow> nat option" where
  "line_run cells c d = (case walk_line cells c d 0 of None \<Rightarrow> None
     | Some a \<Rightarrow> (case walk_line cells c (- fst d, - snd d) 0 of None \<Rightarrow> None | Some b \<Rightarrow> Some (1 + a + b)))"

fun best_run :: "cell set \<Rightarrow> (cell \<times> cell) list \<Rightarrow> nat \<Rightarrow> nat option" where
  "best_run cells [] best = Some best"
| "best_run cells ((c, d) # jobs) best = (case line_run cells c d of None \<Rightarrow> None
     | Some run \<Rightarrow> best_run cells jobs (if run > best then run else best))"

definition longest_straight_run :: "cell list \<Rightarrow> nat option" where
  "longest_straight_run stones = (if stones = [] then Some 0
     else best_run (set stones) (List.product (remdups stones) HEX_AXES) 0)"

section \<open>Components\<close>

text \<open>The stack's top is the head of the list.\<close>

fun visit :: "cell list \<Rightarrow> int \<Rightarrow> nat \<Rightarrow> nat list \<Rightarrow> bool list \<times> nat list \<Rightarrow> bool list \<times> nat list" where
  "visit pts threshold c [] acc = acc"
| "visit pts threshold c (j # js) (seen, stack) =
     visit pts threshold c js (if \<not> seen ! j \<and> axial_distance (pts ! c) (pts ! j) \<le> threshold
       then (seen[j := True], j # stack) else (seen, stack))"

text \<open>The indices not yet seen; each one pushed is marked, so the search ends.\<close>

definition unseen :: "bool list \<Rightarrow> nat set" where
  "unseen seen = {i. i < length seen \<and> \<not> seen ! i}"

lemma finite_unseen [simp]: "finite (unseen seen)"
  by (simp add: unseen_def)

lemma unseen_mark: "unseen (seen[j := True]) = unseen seen - {j}"
  by (cases "j < length seen") (auto simp: unseen_def nth_list_update)

lemma visit_spec:
  assumes "visit pts threshold c js (seen, stack) = (seen', stack')" "set js \<subseteq> {..<length seen}"
  shows "length seen' = length seen \<and>
    unseen seen' = unseen seen - {j \<in> set js. axial_distance (pts ! c) (pts ! j) \<le> threshold} \<and>
    set stack' = set stack \<union> (unseen seen \<inter> {j \<in> set js. axial_distance (pts ! c) (pts ! j) \<le> threshold}) \<and>
    length stack' + card (unseen seen') \<le> length stack + card (unseen seen)"
  using assms
proof (induction js arbitrary: seen stack)
  case (Cons j js)
  show ?case
  proof (cases "\<not> seen ! j \<and> axial_distance (pts ! c) (pts ! j) \<le> threshold")
    case True
    have j: "j \<in> unseen seen" using True Cons.prems(2) by (simp add: unseen_def)
    then have c: "card (unseen (seen[j := True])) + 1 = card (unseen seen)"
      using card_Suc_Diff1 [of "unseen seen" j] by (simp add: unseen_mark)
    from True Cons.prems have "visit pts threshold c js (seen[j := True], j # stack) = (seen', stack')" by simp
    from Cons.IH [OF this] Cons.prems(2) c j True show ?thesis by (auto simp: unseen_mark)
  next
    case False
    then have "visit pts threshold c js (seen, stack) = (seen', stack')" using Cons.prems(1) by auto
    from Cons.IH [OF this] Cons.prems(2) False show ?thesis by (auto simp: unseen_def)
  qed
qed simp

lemma search_measure:
  "visit pts threshold c [0..<length seen] (seen, stack) = (seen', stack') \<Longrightarrow>
   length stack' + card (unseen seen') < Suc (length stack + card (unseen seen))"
  by (drule visit_spec) auto

text \<open>\<open>range(n)\<close> is over the list \<open>seen\<close>, which has one entry per point.\<close>

function search :: "cell list \<Rightarrow> int \<Rightarrow> bool list \<Rightarrow> nat list \<Rightarrow> bool list" where
  "search pts threshold seen [] = seen"
| "search pts threshold seen (c # stack) = (case visit pts threshold c [0..<length seen] (seen, stack) of
     (seen', stack') \<Rightarrow> search pts threshold seen' stack')"
  by pat_completeness auto
termination by (relation "measure (\<lambda>(pts, threshold, seen, stack). length stack + card (unseen seen))") (auto split: prod.split dest: search_measure)

fun count_components :: "cell list \<Rightarrow> int \<Rightarrow> nat list \<Rightarrow> bool list \<Rightarrow> nat \<Rightarrow> nat" where
  "count_components pts threshold [] seen comps = comps"
| "count_components pts threshold (i # is) seen comps =
     (if seen ! i then count_components pts threshold is seen comps
      else count_components pts threshold is (search pts threshold (seen[i := True]) [i]) (Suc comps))"

definition components :: "cell list \<Rightarrow> int \<Rightarrow> nat" where
  "components stones threshold = (let pts = remdups stones; n = length pts
     in count_components pts threshold [0..<n] (replicate n False) 0)"

section \<open>The measures of a game\<close>

definition compute_longest_line :: "cell list \<Rightarrow> int \<Rightarrow> (nat \<times> real) option" where
  "compute_longest_line history winner_code = (if history = [] then Some (0, 0)
     else case split_players history of (p1, p2) \<Rightarrow>
       (case longest_straight_run p1 of None \<Rightarrow> None | Some ll_p1 \<Rightarrow>
       (case longest_straight_run p2 of None \<Rightarrow> None | Some ll_p2 \<Rightarrow>
         let (ll, stones) = (if winner_code = 1 then (ll_p1, length p1)
               else if winner_code = 2 then (ll_p2, length p2)
               else if ll_p2 \<le> ll_p1 then (ll_p1, length p1) else (ll_p2, length p2));
             ll = min WIN_LENGTH ll
         in Some (ll, real ll / real (max 1 stones)))))"

definition compute_n_components :: "cell list \<Rightarrow> int \<Rightarrow> int \<Rightarrow> nat" where
  "compute_n_components history threshold winner_code = (if history = [] then 0
     else case split_players history of (p1, p2) \<Rightarrow>
       if winner_code = 1 then components p1 threshold
       else if winner_code = 2 then components p2 threshold
       else max (components p1 threshold) (components p2 threshold))"

section \<open>Components are the classes of the nearness relation\<close>

definition near :: "cell set \<Rightarrow> int \<Rightarrow> (cell \<times> cell) set" where
  "near A threshold = {(p, q). p \<in> A \<and> q \<in> A \<and> axial_distance p q \<le> threshold}"

text \<open>The class of a stone under chains of near stones.\<close>

definition cluster :: "cell set \<Rightarrow> int \<Rightarrow> cell \<Rightarrow> cell set" where
  "cluster A threshold p = (near A threshold)\<^sup>* `` {p}"

lemma near_sym: "sym (near A threshold)"
  by (auto simp: near_def sym_def axial_sym)

lemma cluster_sub: "p \<in> A \<Longrightarrow> cluster A threshold p \<subseteq> A"
proof
  fix q assume "p \<in> A" "q \<in> cluster A threshold p"
  then have "(p, q) \<in> (near A threshold)\<^sup>*" by (simp add: cluster_def)
  then show "q \<in> A" by (induction) (use \<open>p \<in> A\<close> in \<open>auto simp: near_def\<close>)
qed

lemma cluster_eq: "q \<in> cluster A threshold p \<Longrightarrow> cluster A threshold q = cluster A threshold p"
  unfolding cluster_def using sym_rtrancl [OF near_sym, of A threshold]
  by (auto intro: rtrancl_trans dest: symD)

text \<open>
  What the search keeps: it only marks indices, every marked index off the stack has its near neighbours
  marked, and what it marks is near something already marked.
\<close>

definition near_idx :: "cell list \<Rightarrow> int \<Rightarrow> nat \<Rightarrow> nat \<Rightarrow> bool" where
  "near_idx pts threshold i j \<longleftrightarrow> axial_distance (pts ! i) (pts ! j) \<le> threshold"

definition marked :: "bool list \<Rightarrow> nat set" where
  "marked seen = {i. i < length seen \<and> seen ! i}"

definition search_settled :: "cell list \<Rightarrow> int \<Rightarrow> bool list \<Rightarrow> nat set \<Rightarrow> bool" where
  "search_settled pts threshold seen pending \<longleftrightarrow> (\<forall>i \<in> marked seen - pending. \<forall>j < length seen. near_idx pts threshold i j \<longrightarrow> j \<in> marked seen)"

lemma marked_unseen: "marked seen = {..<length seen} - unseen seen"
  by (auto simp: marked_def unseen_def)

lemma visit_marks:
  assumes "visit pts threshold c [0..<length seen] (seen, stack) = (seen', stack')" "c < length seen" "c \<in> marked seen"
  shows "length seen' = length seen"
    "marked seen' = marked seen \<union> {j. j < length seen \<and> near_idx pts threshold c j}"
    "set stack' = set stack \<union> (marked seen' - marked seen)"
proof -
  have sub: "set [0..<length seen] \<subseteq> {..<length seen}" by auto
  note v = visit_spec [OF assms(1) sub]
  then show l: "length seen' = length seen" by simp
  show m: "marked seen' = marked seen \<union> {j. j < length seen \<and> near_idx pts threshold c j}"
    using v by (auto simp: marked_unseen near_idx_def)
  show "set stack' = set stack \<union> (marked seen' - marked seen)"
    using v l by (auto simp: marked_unseen unseen_def near_idx_def)
qed

lemma search_spec:
  assumes "length seen = length pts" "set stack \<subseteq> marked seen" "search_settled pts threshold seen (set stack)"
    and "marked seen \<subseteq> R" "\<And>i j. i \<in> R \<Longrightarrow> i < length pts \<Longrightarrow> j < length pts \<Longrightarrow> near_idx pts threshold i j \<Longrightarrow> j \<in> R"
  shows "length (search pts threshold seen stack) = length pts \<and> marked seen \<subseteq> marked (search pts threshold seen stack) \<and>
    search_settled pts threshold (search pts threshold seen stack) {} \<and> marked (search pts threshold seen stack) \<subseteq> R"
  using assms
proof (induction pts threshold seen stack rule: search.induct)
  case (1 pts threshold seen)
  then show ?case by simp
next
  case (2 pts threshold seen c stack)
  obtain seen' stack' where v: "visit pts threshold c [0..<length seen] (seen, stack) = (seen', stack')"
    by (cases "visit pts threshold c [0..<length seen] (seen, stack)")
  have c: "c < length seen" "c \<in> marked seen" using "2.prems"(2) by (auto simp: marked_def)
  note m = visit_marks [OF v c]
  have "set stack' \<subseteq> marked seen'" using m "2.prems"(2) by auto
  moreover have "search_settled pts threshold seen' (set stack')"
    unfolding search_settled_def
  proof (intro ballI allI impI)
    fix i j assume i: "i \<in> marked seen' - set stack'" and j: "j < length seen'" "near_idx pts threshold i j"
    have "i \<in> marked seen" "i \<notin> set stack" using m(3) i by auto
    show "j \<in> marked seen'"
    proof (cases "i = c")
      case True
      then show ?thesis using j m(1,2) by simp
    next
      case False
      then have "i \<in> marked seen - set (c # stack)" using \<open>i \<in> marked seen\<close> \<open>i \<notin> set stack\<close> by simp
      then have "j \<in> marked seen" using "2.prems"(3) j m(1) unfolding search_settled_def by metis
      then show ?thesis using m(2) by simp
    qed
  qed
  moreover have "marked seen' \<subseteq> R" using m(2) "2.prems"(1,4,5) c by auto
  ultimately have "length (search pts threshold seen' stack') = length pts \<and> marked seen' \<subseteq> marked (search pts threshold seen' stack') \<and>
      search_settled pts threshold (search pts threshold seen' stack') {} \<and> marked (search pts threshold seen' stack') \<subseteq> R"
    using "2.IH" [OF v [symmetric]] m(1) "2.prems"(1,5) by auto
  then show ?case using v m(2) by auto
qed

definition closed_idx :: "cell list \<Rightarrow> int \<Rightarrow> nat set \<Rightarrow> bool" where
  "closed_idx pts threshold S \<longleftrightarrow> (\<forall>i \<in> S. \<forall>j < length pts. near_idx pts threshold i j \<longrightarrow> j \<in> S)"

lemma cluster_least:
  assumes "closed_idx pts threshold S" "i \<in> S" "i < length pts" "q \<in> cluster (set pts) threshold (pts ! i)"
  shows "\<exists>j \<in> S. j < length pts \<and> pts ! j = q"
proof -
  from assms(4) have "(pts ! i, q) \<in> (near (set pts) threshold)\<^sup>*" by (simp add: cluster_def)
  then show ?thesis
  proof induction
    case base
    then show ?case using assms(2,3) by blast
  next
    case (step p q)
    then obtain j where j: "j \<in> S" "j < length pts" "pts ! j = p" by blast
    from step.hyps(2) obtain k where k: "k < length pts" "pts ! k = q" "near_idx pts threshold j k"
      by (auto simp: near_def near_idx_def in_set_conv_nth j(3))
    then have "k \<in> S" using assms(1) j unfolding closed_idx_def by blast
    then show ?case using k by blast
  qed
qed

lemma cluster_closed:
  "closed_idx pts threshold {j. j < length pts \<and> pts ! j \<in> cluster (set pts) threshold p}"
  unfolding closed_idx_def cluster_def
  by (auto simp: near_idx_def near_def intro: rtrancl_into_rtrancl)

lemma search_marks:
  assumes "distinct pts" "length seen = length pts" "closed_idx pts threshold (marked seen)" "i < length pts" "i \<notin> marked seen"
  shows "length (search pts threshold (seen[i := True]) [i]) = length pts"
    "marked (search pts threshold (seen[i := True]) [i]) = marked seen \<union> {j. j < length pts \<and> pts ! j \<in> cluster (set pts) threshold (pts ! i)}"
    "closed_idx pts threshold (marked (search pts threshold (seen[i := True]) [i]))"
proof -
  let ?C = "{j. j < length pts \<and> pts ! j \<in> cluster (set pts) threshold (pts ! i)}"
  let ?seen = "seen[i := True]" and ?s = "search pts threshold (seen[i := True]) [i]"
  have m: "marked ?seen = insert i (marked seen)" using assms(2,4) by (auto simp: marked_def nth_list_update)
  have i: "i \<in> ?C" using assms(4) by (simp add: cluster_def)
  have "search_settled pts threshold ?seen (set [i])"
    using assms(2,3,5) m unfolding search_settled_def closed_idx_def by auto
  moreover have "closed_idx pts threshold (marked seen \<union> ?C)"
    using assms(3) cluster_closed [of pts threshold "pts ! i"] unfolding closed_idx_def by blast
  ultimately have s: "length ?s = length pts" "marked ?seen \<subseteq> marked ?s" "search_settled pts threshold ?s {}" "marked ?s \<subseteq> marked seen \<union> ?C"
    using search_spec [of ?seen pts "[i]" threshold "marked seen \<union> ?C"] m i assms(2)
    unfolding closed_idx_def by auto
  then show l: "length ?s = length pts" and c: "closed_idx pts threshold (marked ?s)"
    by (auto simp: search_settled_def closed_idx_def)
  have "?C \<subseteq> marked ?s"
  proof
    fix j assume j: "j \<in> ?C"
    have "i \<in> marked ?s" using s(2) m by auto
    from cluster_least [OF c this assms(4), of "pts ! j"] j obtain k where "k \<in> marked ?s" "k < length pts" "pts ! k = pts ! j" by auto
    then show "j \<in> marked ?s" using j assms(1) by (simp add: nth_eq_iff_index_eq)
  qed
  then show "marked ?s = marked seen \<union> ?C" using s m by auto
qed

lemma count_spec:
  assumes "distinct pts" "length seen = length pts" "closed_idx pts threshold (marked seen)" "k \<le> length pts"
  shows "count_components pts threshold [k..<length pts] seen comps =
    comps + card (cluster (set pts) threshold ` {pts ! i | i. k \<le> i \<and> i < length pts \<and> i \<notin> marked seen})"
  using assms
proof (induction "length pts - k" arbitrary: k seen comps)
  case 0
  then have "{pts ! i | i. k \<le> i \<and> i < length pts \<and> i \<notin> marked seen} = {}" by auto
  then show ?case using 0 by simp
next
  case (Suc d)
  let ?K = "cluster (set pts) threshold"
  have k: "k < length pts" and up: "[k..<length pts] = k # [Suc k..<length pts]" using Suc by (auto simp: upt_conv_Cons)
  show ?case
  proof (cases "seen ! k")
    case True
    then have "{pts ! i | i. k \<le> i \<and> i < length pts \<and> i \<notin> marked seen} = {pts ! i | i. Suc k \<le> i \<and> i < length pts \<and> i \<notin> marked seen}"
      using Suc.prems(2) k by (auto simp: marked_def) (metis Suc_leI le_neq_implies_less)
    then show ?thesis using Suc.hyps(1) [of "Suc k" seen comps] Suc.hyps(2) Suc.prems True up k by simp
  next
    case False
    let ?s = "search pts threshold (seen[k := True]) [k]"
    let ?J = "\<lambda>k seen. {pts ! i | i. k \<le> i \<and> i < length pts \<and> i \<notin> marked seen}"
    have "k \<notin> marked seen" using False by (simp add: marked_def)
    note s = search_marks [OF Suc.prems(1-3) k this]
    have IH: "count_components pts threshold [k..<length pts] seen comps = Suc comps + card (?K ` ?J (Suc k) ?s)"
      using Suc.hyps(1) [of "Suc k" ?s "Suc comps"] Suc.hyps(2) Suc.prems(1) s False up k by simp
    have img: "?K ` ?J k seen = insert (?K (pts ! k)) (?K ` ?J (Suc k) ?s)"
    proof (intro equalityI subsetI)
      fix C assume "C \<in> ?K ` ?J k seen"
      then obtain i where i: "k \<le> i" "i < length pts" "i \<notin> marked seen" "C = ?K (pts ! i)" by auto
      show "C \<in> insert (?K (pts ! k)) (?K ` ?J (Suc k) ?s)"
      proof (cases "pts ! i \<in> ?K (pts ! k)")
        case True
        then show ?thesis using cluster_eq i(4) by auto
      next
        case False
        moreover have "pts ! k \<in> ?K (pts ! k)" by (simp add: cluster_def)
        ultimately have "i \<noteq> k" "i \<notin> marked ?s" using i s(2) by auto
        then show ?thesis using i by (auto intro!: image_eqI [where x = "pts ! i"])
      qed
    next
      fix C assume "C \<in> insert (?K (pts ! k)) (?K ` ?J (Suc k) ?s)"
      then show "C \<in> ?K ` ?J k seen" using \<open>k \<notin> marked seen\<close> k s(2) by (auto intro!: imageI)
    qed
    have "?K (pts ! k) \<notin> ?K ` ?J (Suc k) ?s"
    proof
      assume "?K (pts ! k) \<in> ?K ` ?J (Suc k) ?s"
      then obtain i where i: "i < length pts" "i \<notin> marked ?s" "?K (pts ! k) = ?K (pts ! i)" by auto
      then have "pts ! i \<in> ?K (pts ! k)" by (simp add: cluster_def)
      then show False using i s(2) by auto
    qed
    then have "card (?K ` ?J k seen) = Suc (card (?K ` ?J (Suc k) ?s))" unfolding img by (intro card_insert_disjoint) auto
    then show ?thesis using IH by simp
  qed
qed

lemma components_card: "components stones threshold = card (cluster (set stones) threshold ` set stones)"
proof -
  let ?pts = "remdups stones"
  have m: "marked (replicate (length ?pts) False) = {}" by (auto simp: marked_def)
  have "{?pts ! i | i. 0 \<le> i \<and> i < length ?pts \<and> i \<notin> {}} = set stones"
    using set_conv_nth [of ?pts] by simp
  then show ?thesis
    using count_spec [of ?pts "replicate (length ?pts) False" threshold 0 0] by (simp add: components_def Let_def m closed_idx_def)
qed

section \<open>The longest run is the longest line of stones\<close>

definition along :: "cell \<Rightarrow> cell \<Rightarrow> int \<Rightarrow> cell" where
  "along p d j = (fst p + j * fst d, snd p + j * snd d)"

definition has_line :: "cell set \<Rightarrow> nat \<Rightarrow> bool" where
  "has_line A k \<longleftrightarrow> k = 0 \<or> (\<exists>p. \<exists>d \<in> set HEX_AXES. \<forall>j < k. along p d (int j) \<in> A)"

lemma along_along: "along (along p d i) d j = along p d (i + j)"
  by (simp add: along_def algebra_simps)

lemma along_0 [simp]: "along p d 0 = p"
  by (simp add: along_def)

lemma along_inj: "d \<noteq> (0, 0) \<Longrightarrow> along p d i = along p d j \<longleftrightarrow> i = j"
  by (cases d) (auto simp: along_def)

lemma walk_step: "walk_line A c d n = (if along c d 1 \<notin> A then Some n else walk_line A (along c d 1) d (Suc n))"
  by (subst walk_line.simps) (simp add: along_def Let_def)

lemma first_gap:
  assumes "finite A" "d \<noteq> (0, 0)"
  shows "\<exists>m. (\<forall>j \<in> {1..m}. along c d (int j) \<in> A) \<and> along c d (int m + 1) \<notin> A"
proof -
  have "\<not> range (\<lambda>j. along c d (int (Suc j))) \<subseteq> A"
  proof
    assume "range (\<lambda>j. along c d (int (Suc j))) \<subseteq> A"
    then have "finite (range (\<lambda>j. along c d (int (Suc j))))" using assms(1) finite_subset by blast
    moreover have "inj (\<lambda>j. along c d (int (Suc j)))" by (rule injI) (simp add: along_inj [OF assms(2)])
    ultimately show False using finite_imageD by blast
  qed
  then obtain k where "along c d (int (Suc k)) \<notin> A" by blast
  then have ex: "\<exists>m. along c d (int m + 1) \<notin> A" by (intro exI [of _ k]) (simp add: add.commute)
  define m where "m = (LEAST m. along c d (int m + 1) \<notin> A)"
  have "along c d (int m + 1) \<notin> A" unfolding m_def by (rule LeastI_ex [OF ex])
  moreover have "along c d (int j) \<in> A" if "j \<in> {1..m}" for j
    using not_less_Least [of "j - 1" "\<lambda>m. along c d (int m + 1) \<notin> A"] that unfolding m_def by (auto simp: of_nat_diff)
  ultimately show ?thesis by blast
qed

lemma walk_to_gap:
  "(\<forall>j \<in> {1..m}. along c d (int j) \<in> A) \<Longrightarrow> along c d (int m + 1) \<notin> A \<Longrightarrow> walk_line A c d n = Some (n + m)"
proof (induction m arbitrary: c n)
  case 0
  then show ?case by (subst walk_step) simp
next
  case (Suc m)
  have 1: "along c d 1 \<in> A" using Suc.prems(1) by (auto dest: bspec [of _ _ 1])
  have "\<forall>j \<in> {1..m}. along (along c d 1) d (int j) \<in> A"
  proof
    fix j assume "j \<in> {1..m}"
    then have "Suc j \<in> {1..Suc m}" by auto
    then have "along c d (int (Suc j)) \<in> A" using Suc.prems(1) by blast
    then show "along (along c d 1) d (int j) \<in> A" by (simp add: along_along add.commute)
  qed
  moreover have "along (along c d 1) d (int m + 1) \<notin> A" using Suc.prems(2) by (simp add: along_along add.commute add.left_commute)
  ultimately have "walk_line A (along c d 1) d (Suc n) = Some (Suc n + m)" by (rule Suc.IH)
  then show ?case using 1 by (subst walk_step) simp
qed

text \<open>A line through \<open>c\<close> lies between the two gaps its run stops at.\<close>

lemma run_spec:
  assumes "finite A" "c \<in> A" "d \<in> set HEX_AXES"
  shows "\<exists>n. line_run A c d = Some n \<and> 0 < n \<and> has_line A n \<and>
    (\<forall>p k i. i < k \<longrightarrow> along p d (int i) = c \<longrightarrow> (\<forall>j < k. along p d (int j) \<in> A) \<longrightarrow> k \<le> n)"
proof -
  have d: "d \<noteq> (0, 0)" "(- fst d, - snd d) \<noteq> (0, 0)" using assms(3) by (auto simp: HEX_AXES_def)
  have neg: "along c (- fst d, - snd d) j = along c d (- j)" for j by (simp add: along_def)
  obtain a where a: "\<forall>j \<in> {1..a}. along c d (int j) \<in> A" "along c d (int a + 1) \<notin> A" using first_gap [OF assms(1) d(1)] by blast
  obtain b where b: "\<forall>j \<in> {1..b}. along c d (- int j) \<in> A" "along c d (- int b - 1) \<notin> A"
    using first_gap [OF assms(1) d(2), of c] unfolding neg by auto
  have run: "line_run A c d = Some (1 + a + b)"
    using walk_to_gap [OF a, of 0] walk_to_gap [of b c "(- fst d, - snd d)" A 0] b by (simp add: line_run_def neg)
  have "\<forall>j < 1 + a + b. along (along c d (- int b)) d (int j) \<in> A"
  proof (intro allI impI)
    fix j assume j: "j < 1 + a + b"
    consider "j < b" | "j = b" | "b < j" by linarith
    then show "along (along c d (- int b)) d (int j) \<in> A"
    proof cases
      case 1
      then have "along c d (- int (b - j)) \<in> A" using b(1) by (auto dest: bspec [of _ _ "b - j"])
      then show ?thesis using 1 by (simp add: along_along of_nat_diff)
    next
      case 3
      then have "j - b \<in> {1..a}" using j by auto
      then have "along c d (int (j - b)) \<in> A" using a(1) by blast
      then show ?thesis using 3 by (simp add: along_along of_nat_diff)
    qed (simp add: along_along assms(2))
  qed
  then have line: "has_line A (1 + a + b)" unfolding has_line_def using assms(3) by blast
  have "k \<le> 1 + a + b" if h: "i < k" "along p d (int i) = c" "\<forall>j < k. along p d (int j) \<in> A" for p k i
  proof -
    have off: "along c d x = along p d (int i + x)" for x using h(2) along_along by metis
    have "i \<le> b"
    proof (rule ccontr)
      assume "\<not> i \<le> b"
      have "i - Suc b < k" using h(1) by linarith
      then have "along p d (int (i - Suc b)) \<in> A" using h(3) by blast
      then show False using b(2) off [of "- int b - 1"] \<open>\<not> i \<le> b\<close> by (simp add: of_nat_diff algebra_simps)
    qed
    moreover have "k - Suc i \<le> a"
    proof (rule ccontr)
      assume "\<not> k - Suc i \<le> a"
      then have "i + Suc a < k" by linarith
      then have "along p d (int (i + Suc a)) \<in> A" using h(3) by blast
      then show False using a(2) off [of "int a + 1"] by (simp add: algebra_simps)
    qed
    ultimately show ?thesis by linarith
  qed
  with run line show ?thesis by auto
qed

lemma best_run_spec:
  assumes "finite A" "\<forall>(c, d) \<in> set jobs. c \<in> A \<and> d \<in> set HEX_AXES"
  shows "\<exists>n. best_run A jobs best = Some n \<and> best \<le> n \<and> (n = best \<or> has_line A n) \<and>
    (\<forall>(c, d) \<in> set jobs. \<forall>r. line_run A c d = Some r \<longrightarrow> r \<le> n)"
  using assms(2)
proof (induction jobs arbitrary: best)
  case Nil
  then show ?case by simp
next
  case (Cons job jobs)
  obtain c d where job: "job = (c, d)" by (cases job)
  then obtain r where r: "line_run A c d = Some r" "has_line A r" using run_spec [OF assms(1), of c d] Cons.prems by auto
  let ?best = "if r > best then r else best"
  from Cons.IH [of ?best] Cons.prems obtain n where
    n: "best_run A jobs ?best = Some n" "?best \<le> n" "n = ?best \<or> has_line A n"
      "\<forall>(c, d) \<in> set jobs. \<forall>r. line_run A c d = Some r \<longrightarrow> r \<le> n" by auto
  have "best_run A (job # jobs) best = Some n" using n(1) r(1) job by simp
  moreover have "best \<le> n" "r \<le> n" using n(2) by (simp_all split: if_splits)
  moreover have "n = best \<or> has_line A n" using n(3) r(2) by (auto split: if_splits)
  ultimately show ?case using n(4) r(1) job by (intro exI [of _ n]) auto
qed

lemma longest_run_line:
  "\<exists>n. longest_straight_run stones = Some n \<and> has_line (set stones) n \<and> (\<forall>k. has_line (set stones) k \<longrightarrow> k \<le> n)"
proof (cases "stones = []")
  case True
  then show ?thesis by (auto simp: longest_straight_run_def has_line_def)
next
  case False
  let ?A = "set stones" and ?jobs = "List.product (remdups stones) HEX_AXES"
  from best_run_spec [of ?A ?jobs 0] obtain n where
    n: "best_run ?A ?jobs 0 = Some n" "n = 0 \<or> has_line ?A n"
      "\<And>c d r. c \<in> ?A \<Longrightarrow> d \<in> set HEX_AXES \<Longrightarrow> line_run ?A c d = Some r \<Longrightarrow> r \<le> n" by auto
  have "k \<le> n" if k: "has_line ?A k" for k
  proof (cases k)
    case (Suc k')
    then obtain p d where p: "d \<in> set HEX_AXES" "\<forall>j < k. along p d (int j) \<in> ?A" using k by (auto simp: has_line_def)
    then have "p \<in> ?A" using Suc by (auto dest: spec [of _ 0])
    from run_spec [OF _ this p(1)] obtain r where r: "line_run ?A p d = Some r"
      "\<And>q k i. i < k \<Longrightarrow> along q d (int i) = p \<Longrightarrow> \<forall>j < k. along q d (int j) \<in> ?A \<Longrightarrow> k \<le> r" by auto
    from r(2) [of 0 k p] Suc p(2) have "k \<le> r" by simp
    then show ?thesis using n(3) [OF \<open>p \<in> ?A\<close> p(1) r(1)] by simp
  qed simp
  with n False show ?thesis by (auto simp: longest_straight_run_def has_line_def)
qed

section \<open>Properties\<close>

text \<open>C25: The structural measures of a game are what they are named for: \<open>_components\<close> counts the classes of the
  stones under chains of steps no longer than the threshold, a number that does not depend on the order in which
  the set is iterated, and \<open>_longest_straight_run\<close> always ends and returns the length of the longest line of
  consecutive stones along an axis.\<close>

theorem shape_measures_exact:
  "components stones threshold = card (cluster (set stones) threshold ` set stones) \<and>
   longest_straight_run stones = Some (Max {k. has_line (set stones) k})"
proof
  show "components stones threshold = card (cluster (set stones) threshold ` set stones)" by (rule components_card)
  from longest_run_line [of stones] obtain n where
    n: "longest_straight_run stones = Some n" "has_line (set stones) n" "\<forall>k. has_line (set stones) k \<longrightarrow> k \<le> n" by blast
  have "Max {k. has_line (set stones) k} = n"
  proof (rule Max_eqI)
    show "finite {k. has_line (set stones) k}" by (rule finite_subset [of _ "{..n}"]) (use n(3) in auto)
  qed (use n in auto)
  with n(1) show "longest_straight_run stones = Some (Max {k. has_line (set stones) k})" by simp
qed

text \<open>The two attributions of stones to players, here and in the axis distribution, are the same rule.\<close>

lemma split_from_rule:
  "split_from n cs = (map snd (filter (\<lambda>(ply, c). ply_is_p1 ply) (enumerate n cs)),
     map snd (filter (\<lambda>(ply, c). \<not> ply_is_p1 ply) (enumerate n cs)))"
  by (induction cs arbitrary: n) (simp_all add: ply_is_p1_def)

end
