(* ===== verification/Telemetry.thy ===== *)
theory Telemetry
  imports Game_Shape Rules
begin

text \<open>
  \<open>PoolInstrumentation\<close> of \<open>src/mantis/selfplay/instrumentation.py\<close>: what the self-play pool remembers of the
  games it has completed, in bounded windows, and the readings the coordinator's gates and the event stream
  take of it. Every operation runs under the pool's lock, so it is one step. A percentile index
  \<open>int(n * 0.9)\<close> is the floor of the exact product. \<open>spearmanr\<close> is the argument \<open>rho\<close>, which answers
  \<open>None\<close> when scipy is absent, refuses its input or gives no number.
\<close>

definition DRAW_RATE_WINDOW :: nat where "DRAW_RATE_WINDOW = 50"
definition PLY_CAP_RING_GAMES :: nat where "PLY_CAP_RING_GAMES = 4096"
definition PLY_CAP_TERMINAL_CODE :: int where "PLY_CAP_TERMINAL_CODE = 2"

text \<open>\<open>deque(maxlen=n).append(x)\<close>\<close>

definition push :: "nat \<Rightarrow> 'a list \<Rightarrow> 'a \<Rightarrow> 'a list" where
  "push n xs x = last_n n (xs @ [x])"

record telemetry =
  tm_recent :: "cell list list"
  tm_draws :: "(int, nat list) dict"
  tm_terminal :: "(int, nat) dict"
  tm_caps :: "nat list"
  tm_versions :: "(int \<times> int \<times> int \<times> int \<times> int) list"
  tm_stride5 :: "nat list"

definition telemetry_init :: telemetry where
  "telemetry_init = \<lparr>tm_recent = [], tm_draws = [], tm_terminal = [(0, 0), (1, 0), (2, 0), (3, 0)], tm_caps = [],
     tm_versions = [], tm_stride5 = []\<rparr>"

record finished =
  fg_winner :: int
  fg_moves :: "cell list"
  fg_worker :: int
  fg_terminal :: int
  fg_versions :: "int \<times> int \<times> int"
  fg_stride5 :: nat

record shape =
  sp_ext_count :: "nat option"
  sp_ext_total :: "nat option"
  sp_ext_frac :: "real option"
  sp_stride5_p90 :: nat
  sp_longest_line :: "nat option"
  sp_longest_line_frac :: "real option"
  sp_n_components :: "nat option"

definition p90_index :: "nat \<Rightarrow> nat" where
  "p90_index n = nat \<lfloor>real n * (9 / 10)\<rfloor> - 1"

definition p90 :: "nat list \<Rightarrow> nat" where
  "p90 xs = (if xs = [] then 0 else sort xs ! p90_index (length xs))"

definition note_game :: "finished \<Rightarrow> telemetry \<Rightarrow> telemetry" where
  "note_game g t =
     (let worker = fg_worker g; code = fg_terminal g; (mv_min, mv_max, mv_distinct) = fg_versions g
      in t\<lparr>tm_recent := (if fg_moves g = [] then tm_recent t else push 100 (tm_recent t) (fg_moves g)),
           tm_terminal := AList.update code (dget (tm_terminal t) code 0 + 1) (tm_terminal t),
           tm_caps := push PLY_CAP_RING_GAMES (tm_caps t) (if code = PLY_CAP_TERMINAL_CODE then 1 else 0),
           tm_draws := AList.update worker
             (push DRAW_RATE_WINDOW (dget (tm_draws t) worker []) (if fg_winner g = 0 then 1 else 0)) (tm_draws t),
           tm_versions := push 200 (tm_versions t) (mv_min, mv_max, mv_distinct, code, fg_winner g),
           tm_stride5 := push 50 (tm_stride5 t) (fg_stride5 g)\<rparr>)"

definition on_game_complete :: "bool \<Rightarrow> int \<Rightarrow> finished \<Rightarrow> telemetry \<Rightarrow> shape option \<times> telemetry" where
  "on_game_complete log_metrics threshold g t =
     (let t' = note_game g t; high = p90 (tm_stride5 t')
      in if \<not> log_metrics \<or> fg_moves g = []
         then (Some \<lparr>sp_ext_count = None, sp_ext_total = None, sp_ext_frac = None, sp_stride5_p90 = high,
                 sp_longest_line = None, sp_longest_line_frac = None, sp_n_components = None\<rparr>, t')
         else (case compute_longest_line (fg_moves g) (fg_winner g) of None \<Rightarrow> (None, t')
           | Some (ll, ll_share) \<Rightarrow> let (ext, total_ext) = compute_colony_extension (fg_moves g) in
               (Some \<lparr>sp_ext_count = Some ext, sp_ext_total = Some total_ext,
                  sp_ext_frac = Some (if total_ext > 0 then real ext / real total_ext else 0), sp_stride5_p90 = high,
                  sp_longest_line = Some ll, sp_longest_line_frac = Some ll_share,
                  sp_n_components = Some (compute_n_components (fg_moves g) threshold (fg_winner g))\<rparr>, t')))"

definition current_stride5_p90 :: "telemetry \<Rightarrow> nat" where
  "current_stride5_p90 t = p90 (tm_stride5 t)"

definition pooled_draw_counts :: "telemetry \<Rightarrow> nat \<times> nat" where
  "pooled_draw_counts t = (sum_list (map (sum_list \<circ> snd) (tm_draws t)), sum_list (map (length \<circ> snd) (tm_draws t)))"

definition ply_cap_window_counts :: "telemetry \<Rightarrow> int \<Rightarrow> nat \<times> nat" where
  "ply_cap_window_counts t window_games =
     (let window = (if window_games > 0 then last_n (nat window_games) (tm_caps t) else [])
      in (sum_list window, length window))"

definition terminal_reason_counts :: "telemetry \<Rightarrow> (string, nat) dict" where
  "terminal_reason_counts t = [(''six_in_a_row'', dget (tm_terminal t) 0 0), (''colony'', dget (tm_terminal t) 1 0),
     (''ply_cap'', dget (tm_terminal t) 2 0), (''other_draw'', dget (tm_terminal t) 3 0)]"

record version_summary =
  vs_median_range :: int
  vs_p90_range :: int
  vs_max_range :: int
  vs_median_distinct :: int
  vs_rho :: "real option"

definition model_version_summary ::
  "(int list \<Rightarrow> nat list \<Rightarrow> real option) \<Rightarrow> telemetry \<Rightarrow> nat \<times> version_summary option" where
  "model_version_summary rho t =
     (let hist = tm_versions t; n = length hist;
          ranges = map (\<lambda>(a, b, _). b - a) hist; distincts = map (\<lambda>(_, _, d, _). d) hist;
          draws = map (\<lambda>(_, _, _, _, wc). if wc = 0 then 1 else 0) hist
      in (n, if n = 0 then None else Some
        \<lparr>vs_median_range = sort ranges ! (n div 2), vs_p90_range = sort ranges ! p90_index n,
         vs_max_range = last (sort ranges), vs_median_distinct = sort distincts ! (n div 2),
         vs_rho = (if n < 10 then None else rho ranges draws)\<rparr>))"

definition recent_move_histories :: "telemetry \<Rightarrow> cell list list" where
  "recent_move_histories t = tm_recent t"

section \<open>The windows are the tails of the whole history\<close>

lemma push_last_n: "0 < n \<Longrightarrow> push n (last_n n xs) x = last_n n (xs @ [x])"
  by (simp add: push_def last_n_snoc last_n_last_n)

definition note_games :: "finished list \<Rightarrow> telemetry" where
  "note_games gs = fold note_game gs telemetry_init"

lemma note_games_snoc: "note_games (gs @ [g]) = note_game g (note_games gs)"
  by (simp add: note_games_def)

lemma note_fields:
  "tm_caps (note_game g t) = push PLY_CAP_RING_GAMES (tm_caps t) (if fg_terminal g = PLY_CAP_TERMINAL_CODE then 1 else 0)"
  "tm_draws (note_game g t) = AList.update (fg_worker g)
     (push DRAW_RATE_WINDOW (dget (tm_draws t) (fg_worker g) []) (if fg_winner g = 0 then 1 else 0)) (tm_draws t)"
  "tm_terminal (note_game g t) = AList.update (fg_terminal g) (dget (tm_terminal t) (fg_terminal g) 0 + 1) (tm_terminal t)"
  by (simp_all add: note_game_def Let_def split: prod.split)

definition outcomes :: "int \<Rightarrow> finished list \<Rightarrow> nat list" where
  "outcomes w gs = map (\<lambda>g. if fg_winner g = 0 then 1 else 0) (filter (\<lambda>g. fg_worker g = w) gs)"

definition cap_flags :: "finished list \<Rightarrow> nat list" where
  "cap_flags gs = map (\<lambda>g. if fg_terminal g = PLY_CAP_TERMINAL_CODE then 1 else 0) gs"

lemma caps_tail: "tm_caps (note_games gs) = last_n PLY_CAP_RING_GAMES (cap_flags gs)"
proof (induction gs rule: rev_induct)
  case (snoc g gs)
  then show ?case
    by (simp add: note_games_snoc note_fields cap_flags_def push_last_n PLY_CAP_RING_GAMES_def)
qed (simp add: note_games_def telemetry_init_def cap_flags_def last_n_def)

lemma draws_tail:
  "map_of (tm_draws (note_games gs)) w = (if w \<in> fg_worker ` set gs then Some (last_n DRAW_RATE_WINDOW (outcomes w gs)) else None)"
proof (induction gs arbitrary: w rule: rev_induct)
  case (snoc g gs)
  have push: "push DRAW_RATE_WINDOW (last_n DRAW_RATE_WINDOW xs) x = last_n DRAW_RATE_WINDOW (xs @ [x])" for xs :: "nat list" and x
    by (simp add: push_last_n DRAW_RATE_WINDOW_def)
  have none: "fg_worker g \<notin> fg_worker ` set gs \<Longrightarrow> outcomes (fg_worker g) gs = []"
    by (simp add: outcomes_def filter_empty_conv image_iff) metis
  have window: "dget (tm_draws (note_games gs)) (fg_worker g) [] = last_n DRAW_RATE_WINDOW (outcomes (fg_worker g) gs)"
    using snoc.IH [of "fg_worker g"] none by (simp add: dget_def last_n_def)
  have "tm_draws (note_games (gs @ [g])) = AList.update (fg_worker g)
      (last_n DRAW_RATE_WINDOW (outcomes (fg_worker g) (gs @ [g]))) (tm_draws (note_games gs))"
    by (simp add: note_games_snoc note_fields window push outcomes_def)
  then show ?case using snoc.IH [of w] by (auto simp: update_conv' outcomes_def)
qed (simp add: note_games_def telemetry_init_def)

lemma draws_keys: "distinct (map fst (tm_draws (note_games gs)))"
proof (induction gs rule: rev_induct)
  case (snoc g gs)
  then show ?case by (simp add: note_games_snoc note_fields distinct_update)
qed (simp add: note_games_def telemetry_init_def)

lemma sum_dict: "distinct (map fst d) \<Longrightarrow> sum_list (map (f \<circ> snd) d) = (\<Sum>k \<in> dkeys d. f (the (map_of d k)))"
proof (induction d)
  case (Cons p d)
  then have "fst p \<notin> dkeys d" by (simp add: dkeys_def)
  moreover have "(\<Sum>k \<in> dkeys d. f (the (map_of (p # d) k))) = (\<Sum>k \<in> dkeys d. f (the (map_of d k)))"
    using \<open>fst p \<notin> dkeys d\<close> by (intro sum.cong) auto
  moreover have "finite (dkeys d)" by (simp add: dkeys_def)
  ultimately show ?case using Cons by (cases p) simp
qed simp

lemma terminal_tail:
  "dget (tm_terminal (note_games gs)) c 0 = length (filter (\<lambda>g. fg_terminal g = c) gs)"
proof (induction gs rule: rev_induct)
  case Nil
  show ?case by (simp add: note_games_def telemetry_init_def dget_def)
next
  case (snoc g gs)
  then show ?case by (simp add: note_games_snoc note_fields)
qed

lemma pooled_sums:
  "pooled_draw_counts (note_games gs) =
     (\<Sum>w \<in> fg_worker ` set gs. sum_list (last_n DRAW_RATE_WINDOW (outcomes w gs)),
      \<Sum>w \<in> fg_worker ` set gs. min DRAW_RATE_WINDOW (length (outcomes w gs)))"
proof -
  let ?d = "tm_draws (note_games gs)"
  have keys: "dkeys ?d = fg_worker ` set gs"
    using map_of_None_dkeys [of ?d] draws_tail [of gs] by (metis (no_types, lifting) option.distinct(1) subsetI subset_antisym)
  have "sum_list (map (f \<circ> snd) ?d) = (\<Sum>w \<in> fg_worker ` set gs. f (last_n DRAW_RATE_WINDOW (outcomes w gs)))" for f :: "nat list \<Rightarrow> nat"
    unfolding sum_dict [OF draws_keys] keys by (intro sum.cong) (simp_all add: draws_tail)
  then show ?thesis by (simp add: pooled_draw_counts_def)
qed

lemma last_n_min: "last_n (min m n) xs = last_n m (last_n n xs)"
  by (cases "m \<le> n") (simp_all add: last_n_last_n, simp add: last_n_def)

text \<open>C23: The pool's windows refine the whole history of completed games: the pooled draw counts the draw-rate
  gate reads are, summed over the workers, the draws among each worker's last 50 games and the number of
  those games, so their evidence is at most 50 games a worker; the ply-cap reading is exactly the last
  \<open>window_games\<close> games' cap flags, up to the ring's 4096; and the terminal counts are the counts over
  every game.\<close>

theorem pool_windows_refine_history:
  "pooled_draw_counts (note_games gs) =
     (\<Sum>w \<in> fg_worker ` set gs. sum_list (last_n 50 (outcomes w gs)), \<Sum>w \<in> fg_worker ` set gs. min 50 (length (outcomes w gs))) \<and>
   snd (pooled_draw_counts (note_games gs)) \<le> 50 * card (fg_worker ` set gs) \<and>
   ply_cap_window_counts (note_games gs) (int n) =
     (sum_list (last_n (min n 4096) (cap_flags gs)), min (min n 4096) (length gs)) \<and>
   map snd (terminal_reason_counts (note_games gs)) = map (\<lambda>c. length (filter (\<lambda>g. fg_terminal g = c) gs)) [0, 1, 2, 3]"
proof (intro conjI)
  show 1: "pooled_draw_counts (note_games gs) = (\<Sum>w \<in> fg_worker ` set gs. sum_list (last_n 50 (outcomes w gs)),
      \<Sum>w \<in> fg_worker ` set gs. min 50 (length (outcomes w gs)))"
    unfolding pooled_sums DRAW_RATE_WINDOW_def by simp
  have "(\<Sum>w \<in> fg_worker ` set gs. min 50 (length (outcomes w gs))) \<le> (\<Sum>w \<in> fg_worker ` set gs. 50)" by (intro sum_mono) simp
  then show "snd (pooled_draw_counts (note_games gs)) \<le> 50 * card (fg_worker ` set gs)" using 1 by simp
  show "ply_cap_window_counts (note_games gs) (int n) = (sum_list (last_n (min n 4096) (cap_flags gs)), min (min n 4096) (length gs))"
  proof (cases "n = 0")
    case True
    then show ?thesis by (simp add: ply_cap_window_counts_def last_n_def)
  next
    case False
    then show ?thesis unfolding last_n_min
      by (simp add: ply_cap_window_counts_def caps_tail PLY_CAP_RING_GAMES_def Let_def) (simp add: cap_flags_def)
  qed
  show "map snd (terminal_reason_counts (note_games gs)) = map (\<lambda>c. length (filter (\<lambda>g. fg_terminal g = c) gs)) [0, 1, 2, 3]"
    by (simp add: terminal_reason_counts_def terminal_tail)
qed

end
