(* ===== verification/Pool_Feed.thy ===== *)
theory Pool_Feed
  imports Telemetry Budget
begin

text \<open>
  The feeder of the self-play pool (\<open>src/mantis/selfplay/pool_push.py\<close>, \<open>pool_drain.py\<close> and the producer's
  health in \<open>pool.py\<close>): draining the runner's rows into the replay buffer under translated game ids, billing the
  searches, and announcing and recording every completed game.

  The Rust runner and buffer, the clock, the recorder and the sink are operations on a world of any type; each
  may raise. The trace lists, in order, the rows pushed, the events emitted, the games recorded and the beats.
  A row is its \<open>tail_mass\<close>, its runner game id and the rest, which only passes through. \<open>sha1\<close> is an argument.
  The log lines are left out, and the search statistics of a game, which are only handed on.
\<close>

section \<open>State and collaborators\<close>

definition ALPHA_FULL_THRESHOLD :: real where "ALPHA_FULL_THRESHOLD = 1 - 1 / 10 ^ 6"
definition ALPHA_FULL_ROW_EVENT_CAP :: nat where "ALPHA_FULL_ROW_EVENT_CAP = 256"

definition is_alpha_full :: "real \<Rightarrow> bool" where
  "is_alpha_full alpha \<longleftrightarrow> ALPHA_FULL_THRESHOLD \<le> alpha"

record 'r feed_row =
  fr_rest :: 'r
  fr_tail_mass :: real
  fr_game :: int

record game_entry =
  en_plies :: int
  en_winner :: nat
  en_moves :: "cell list"
  en_worker :: int
  en_terminal :: int
  en_versions :: "int \<times> int \<times> int"
  en_arms :: "(int \<times> string) list"

record game_event =
  gv_id :: string
  gv_hash :: string
  gv_winner :: "int option"
  gv_plies :: int
  gv_moves_list :: "string list"
  gv_worker :: int
  gv_shape :: shape
  gv_terminal :: string
  gv_versions :: "int \<times> int \<times> int"
  gv_row_max :: nat

record recorded =
  rd_id :: string
  rd_moves :: "cell list"
  rd_winner :: nat
  rd_plies :: int
  rd_worker :: int
  rd_terminal :: string
  rd_hash :: string
  rd_sims :: int
  rd_arms :: "(int \<times> string) list"

datatype 'r pev =
    Game_Loop_Entered | First_Record_Drained | Counter_Reset int int int | Alpha_Full_Row "'r feed_row"
  | Game_Complete game_event | System_Stats int int

datatype 'r ptrace = Pushed "'r feed_row" int | Emitted "'r pev" | Recorded recorded | Beat string

record ('r, 'w) pool_feed =
  fd_world :: 'w
  fd_trace :: "'r ptrace list"
  fd_games_completed :: int
  fd_x_wins :: int
  fd_o_wins :: int
  fd_draws :: int
  fd_positions :: nat
  fd_self_play_positions :: nat
  fd_graph_rows :: nat
  fd_alpha_full :: nat
  fd_alpha_emitted :: nat
  fd_sims_per_sec :: "real option"
  fd_last_drain :: real
  fd_last_pos :: int
  fd_last_drawn :: int
  fd_total_sims :: int
  fd_lengths :: "int list"
  fd_avg_length :: "real option"
  fd_telemetry :: telemetry
  fd_producer_exc :: "py_exc option"

text \<open>The two locals of the loop.\<close>

record loop_vars =
  lv_last_buf_emit :: real
  lv_first_drained :: bool

record ('r, 'w) feed_ops =
  fo_collect :: "('w, 'r feed_row list) act"
  fo_counters :: "('w, int \<times> int \<times> int \<times> int) act"
  fo_drain :: "('w, game_entry list) act"
  fo_now :: "('w, real) act"
  fo_positions :: "('w, int) act"
  fo_drawn :: "('w, int \<times> int) act"
  fo_next_game_id :: "('w, int) act"
  fo_push :: "'r feed_row \<Rightarrow> int \<Rightarrow> ('w, unit) act"
  fo_size :: "('w, int) act"
  fo_capacity :: "('w, int) act"
  fo_record :: "recorded \<Rightarrow> ('w, unit) act"
  fo_sink :: "('r pev \<Rightarrow> ('w, unit) act) option"
  fo_uuid :: "('w, string) act"
  fo_heartbeat :: "(string \<Rightarrow> ('w, unit) act) option"
  fo_sleep :: "('w, unit) act"
  fo_stopped :: "('w, bool) act"
  fo_sha1 :: "string \<Rightarrow> string"
  fo_sims_per_move :: int
  fo_log_metrics :: bool
  fo_cluster_threshold :: int

definition ask :: "('w, 'a) act \<Rightarrow> (('r, 'w) pool_feed, 'a) act" where
  "ask m s = (case m (fd_world s) of (r, w) \<Rightarrow> (r, s\<lparr>fd_world := w\<rparr>))"

definition trace_step :: "'r ptrace \<Rightarrow> (('r, 'w) pool_feed, unit) act" where
  "trace_step e = modify (\<lambda>s. s\<lparr>fd_trace := fd_trace s @ [e]\<rparr>)"

definition emit_feed :: "('r, 'w) feed_ops \<Rightarrow> 'r pev \<Rightarrow> (('r, 'w) pool_feed, unit) act" where
  "emit_feed ops e = (case fo_sink ops of None \<Rightarrow> ret () | Some sink \<Rightarrow> abind (ask (sink e)) (\<lambda>_. trace_step (Emitted e)))"

definition beat_feed :: "('r, 'w) feed_ops \<Rightarrow> (('r, 'w) pool_feed, unit) act" where
  "beat_feed ops = (case fo_heartbeat ops of None \<Rightarrow> ret ()
     | Some hb \<Rightarrow> abind (ask (hb ''selfplay_drain'')) (\<lambda>_. trace_step (Beat ''selfplay_drain'')))"

text \<open>\<open>round(x, k)\<close> of the exact value, ties to even.\<close>

definition round_to :: "nat \<Rightarrow> real \<Rightarrow> real" where
  "round_to k x = real_of_int (round_half_even (x * 10 ^ k)) / 10 ^ k"

section \<open>Pushing the rows\<close>

definition report_alpha :: "('r, 'w) feed_ops \<Rightarrow> 'r feed_row \<Rightarrow> (('r, 'w) pool_feed, unit) act" where
  "report_alpha ops row = abind (gets fd_alpha_emitted) (\<lambda>n.
     if fo_sink ops \<noteq> None \<and> n < ALPHA_FULL_ROW_EVENT_CAP
     then abind (modify (\<lambda>s. s\<lparr>fd_alpha_emitted := Suc (fd_alpha_emitted s)\<rparr>)) (\<lambda>_. emit_feed ops (Alpha_Full_Row row))
     else ret ())"

definition buffer_id :: "('r, 'w) feed_ops \<Rightarrow> (int, int) dict \<Rightarrow> int \<Rightarrow> (('r, 'w) pool_feed, int \<times> (int, int) dict) act" where
  "buffer_id ops allocated runner_id =
     (if runner_id < 0 then ret (- 1, allocated)
      else let known = dget allocated runner_id (- 1) in
        if known < 0 then abind (ask (fo_next_game_id ops)) (\<lambda>fresh. ret (fresh, AList.update runner_id fresh allocated))
        else ret (known, allocated))"

fun push_rows :: "('r, 'w) feed_ops \<Rightarrow> (int, int) dict \<Rightarrow> nat \<Rightarrow> 'r feed_row list \<Rightarrow> (('r, 'w) pool_feed, nat) act" where
  "push_rows ops allocated alpha_full [] = ret alpha_full"
| "push_rows ops allocated alpha_full (row # rows) =
     abind (if is_alpha_full (fr_tail_mass row) then report_alpha ops row else ret ()) (\<lambda>_.
     abind (buffer_id ops allocated (fr_game row)) (\<lambda>(gid, allocated').
     abind (ask (fo_push ops row gid)) (\<lambda>_.
     abind (trace_step (Pushed row gid)) (\<lambda>_.
       push_rows ops allocated' (if is_alpha_full (fr_tail_mass row) then Suc alpha_full else alpha_full) rows))))"

definition push_graph :: "('r, 'w) feed_ops \<Rightarrow> 'r feed_row list \<Rightarrow> (('r, 'w) pool_feed, unit) act" where
  "push_graph ops rows = abind (push_rows ops [] 0 rows) (\<lambda>alpha_full. modify (\<lambda>s. s\<lparr>
     fd_positions := fd_positions s + length rows, fd_self_play_positions := fd_self_play_positions s + length rows,
     fd_graph_rows := fd_graph_rows s + length rows, fd_alpha_full := fd_alpha_full s + alpha_full\<rparr>))"

record composition =
  bc_size :: int
  bc_capacity :: int
  bc_corpus_fraction :: real
  bc_terminal :: "real list"
  bc_games :: nat

definition buffer_composition :: "('r, 'w) feed_ops \<Rightarrow> (('r, 'w) pool_feed, composition) act" where
  "buffer_composition ops = abind (ask (fo_size ops)) (\<lambda>first_size.
     abind (gets (\<lambda>s. (fd_self_play_positions s, terminal_reason_counts (fd_telemetry s)))) (\<lambda>(pushed, tr).
     abind (ask (fo_size ops)) (\<lambda>size.
     abind (ask (fo_capacity ops)) (\<lambda>capacity.
       let total_games = max 1 (sum_list (map snd tr)) in
       ret \<lparr>bc_size = size, bc_capacity = capacity,
            bc_corpus_fraction = round_to 6 (max 0 (1 - real pushed / real_of_int (max 1 first_size))),
            bc_terminal = map (\<lambda>(_, n). real n / real total_games) tr, bc_games = sum_list (map snd tr)\<rparr>))))"

section \<open>One game\<close>

definition WINNER_INT :: "(nat, int) dict" where "WINNER_INT = [(0, - 1), (1, 0), (2, 1)]"
definition TR_NAMES :: "(int, string) dict" where
  "TR_NAMES = [(0, ''six_in_a_row''), (1, ''colony''), (2, ''ply_cap''), (3, ''other_draw'')]"

definition cell_text :: "cell \<Rightarrow> string" where
  "cell_text c = ''('' @ str_int (fst c) @ '','' @ str_int (snd c) @ '')''"

text \<open>\<open>json.dumps([list(m) for m in move_history])\<close>\<close>

fun comma_text :: "string list \<Rightarrow> string" where
  "comma_text [] = []"
| "comma_text [s] = s"
| "comma_text (s # t # ss) = s @ '', '' @ comma_text (t # ss)"

definition moves_json :: "cell list \<Rightarrow> string" where
  "moves_json ms = ''['' @ comma_text (map (\<lambda>(q, r). ''['' @ str_int q @ '', '' @ str_int r @ '']'') ms) @ '']''"

definition finished_of :: "game_entry \<Rightarrow> finished" where
  "finished_of e = \<lparr>fg_winner = int (en_winner e), fg_moves = en_moves e, fg_worker = en_worker e,
     fg_terminal = en_terminal e, fg_versions = en_versions e,
     fg_stride5 = (if en_moves e = [] then 0 else fst (compute_stride5_metrics (en_moves e)))\<rparr>"

definition measure_game :: "('r, 'w) feed_ops \<Rightarrow> game_entry \<Rightarrow> (('r, 'w) pool_feed, shape option) act" where
  "measure_game ops e s = (case on_game_complete (fo_log_metrics ops) (fo_cluster_threshold ops) (finished_of e) (fd_telemetry s) of
     (sh, t) \<Rightarrow> (Inr sh, s\<lparr>fd_telemetry := t\<rparr>))"

definition note_length :: "game_entry \<Rightarrow> ('r, 'w) pool_feed \<Rightarrow> ('r, 'w) pool_feed" where
  "note_length e s = (let lengths = push 200 (fd_lengths s) ((en_plies e + 1) div 2)
     in s\<lparr>fd_lengths := lengths, fd_avg_length := Some (real_of_int (sum_list lengths) / real (length lengths))\<rparr>)"

definition game_event_of :: "('r, 'w) feed_ops \<Rightarrow> string \<Rightarrow> game_entry \<Rightarrow> shape \<Rightarrow> game_event" where
  "game_event_of ops uuid e sh = \<lparr>gv_id = uuid, gv_hash = fo_sha1 ops (moves_json (en_moves e)),
     gv_winner = map_of WINNER_INT (en_winner e), gv_plies = en_plies e, gv_moves_list = map cell_text (en_moves e),
     gv_worker = en_worker e, gv_shape = sh, gv_terminal = dget TR_NAMES (en_terminal e) ''unknown'',
     gv_versions = en_versions e,
     gv_row_max = (if en_moves e = [] then 0 else snd (compute_stride5_metrics (en_moves e)))\<rparr>"

definition recorded_of :: "('r, 'w) feed_ops \<Rightarrow> string \<Rightarrow> game_entry \<Rightarrow> recorded" where
  "recorded_of ops uuid e = \<lparr>rd_id = uuid, rd_moves = en_moves e, rd_winner = en_winner e, rd_plies = en_plies e,
     rd_worker = en_worker e, rd_terminal = dget TR_NAMES (en_terminal e) ''unknown'',
     rd_hash = fo_sha1 ops (moves_json (en_moves e)), rd_sims = fo_sims_per_move ops, rd_arms = en_arms e\<rparr>"

text \<open>A measure that would not end (no such axis exists) is no result of the code; it is the \<open>None\<close> below.\<close>

definition drain_game :: "('r, 'w) feed_ops \<Rightarrow> game_entry \<Rightarrow> (('r, 'w) pool_feed, unit) act" where
  "drain_game ops e =
     abind (modify (note_length e)) (\<lambda>_.
     abind (measure_game ops e) (\<lambda>sh. case sh of None \<Rightarrow> lift (Inl RuntimeError) | Some sh \<Rightarrow>
     abind (ask (fo_uuid ops)) (\<lambda>uuid.
     abind (emit_feed ops (Game_Complete (game_event_of ops uuid e sh))) (\<lambda>_.
     abind (ask (fo_record ops (recorded_of ops uuid e))) (\<lambda>_. trace_step (Recorded (recorded_of ops uuid e)))))))"

fun drain_games :: "('r, 'w) feed_ops \<Rightarrow> game_entry list \<Rightarrow> (('r, 'w) pool_feed, unit) act" where
  "drain_games ops [] = ret ()"
| "drain_games ops (e # es) = abind (drain_game ops e) (\<lambda>_. drain_games ops es)"

section \<open>The loop\<close>

definition refresh_counters :: "('r, 'w) feed_ops \<Rightarrow> (('r, 'w) pool_feed, unit) act" where
  "refresh_counters ops = abind (ask (fo_counters ops)) (\<lambda>(games, x, owins, d). modify (\<lambda>s. s\<lparr>fd_games_completed := games,
     fd_x_wins := x, fd_o_wins := owins, fd_draws := d\<rparr>))"

definition bill_searches :: "('r, 'w) feed_ops \<Rightarrow> (('r, 'w) pool_feed, unit) act" where
  "bill_searches ops =
     abind (ask (fo_now ops)) (\<lambda>now.
     abind (gets fd_last_drain) (\<lambda>before. let elapsed = now - before in
     abind (modify (\<lambda>s. s\<lparr>fd_last_drain := now\<rparr>)) (\<lambda>_.
     abind (ask (fo_positions ops)) (\<lambda>pos.
     abind (gets fd_last_pos) (\<lambda>seen.
     abind (if pos - seen < 0 then emit_feed ops (Counter_Reset (pos - seen) seen pos) else ret ()) (\<lambda>_.
     abind (modify (\<lambda>s. s\<lparr>fd_last_pos := pos\<rparr>)) (\<lambda>_.
     abind (ask (fo_drawn ops)) (\<lambda>(full, quick).
     modify (\<lambda>s. let drawn_delta = full + quick - fd_last_drawn s; sims = drawn_delta * fo_sims_per_move ops;
         s' = s\<lparr>fd_last_drawn := full + quick\<rparr>
       in if drawn_delta > 0 then s'\<lparr>fd_total_sims := fd_total_sims s' + sims,
            fd_sims_per_sec := (if elapsed > 0 then Some (real_of_int sims / elapsed) else fd_sims_per_sec s')\<rparr>
          else s')))))))))"

definition system_stats :: "('r, 'w) feed_ops \<Rightarrow> loop_vars \<Rightarrow> (('r, 'w) pool_feed, loop_vars) act" where
  "system_stats ops lv = abind (ask (fo_now ops)) (\<lambda>now.
     if now - lv_last_buf_emit lv < 5 then ret lv
     else abind (ask (fo_size ops)) (\<lambda>size. abind (ask (fo_capacity ops)) (\<lambda>capacity.
       abind (emit_feed ops (System_Stats size capacity)) (\<lambda>_. ret (lv\<lparr>lv_last_buf_emit := now\<rparr>)))))"

definition drain_once :: "('r, 'w) feed_ops \<Rightarrow> loop_vars \<Rightarrow> (('r, 'w) pool_feed, loop_vars) act" where
  "drain_once ops lv =
     abind (ask (fo_collect ops)) (\<lambda>rows.
     abind (push_graph ops rows) (\<lambda>_.
     abind (refresh_counters ops) (\<lambda>_.
     abind (ask (fo_drain ops)) (\<lambda>batch.
     let first = (\<not> lv_first_drained lv \<and> (rows \<noteq> [] \<or> batch \<noteq> [])) in
     abind (if first then emit_feed ops First_Record_Drained else ret ()) (\<lambda>_.
     abind (bill_searches ops) (\<lambda>_.
     abind (drain_games ops batch) (\<lambda>_.
     abind (system_stats ops (if first then lv\<lparr>lv_first_drained := True\<rparr> else lv)) (\<lambda>lv'.
     abind (beat_feed ops) (\<lambda>_. abind (ask (fo_sleep ops)) (\<lambda>_. ret lv'))))))))))"

text \<open>\<open>while not stop.is_set()\<close>, as far as \<open>n\<close> iterations go; \<open>None\<close> is a loop still running.\<close>

fun drain_loop :: "('r, 'w) feed_ops \<Rightarrow> nat \<Rightarrow> loop_vars \<Rightarrow> (('r, 'w) pool_feed, unit option) act" where
  "drain_loop ops 0 lv = ret None"
| "drain_loop ops (Suc n) lv = abind (ask (fo_stopped ops)) (\<lambda>stop.
     if stop then ret (Some ()) else abind (drain_once ops lv) (drain_loop ops n))"

definition run_stats_loop :: "('r, 'w) feed_ops \<Rightarrow> nat \<Rightarrow> (('r, 'w) pool_feed, unit option) act" where
  "run_stats_loop ops n = abind (ask (fo_now ops)) (\<lambda>now.
     abind (emit_feed ops Game_Loop_Entered) (\<lambda>_.
       drain_loop ops n \<lparr>lv_last_buf_emit = now, lv_first_drained = False\<rparr>))"

definition stats_loop :: "('r, 'w) feed_ops \<Rightarrow> nat \<Rightarrow> (('r, 'w) pool_feed, unit option) act" where
  "stats_loop ops n = catching (run_stats_loop ops n) (\<lambda>e.
     abind (modify (\<lambda>s. s\<lparr>fd_producer_exc := Some e\<rparr>)) (\<lambda>_. ret (Some ())))"

text \<open>The trainer's check: a dead producer, a failed served batch, or a panicked worker.\<close>

definition check_producer_health :: "bool \<Rightarrow> int \<Rightarrow> ('r, 'w) pool_feed \<Rightarrow> unit res" where
  "check_producer_health deferred_failure panics s =
     (if fd_producer_exc s \<noteq> None then Inl RuntimeError
      else if deferred_failure then Inl RuntimeError
      else if panics > 0 then Inl RuntimeError else Inr ())"

definition alpha_full_reading :: "('r, 'w) pool_feed \<Rightarrow> nat \<times> nat \<times> real option" where
  "alpha_full_reading s = (fd_alpha_full s, fd_graph_rows s,
     if fd_graph_rows s > 0 then Some (round_to 4 (1000 * real (fd_alpha_full s) / real (fd_graph_rows s))) else None)"

section \<open>The translation of game ids\<close>

definition pushes :: "'r ptrace list \<Rightarrow> ('r feed_row \<times> int) list" where
  "pushes tr = List.map_filter (\<lambda>e. case e of Pushed r i \<Rightarrow> Some (r, i) | _ \<Rightarrow> None) tr"

lemma pushes_append [simp]: "pushes (a @ b) = pushes a @ pushes b"
  by (simp add: pushes_def map_filter_def)

lemma pushes_one [simp]: "pushes [Pushed r i] = [(r, i)]" "pushes [Emitted e] = []" "pushes [Recorded d] = []" "pushes [Beat b] = []"
  by (simp_all add: pushes_def map_filter_def)

text \<open>
  What the code relies on: the buffer's next game id is at least 0 and grows, and neither a push nor the sink
  takes it back.
\<close>

definition ids_grow :: "('r, 'w) feed_ops \<Rightarrow> ('w \<Rightarrow> int) \<Rightarrow> bool" where
  "ids_grow ops next_id \<longleftrightarrow>
     (\<forall>w i w'. fo_next_game_id ops w = (Inr i, w') \<longrightarrow> i = next_id w \<and> 0 \<le> i \<and> i < next_id w') \<and>
     (\<forall>row i w. next_id w \<le> next_id (snd (fo_push ops row i w))) \<and>
     (\<forall>sink e w. fo_sink ops = Some sink \<longrightarrow> next_id w \<le> next_id (snd (sink e w)))"

definition ids_in :: "('w \<Rightarrow> int) \<Rightarrow> int \<Rightarrow> (int, int) dict \<Rightarrow> 'w \<Rightarrow> bool" where
  "ids_in next_id lo A w \<longleftrightarrow> lo \<le> next_id w \<and> (\<forall>k v. map_of A k = Some v \<longrightarrow> 0 \<le> v \<and> lo \<le> v \<and> v < next_id w) \<and>
     (\<forall>k k' v. map_of A k = Some v \<longrightarrow> map_of A k' = Some v \<longrightarrow> k = k')"

lemma ids_in_later: "ids_in next_id lo A w \<Longrightarrow> next_id w \<le> next_id w' \<Longrightarrow> ids_in next_id lo A w'"
  unfolding ids_in_def by (meson order_less_le_trans order_trans)

lemma ask_Inr: "ask m s = (Inr a, s') \<longleftrightarrow> (\<exists>w. m (fd_world s) = (Inr a, w) \<and> s' = s\<lparr>fd_world := w\<rparr>)"
  by (auto simp: ask_def split: prod.splits)

lemma report_keeps:
  assumes "report_alpha ops row s = (Inr u, s')" "ids_grow ops next_id"
  shows "pushes (fd_trace s') = pushes (fd_trace s) \<and> next_id (fd_world s) \<le> next_id (fd_world s')"
  using assms
  by (auto simp: report_alpha_def emit_feed_def trace_step_def abind_Inr_iff gets_def modify_def ret_def ask_Inr ids_grow_def
      split: if_splits option.splits) (metis snd_conv)+

lemma buffer_id_spec:
  assumes "buffer_id ops A g s = (Inr (i, A'), s')" "ids_grow ops next_id" "ids_in next_id lo A (fd_world s)"
  shows "fd_trace s' = fd_trace s \<and> ids_in next_id lo A' (fd_world s') \<and> (\<forall>k v. map_of A k = Some v \<longrightarrow> map_of A' k = Some v) \<and>
    (if g < 0 then i = - 1 else map_of A' g = Some i)"
proof (cases "g < 0")
  case True
  then show ?thesis using assms by (auto simp: buffer_id_def ret_def)
next
  case False
  show ?thesis
  proof (cases "map_of A g")
    case (Some v)
    then have "0 \<le> v" using assms(3) by (auto simp: ids_in_def)
    then show ?thesis using assms False Some by (auto simp: buffer_id_def ret_def dget_def Let_def)
  next
    case None
    then obtain w' where w: "fo_next_game_id ops (fd_world s) = (Inr i, w')" "s' = s\<lparr>fd_world := w'\<rparr>" "A' = AList.update g i A"
      using assms(1) False by (auto simp: buffer_id_def dget_def Let_def abind_Inr_iff ret_def ask_Inr simp del: map_of_None_dkeys)
    have i: "i = next_id (fd_world s)" "0 \<le> i" "i < next_id w'" using assms(2) w(1) unfolding ids_grow_def by blast+
    have "ids_in next_id lo A' w'"
      using assms(3) i None unfolding ids_in_def w(3)
      by (auto simp: update_conv' simp del: map_of_None_dkeys split: if_splits) (force+)
    then show ?thesis using w False None by (auto simp: update_conv' simp del: map_of_None_dkeys)
  qed
qed

lemma push_rows_spec:
  assumes "push_rows ops A n rows s = (Inr m, s')" "ids_grow ops next_id" "ids_in next_id lo A (fd_world s)"
  shows "m = n + length (filter (is_alpha_full \<circ> fr_tail_mass) rows) \<and>
    (\<exists>A'. (\<forall>k v. map_of A k = Some v \<longrightarrow> map_of A' k = Some v) \<and> ids_in next_id lo A' (fd_world s') \<and>
      (\<forall>row \<in> set rows. 0 \<le> fr_game row \<longrightarrow> map_of A' (fr_game row) \<noteq> None) \<and>
      pushes (fd_trace s') = pushes (fd_trace s) @
        map (\<lambda>row. (row, if fr_game row < 0 then - 1 else the (map_of A' (fr_game row)))) rows)"
  using assms(1,3)
proof (induction rows arbitrary: A n s)
  case Nil
  then show ?case by (auto simp: ret_def)
next
  case (Cons row rows)
  let ?n = "if is_alpha_full (fr_tail_mass row) then Suc n else n"
  from Cons.prems(1) obtain s1 i A1 s2 w s3 where
    r: "(if is_alpha_full (fr_tail_mass row) then report_alpha ops row else ret ()) s = (Inr (), s1)"
    and b: "buffer_id ops A (fr_game row) s1 = (Inr (i, A1), s2)"
    and p: "fo_push ops row i (fd_world s2) = (Inr (), w)" "s3 = s2\<lparr>fd_world := w, fd_trace := fd_trace s2 @ [Pushed row i]\<rparr>"
    and rest: "push_rows ops A1 ?n rows s3 = (Inr m, s')"
    by (auto simp: abind_Inr_iff ask_Inr trace_step_def modify_def)
  have 1: "pushes (fd_trace s1) = pushes (fd_trace s)" "next_id (fd_world s) \<le> next_id (fd_world s1)"
    using r report_keeps [OF _ assms(2), of row s "()" s1] by (auto simp: ret_def split: if_splits)
  note 2 = buffer_id_spec [OF b assms(2) ids_in_later [OF Cons.prems(2) 1(2)]]
  have "next_id (fd_world s2) \<le> next_id w" using assms(2) p(1) unfolding ids_grow_def by (metis snd_conv)
  then have "ids_in next_id lo A1 (fd_world s3)" using ids_in_later 2 p(2) by fastforce
  from Cons.IH [OF rest this] obtain A' where
    A': "m = ?n + length (filter (is_alpha_full \<circ> fr_tail_mass) rows)" "\<forall>k v. map_of A1 k = Some v \<longrightarrow> map_of A' k = Some v"
      "ids_in next_id lo A' (fd_world s')" "\<forall>row \<in> set rows. 0 \<le> fr_game row \<longrightarrow> map_of A' (fr_game row) \<noteq> None"
      "pushes (fd_trace s') = pushes (fd_trace s3) @
        map (\<lambda>row. (row, if fr_game row < 0 then - 1 else the (map_of A' (fr_game row)))) rows" by blast
  have ext: "\<forall>k v. map_of A k = Some v \<longrightarrow> map_of A' k = Some v" using 2 A'(2) by blast
  have i: "if fr_game row < 0 then i = - 1 else map_of A' (fr_game row) = Some i" using 2 A'(2) by (auto split: if_splits)
  have "pushes (fd_trace s3) = pushes (fd_trace s) @ [(row, i)]" using p(2) 1(1) 2 by simp
  then have "pushes (fd_trace s') = pushes (fd_trace s) @
      map (\<lambda>row. (row, if fr_game row < 0 then - 1 else the (map_of A' (fr_game row)))) (row # rows)"
    using A'(5) i by (auto split: if_splits)
  moreover have "\<forall>r \<in> set (row # rows). 0 \<le> fr_game r \<longrightarrow> map_of A' (fr_game r) \<noteq> None"
    using A'(4) i by (auto split: if_splits dest: map_of_Some_dkeys)
  moreover have "m = n + length (filter (is_alpha_full \<circ> fr_tail_mass) (row # rows))" using A'(1) by simp
  ultimately show ?case using ext A'(3) by blast
qed

lemma push_rows_counters:
  "push_rows ops A n rows s = (Inr m, t) \<Longrightarrow>
     fd_positions t = fd_positions s \<and> fd_graph_rows t = fd_graph_rows s \<and> fd_alpha_full t = fd_alpha_full s"
proof (induction rows arbitrary: A n s)
  case (Cons row rows)
  then show ?case
    by (fastforce simp: abind_Inr_iff ask_Inr trace_step_def modify_def ret_def report_alpha_def gets_def emit_feed_def
        buffer_id_def Let_def split: if_splits option.splits)
qed (simp add: ret_def)

text \<open>C10: \<open>push_graph\<close> translates game ids faithfully: when the buffer's ids grow, a batch that is pushed without
  an exception puts every row into the buffer once and in order, rows of one runner game under one buffer id
  and rows of different games under different ids, none of which the buffer had given out before, untagged
  rows under \<open>-1\<close>; and the counters grow by the rows pushed and by those that are alpha-full.\<close>

theorem push_graph_translates:
  assumes run: "push_graph ops rows s = (Inr (), s')" and ids: "ids_grow ops next_id"
  shows "(\<exists>f. inj_on f {g \<in> fr_game ` set rows. 0 \<le> g} \<and> (\<forall>g \<in> {g \<in> fr_game ` set rows. 0 \<le> g}. 0 \<le> f g \<and> next_id (fd_world s) \<le> f g) \<and>
      pushes (fd_trace s') = pushes (fd_trace s) @ map (\<lambda>row. (row, if fr_game row < 0 then - 1 else f (fr_game row))) rows) \<and>
    fd_positions s' = fd_positions s + length rows \<and> fd_graph_rows s' = fd_graph_rows s + length rows \<and>
    fd_alpha_full s' = fd_alpha_full s + length (filter (is_alpha_full \<circ> fr_tail_mass) rows)"
proof -
  obtain n t where p: "push_rows ops [] 0 rows s = (Inr n, t)" and s': "s' = t\<lparr>fd_positions := fd_positions t + length rows,
      fd_self_play_positions := fd_self_play_positions t + length rows, fd_graph_rows := fd_graph_rows t + length rows,
      fd_alpha_full := fd_alpha_full t + n\<rparr>"
    using run by (auto simp: push_graph_def abind_Inr_iff modify_def)
  have "ids_in next_id (next_id (fd_world s)) [] (fd_world s)" by (simp add: ids_in_def)
  from push_rows_spec [OF p ids this] obtain A where n: "n = length (filter (is_alpha_full \<circ> fr_tail_mass) rows)"
    and A: "ids_in next_id (next_id (fd_world s)) A (fd_world t)" "\<forall>row \<in> set rows. 0 \<le> fr_game row \<longrightarrow> map_of A (fr_game row) \<noteq> None"
      "pushes (fd_trace t) = pushes (fd_trace s) @ map (\<lambda>row. (row, if fr_game row < 0 then - 1 else the (map_of A (fr_game row)))) rows"
    by auto
  let ?f = "\<lambda>g. the (map_of A g)" and ?G = "{g \<in> fr_game ` set rows. 0 \<le> g}"
  have some: "map_of A g = Some (?f g)" if "g \<in> ?G" for g using A(2) that by auto
  have "inj_on ?f ?G" using A(1) some unfolding ids_in_def inj_on_def by metis
  moreover have "\<forall>g \<in> ?G. 0 \<le> ?f g \<and> next_id (fd_world s) \<le> ?f g" using A(1) some unfolding ids_in_def by blast
  moreover have "fd_positions t = fd_positions s \<and> fd_graph_rows t = fd_graph_rows s \<and> fd_alpha_full t = fd_alpha_full s"
    by (rule push_rows_counters [OF p])
  ultimately show ?thesis using A(3) n s' by (intro conjI exI [of _ ?f]) simp_all
qed

section \<open>A small pool\<close>

text \<open>A world is the next game id and the tick of the clock; nothing raises.\<close>

definition demo_entry :: game_entry where
  "demo_entry = \<lparr>en_plies = 3, en_winner = 1, en_moves = [(0, 0), (1, 0), (0, 1)], en_worker = 0, en_terminal = 0,
     en_versions = (4, 4, 1), en_arms = []\<rparr>"

definition demo_row :: "int \<Rightarrow> real \<Rightarrow> string feed_row" where
  "demo_row game tail_mass = \<lparr>fr_rest = ''row'', fr_tail_mass = tail_mass, fr_game = game\<rparr>"

definition demo_feed_ops :: "(string, int \<times> real) feed_ops" where
  "demo_feed_ops = \<lparr>fo_collect = ret [demo_row 7 0], fo_counters = ret (1, 1, 0, 0), fo_drain = ret [demo_entry],
     fo_now = (\<lambda>(i, t). (Inr t, i, t + 1)), fo_positions = ret 3, fo_drawn = ret (2, 1),
     fo_next_game_id = (\<lambda>(i, t). (Inr (max 0 i), max 0 i + 1, t)), fo_push = (\<lambda>_ _. ret ()), fo_size = ret 5, fo_capacity = ret 9,
     fo_record = (\<lambda>_. ret ()), fo_sink = Some (\<lambda>_. ret ()), fo_uuid = ret ''abc'', fo_heartbeat = Some (\<lambda>_. ret ()),
     fo_sleep = ret (), fo_stopped = ret False, fo_sha1 = id, fo_sims_per_move = 16, fo_log_metrics = False, fo_cluster_threshold = 5\<rparr>"

definition demo_feed :: "(string, int \<times> real) pool_feed" where
  "demo_feed = \<lparr>fd_world = (40, 0), fd_trace = [], fd_games_completed = 0, fd_x_wins = 0, fd_o_wins = 0, fd_draws = 0,
     fd_positions = 0, fd_self_play_positions = 0, fd_graph_rows = 0, fd_alpha_full = 0, fd_alpha_emitted = 0,
     fd_sims_per_sec = None, fd_last_drain = 0, fd_last_pos = 0, fd_last_drawn = 0, fd_total_sims = 0, fd_lengths = [],
     fd_avg_length = None, fd_telemetry = telemetry_init, fd_producer_exc = None\<rparr>"

lemma demo_ids_grow: "ids_grow demo_feed_ops (\<lambda>(i, t). max 0 i)"
  by (auto simp: ids_grow_def demo_feed_ops_def ret_def)

lemma demo_push_run:
  "\<exists>s'. push_graph demo_feed_ops [demo_row 7 0, demo_row (- 1) 1, demo_row 7 0, demo_row 9 0] demo_feed = (Inr (), s') \<and>
     pushes (fd_trace s') = [(demo_row 7 0, 40), (demo_row (- 1) 1, - 1), (demo_row 7 0, 40), (demo_row 9 0, 41)]"
  by (simp add: push_graph_def demo_feed_ops_def demo_feed_def demo_row_def abind_def ret_def buffer_id_def dget_def ask_def modify_def
      trace_step_def is_alpha_full_def ALPHA_FULL_THRESHOLD_def report_alpha_def ALPHA_FULL_ROW_EVENT_CAP_def emit_feed_def gets_def Let_def
      pushes_def map_filter_def)

theorem push_graph_translates_witness:
  "\<exists>s'. push_graph demo_feed_ops [demo_row 7 0, demo_row (- 1) 1, demo_row 7 0, demo_row 9 0] demo_feed = (Inr (), s') \<and>
     fd_graph_rows s' = 4 \<and> fd_alpha_full s' = 1 \<and>
     pushes (fd_trace s') = [(demo_row 7 0, 40), (demo_row (- 1) 1, - 1), (demo_row 7 0, 40), (demo_row 9 0, 41)]"
proof -
  obtain s' where s': "push_graph demo_feed_ops [demo_row 7 0, demo_row (- 1) 1, demo_row 7 0, demo_row 9 0] demo_feed = (Inr (), s')"
    and p: "pushes (fd_trace s') = [(demo_row 7 0, 40), (demo_row (- 1) 1, - 1), (demo_row 7 0, 40), (demo_row 9 0, 41)]"
    using demo_push_run by blast
  have "fd_graph_rows s' = 4 \<and> fd_alpha_full s' = 1"
    using push_graph_translates [OF s' demo_ids_grow]
    by (simp add: demo_feed_def demo_row_def is_alpha_full_def ALPHA_FULL_THRESHOLD_def)
  with s' p show ?thesis by blast
qed

section \<open>Every completed game is announced and recorded\<close>

lemma on_game_total: "\<exists>sh t'. on_game_complete b c g t = (Some sh, t')"
proof -
  obtain p1 p2 where p: "split_players (fg_moves g) = (p1, p2)" by (cases "split_players (fg_moves g)")
  obtain m n where "longest_straight_run p1 = Some m" "longest_straight_run p2 = Some n"
    using longest_run_line [of p1] longest_run_line [of p2] by blast
  then have "compute_longest_line (fg_moves g) (fg_winner g) \<noteq> None"
    by (simp add: compute_longest_line_def p Let_def)
  then show ?thesis by (auto simp: on_game_complete_def Let_def split: prod.split)
qed

definition announced :: "'r ptrace list \<Rightarrow> game_event list" where
  "announced tr = List.map_filter (\<lambda>e. case e of Emitted (Game_Complete g) \<Rightarrow> Some g | _ \<Rightarrow> None) tr"

definition recordings :: "'r ptrace list \<Rightarrow> recorded list" where
  "recordings tr = List.map_filter (\<lambda>e. case e of Recorded r \<Rightarrow> Some r | _ \<Rightarrow> None) tr"

definition beats :: "'r ptrace list \<Rightarrow> nat" where
  "beats tr = length (filter (\<lambda>e. case e of Beat _ \<Rightarrow> True | _ \<Rightarrow> False) tr)"

definition games_view :: "('r, 'w) pool_feed \<Rightarrow> game_event list \<times> recorded list \<times> nat" where
  "games_view s = (announced (fd_trace s), recordings (fd_trace s), beats (fd_trace s))"

lemmas view_defs = games_view_def announced_def recordings_def beats_def

lemma view_note:
  "games_view (s\<lparr>fd_trace := fd_trace s @ [Pushed r i]\<rparr>) = games_view s"
  "games_view (s\<lparr>fd_trace := fd_trace s @ [Emitted (Alpha_Full_Row r)]\<rparr>) = games_view s"
  "games_view (s\<lparr>fd_trace := fd_trace s @ [Emitted First_Record_Drained]\<rparr>) = games_view s"
  "games_view (s\<lparr>fd_trace := fd_trace s @ [Emitted (Counter_Reset x y z)]\<rparr>) = games_view s"
  "games_view (s\<lparr>fd_trace := fd_trace s @ [Emitted (System_Stats x y)]\<rparr>) = games_view s"
  by (simp_all add: view_defs map_filter_def)

text \<open>What the two sides of the run say of one game.\<close>

definition same_facts :: "game_event \<Rightarrow> recorded \<Rightarrow> bool" where
  "same_facts g r \<longleftrightarrow> gv_id g = rd_id r \<and> gv_hash g = rd_hash r \<and> gv_plies g = rd_plies r \<and> gv_worker g = rd_worker r \<and>
     gv_terminal g = rd_terminal r \<and> gv_winner g = map_of WINNER_INT (rd_winner r) \<and> gv_moves_list g = map cell_text (rd_moves r)"

definition of_entry :: "recorded \<Rightarrow> game_entry \<Rightarrow> bool" where
  "of_entry r e \<longleftrightarrow> rd_moves r = en_moves e \<and> rd_winner r = en_winner e \<and> rd_plies r = en_plies e \<and> rd_worker r = en_worker e \<and>
     rd_arms r = en_arms e \<and> rd_terminal r = dget TR_NAMES (en_terminal e) ''unknown''"

lemma drain_game_view:
  assumes "drain_game ops e s = (Inr (), s')" "fo_sink ops = Some sink"
  shows "\<exists>g r. same_facts g r \<and> of_entry r e \<and>
     games_view s' = (announced (fd_trace s) @ [g], recordings (fd_trace s) @ [r], beats (fd_trace s))"
proof -
  let ?s = "note_length e s"
  obtain sh t where m: "on_game_complete (fo_log_metrics ops) (fo_cluster_threshold ops) (finished_of e) (fd_telemetry ?s) = (Some sh, t)"
    using on_game_total by blast
  have keep: "fd_trace ?s = fd_trace s" by (simp add: note_length_def Let_def)
  obtain uuid where "fd_trace s' = fd_trace s @ [Emitted (Game_Complete (game_event_of ops uuid e sh)), Recorded (recorded_of ops uuid e)]"
    using assms m keep
    by (auto simp: drain_game_def abind_Inr_iff measure_game_def emit_feed_def trace_step_def modify_def ask_Inr)
  then show ?thesis
    by (intro exI [of _ "game_event_of ops uuid e sh"] exI [of _ "recorded_of ops uuid e"])
      (simp add: view_defs map_filter_def same_facts_def of_entry_def game_event_of_def recorded_of_def)
qed

lemma drain_games_view:
  assumes "drain_games ops es s = (Inr (), s')" "fo_sink ops = Some sink"
  shows "\<exists>gs rs. list_all2 same_facts gs rs \<and> list_all2 of_entry rs es \<and>
     games_view s' = (announced (fd_trace s) @ gs, recordings (fd_trace s) @ rs, beats (fd_trace s))"
  using assms(1)
proof (induction es arbitrary: s)
  case Nil
  then show ?case by (simp add: ret_def games_view_def)
next
  case (Cons e es)
  then obtain u where u: "drain_game ops e s = (Inr (), u)" "drain_games ops es u = (Inr (), s')" by (auto simp: abind_Inr_iff)
  from drain_game_view [OF u(1) assms(2)] obtain g r where
    g: "same_facts g r" "of_entry r e" "games_view u = (announced (fd_trace s) @ [g], recordings (fd_trace s) @ [r], beats (fd_trace s))" by blast
  from Cons.IH [OF u(2)] obtain gs rs where
    gs: "list_all2 same_facts gs rs" "list_all2 of_entry rs es"
      "games_view s' = (announced (fd_trace u) @ gs, recordings (fd_trace u) @ rs, beats (fd_trace u))" by blast
  show ?case
    by (rule exI [of _ "g # gs"], rule exI [of _ "r # rs"]) (use g gs in \<open>simp add: games_view_def\<close>)
qed

text \<open>Steps that show the sink no game, the recorder nothing, and beat for nobody.\<close>

definition silent :: "(('r, 'w) pool_feed, 'a) act \<Rightarrow> bool" where
  "silent m \<longleftrightarrow> (\<forall>s a t. m s = (Inr a, t) \<longrightarrow> games_view t = games_view s)"

lemma silentD: "silent m \<Longrightarrow> m s = (Inr a, t) \<Longrightarrow> games_view t = games_view s"
  unfolding silent_def by blast

lemma silent_ret [intro]: "silent (ret a)"
  by (simp add: silent_def ret_def)

lemma silent_ask [intro]: "silent (ask m)"
  by (auto simp: silent_def ask_Inr games_view_def)

lemma silent_gets [intro]: "silent (gets f)"
  by (simp add: silent_def gets_def)

lemma silent_modify: "(\<And>s. fd_trace (f s) = fd_trace s) \<Longrightarrow> silent (modify f)"
  by (simp add: silent_def modify_def games_view_def)

lemma silent_abind [intro]: "silent m \<Longrightarrow> (\<And>a. silent (k a)) \<Longrightarrow> silent (abind m k)"
  unfolding silent_def abind_Inr_iff by metis

lemma silent_if [intro]: "silent m \<Longrightarrow> silent n \<Longrightarrow> silent (if b then m else n)"
  by simp

lemma silent_pushed [intro]: "silent (trace_step (Pushed r i))"
  by (simp add: silent_def trace_step_def modify_def view_note)

lemma silent_emit: "(\<And>g. e \<noteq> Game_Complete g) \<Longrightarrow> silent (emit_feed ops e)"
  by (cases e) (auto simp: emit_feed_def silent_def trace_step_def modify_def abind_Inr_iff ask_Inr ret_def view_defs map_filter_def
      split: option.splits)

lemma silent_report [intro]: "silent (report_alpha ops row)"
  unfolding report_alpha_def by (intro silent_abind silent_gets silent_if silent_ret silent_modify silent_emit) simp_all

lemma silent_buffer_id [intro]: "silent (buffer_id ops A g)"
  unfolding buffer_id_def Let_def by (intro silent_abind silent_if silent_ret silent_ask)

lemma silent_push_rows [intro]: "silent (push_rows ops A n rows)"
proof (induction rows arbitrary: A n)
  case (Cons row rows)
  then show ?case
    unfolding push_rows.simps split_beta by (intro silent_abind silent_if silent_ret silent_report silent_buffer_id silent_ask silent_pushed)
qed (simp add: silent_ret)

lemma silent_push_graph: "silent (push_graph ops rows)"
  unfolding push_graph_def by (intro silent_abind silent_push_rows silent_modify) simp

lemma silent_counters: "silent (refresh_counters ops)"
  unfolding refresh_counters_def split_beta by (intro silent_abind silent_ask silent_modify) simp

lemma silent_bill: "silent (bill_searches ops)"
  unfolding bill_searches_def Let_def split_beta
  by (intro silent_abind silent_ask silent_gets silent_if silent_ret silent_emit silent_modify) simp_all

lemma silent_stats: "silent (system_stats ops lv)"
  unfolding system_stats_def by (intro silent_abind silent_ask silent_if silent_ret silent_emit) simp

lemma silent_first: "silent (if b then emit_feed ops First_Record_Drained else ret ())"
  by (intro silent_if silent_ret silent_emit) simp

text \<open>C18: Every completed game is announced and recorded: an iteration of the feeder that ends without an
  exception hands the sink one \<open>game_complete\<close> and the recorder one record for each game the runner drained, in
  the drained order and with the same identity, hash, length, worker, result, moves and reason on both sides,
  and beats once.\<close>

theorem drained_games_published:
  assumes run: "drain_once ops lv s = (Inr lv', s')" and sink: "fo_sink ops = Some sink" and hb: "fo_heartbeat ops = Some hb"
    and batch: "\<forall>w. fst (fo_drain ops w) = Inr batch"
  shows "\<exists>gs rs. list_all2 same_facts gs rs \<and> list_all2 of_entry rs batch \<and>
     announced (fd_trace s') = announced (fd_trace s) @ gs \<and> recordings (fd_trace s') = recordings (fd_trace s) @ rs \<and>
     beats (fd_trace s') = Suc (beats (fd_trace s))"
proof -
  from run obtain rows b s1 s2 s3 s4 s5 s6 s7 s8 s9 s10 lv1 lv2 u2 u3 u5 u6 u7 u8 u9 where
    st: "ask (fo_collect ops) s = (Inr rows, s1)" "push_graph ops rows s1 = (Inr u2, s2)" "refresh_counters ops s2 = (Inr u3, s3)"
      "ask (fo_drain ops) s3 = (Inr b, s4)"
      "(if \<not> lv_first_drained lv \<and> (rows \<noteq> [] \<or> b \<noteq> []) then emit_feed ops First_Record_Drained else ret ()) s4 = (Inr u5, s5)"
      "bill_searches ops s5 = (Inr u6, s6)"
    and games: "drain_games ops b s6 = (Inr u7, s7)"
    and stats: "system_stats ops lv2 s7 = (Inr lv1, s8)"
    and tail: "beat_feed ops s8 = (Inr u8, s9)" "ask (fo_sleep ops) s9 = (Inr u9, s10)" "ret lv1 s10 = (Inr lv', s')"
    unfolding drain_once_def Let_def abind_Inr_iff by (elim exE conjE) (rule that, assumption+)
  have b: "b = batch" using st(4) batch by (auto simp: ask_Inr) (metis fst_conv sum.inject(2))
  have v: "games_view s6 = games_view s"
    using silentD [OF silent_ask st(1)] silentD [OF silent_push_graph st(2)] silentD [OF silent_counters st(3)]
      silentD [OF silent_ask st(4)] silentD [OF silent_first st(5)] silentD [OF silent_bill st(6)] by simp
  from games have games: "drain_games ops batch s6 = (Inr (), s7)" by (simp add: b)
  from drain_games_view [OF games sink] obtain gs rs where
    g: "list_all2 same_facts gs rs" "list_all2 of_entry rs batch" "games_view s7 = (announced (fd_trace s6) @ gs, recordings (fd_trace s6) @ rs, beats (fd_trace s6))"
    by blast
  have 8: "games_view s8 = games_view s7" by (rule silentD [OF silent_stats stats])
  have "announced (fd_trace s') = announced (fd_trace s8) \<and> recordings (fd_trace s') = recordings (fd_trace s8) \<and>
      beats (fd_trace s') = Suc (beats (fd_trace s8))"
    using tail hb by (auto simp: beat_feed_def abind_Inr_iff ask_Inr trace_step_def modify_def ret_def view_defs map_filter_def)
  then show ?thesis using g v 8 by (intro exI [of _ gs] exI [of _ rs]) (simp add: games_view_def)
qed

lemma demo_drain_run:
  "\<exists>lv' s'. drain_once demo_feed_ops \<lparr>lv_last_buf_emit = 0, lv_first_drained = False\<rparr> demo_feed = (Inr lv', s')"
  by (simp add: drain_once_def push_graph_def demo_feed_ops_def demo_feed_def demo_row_def demo_entry_def abind_def ret_def buffer_id_def
      dget_def ask_def modify_def trace_step_def is_alpha_full_def ALPHA_FULL_THRESHOLD_def emit_feed_def gets_def Let_def
      refresh_counters_def bill_searches_def drain_game_def measure_game_def on_game_complete_def finished_of_def system_stats_def beat_feed_def
      note_length_def)

theorem drained_games_published_witness:
  "\<exists>lv' s' g r. drain_once demo_feed_ops \<lparr>lv_last_buf_emit = 0, lv_first_drained = False\<rparr> demo_feed = (Inr lv', s') \<and>
     announced (fd_trace s') = [g] \<and> recordings (fd_trace s') = [r] \<and> same_facts g r \<and> rd_moves r = [(0, 0), (1, 0), (0, 1)] \<and>
     beats (fd_trace s') = 1"
proof -
  obtain lv' s' where run: "drain_once demo_feed_ops \<lparr>lv_last_buf_emit = 0, lv_first_drained = False\<rparr> demo_feed = (Inr lv', s')"
    using demo_drain_run by blast
  have "\<forall>w. fst (fo_drain demo_feed_ops w) = Inr [demo_entry]" by (simp add: demo_feed_ops_def ret_def)
  from drained_games_published [OF run _ _ this] obtain gs rs where
    "list_all2 same_facts gs rs" "list_all2 of_entry rs [demo_entry]" "announced (fd_trace s') = gs" "recordings (fd_trace s') = rs"
    "beats (fd_trace s') = 1"
    by (auto simp: demo_feed_ops_def demo_feed_def view_defs map_filter_def)
  with run show ?thesis by (auto simp: list_all2_Cons2 of_entry_def demo_entry_def)
qed

end
