(* ===== verification/Segments.thy ===== *)
theory Segments
  imports Py_Values
begin

text \<open>
  The segment files of a run's event stream and of its game records (\<open>src/mantis/monitor/sink.py\<close> and the
  shard names of \<open>src/mantis/monitor/game_record.py\<close>): the refusal of run ids, the file name and its regular
  expression, the next free index, and the claim of a segment by creating its file exclusively.

  A regular expression is an executable search: the group \<open>.+\<close> takes the longest text whose rest matches, and
  \<open>$\<close> also matches before a final newline. A claim is two steps, the scan of the directory and the exclusive
  creation, so that processes can interleave between them; \<open>claim_segment\<close> runs the steps of one process while
  other processes create files in between.
\<close>

section \<open>Names\<close>

text \<open>\<open>str.strip\<close> removes the white space of \<open>white\<close>, and four separators and two more of the upper half.\<close>

definition py_space :: "char \<Rightarrow> bool" where
  "py_space c \<longleftrightarrow> white c \<or> of_char c \<in> {28, 29, 30, 31, 133, 160 :: nat}"

definition stripped :: "string \<Rightarrow> string" where
  "stripped s = rev (dropWhile py_space (rev (dropWhile py_space s)))"

definition control :: "char \<Rightarrow> bool" where
  "control c \<longleftrightarrow> of_char c < (32 :: nat) \<or> of_char c = (127 :: nat)"

fun has_dots :: "string \<Rightarrow> bool" where
  "has_dots (a # b # s) = (a = CHR ''.'' \<and> b = CHR ''.'' \<or> has_dots (b # s))"
| "has_dots _ = False"

definition validate_run_id :: "string \<Rightarrow> string res" where
  "validate_run_id run = (if run = [] then Inl RunIdError
     else if run \<noteq> stripped run then Inl RunIdError
     else if CHR ''/'' \<in> set run \<or> CHR 0x5C \<in> set run then Inl RunIdError
     else if run = ''.'' \<or> run = ''..'' \<or> has_dots run then Inl RunIdError
     else if \<exists>c \<in> set run. control c then Inl RunIdError
     else Inr run)"

definition fmt04 :: "nat \<Rightarrow> string" where
  "fmt04 n = (let d = str_nat n in replicate (4 - length d) CHR ''0'' @ d)"

definition segment_filename :: "string \<Rightarrow> nat \<Rightarrow> string" where
  "segment_filename run n = ''events_'' @ run @ ''_seg'' @ fmt04 n @ ''.jsonl''"

definition shard_filename :: "string \<Rightarrow> nat \<Rightarrow> string \<Rightarrow> string" where
  "shard_filename run n hour = ''games_'' @ run @ ''_seg'' @ fmt04 n @ ''_'' @ hour @ ''.jsonl''"

section \<open>The regular expressions\<close>

definition jsonl_end :: "string \<Rightarrow> bool" where
  "jsonl_end s \<longleftrightarrow> s = ''.jsonl'' \<or> s = ''.jsonl'' @ [CHR 0x0A]"

text \<open>\<open>_seg(\d+)\<close> and what follows it.\<close>

definition seg_digits :: "(string \<Rightarrow> 'a option) \<Rightarrow> string \<Rightarrow> (nat \<times> 'a) option" where
  "seg_digits rest s = (if take 4 s \<noteq> ''_seg'' then None
     else let ds = takeWhile is_digit (drop 4 s) in
       if ds = [] then None else map_option (Pair (undigits ds)) (rest (dropWhile is_digit (drop 4 s))))"

definition event_tail :: "string \<Rightarrow> (nat \<times> unit) option" where
  "event_tail = seg_digits (\<lambda>s. if jsonl_end s then Some () else None)"

definition hour_tail :: "string \<Rightarrow> string option" where
  "hour_tail s = (if take 1 s = ''_'' \<and> length (take 10 (drop 1 s)) = 10 \<and> list_all is_digit (take 10 (drop 1 s)) \<and> jsonl_end (drop 11 s)
     then Some (take 10 (drop 1 s)) else None)"

definition shard_tail :: "string \<Rightarrow> (nat \<times> string) option" where
  "shard_tail = seg_digits hour_tail"

text \<open>\<open>(?P<run>.+)\<close> followed by a tail: the longest group first; a dot matches no newline.\<close>

fun split_at :: "(string \<Rightarrow> 'a option) \<Rightarrow> string \<Rightarrow> nat \<Rightarrow> (string \<times> 'a) option" where
  "split_at tail_of s 0 = None"
| "split_at tail_of s (Suc n) = (case tail_of (drop (Suc n) s) of
     Some x \<Rightarrow> if CHR 0x0A \<notin> set (take (Suc n) s) then Some (take (Suc n) s, x) else split_at tail_of s n
   | None \<Rightarrow> split_at tail_of s n)"

definition match_after :: "string \<Rightarrow> (string \<Rightarrow> 'a option) \<Rightarrow> string \<Rightarrow> (string \<times> 'a) option" where
  "match_after prefix tail_of name = (if take (length prefix) name = prefix
     then split_at tail_of (drop (length prefix) name) (length (drop (length prefix) name)) else None)"

definition SEGMENT_RE :: "string \<Rightarrow> (string \<times> nat) option" where
  "SEGMENT_RE name = map_option (\<lambda>(run, n, _). (run, n)) (match_after ''events_'' event_tail name)"

definition SHARD_RE :: "string \<Rightarrow> (string \<times> nat \<times> string) option" where
  "SHARD_RE name = match_after ''games_'' shard_tail name"

text \<open>\<open>next_segment_index\<close> uses only the run and the index of a match.\<close>

definition shard_segment :: "string \<Rightarrow> (string \<times> nat) option" where
  "shard_segment name = map_option (\<lambda>(run, n, _). (run, n)) (SHARD_RE name)"

text \<open>A directory is the list of its names; a missing one has none.\<close>

fun highest_segment :: "(string \<Rightarrow> (string \<times> nat) option) \<Rightarrow> string \<Rightarrow> string list \<Rightarrow> nat \<Rightarrow> nat" where
  "highest_segment pattern run [] h = h"
| "highest_segment pattern run (name # names) h = highest_segment pattern run names
     (case pattern name of Some (r, n) \<Rightarrow> if r = run then max h n else h | None \<Rightarrow> h)"

definition next_segment_index :: "string list \<Rightarrow> string \<Rightarrow> (string \<Rightarrow> (string \<times> nat) option) \<Rightarrow> nat" where
  "next_segment_index names run pattern = highest_segment pattern run names 0 + 1"

section \<open>Claiming a segment\<close>

definition MAX_SEGMENT_CLAIM_RETRIES :: nat where "MAX_SEGMENT_CLAIM_RETRIES = 64"

datatype claim = Scan nat | Open nat nat | Claimed nat | Gave_Up

definition claim_step :: "string \<Rightarrow> claim \<Rightarrow> string list \<Rightarrow> claim \<times> string list" where
  "claim_step run c names = (case c of
     Scan 0 \<Rightarrow> (Gave_Up, names)
   | Scan (Suc k) \<Rightarrow> (Open k (next_segment_index names run SEGMENT_RE), names)
   | Open k n \<Rightarrow> (let path = segment_filename run n in
       if path \<in> set names then (Scan k, names) else (Claimed n, path # names))
   | _ \<Rightarrow> (c, names))"

text \<open>The loop of \<open>_claim_segment\<close> over a directory that lists its names and creates a file exclusively.\<close>

fun claim_segment :: "('w, string list) act \<Rightarrow> (string \<Rightarrow> ('w, unit) act) \<Rightarrow> string \<Rightarrow> nat \<Rightarrow> ('w, nat) act" where
  "claim_segment listdir create run 0 = lift (Inl OSError)"
| "claim_segment listdir create run (Suc k) = abind listdir (\<lambda>names.
     let n = next_segment_index names run SEGMENT_RE in
     (\<lambda>w. case create (segment_filename run n) w of (Inr _, w') \<Rightarrow> (Inr n, w')
        | (Inl e, w') \<Rightarrow> if e = FileExistsError then claim_segment listdir create run k w' else (Inl e, w')))"

definition first_claim :: claim where "first_claim = Scan MAX_SEGMENT_CLAIM_RETRIES"

text \<open>On a plain directory the loop is the steps of one process taken one after the other.\<close>

definition dir_list :: "(string list, string list) act" where "dir_list names = (Inr names, names)"

definition dir_create :: "string \<Rightarrow> (string list, unit) act" where
  "dir_create path names = (if path \<in> set names then (Inl FileExistsError, names) else (Inr (), path # names))"

fun claim_steps :: "nat \<Rightarrow> string \<Rightarrow> claim \<times> string list \<Rightarrow> claim \<times> string list" where
  "claim_steps 0 run s = s"
| "claim_steps (Suc j) run (c, names) = claim_steps j run (claim_step run c names)"

lemma claim_steps_end: "claim_steps j run (Claimed n, names) = (Claimed n, names)"
  by (induction j) (simp_all add: claim_step_def)

lemma claim_segment_steps:
  "claim_segment dir_list dir_create run k names = (case claim_steps (2 * k + 1) run (Scan k, names) of
     (c, names') \<Rightarrow> (case c of Claimed n \<Rightarrow> Inr n | _ \<Rightarrow> Inl OSError, names'))"
proof (induction k arbitrary: names)
  case 0
  then show ?case by (simp add: claim_step_def lift_def)
next
  case (Suc k)
  have "2 * Suc k + 1 = Suc (Suc (2 * k + 1))" by simp
  then show ?case using Suc.IH [of names]
    by (simp add: claim_step_def abind_def dir_list_def dir_create_def Let_def claim_steps_end del: mult_Suc_right split: if_splits)
qed

section \<open>Reading back a name\<close>

lemma digit_is_digit: "c \<in> digit_chars \<Longrightarrow> is_digit c"
  by (auto simp: digit_chars_def is_digit_def of_char_digit)

lemma str_nat_ne: "str_nat n \<noteq> []"
  by (subst str_nat.simps) simp

lemma fmt04_digits: "list_all is_digit (fmt04 n)" "fmt04 n \<noteq> []" "undigits (fmt04 n) = n"
proof -
  have "is_digit CHR ''0''" by (simp add: is_digit_def)
  then show "list_all is_digit (fmt04 n)"
    using str_nat_chars [of n] by (auto simp: fmt04_def Let_def list_all_iff digit_is_digit)
qed (simp_all add: fmt04_def Let_def str_nat_ne undigits_zeros undigits_str_nat)

lemma is_digit_not: "\<not> is_digit CHR ''.''" "\<not> is_digit CHR ''_''" "\<not> is_digit CHR ''e''"
  by (simp_all add: is_digit_def)

lemma take_digits: "list_all is_digit ds \<Longrightarrow> \<not> is_digit c \<Longrightarrow> takeWhile is_digit (ds @ c # s) = ds \<and> dropWhile is_digit (ds @ c # s) = c # s"
  by (induction ds) auto

lemma seg_digits_own:
  assumes "\<not> is_digit c"
  shows "seg_digits rest (''_seg'' @ fmt04 n @ c # s) = map_option (Pair n) (rest (c # s))"
  using take_digits [OF fmt04_digits(1) assms, of n s] by (simp add: seg_digits_def fmt04_digits Let_def)

text \<open>Past its first letter the tail has no \<open>_seg\<close> again.\<close>

lemma seg_digits_late:
  assumes "CHR ''e'' \<notin> set t" "0 < j"
  shows "seg_digits rest (drop j (''_seg'' @ t)) = None"
proof (rule ccontr)
  assume "seg_digits rest (drop j (''_seg'' @ t)) \<noteq> None"
  then have p: "take 4 (drop j (''_seg'' @ t)) = ''_seg''" by (auto simp: seg_digits_def split: if_splits)
  then have "drop j (''_seg'' @ t) = ''_seg'' @ drop 4 (drop j (''_seg'' @ t))" by (metis append_take_drop_id)
  then have "drop 2 (drop j (''_seg'' @ t)) = ''eg'' @ drop 4 (drop j (''_seg'' @ t))" by (metis append_Cons append_Nil drop_Suc_Cons drop_0 numeral_2_eq_2)
  then have "CHR ''e'' \<in> set (drop (2 + j) (''_seg'' @ t))" by simp
  moreover have "drop (2 + j) (''_seg'' @ t) = drop (j - 1) (CHR ''g'' # t)" using assms(2) by (cases j) simp_all
  ultimately show False using assms(1) set_drop_subset [of "j - 1" "CHR ''g'' # t"] by auto
qed

lemma split_at_own:
  assumes "run \<noteq> []" "CHR 0x0A \<notin> set run" "tail_of t = Some x" "\<And>j. 0 < j \<Longrightarrow> tail_of (drop j t) = None"
  shows "split_at tail_of (run @ t) (length run + m) = Some (run, x)"
proof (induction m)
  case 0
  then show ?case using assms by (cases "length run") auto
next
  case (Suc m)
  then show ?case using assms(4) [of "Suc m"] by simp
qed

lemma match_own:
  assumes "run \<noteq> []" "CHR 0x0A \<notin> set run" "tail_of t = Some x" "\<And>j. 0 < j \<Longrightarrow> tail_of (drop j t) = None"
  shows "match_after prefix tail_of (prefix @ run @ t) = Some (run, x)"
  using split_at_own [of run tail_of t x "length t"] assms by (simp add: match_after_def)

lemma SEGMENT_RE_own:
  assumes "run \<noteq> []" "CHR 0x0A \<notin> set run"
  shows "SEGMENT_RE (segment_filename run n) = Some (run, n)"
proof -
  let ?t = "''_seg'' @ fmt04 n @ ''.jsonl''"
  have "event_tail ?t = Some (n, ())"
    using seg_digits_own [OF is_digit_not(1), of "\<lambda>s. if jsonl_end s then Some () else None" n "''jsonl''"] by (simp add: event_tail_def jsonl_end_def)
  moreover have "event_tail (drop j ?t) = None" if "0 < j" for j
    unfolding event_tail_def by (rule seg_digits_late [OF _ that]) (use fmt04_digits(1) [of n] is_digit_not in \<open>auto simp: list_all_iff\<close>)
  ultimately show ?thesis
    unfolding SEGMENT_RE_def segment_filename_def using match_own [OF assms, of event_tail ?t "(n, ())" "''events_''"] by simp
qed

lemma SHARD_RE_own:
  assumes "run \<noteq> []" "CHR 0x0A \<notin> set run" "length hour = 10" "list_all is_digit hour"
  shows "SHARD_RE (shard_filename run n hour) = Some (run, n, hour)"
proof -
  let ?t = "''_seg'' @ fmt04 n @ ''_'' @ hour @ ''.jsonl''"
  have "hour_tail (''_'' @ hour @ ''.jsonl'') = Some hour" using assms(3,4) by (simp add: hour_tail_def jsonl_end_def)
  then have "shard_tail ?t = Some (n, hour)"
    using seg_digits_own [OF is_digit_not(2), of hour_tail n "hour @ ''.jsonl''"] by (simp add: shard_tail_def)
  moreover have "shard_tail (drop j ?t) = None" if "0 < j" for j
    unfolding shard_tail_def
    by (rule seg_digits_late [OF _ that]) (use fmt04_digits(1) [of n] assms(4) is_digit_not in \<open>auto simp: list_all_iff\<close>)
  ultimately show ?thesis
    unfolding SHARD_RE_def shard_filename_def using match_own [OF assms(1,2), of shard_tail ?t "(n, hour)" "''games_''"] by simp
qed

section \<open>Processes that race for a segment\<close>

text \<open>
  The directory, and each process with its run and the state of its claim. A schedule lists whose turn it is;
  \<open>Foreign\<close> creates a file that is no segment of the processes' runs.
\<close>

type_synonym race = "string list \<times> (string \<times> claim) list"

datatype turn = Turn nat | Foreign string

fun race_step :: "turn \<Rightarrow> race \<Rightarrow> race" where
  "race_step (Turn i) (names, ps) = (if i < length ps then
     (case ps ! i of (run, c) \<Rightarrow> case claim_step run c names of (c', names') \<Rightarrow> (names', ps[i := (run, c')])) else (names, ps))"
| "race_step (Foreign name) (names, ps) =
     (if \<forall>p \<in> set ps. map_option fst (SEGMENT_RE name) \<noteq> Some (fst p) then (name # names, ps) else (names, ps))"

definition run_race :: "turn list \<Rightarrow> string list \<Rightarrow> string list \<Rightarrow> race" where
  "run_race schedule names runs = fold race_step schedule (names, map (\<lambda>run. (run, first_claim)) runs)"

definition good_run :: "string \<Rightarrow> bool" where
  "good_run run \<longleftrightarrow> validate_run_id run = Inr run"

lemma good_run_match: "good_run run \<Longrightarrow> SEGMENT_RE (segment_filename run n) = Some (run, n)"
  by (rule SEGMENT_RE_own) (auto simp: good_run_def validate_run_id_def control_def split: if_splits)

lemma segment_inj: "good_run r \<Longrightarrow> good_run q \<Longrightarrow> segment_filename r n = segment_filename q m \<longleftrightarrow> r = q \<and> n = m"
  by (metis good_run_match option.inject prod.inject)

definition taken :: "(string \<times> claim) list \<Rightarrow> string \<Rightarrow> nat set" where
  "taken ps run = {n. (run, Claimed n) \<in> set ps}"

lemma taken_finite: "finite (taken ps run)"
proof -
  have "taken ps run \<subseteq> (\<lambda>p. case snd p of Claimed n \<Rightarrow> n | _ \<Rightarrow> 0) ` set ps" by (force simp: taken_def)
  then show ?thesis using finite_subset by blast
qed

lemma taken_less:
  assumes "i < length ps" "\<And>n. snd (ps ! i) \<noteq> Claimed n"
  shows "card (taken ps run) < length ps"
proof -
  let ?f = "\<lambda>j. case snd (ps ! j) of Claimed n \<Rightarrow> n | _ \<Rightarrow> 0"
  have "taken ps run \<subseteq> ?f ` ({..<length ps} - {i})"
  proof
    fix n assume "n \<in> taken ps run"
    then obtain j where j: "j < length ps" "ps ! j = (run, Claimed n)" by (auto simp: taken_def in_set_conv_nth)
    then have "j \<noteq> i" using assms(2) [of n] by auto
    then show "n \<in> ?f ` ({..<length ps} - {i})" using j by (intro image_eqI [of _ _ j]) auto
  qed
  then have "card (taken ps run) \<le> card ({..<length ps} - {i})" by (meson card_image_le card_mono finite_Diff finite_imageI finite_lessThan le_trans)
  then show ?thesis using assms(1) by simp
qed

lemma highest_ge:
  "h \<le> highest_segment pattern run names h \<and> (\<forall>name \<in> set names. \<forall>n. pattern name = Some (run, n) \<longrightarrow> n \<le> highest_segment pattern run names h)"
proof (induction names arbitrary: h)
  case (Cons name names)
  let ?h = "case pattern name of Some (r, n) \<Rightarrow> if r = run then max h n else h | None \<Rightarrow> h"
  have "h \<le> ?h" "\<forall>n. pattern name = Some (run, n) \<longrightarrow> n \<le> ?h" by (auto split: option.split)
  with Cons.IH [of ?h] show ?case by (auto intro: order_trans)
qed simp

lemma next_is_new: "name \<in> set names \<Longrightarrow> pattern name = Some (run, n) \<Longrightarrow> n < next_segment_index names run pattern"
  using highest_ge [of 0 pattern run names] by (auto simp: next_segment_index_def less_Suc_eq_le)

text \<open>What a process may rely on: its retries are paid for by segments that others took.\<close>

fun paid :: "string list \<Rightarrow> (string \<times> claim) list \<Rightarrow> string \<times> claim \<Rightarrow> bool" where
  "paid old ps (run, Scan k) = (k \<le> 64 \<and> 64 \<le> k + card (taken ps run))"
| "paid old ps (run, Open k n) = (k < 64 \<and> segment_filename run n \<notin> set old \<and>
     (\<forall>name \<in> set old. \<forall>m. SEGMENT_RE name = Some (run, m) \<longrightarrow> m < n) \<and> 63 \<le> k + card {m \<in> taken ps run. m < n})"
| "paid old ps (run, Claimed n) = (segment_filename run n \<notin> set old \<and> (\<forall>name \<in> set old. \<forall>m. SEGMENT_RE name = Some (run, m) \<longrightarrow> m < n))"
| "paid old ps (run, Gave_Up) = (64 \<le> card (taken ps run))"

definition race_inv :: "string list \<Rightarrow> string list \<Rightarrow> race \<Rightarrow> bool" where
  "race_inv old runs w \<longleftrightarrow> (case w of (names, ps) \<Rightarrow>
     set old \<subseteq> set names \<and> map fst ps = runs \<and> (\<forall>p \<in> set ps. paid old ps p) \<and>
     (\<forall>run \<in> set runs. \<forall>n. segment_filename run n \<in> set names - set old \<longleftrightarrow> n \<in> taken ps run) \<and>
     (\<forall>i j run n. i < length ps \<longrightarrow> j < length ps \<longrightarrow> ps ! i = (run, Claimed n) \<longrightarrow> ps ! j = (run, Claimed n) \<longrightarrow> i = j))"

lemma taken_update:
  assumes "i < length ps" "\<And>n. snd (ps ! i) \<noteq> Claimed n" "fst (ps ! i) = run"
  shows "taken (ps[i := (run, c)]) r = taken ps r \<union> {n. r = run \<and> c = Claimed n}"
  using assms by (auto simp: taken_def in_set_conv_nth nth_list_update) (metis nth_list_update snd_conv)+

lemma paid_mono:
  assumes "paid old ps p" "\<And>r. taken ps r \<subseteq> taken ps' r"
  shows "paid old ps' p"
proof -
  have m: "card (taken ps r) \<le> card (taken ps' r)" "card {m \<in> taken ps r. m < n} \<le> card {m \<in> taken ps' r. m < n}" for r n
    using assms(2) taken_finite by (auto intro!: card_mono)
  obtain run c where p: "p = (run, c)" by (cases p)
  show ?thesis using assms(1) m [of run] unfolding p by (cases c) (auto intro: order_trans)
qed

lemma own_step:
  assumes step: "claim_step run c names = (c', names')" and own: "paid old ps (run, c)"
    and open_: "\<not> (\<exists>n. c = Claimed n \<or> c = Gave_Up)" and run: "good_run run" and sub: "set old \<subseteq> set names"
    and files: "\<And>n. segment_filename run n \<in> set names - set old \<longleftrightarrow> n \<in> taken ps run"
    and tk: "\<And>r. taken ps' r = taken ps r \<union> {n. r = run \<and> c' = Claimed n}"
  shows "paid old ps' (run, c')"
proof (cases c)
  case (Scan j)
  show ?thesis
  proof (cases j)
    case 0
    then show ?thesis using step own tk Scan by (auto simp: claim_step_def)
  next
    case (Suc k)
    define n where "n = next_segment_index names run SEGMENT_RE"
    have c': "c' = Open k n" using step Scan Suc by (auto simp: claim_step_def n_def)
    have new: "m < n" if "name \<in> set names" "SEGMENT_RE name = Some (run, m)" for name m
      unfolding n_def by (rule next_is_new [where pattern = SEGMENT_RE, OF that])
    have "segment_filename run n \<notin> set names" using new good_run_match [OF run] by blast
    moreover have "m < n" if "m \<in> taken ps run" for m using files [of m] that new good_run_match [OF run] by blast
    then have "{m \<in> taken ps' run. m < n} = taken ps run" using tk c' by auto
    ultimately show ?thesis using own Scan Suc sub new unfolding c' by auto
  qed
next
  case (Open k n)
  show ?thesis
  proof (cases "segment_filename run n \<in> set names")
    case True
    then have c': "c' = Scan k" using step Open by (simp add: claim_step_def)
    then have tk': "taken ps' run = taken ps run" using tk by simp
    have "insert n {m \<in> taken ps run. m < n} \<subseteq> taken ps run" using files [of n] True own Open by auto
    from card_mono [OF taken_finite this] have "Suc (card {m \<in> taken ps run. m < n}) \<le> card (taken ps run)"
      using taken_finite by simp
    then show ?thesis using own Open unfolding c' by (simp add: tk')
  next
    case False
    then have "c' = Claimed n" using step Open by (simp add: claim_step_def)
    then show ?thesis using own Open by simp
  qed
qed (use open_ in auto)

lemma race_inv_step:
  assumes "race_inv old runs w" "\<forall>run \<in> set runs. good_run run"
  shows "race_inv old runs (race_step t w)"
proof -
  obtain names ps where w: "w = (names, ps)" by (cases w)
  from assms(1) have sub: "set old \<subseteq> set names" and runs: "map fst ps = runs" and paid: "\<And>p. p \<in> set ps \<Longrightarrow> paid old ps p"
    and files: "\<And>run n. run \<in> set runs \<Longrightarrow> segment_filename run n \<in> set names - set old \<longleftrightarrow> n \<in> taken ps run"
    and one: "\<And>i j run n. i < length ps \<Longrightarrow> j < length ps \<Longrightarrow> ps ! i = (run, Claimed n) \<Longrightarrow> ps ! j = (run, Claimed n) \<Longrightarrow> i = j"
    unfolding race_inv_def w by auto
  show ?thesis
  proof (cases t)
    case (Foreign name)
    have "segment_filename run n \<noteq> name" if "\<forall>p \<in> set ps. map_option fst (SEGMENT_RE name) \<noteq> Some (fst p)" "run \<in> set runs" for run n
      using that good_run_match [of run n] assms(2) runs by force
    then show ?thesis using assms(1) by (auto simp: Foreign w race_inv_def)
  next
    case (Turn i)
    show ?thesis
    proof (cases "i < length ps")
      case False
      then show ?thesis using assms(1) by (simp add: Turn w)
    next
      case True
      obtain run c where p: "ps ! i = (run, c)" by (cases "ps ! i")
      have run: "run \<in> set runs" "good_run run" using True p assms(2) runs by (metis fst_conv length_map nth_map nth_mem)+
      obtain c' names' where step: "claim_step run c names = (c', names')" by (cases "claim_step run c names")
      let ?ps = "ps[i := (run, c')]"
      have result: "race_step t w = (names', ?ps)" using True p step by (simp add: Turn w)
      have own: "paid old ps (run, c)" using paid True p by (metis nth_mem)
      have runs': "map fst ?ps = runs" using runs True p by (metis fst_conv list_update_id map_update)
      show ?thesis
      proof (cases "\<exists>n. c = Claimed n \<or> c = Gave_Up")
        case True
        then have "c' = c" "names' = names" using step by (auto simp: claim_step_def)
        moreover have "ps[i := (run, c)] = ps" using list_update_id [of ps i] p by simp
        ultimately have "race_step t w = w" using result w by simp
        then show ?thesis using assms(1) by simp
      next
        case open_: False
        then have tk: "taken ?ps r = taken ps r \<union> {n. r = run \<and> c' = Claimed n}" for r
          using taken_update [of i ps run c' r] True p by auto
        have mono: "\<And>r. taken ps r \<subseteq> taken ?ps r" unfolding tk by blast
        have same_names: "names' = names \<and> (\<forall>n. c' \<noteq> Claimed n) \<or> (\<exists>n. c' = Claimed n \<and> names' = segment_filename run n # names \<and> segment_filename run n \<notin> set names)"
          using step open_ by (auto simp: claim_step_def Let_def split: claim.splits nat.splits if_splits)
        have "paid old ?ps (run, c')"
          using own_step [OF step own open_ run(2) sub] files [OF run(1)] tk by blast
        then have "\<And>p. p \<in> set ?ps \<Longrightarrow> paid old ?ps p"
          using paid paid_mono [OF _ mono] by (metis in_set_conv_nth length_list_update nth_list_update_eq nth_list_update_neq nth_mem)
        moreover have "segment_filename r n \<in> set names' - set old \<longleftrightarrow> n \<in> taken ?ps r" if r: "r \<in> set runs" for r n
        proof (cases "\<exists>m. c' = Claimed m")
          case False
          then show ?thesis using files [OF r] same_names unfolding tk by auto
        next
          case True
          then obtain m where m: "c' = Claimed m" "names' = segment_filename run m # names" "segment_filename run m \<notin> set names"
            using same_names by auto
          have "segment_filename r n = segment_filename run m \<longleftrightarrow> r = run \<and> n = m"
            using segment_inj [OF _ run(2)] r assms(2) by blast
          have "segment_filename run m \<notin> set old" using m(3) sub by blast
          then have "segment_filename r n \<in> set names' - set old \<longleftrightarrow> (r = run \<and> n = m) \<or> segment_filename r n \<in> set names - set old"
            using m(2) \<open>_ \<longleftrightarrow> r = run \<and> n = m\<close> by (cases "r = run \<and> n = m") auto
          then show ?thesis unfolding tk files [OF r, of n] using m(1) by auto
        qed
        moreover have "a = b" if "a < length ?ps" "b < length ?ps" "?ps ! a = (r, Claimed n)" "?ps ! b = (r, Claimed n)" for a b r n
        proof -
          have clash: "ps ! j \<noteq> (run, Claimed n)" if j: "j < length ps" "c' = Claimed n" for j
          proof
            assume "ps ! j = (run, Claimed n)"
            then have "n \<in> taken ps run" using j(1) nth_mem [of j ps] by (simp add: taken_def)
            then have "segment_filename run n \<in> set names" using files [OF run(1), of n] by simp
            then show False using same_names j(2) by auto
          qed
          consider "a = i" "b = i" | "a = i" "b \<noteq> i" | "a \<noteq> i" "b = i" | "a \<noteq> i" "b \<noteq> i" by blast
          then show ?thesis
          proof cases
            case 2
            then show ?thesis using clash [of b] that True by simp
          next
            case 3
            then show ?thesis using clash [of a] that True by simp
          next
            case 4
            then show ?thesis using one [of a b r n] that by simp
          qed simp
        qed
        moreover have "set old \<subseteq> set names'" using sub same_names by auto
        ultimately show ?thesis unfolding result race_inv_def using runs' by auto
      qed
    qed
  qed
qed

section \<open>Properties\<close>

lemma race_inv_start: "\<forall>run \<in> set runs. good_run run \<Longrightarrow> race_inv names runs (names, map (\<lambda>run. (run, first_claim)) runs)"
  by (auto simp: race_inv_def taken_def first_claim_def MAX_SEGMENT_CLAIM_RETRIES_def o_def)

lemma race_inv_run: "\<forall>run \<in> set runs. good_run run \<Longrightarrow> race_inv names runs (run_race schedule names runs)"
proof (induction schedule rule: rev_induct)
  case Nil
  then show ?case using race_inv_start by (simp add: run_race_def)
next
  case (snoc t schedule)
  then show ?case using race_inv_step [of names runs "run_race schedule names runs" t] by (simp add: run_race_def)
qed

text \<open>The turns a claim has left to take.\<close>

fun work :: "claim \<Rightarrow> nat" where
  "work (Scan k) = 2 * k + 1"
| "work (Open k n) = 2 * k + 2"
| "work _ = 0"

lemma work_step: "work (fst (claim_step run c names)) \<le> work c - 1"
  by (auto simp: claim_step_def Let_def split: claim.split nat.split)

lemma work_race:
  assumes "i < length (snd w)"
  shows "work (snd (snd (fold race_step schedule w) ! i)) \<le> work (snd (snd w ! i)) - count_list schedule (Turn i)"
  using assms
proof (induction schedule arbitrary: w)
  case (Cons t schedule)
  obtain names ps where w: "w = (names, ps)" by (cases w)
  have len: "length (snd (race_step t w)) = length ps" by (cases t) (auto simp: w split: prod.split)
  have "work (snd (snd (race_step t w) ! i)) \<le> work (snd (ps ! i)) - (if t = Turn i then 1 else 0)"
  proof (cases "t = Turn i")
    case True
    obtain run c where p: "ps ! i = (run, c)" by (cases "ps ! i")
    show ?thesis using work_step [of run c names] Cons.prems True p w by (auto split: prod.split)
  next
    case False
    then show ?thesis using Cons.prems by (cases t) (auto simp: w nth_list_update split: prod.split)
  qed
  with Cons.IH [of "race_step t w"] Cons.prems len show ?case by (auto simp: w split: if_splits)
qed simp

lemma race_done:
  assumes "i < length runs" "129 \<le> count_list schedule (Turn i)"
  shows "work (snd (snd (run_race schedule names runs) ! i)) = 0"
  using work_race [of i "(names, map (\<lambda>run. (run, first_claim)) runs)" schedule] assms
  by (simp add: run_race_def first_claim_def MAX_SEGMENT_CLAIM_RETRIES_def)

text \<open>C21: No two processes ever own one segment file: whatever the directory holds and however the scans and the
  creations of any number of processes interleave with each other and with other files, the segments that were
  claimed are files of their own that did not exist before, numbered above every earlier segment of their run,
  and nothing is lost from the directory; and when at most 64 processes start, each has claimed its segment
  after 129 steps of its own.\<close>

theorem segments_are_exclusive:
  assumes good: "\<forall>run \<in> set runs. validate_run_id run = Inr run" and race: "run_race schedule names runs = (names', ps)"
  shows "(\<forall>i j ri rj n m. i < length ps \<longrightarrow> j < length ps \<longrightarrow> i \<noteq> j \<longrightarrow> ps ! i = (ri, Claimed n) \<longrightarrow> ps ! j = (rj, Claimed m) \<longrightarrow>
      segment_filename ri n \<noteq> segment_filename rj m) \<and>
    (\<forall>run n. (run, Claimed n) \<in> set ps \<longrightarrow> segment_filename run n \<in> set names' - set names \<and>
      (\<forall>name \<in> set names. \<forall>m. SEGMENT_RE name = Some (run, m) \<longrightarrow> m < n)) \<and>
    set names \<subseteq> set names' \<and>
    (length runs \<le> 64 \<longrightarrow> (\<forall>i < length runs. 129 \<le> count_list schedule (Turn i) \<longrightarrow> (\<exists>n. ps ! i = (runs ! i, Claimed n))))"
proof -
  have good': "\<forall>run \<in> set runs. good_run run" using good by (simp add: good_run_def)
  have inv: "race_inv names runs (names', ps)" using race_inv_run [OF good', of names schedule] race by simp
  then have runs: "map fst ps = runs" and paid: "\<And>p. p \<in> set ps \<Longrightarrow> paid names ps p"
    and files: "\<And>run n. run \<in> set runs \<Longrightarrow> segment_filename run n \<in> set names' - set names \<longleftrightarrow> n \<in> taken ps run"
    and one: "\<And>i j run n. i < length ps \<Longrightarrow> j < length ps \<Longrightarrow> ps ! i = (run, Claimed n) \<Longrightarrow> ps ! j = (run, Claimed n) \<Longrightarrow> i = j"
    and sub: "set names \<subseteq> set names'"
    unfolding race_inv_def by auto
  have known: "p \<in> set ps \<Longrightarrow> fst p \<in> set runs" for p using runs by force
  have "segment_filename ri n \<noteq> segment_filename rj m"
    if "i < length ps" "j < length ps" "i \<noteq> j" "ps ! i = (ri, Claimed n)" "ps ! j = (rj, Claimed m)" for i j ri rj n m
  proof
    assume eq: "segment_filename ri n = segment_filename rj m"
    have "good_run ri" "good_run rj" using known [of "ps ! i"] known [of "ps ! j"] nth_mem [OF that(1)] nth_mem [OF that(2)] that good' by auto
    then have "ri = rj \<and> n = m" using segment_inj eq by blast
    then show False using one [of i j ri n] that by simp
  qed
  moreover have "segment_filename run n \<in> set names' - set names" "\<forall>name \<in> set names. \<forall>m. SEGMENT_RE name = Some (run, m) \<longrightarrow> m < n"
    if "(run, Claimed n) \<in> set ps" for run n
    using that files [of run n] known [OF that] paid [OF that] by (auto simp: taken_def)
  moreover have "\<exists>n. ps ! i = (runs ! i, Claimed n)" if "length runs \<le> 64" "i < length runs" "129 \<le> count_list schedule (Turn i)" for i
  proof -
    have len: "length ps = length runs" using runs by (metis length_map)
    obtain run c where p: "ps ! i = (run, c)" by (cases "ps ! i")
    have run: "run = runs ! i" using runs p that(2) len by (metis fst_conv nth_map)
    have "work c = 0" using race_done [OF that(2,3), of names] race p by simp
    moreover have "c \<noteq> Gave_Up"
    proof
      assume c: "c = Gave_Up"
      have "(run, c) \<in> set ps" using p that(2) len nth_mem by metis
      from paid [OF this] c have "64 \<le> card (taken ps run)" by simp
      then show False using taken_less [of i ps run] p c that(1,2) len by simp
    qed
    ultimately show ?thesis using p run by (cases c) auto
  qed
  ultimately show ?thesis using sub by blast
qed

text \<open>Two processes of one run that scan the same directory: the loser scans again and takes the next segment.\<close>

theorem segments_are_exclusive_witness:
  "\<exists>names' ps. run_race [Turn 0, Turn 1, Turn 0, Turn 1, Turn 1, Turn 1] [segment_filename ''r'' 4] [''r'', ''r''] = (names', ps) \<and>
     ps = [(''r'', Claimed 5), (''r'', Claimed 6)] \<and> segment_filename (fst (ps ! 0)) 5 \<noteq> segment_filename (fst (ps ! 1)) 6"
proof -
  have good: "\<forall>run \<in> set [''r'', ''r'']. validate_run_id run = Inr run"
    by (simp add: validate_run_id_def stripped_def py_space_def white_def control_def)
  have re: "SEGMENT_RE (segment_filename ''r'' n) = Some (''r'', n)" for n by (rule SEGMENT_RE_own) simp_all
  have inj: "segment_filename ''r'' n = segment_filename ''r'' m \<longleftrightarrow> n = m" for n m
    using segment_inj [of "''r''" "''r''" n m] good by (simp add: good_run_def)
  obtain names' ps where race: "run_race [Turn 0, Turn 1, Turn 0, Turn 1, Turn 1, Turn 1] [segment_filename ''r'' 4] [''r'', ''r''] = (names', ps)"
    by (rule prod.exhaust)
  have scan: "claim_step ''r'' (Scan (numeral k)) ns = (Open (numeral k - 1) (next_segment_index ns ''r'' SEGMENT_RE), ns)" for k ns
    by (cases "numeral k :: nat") (simp_all add: claim_step_def)
  have open_: "claim_step ''r'' (Open k n) ns =
      (if segment_filename ''r'' n \<in> set ns then (Scan k, ns) else (Claimed n, segment_filename ''r'' n # ns))" for k n ns
    by (simp add: claim_step_def)
  let ?f = "segment_filename ''r''"
  have turns: "race_step (Turn 0) (ns, [(''r'', a), b]) = (case claim_step ''r'' a ns of (c, ns') \<Rightarrow> (ns', [(''r'', c), b]))"
    "race_step (Turn 1) (ns, [b, (''r'', a)]) = (case claim_step ''r'' a ns of (c, ns') \<Rightarrow> (ns', [b, (''r'', c)]))" for ns a b
    by (simp_all split: prod.split)
  have index: "next_segment_index [?f 4] ''r'' SEGMENT_RE = 5" "next_segment_index [?f 5, ?f 4] ''r'' SEGMENT_RE = 6"
    by (simp_all add: next_segment_index_def re)
  let ?r = "''r''"
  have "race_step (Turn 0) ([?f 4], [(?r, Scan 64), (?r, Scan 64)]) = ([?f 4], [(?r, Open 63 5), (?r, Scan 64)])"
    "race_step (Turn 1) ([?f 4], [(?r, Open 63 5), (?r, Scan 64)]) = ([?f 4], [(?r, Open 63 5), (?r, Open 63 5)])"
    "race_step (Turn 0) ([?f 4], [(?r, Open 63 5), (?r, Open 63 5)]) = ([?f 5, ?f 4], [(?r, Claimed 5), (?r, Open 63 5)])"
    "race_step (Turn 1) ([?f 5, ?f 4], [(?r, Claimed 5), (?r, Open 63 5)]) = ([?f 5, ?f 4], [(?r, Claimed 5), (?r, Scan 63)])"
    "race_step (Turn 1) ([?f 5, ?f 4], [(?r, Claimed 5), (?r, Scan 63)]) = ([?f 5, ?f 4], [(?r, Claimed 5), (?r, Open 62 6)])"
    "race_step (Turn 1) ([?f 5, ?f 4], [(?r, Claimed 5), (?r, Open 62 6)]) = ([?f 6, ?f 5, ?f 4], [(?r, Claimed 5), (?r, Claimed 6)])"
    unfolding turns by (simp_all only: scan open_ index prod.case) (simp_all add: inj)
  with race have ps: "ps = [(''r'', Claimed 5), (''r'', Claimed 6)]"
    by (simp only: run_race_def first_claim_def MAX_SEGMENT_CLAIM_RETRIES_def list.map fold.simps o_apply id_apply prod.inject)
  have "segment_filename (fst (ps ! 0)) 5 \<noteq> segment_filename (fst (ps ! 1)) 6"
    using conjunct1 [OF segments_are_exclusive [OF good race], rule_format, of 0 1 "''r''" 5 "''r''" 6] ps by simp
  with race ps show ?thesis by blast
qed

end

