(* ===== verification/Event_Sink.thy ===== *)
theory Event_Sink
  imports Segments "HOL-Library.Sublist"
begin

text \<open>
  The event sink (\<open>JsonlEventSink\<close> of \<open>src/mantis/monitor/sink.py\<close>): construction claims a segment and emits its
  header, an emit appends one line or counts one failure, and close is idempotent. The JSON encoder, the clock and
  the file are operations on a world of any type; each may raise. The writes are under the sink's lock, so an
  emit is one step of any interleaving of threads. The log lines are left out.
\<close>

record 'w sink_ops =
  so_dumps :: "(string, json) dict \<Rightarrow> string res"
  so_time :: "'w \<Rightarrow> real \<times> 'w"
  so_write :: "string \<Rightarrow> ('w, unit) act"
  so_close :: "('w, unit) act"
  so_listdir :: "('w, string list) act"
  so_create :: "string \<Rightarrow> ('w, unit) act"
  so_header :: "string \<Rightarrow> nat \<Rightarrow> (string, json) dict"

record 'w sink =
  sk_world :: 'w
  sk_run :: string
  sk_segment :: nat
  sk_errors :: nat
  sk_closed :: bool

definition count_error :: "'w sink \<Rightarrow> 'w sink" where
  "count_error s = s\<lparr>sk_errors := Suc (sk_errors s)\<rparr>"

definition file_op :: "('w, unit) act \<Rightarrow> 'w sink \<Rightarrow> 'w sink" where
  "file_op m s = (case m (sk_world s) of (Inr _, w) \<Rightarrow> s\<lparr>sk_world := w\<rparr> | (Inl e, w) \<Rightarrow> count_error (s\<lparr>sk_world := w\<rparr>))"

definition stamped :: "'w sink_ops \<Rightarrow> (string, json) dict \<Rightarrow> 'w sink \<Rightarrow> (string, json) dict \<times> 'w sink" where
  "stamped ops ev s = (if ''ts'' \<in> dkeys ev then (ev, s)
     else case so_time ops (sk_world s) of (t, w) \<Rightarrow> (ev @ [(''ts'', JFloat (Fin t))], s\<lparr>sk_world := w\<rparr>))"

definition sink_emit :: "'w sink_ops \<Rightarrow> (string, json) dict \<Rightarrow> ('w sink, unit) act" where
  "sink_emit ops ev s = (if ''event'' \<notin> dkeys ev then (Inl ValueError, s)
     else case stamped ops ev s of (payload, s1) \<Rightarrow> (case so_dumps ops payload of
       Inl e \<Rightarrow> (Inr (), count_error s1)
     | Inr line \<Rightarrow> (Inr (), file_op (so_write ops (line @ [CHR 0x0A])) s1)))"

definition sink_close :: "'w sink_ops \<Rightarrow> ('w sink, unit) act" where
  "sink_close ops s = (if sk_closed s then (Inr (), s) else (Inr (), file_op (so_close ops) (s\<lparr>sk_closed := True\<rparr>)))"

text \<open>The constructor; the directory has been made.\<close>

definition open_sink :: "'w sink_ops \<Rightarrow> string \<Rightarrow> 'w \<Rightarrow> 'w sink res" where
  "open_sink ops run w = rbind (validate_run_id run) (\<lambda>run.
     case claim_segment (so_listdir ops) (so_create ops) run MAX_SEGMENT_CLAIM_RETRIES w of (Inl e, _) \<Rightarrow> Inl e
     | (Inr n, w') \<Rightarrow> (case sink_emit ops (so_header ops run n)
           \<lparr>sk_world = w', sk_run = run, sk_segment = n, sk_errors = 0, sk_closed = False\<rparr> of
         (Inl e, _) \<Rightarrow> Inl e | (Inr _, s) \<Rightarrow> Inr s))"

fun emit_all :: "'w sink_ops \<Rightarrow> (string, json) dict list \<Rightarrow> ('w sink, unit) act" where
  "emit_all ops [] = ret ()"
| "emit_all ops (ev # evs) = abind (sink_emit ops ev) (\<lambda>_. emit_all ops evs)"

section \<open>Every emit is a line or a counted failure\<close>

text \<open>
  A world that remembers the lines its file took: \<open>write\<close> appends exactly its line or raises, and the other
  operations append nothing.
\<close>

definition keeps_lines :: "'w sink_ops \<Rightarrow> ('w \<Rightarrow> string list) \<Rightarrow> bool" where
  "keeps_lines ops written \<longleftrightarrow>
     (\<forall>line w. written (snd (so_write ops line w)) = (case fst (so_write ops line w) of Inr _ \<Rightarrow> written w @ [line] | Inl _ \<Rightarrow> written w)) \<and>
     (\<forall>w. written (snd (so_time ops w)) = written w) \<and> (\<forall>w. written (snd (so_close ops w)) = written w)"

definition line_of :: "'w sink_ops \<Rightarrow> (string, json) dict \<Rightarrow> string \<Rightarrow> bool" where
  "line_of ops ev line \<longleftrightarrow> (\<exists>payload body. so_dumps ops payload = Inr body \<and> line = body @ [CHR 0x0A] \<and>
     (payload = ev \<or> ''ts'' \<notin> dkeys ev \<and> (\<exists>t. payload = ev @ [(''ts'', JFloat (Fin t))])))"

lemma emit_one:
  assumes "keeps_lines ops written" "''event'' \<in> dkeys ev" "sink_emit ops ev s = (r, s')"
  shows "r = Inr () \<and> sk_closed s' = sk_closed s \<and>
    (sk_errors s' = sk_errors s \<and> (\<exists>line. line_of ops ev line \<and> written (sk_world s') = written (sk_world s) @ [line]) \<or>
     sk_errors s' = Suc (sk_errors s) \<and> written (sk_world s') = written (sk_world s))"
proof -
  obtain payload s1 where st: "stamped ops ev s = (payload, s1)" by (cases "stamped ops ev s")
  have s1: "written (sk_world s1) = written (sk_world s)" "sk_errors s1 = sk_errors s" "sk_closed s1 = sk_closed s"
    using st assms(1) by (auto simp: stamped_def keeps_lines_def split: if_splits prod.splits) (metis snd_conv)
  have pay: "payload = ev \<or> ''ts'' \<notin> dkeys ev \<and> (\<exists>t. payload = ev @ [(''ts'', JFloat (Fin t))])"
    using st by (auto simp: stamped_def split: if_splits prod.splits)
  show ?thesis
  proof (cases "so_dumps ops payload")
    case (Inl e)
    then show ?thesis using assms(2,3) st s1 by (auto simp: sink_emit_def count_error_def)
  next
    case (Inr body)
    let ?line = "body @ [CHR 0x0A]"
    obtain q w where w: "so_write ops ?line (sk_world s1) = (q, w)" by (cases "so_write ops ?line (sk_world s1)")
    have "written w = (case q of Inr _ \<Rightarrow> written (sk_world s1) @ [?line] | Inl _ \<Rightarrow> written (sk_world s1))"
      using assms(1) w unfolding keeps_lines_def by (metis fst_conv snd_conv)
    moreover have "line_of ops ev ?line" using Inr pay unfolding line_of_def by blast
    ultimately show ?thesis using assms(2,3) st s1 Inr w by (cases q) (auto simp: sink_emit_def file_op_def count_error_def)
  qed
qed

text \<open>C22: The sink never loses an event silently: emitting any events that carry an \<open>event\<close> key never raises, and
  each of them either becomes exactly one line of the file, in order, its own time stamp kept and one added only
  where there was none, or moves the failure counter by exactly one; so lines and failures account for every
  event. An event without the key raises and moves neither.\<close>

theorem sink_accounts:
  assumes keeps: "keeps_lines ops written" and evs: "\<forall>ev \<in> set evs. ''event'' \<in> dkeys ev" and run: "emit_all ops evs s = (r, s')"
  shows "r = Inr () \<and> (\<exists>kept lines. subseq kept evs \<and> list_all2 (line_of ops) kept lines \<and>
      written (sk_world s') = written (sk_world s) @ lines \<and> sk_errors s' + length kept = sk_errors s + length evs) \<and>
    (''event'' \<notin> dkeys bad \<longrightarrow> sink_emit ops bad s' = (Inl ValueError, s'))"
proof -
  have "r = Inr () \<and> (\<exists>kept lines. subseq kept evs \<and> list_all2 (line_of ops) kept lines \<and>
      written (sk_world s') = written (sk_world s) @ lines \<and> sk_errors s' + length kept = sk_errors s + length evs)"
    using evs run
  proof (induction evs arbitrary: s)
    case Nil
    then show ?case by (auto simp: ret_def)
  next
    case (Cons ev evs)
    obtain q s1 where q: "sink_emit ops ev s = (q, s1)" by (cases "sink_emit ops ev s")
    note one = emit_one [OF keeps _ q]
    then have "emit_all ops evs s1 = (r, s')" using Cons.prems q by (simp add: abind_def)
    from Cons.IH [OF _ this] Cons.prems obtain kept lines where
      IH: "r = Inr ()" "subseq kept evs" "list_all2 (line_of ops) kept lines" "written (sk_world s') = written (sk_world s1) @ lines"
        "sk_errors s' + length kept = sk_errors s1 + length evs" by auto
    consider "sk_errors s1 = sk_errors s" "\<exists>line. line_of ops ev line \<and> written (sk_world s1) = written (sk_world s) @ [line]"
      | "sk_errors s1 = Suc (sk_errors s)" "written (sk_world s1) = written (sk_world s)" using one Cons.prems by auto
    then show ?case
    proof cases
      case 1
      then obtain line where "line_of ops ev line" "written (sk_world s1) = written (sk_world s) @ [line]" by blast
      then show ?thesis using IH 1(1) by (intro conjI exI [of _ "ev # kept"] exI [of _ "line # lines"]) auto
    next
      case 2
      then show ?thesis using IH by (intro conjI exI [of _ kept] exI [of _ lines]) auto
    qed
  qed
  then show ?thesis by (simp add: sink_emit_def)
qed

section \<open>A small sink\<close>

text \<open>The world is the lines of the file; the file takes two lines and then fails.\<close>

definition demo_sink_ops :: "string list sink_ops" where
  "demo_sink_ops = \<lparr>so_dumps = (\<lambda>d. Inr (concat (map fst d))), so_time = Pair 7,
     so_write = (\<lambda>line w. if length w < 2 then (Inr (), w @ [line]) else (Inl OSError, w)), so_close = ret (),
     so_listdir = ret [], so_create = (\<lambda>_. ret ()), so_header = (\<lambda>run n. [(''event'', JStr ''run_segment_started''), (''run_id'', JStr run)])\<rparr>"

definition demo_sink :: "string list sink" where
  "demo_sink = \<lparr>sk_world = [], sk_run = ''r'', sk_segment = 1, sk_errors = 0, sk_closed = False\<rparr>"

lemma demo_keeps: "keeps_lines demo_sink_ops id"
  by (auto simp: keeps_lines_def demo_sink_ops_def ret_def)

theorem sink_accounts_witness:
  "\<exists>s'. emit_all demo_sink_ops (replicate 3 [(''event'', JNull)]) demo_sink = (Inr (), s') \<and> sk_errors s' = 1 \<and>
     sk_world s' = [''eventts'' @ [CHR 0x0A], ''eventts'' @ [CHR 0x0A]] \<and> sink_emit demo_sink_ops [] s' = (Inl ValueError, s')"
proof -
  have evs: "\<forall>ev \<in> set (replicate 3 [(''event'', JNull)]). ''event'' \<in> dkeys ev" by simp
  obtain r s' where run: "emit_all demo_sink_ops (replicate 3 [(''event'', JNull)]) demo_sink = (r, s')" by (rule prod.exhaust)
  moreover from sink_accounts [OF demo_keeps evs run, of "[]"] have "r = Inr ()" "sink_emit demo_sink_ops [] s' = (Inl ValueError, s')" by auto
  moreover from run have "sk_errors s' = 1" "sk_world s' = [''eventts'' @ [CHR 0x0A], ''eventts'' @ [CHR 0x0A]]"
    by (auto simp: numeral_eq_Suc sink_emit_def stamped_def demo_sink_ops_def demo_sink_def file_op_def count_error_def abind_def ret_def)
  ultimately show ?thesis by blast
qed

end
