(* ===== verification/Game_Store.thy ===== *)
theory Game_Store
  imports Segments "HOL-Library.List_Lexorder" "HOL-Library.Char_ord" "HOL-Library.Product_Lexorder" "HOL-Library.Multiset"
begin

text \<open>
  The store of game records (\<open>src/mantis/monitor/game_record.py\<close>, \<open>game_recorder.py\<close>): the writer of a run's
  shards, rotated on the UTC hour, the reader, and the builders of a record.

  A file is the list of its lines, a line is what reading it back finds: a JSON value, a text that is no JSON or
  no UTF-8, or nothing. Every effect on the disk takes the next of the store's faults: it works, raises, or leaves
  a torn line and raises. The clock is the list of its readings, each an hour and a time stamp; the last one
  stays. The size of a file in the index row is the argument \<open>bytes\<close>. The log lines are left out.
\<close>

section \<open>Disk, clock and writer\<close>

datatype fault = Fine | Fails | Tears

datatype sline = Row json | Bad_Json | Bad_Utf8 | Blank

record store =
  st_files :: "(string, sline list) dict"
  st_index :: "sline list"
  st_faults :: "fault list"
  st_clock :: "(string \<times> string) list"
  gw_run :: string
  gw_segment :: nat
  gw_hour :: string
  gw_path :: string
  gw_open :: bool
  gw_shard_games :: nat
  gw_opened_at :: string
  gw_errors :: nat
  gw_written :: nat
  gw_disabled :: bool

definition io :: "(store, fault) act" where
  "io s = (case st_faults s of [] \<Rightarrow> (Inr Fine, s) | f # fs \<Rightarrow> (Inr f, s\<lparr>st_faults := fs\<rparr>))"

definition tick :: "(store, string \<times> string) act" where
  "tick s = (case st_clock s of [] \<Rightarrow> (Inr (replicate 10 CHR ''0'', []), s) | [r] \<Rightarrow> (Inr r, s)
     | r # rs \<Rightarrow> (Inr r, s\<lparr>st_clock := rs\<rparr>))"

definition add_line :: "string \<Rightarrow> sline \<Rightarrow> (store, unit) act" where
  "add_line path line = modify (\<lambda>s. s\<lparr>st_files := AList.update path (dget (st_files s) path [] @ [line]) (st_files s)\<rparr>)"

text \<open>One write of a line to a file.\<close>

definition put_line :: "string \<Rightarrow> json \<Rightarrow> (store, unit) act" where
  "put_line path j = abind io (\<lambda>f. case f of
     Fine \<Rightarrow> add_line path (Row j)
   | Fails \<Rightarrow> lift (Inl OSError)
   | Tears \<Rightarrow> abind (add_line path Bad_Json) (\<lambda>_. lift (Inl OSError)))"

section \<open>The writer\<close>

definition GAME_RECORD_CONTRACT :: string where "GAME_RECORD_CONTRACT = ''game-record-v1''"
definition MAX_SHARD_CLAIM_RETRIES :: nat where "MAX_SHARD_CLAIM_RETRIES = 64"

definition index_filename :: "string \<Rightarrow> string" where
  "index_filename run = ''games_'' @ run @ ''_index.jsonl''"

text \<open>\<open>json.dumps(..., sort_keys=True)\<close>: what is read back has its keys in order, at every depth.\<close>

fun sorted_json :: "json \<Rightarrow> json" where
  "sorted_json (JObj d) = JObj (sort_key fst (map (\<lambda>p. (fst p, sorted_json (snd p))) d))"
| "sorted_json (JList js) = JList (map sorted_json js)"
| "sorted_json j = j"

definition header_row :: "string \<Rightarrow> nat \<Rightarrow> string \<Rightarrow> json" where
  "header_row run n hour = JObj [(''record'', JStr ''shard_opened''), (''contract'', JStr GAME_RECORD_CONTRACT),
     (''run_id'', JStr run), (''segment'', JInt (int n)), (''hour'', JStr hour)]"

fun claim_shard :: "string \<Rightarrow> string \<Rightarrow> nat option \<Rightarrow> nat \<Rightarrow> (store, nat \<times> string) act" where
  "claim_shard run hour seg 0 = lift (Inl GameRecordError)"
| "claim_shard run hour seg (Suc k) = abind (gets (\<lambda>s. map fst (st_files s))) (\<lambda>names.
     let n = (case seg of None \<Rightarrow> next_segment_index names run shard_segment | Some n \<Rightarrow> n);
         path = shard_filename run n hour in
     if path \<in> set names then claim_shard run hour seg k
     else abind io (\<lambda>f. if f \<noteq> Fine then lift (Inl OSError) else
       abind (modify (\<lambda>s. s\<lparr>st_files := AList.update path [] (st_files s)\<rparr>)) (\<lambda>_.
       abind (put_line path (sorted_json (header_row run n hour))) (\<lambda>_. ret (n, path)))))"

text \<open>A claimed shard becomes the writer's.\<close>

definition adopt :: "string \<Rightarrow> nat \<times> string \<Rightarrow> (store, unit) act" where
  "adopt hour claim = modify (\<lambda>s. s\<lparr>gw_segment := fst claim, gw_hour := hour, gw_path := snd claim, gw_open := True\<rparr>)"

definition begin_shard :: "string \<Rightarrow> nat option \<Rightarrow> (store, unit) act" where
  "begin_shard hour seg = abind (gets gw_run) (\<lambda>run.
     abind (claim_shard run hour seg MAX_SHARD_CLAIM_RETRIES) (\<lambda>claim.
     abind (adopt hour claim) (\<lambda>_.
     abind (modify (\<lambda>s. s\<lparr>gw_shard_games := 0\<rparr>)) (\<lambda>_.
     abind tick (\<lambda>(_, stamp). modify (\<lambda>s. s\<lparr>gw_opened_at := stamp\<rparr>))))))"

definition open_store :: "string \<Rightarrow> (store, unit) act" where
  "open_store run = abind (lift (validate_run_id run)) (\<lambda>run.
     abind (modify (\<lambda>s. s\<lparr>gw_run := run, gw_errors := 0, gw_written := 0, gw_disabled := False\<rparr>)) (\<lambda>_.
     abind tick (\<lambda>(hour, _). begin_shard hour None)))"

definition note_failure :: "(store, unit) act" where
  "note_failure = modify (\<lambda>s. s\<lparr>gw_errors := Suc (gw_errors s)\<rparr>)"

definition closed_row :: "(sline list \<Rightarrow> int) \<Rightarrow> string \<Rightarrow> store \<Rightarrow> json" where
  "closed_row bytes stamp s = JObj [(''record'', JStr ''shard_closed''), (''contract'', JStr GAME_RECORD_CONTRACT),
     (''run_id'', JStr (gw_run s)), (''segment'', JInt (int (gw_segment s))), (''hour'', JStr (gw_hour s)),
     (''shard'', JStr (gw_path s)), (''games'', JInt (int (gw_shard_games s))),
     (''bytes'', JInt (if gw_path s \<in> dkeys (st_files s) then bytes (dget (st_files s) (gw_path s) []) else 0)),
     (''opened_utc'', JStr (gw_opened_at s)), (''closed_utc'', JStr stamp)]"

definition index_line :: "sline \<Rightarrow> (store, unit) act" where
  "index_line line = modify (\<lambda>s. s\<lparr>st_index := st_index s @ [line]\<rparr>)"

definition close_shard :: "(sline list \<Rightarrow> int) \<Rightarrow> (store, unit) act" where
  "close_shard bytes = abind (gets gw_open) (\<lambda>is_open. if \<not> is_open then ret () else
     abind io (\<lambda>synced. abind (if synced = Fine then ret () else note_failure) (\<lambda>_.
     abind io (\<lambda>shut. abind (modify (\<lambda>s. s\<lparr>gw_open := False\<rparr>)) (\<lambda>_.
     if shut \<noteq> Fine then lift (Inl OSError) else
     abind tick (\<lambda>(_, stamp). abind (gets (closed_row bytes stamp)) (\<lambda>row.
     abind io (\<lambda>f. case f of Fine \<Rightarrow> index_line (Row (sorted_json row))
       | Fails \<Rightarrow> note_failure
       | Tears \<Rightarrow> abind (index_line Bad_Json) (\<lambda>_. note_failure)))))))))"

definition caught :: "py_exc \<Rightarrow> bool" where
  "caught e \<longleftrightarrow> e \<in> {OSError, TypeError, ValueError, GameRecordError}"

definition append_record :: "(sline list \<Rightarrow> int) \<Rightarrow> json \<Rightarrow> (store, unit) act" where
  "append_record bytes j = abind tick (\<lambda>(hour, _).
     abind (gets (\<lambda>s. (gw_hour s, gw_segment s))) (\<lambda>(own, seg).
     abind (if hour = own then ret () else abind (close_shard bytes) (\<lambda>_. begin_shard hour (Some seg))) (\<lambda>_.
     abind (gets (\<lambda>s. (gw_open s, gw_path s))) (\<lambda>(is_open, path).
       if is_open then put_line path (sorted_json j) else lift (Inl ValueError)))))"

definition store_write :: "(sline list \<Rightarrow> int) \<Rightarrow> json \<Rightarrow> (store, unit) act" where
  "store_write bytes j s = (if gw_disabled s then (Inr (), s)
     else case append_record bytes j s of
       (Inr _, t) \<Rightarrow> (Inr (), t\<lparr>gw_shard_games := Suc (gw_shard_games t), gw_written := Suc (gw_written t)\<rparr>)
     | (Inl e, t) \<Rightarrow> if caught e then note_failure (t\<lparr>gw_disabled := True\<rparr>) else (Inl e, t))"

definition close_store :: "(sline list \<Rightarrow> int) \<Rightarrow> (store, unit) act" where
  "close_store bytes s = (if gw_disabled s \<and> \<not> gw_open s then (Inr (), s) else close_shard bytes s)"

fun write_all :: "(sline list \<Rightarrow> int) \<Rightarrow> json list \<Rightarrow> (store, unit) act" where
  "write_all bytes [] = ret ()"
| "write_all bytes (j # js) = abind (store_write bytes j) (\<lambda>_. write_all bytes js)"

section \<open>The reader\<close>

text \<open>\<open>parsed.get("record") in ("shard_opened", "shard_closed")\<close>\<close>

definition framing :: "(string, json) dict \<Rightarrow> bool" where
  "framing d \<longleftrightarrow> dget d ''record'' JNull = JStr ''shard_opened'' \<or> dget d ''record'' JNull = JStr ''shard_closed''"

fun read_shard :: "sline list \<Rightarrow> json list \<times> nat" where
  "read_shard [] = ([], 0)"
| "read_shard (line # rest) = (case read_shard rest of (records, skipped) \<Rightarrow> (case line of
     Blank \<Rightarrow> (records, skipped)
   | Row (JObj d) \<Rightarrow> if framing d then (records, skipped) else (JObj d # records, skipped)
   | _ \<Rightarrow> (records, Suc skipped)))"

definition run_shard_paths :: "string list \<Rightarrow> string \<Rightarrow> string list" where
  "run_shard_paths names run = map (\<lambda>(_, _, path). path) (sort (List.map_filter (\<lambda>name. case SHARD_RE name of
     Some (r, n, hour) \<Rightarrow> if r = run then Some (n, hour, name) else None | None \<Rightarrow> None) names))"

definition iter_run_games :: "(string, sline list) dict \<Rightarrow> string \<Rightarrow> json list" where
  "iter_run_games files run = concat (map (\<lambda>path. fst (read_shard (dget files path []))) (run_shard_paths (map fst files) run))"

text \<open>The \<open>shard_closed\<close> rows of the index that name a shard; other JSON values have no \<open>get\<close>.\<close>

fun closed_shard_rows :: "sline list \<Rightarrow> (string, json) dict list res" where
  "closed_shard_rows [] = Inr []"
| "closed_shard_rows (Blank # rest) = closed_shard_rows rest"
| "closed_shard_rows (Bad_Json # rest) = closed_shard_rows rest"
| "closed_shard_rows (Bad_Utf8 # rest) = Inl ValueError"
| "closed_shard_rows (Row (JObj d) # rest) = rbind (closed_shard_rows rest) (\<lambda>rows.
     Inr (if dget d ''record'' JNull = JStr ''shard_closed'' \<and> truthy (dget d ''shard'' JNull) then d # rows else rows))"
| "closed_shard_rows (Row _ # rest) = Inl AttributeError"

section \<open>What the reader finds\<close>

definition games :: "sline list \<Rightarrow> json list" where
  "games lines = fst (read_shard lines)"

lemma games_append: "games (a @ b) = games a @ games b"
  by (induction a) (auto simp: games_def split: prod.split sline.split json.split)

lemma games_Nil [simp]: "games [] = []" and games_Bad [simp]: "games [Bad_Json] = []"
  by (simp_all add: games_def)

text \<open>A record that the reader will not take for a header: an object with distinct keys and no framing.\<close>

definition is_game :: "json \<Rightarrow> bool" where
  "is_game j \<longleftrightarrow> (\<exists>d. j = JObj d \<and> distinct (map fst d) \<and> \<not> framing d)"

lemma map_of_sorted: "distinct (map fst d) \<Longrightarrow> map_of (sort_key fst d) = map_of d"
  by (subst map_of_inject_set) (simp_all add: distinct_map)

lemma canonical_str [simp]: "sorted_json j = JStr s \<longleftrightarrow> j = JStr s"
  by (cases j) simp_all

lemma dget_canonical:
  assumes "distinct (map fst d)" "sorted_json (JObj d) = JObj c"
  shows "dget c k JNull = sorted_json (dget d k JNull)"
proof -
  let ?f = "\<lambda>p. (fst p, sorted_json (snd p))"
  have "distinct (map fst (map ?f d))" using assms(1) by (simp add: comp_def)
  then have "map_of c = map_of (map ?f d)" using assms(2) map_of_sorted [of "map ?f d"] by simp
  also have "\<dots> = map_option sorted_json \<circ> map_of d" by (induction d) (auto simp: fun_eq_iff)
  finally show ?thesis by (auto simp: dget_def simp del: map_of_None_dkeys split: option.split)
qed

lemma canonical_game: "is_game j \<Longrightarrow> games [Row (sorted_json j)] = [sorted_json j]"
  using dget_canonical by (fastforce simp: is_game_def games_def framing_def)

lemma games_header [simp]: "games [Row (sorted_json (header_row run n hour))] = []"
proof -
  let ?d = "[(''record'', JStr ''shard_opened''), (''contract'', JStr GAME_RECORD_CONTRACT),
     (''run_id'', JStr run), (''segment'', JInt (int n)), (''hour'', JStr hour)]"
  obtain c where c: "sorted_json (JObj ?d) = JObj c" by simp
  have "dget c ''record'' JNull = JStr ''shard_opened''"
    by (subst dget_canonical [OF _ c]) (simp_all add: dget_def)
  then show ?thesis using c by (simp add: games_def framing_def header_row_def)
qed

text \<open>The shards of a run are read in the order of segment and hour.\<close>

definition shards_below :: "(string, sline list) dict \<Rightarrow> string \<Rightarrow> nat \<times> string \<Rightarrow> bool" where
  "shards_below files run key \<longleftrightarrow> (\<forall>name \<in> dkeys files. \<forall>m h. SHARD_RE name = Some (run, m, h) \<longrightarrow> (m, h) < key)"

definition shard_key :: "string \<Rightarrow> string \<Rightarrow> (nat \<times> string \<times> string) option" where
  "shard_key run name = (case SHARD_RE name of Some (r, n, hour) \<Rightarrow> if r = run then Some (n, hour, name) else None | None \<Rightarrow> None)"

lemma in_map_filter: "y \<in> set (List.map_filter f xs) \<longleftrightarrow> (\<exists>x \<in> set xs. f x = Some y)"
  by (induction xs) (auto simp: List.map_filter_simps split: option.splits)

lemma shard_key_Some: "shard_key run name = Some (m, h, p) \<longleftrightarrow> SHARD_RE name = Some (run, m, h) \<and> p = name"
  by (auto simp: shard_key_def split: option.splits)

lemma sort_append_max: "(\<And>x. x \<in> set xs \<Longrightarrow> x \<le> (y :: 'a :: linorder)) \<Longrightarrow> sort (xs @ [y]) = sort xs @ [y]"
  by (rule properties_for_sort) (auto simp: sorted_append)

lemma last_shard_paths:
  assumes "shards_below files run (n, hour)" "SHARD_RE path = Some (run, n, hour)"
  shows "run_shard_paths (map fst files @ [path]) run = run_shard_paths (map fst files) run @ [path]"
proof -
  let ?ks = "List.map_filter (shard_key run) (map fst files)"
  have "List.map_filter (shard_key run) (map fst files @ [path]) = ?ks @ [(n, hour, path)]"
    using assms(2) by (simp add: map_filter_def shard_key_def)
  moreover have "k \<le> (n, hour, path)" if "k \<in> set ?ks" for k
  proof -
    from that obtain name where "name \<in> dkeys files" "shard_key run name = Some k" by (auto simp: in_map_filter dkeys_def)
    moreover obtain m h p where "k = (m, h, p)" by (cases k)
    ultimately have "name \<in> dkeys files" "k = (m, h, name)" "SHARD_RE name = Some (run, m, h)" by (simp_all add: shard_key_Some)
    then show ?thesis using assms(1) by (fastforce simp: shards_below_def less_eq_prod_def less_prod_def)
  qed
  ultimately have "sort (List.map_filter (shard_key run) (map fst files @ [path])) = sort ?ks @ [(n, hour, path)]"
    by (simp add: sort_append_max)
  then show ?thesis by (simp add: run_shard_paths_def shard_key_def [symmetric])
qed

lemma iter_last:
  assumes "shards_below files run (n, hour)" "SHARD_RE path = Some (run, n, hour)"
  shows "iter_run_games (files @ [(path, lines)]) run = iter_run_games files run @ games lines"
proof -
  have path: "path \<notin> dkeys files" using assms by (force simp: shards_below_def)
  have "p \<in> dkeys files" if "p \<in> set (run_shard_paths (map fst files) run)" for p
    using that by (auto simp: run_shard_paths_def shard_key_def [symmetric] in_map_filter shard_key_Some dkeys_def)
  then have "dget (files @ [(path, lines)]) p [] = dget files p []" if "p \<in> set (run_shard_paths (map fst files) run)" for p
    using that path by (auto simp: dget_def map_add_def split: option.splits)
  moreover have "dget (files @ [(path, lines)]) path [] = lines"
    using path by (simp add: dget_def map_add_def split: option.splits) (metis map_of_None_dkeys option.distinct(1))
  ultimately show ?thesis
    unfolding iter_run_games_def games_def using last_shard_paths [OF assms] by (simp cong: map_cong)
qed

section \<open>What the operations leave alone\<close>

definition valid_hour :: "string \<Rightarrow> bool" where
  "valid_hour h \<longleftrightarrow> length h = 10 \<and> list_all is_digit h"

text \<open>The readings to come are hours in order, none before \<open>lo\<close>.\<close>

definition clock_ok :: "string \<Rightarrow> store \<Rightarrow> bool" where
  "clock_ok lo s \<longleftrightarrow> st_clock s \<noteq> [] \<and> sorted (map fst (st_clock s)) \<and> (\<forall>r \<in> set (st_clock s). valid_hour (fst r) \<and> lo \<le> fst r)"

definition idle :: "store \<Rightarrow> store \<Rightarrow> bool" where
  "idle s t \<longleftrightarrow> st_files t = st_files s \<and> gw_run t = gw_run s \<and> gw_segment t = gw_segment s \<and> gw_hour t = gw_hour s \<and>
     gw_path t = gw_path s \<and> gw_written t = gw_written s \<and> gw_disabled t = gw_disabled s \<and> gw_errors s \<le> gw_errors t \<and>
     (\<forall>lo. clock_ok lo s \<longrightarrow> clock_ok lo t)"

interpretation idle: state_order idle
  by unfold_locales (auto simp: idle_def intro: order_trans)

lemma clock_unchanged: "st_clock t = st_clock s \<Longrightarrow> clock_ok lo t = clock_ok lo s"
  by (simp add: clock_ok_def)

lemma idle_tick: "moves idle tick"
  by (auto simp: moves_def tick_def idle_def clock_ok_def split: list.split)

lemma idle_io: "moves idle io"
  by (auto simp: moves_def io_def idle_def clock_ok_def split: list.split)

lemma idle_close: "moves idle (close_shard bytes)"
  unfolding close_shard_def note_failure_def index_line_def
  by (intro idle.moves_rules idle_io idle_tick idle.moves_modify)
    (auto simp: idle_def clock_ok_def act_defs moves_def split: fault.split)

text \<open>A reading of the clock is the earliest hour left.\<close>

lemma tick_ok:
  assumes "tick s = (Inr (h, stamp), t)" "clock_ok lo s"
  shows "valid_hour h \<and> lo \<le> h \<and> clock_ok h t \<and> idle s t \<and> gw_open t = gw_open s"
proof -
  have "idle s t" using idle_tick assms(1) by (rule moves_run)
  moreover have "valid_hour h \<and> lo \<le> h \<and> clock_ok h t \<and> gw_open t = gw_open s"
    using assms by (auto simp: tick_def clock_ok_def split: list.splits)
  ultimately show ?thesis by blast
qed

lemma tick_Inr: "\<exists>h stamp t. tick s = (Inr (h, stamp), t)"
  by (auto simp: tick_def split: list.split)

text \<open>The exceptions an action may raise.\<close>

definition raises :: "py_exc set \<Rightarrow> ('s, 'a) act \<Rightarrow> bool" where
  "raises E m \<longleftrightarrow> (\<forall>s e t. m s = (Inl e, t) \<longrightarrow> e \<in> E)"

lemma raises_basic: "raises E (ret a)" "raises E (gets f)" "raises E (modify g)" "e \<in> E \<Longrightarrow> raises E (lift (Inl e))"
  by (auto simp: raises_def act_defs)

lemma raises_abind: "raises E m \<Longrightarrow> (\<And>a. raises E (f a)) \<Longrightarrow> raises E (abind m f)"
  unfolding raises_def abind_def by (auto split: prod.splits sum.splits)

lemma raises_if: "raises E m \<Longrightarrow> raises E n \<Longrightarrow> raises E (if b then m else n)"
  by simp

lemma raises_fault: "raises E a \<Longrightarrow> raises E b \<Longrightarrow> raises E c \<Longrightarrow> raises E (case f of Fine \<Rightarrow> a | Fails \<Rightarrow> b | Tears \<Rightarrow> c)"
  by (cases f) simp_all

lemma raises_tick: "raises E tick" and raises_io: "raises E io"
  by (auto simp: raises_def tick_def io_def split: list.splits)

lemmas raises_rules = raises_basic raises_abind raises_if raises_fault raises_tick raises_io

lemma raises_put: "raises {OSError} (put_line path j)"
  unfolding put_line_def add_line_def by (intro raises_rules) simp_all

lemma raises_claim: "raises {OSError, GameRecordError} (claim_shard run hour seg k)"
proof (induction k)
  case (Suc k)
  have "raises {OSError, GameRecordError} (put_line path j)" for path j using raises_put unfolding raises_def by blast
  then show ?case unfolding claim_shard.simps Let_def by (intro raises_rules Suc) simp_all
qed (simp add: raises_basic)

lemma raises_begin: "raises {OSError, GameRecordError} (begin_shard hour seg)"
  unfolding begin_shard_def adopt_def split_beta by (intro raises_rules raises_claim)

lemma raises_close: "raises {OSError, GameRecordError} (close_shard bytes)"
  unfolding close_shard_def note_failure_def index_line_def split_beta by (intro raises_rules) simp_all

lemma raises_append: "raises {OSError, TypeError, ValueError, GameRecordError} (append_record bytes j)"
proof -
  have "raises {OSError, TypeError, ValueError, GameRecordError} (put_line path j)"
    "raises {OSError, TypeError, ValueError, GameRecordError} (begin_shard hour seg)"
    "raises {OSError, TypeError, ValueError, GameRecordError} (close_shard bytes)" for path j hour seg
    using raises_put raises_begin raises_close unfolding raises_def by blast+
  then show ?thesis unfolding append_record_def split_beta by (intro raises_rules) simp_all
qed

section \<open>Starting a shard\<close>

lemma good_shard: "good_run run \<Longrightarrow> valid_hour h \<Longrightarrow> SHARD_RE (shard_filename run n h) = Some (run, n, h)"
  by (rule SHARD_RE_own) (auto simp: good_run_def valid_hour_def validate_run_id_def control_def split: if_splits)

text \<open>The writer's shard is the last one of the directory.\<close>

definition live :: "store \<Rightarrow> bool" where
  "live s \<longleftrightarrow> good_run (gw_run s) \<and> valid_hour (gw_hour s) \<and> gw_path s = shard_filename (gw_run s) (gw_segment s) (gw_hour s) \<and>
     (\<exists>G lines. st_files s = G @ [(gw_path s, lines)] \<and> shards_below G (gw_run s) (gw_segment s, gw_hour s))"

text \<open>What starting a shard does to the files: nothing, or a new last file without games.\<close>

definition grows :: "store \<Rightarrow> nat \<Rightarrow> string \<Rightarrow> store \<Rightarrow> bool" where
  "grows s n hour t \<longleftrightarrow> gw_run t = gw_run s \<and> gw_written t = gw_written s \<and> gw_disabled t = gw_disabled s \<and>
     gw_errors t = gw_errors s \<and> (\<forall>lo. clock_ok lo s \<longrightarrow> clock_ok lo t) \<and>
     (st_files t = st_files s \<or> (\<exists>lines. st_files t = st_files s @ [(shard_filename (gw_run s) n hour, lines)] \<and> games lines = []))"

lemma io_eq: "io s = (Inr (case st_faults s of [] \<Rightarrow> Fine | f # _ \<Rightarrow> f), s\<lparr>st_faults := tl (st_faults s)\<rparr>)"
  by (cases s) (simp add: io_def split: list.split)

lemma put_line_cases:
  assumes "put_line path j s = (r, t)"
  shows "(r = Inr () \<and> t = s\<lparr>st_faults := tl (st_faults s), st_files := AList.update path (dget (st_files s) path [] @ [Row j]) (st_files s)\<rparr>) \<or>
    (r = Inl OSError \<and> t = s\<lparr>st_faults := tl (st_faults s)\<rparr>) \<or>
    (r = Inl OSError \<and> t = s\<lparr>st_faults := tl (st_faults s), st_files := AList.update path (dget (st_files s) path [] @ [Bad_Json]) (st_files s)\<rparr>)"
proof -
  obtain f where f: "io s = (Inr f, s\<lparr>st_faults := tl (st_faults s)\<rparr>)" using io_eq by blast
  show ?thesis using assms by (cases f) (auto simp: put_line_def f add_line_def act_defs)
qed

lemma update_last: "k \<notin> dkeys d \<Longrightarrow> AList.update k v (d @ [(k, w)]) = d @ [(k, v)]"
  by (induction d) auto

lemma update_new: "k \<notin> dkeys d \<Longrightarrow> AList.update k v d = d @ [(k, v)]"
  by (rule update_fresh) (simp add: dkeys_def)

lemma dget_last: "k \<notin> dkeys d \<Longrightarrow> dget (d @ [(k, v)]) k x = v"
  by (auto simp: dget_def map_add_def simp flip: map_of_None_dkeys split: option.split)

lemma claim_new:
  assumes "claim_shard run hour seg (Suc k) s = (r, t)" "shard_filename run n hour \<notin> dkeys (st_files s)"
    "n = (case seg of None \<Rightarrow> next_segment_index (map fst (st_files s)) run shard_segment | Some n \<Rightarrow> n)"
  shows "\<exists>fs F. t = s\<lparr>st_faults := fs, st_files := F\<rparr> \<and> (\<forall>c. r = Inr c \<longrightarrow> c = (n, shard_filename run n hour) \<and> F \<noteq> st_files s) \<and>
    (F = st_files s \<or> (\<exists>lines. F = st_files s @ [(shard_filename run n hour, lines)] \<and> games lines = []))"
proof -
  let ?path = "shard_filename run n hour" and ?s = "s\<lparr>st_faults := tl (st_faults s)\<rparr>"
  obtain f where f: "io s = (Inr f, ?s)" using io_eq by blast
  have fresh: "?path \<notin> set (map fst (st_files s))" using assms(2) by (simp add: dkeys_def)
  have step: "claim_shard run hour seg (Suc k) s = (if f \<noteq> Fine then (Inl OSError, ?s)
      else abind (put_line ?path (sorted_json (header_row run n hour))) (\<lambda>_. ret (n, ?path))
        (?s\<lparr>st_files := AList.update ?path [] (st_files s)\<rparr>))"
    using fresh f assms(3) by (simp add: abind_def gets_def modify_def lift_def Let_def)
  show ?thesis
  proof (cases "f = Fine")
    case False
    then have "r = Inl OSError" "t = ?s" using assms(1) step by simp_all
    then show ?thesis by (intro exI [of _ "tl (st_faults s)"] exI [of _ "st_files s"]) simp
  next
    case True
    let ?u = "?s\<lparr>st_files := st_files s @ [(?path, [])]\<rparr>"
    obtain q v where q: "put_line ?path (sorted_json (header_row run n hour)) ?u = (q, v)" by (rule prod.exhaust)
    have upd: "AList.update ?path [] (st_files s) = st_files s @ [(?path, [])]" using assms(2) by (rule update_new)
    have rt: "t = v" "\<And>c. r = Inr c \<Longrightarrow> c = (n, ?path)"
      using assms(1) step True q by (auto simp: upd abind_def ret_def split: sum.splits)
    have "\<exists>fs lines. v = s\<lparr>st_faults := fs, st_files := st_files s @ [(?path, lines)]\<rparr> \<and> games lines = []"
      using put_line_cases [OF q]
    proof (elim disjE)
      assume "q = Inr () \<and> v = ?u\<lparr>st_faults := tl (st_faults ?u), st_files := AList.update ?path
        (dget (st_files ?u) ?path [] @ [Row (sorted_json (header_row run n hour))]) (st_files ?u)\<rparr>"
      then show ?thesis
        by (intro exI [of _ "tl (tl (st_faults s))"] exI [of _ "[Row (sorted_json (header_row run n hour))]"])
          (simp add: update_last dget_last assms(2))
    next
      assume "q = Inl OSError \<and> v = ?u\<lparr>st_faults := tl (st_faults ?u)\<rparr>"
      then show ?thesis by (intro exI [of _ "tl (tl (st_faults s))"] exI [of _ "[]"]) simp
    next
      assume "q = Inl OSError \<and> v = ?u\<lparr>st_faults := tl (st_faults ?u), st_files := AList.update ?path
        (dget (st_files ?u) ?path [] @ [Bad_Json]) (st_files ?u)\<rparr>"
      then show ?thesis
        by (intro exI [of _ "tl (tl (st_faults s))"] exI [of _ "[Bad_Json]"]) (simp add: update_last dget_last assms(2))
    qed
    then obtain fs lines where "t = s\<lparr>st_faults := fs, st_files := st_files s @ [(?path, lines)]\<rparr>" "games lines = []"
      using rt(1) by blast
    then show ?thesis using rt(2) by (intro exI [of _ fs] exI [of _ "st_files s @ [(?path, lines)]"]) auto
  qed
qed

lemma begin_spec:
  assumes run: "begin_shard hour seg s = (r, t)" and hour: "valid_hour hour" and good: "good_run (gw_run s)"
    and n: "n = (case seg of None \<Rightarrow> next_segment_index (map fst (st_files s)) (gw_run s) shard_segment | Some n \<Rightarrow> n)"
    and shards_below: "shards_below (st_files s) (gw_run s) (n, hour)"
  shows "grows s n hour t" and "r = Inr u \<Longrightarrow> live t \<and> gw_open t \<and> gw_hour t = hour \<and> st_files t \<noteq> st_files s"
proof -
  have fresh: "shard_filename (gw_run s) n hour \<notin> dkeys (st_files s)"
    using shards_below good_shard [OF good hour, of n] by (force simp: shards_below_def)
  obtain q v where q: "claim_shard (gw_run s) hour seg (Suc 63) s = (q, v)" by (rule prod.exhaust)
  from claim_new [OF q fresh n] obtain fs F where v: "v = s\<lparr>st_faults := fs, st_files := F\<rparr>"
    "\<And>c. q = Inr c \<Longrightarrow> c = (n, shard_filename (gw_run s) n hour) \<and> F \<noteq> st_files s"
    "F = st_files s \<or> (\<exists>lines. F = st_files s @ [(shard_filename (gw_run s) n hour, lines)] \<and> games lines = [])" by blast
  show "grows s n hour t" "r = Inr u \<Longrightarrow> live t \<and> gw_open t \<and> gw_hour t = hour \<and> st_files t \<noteq> st_files s"
  proof (atomize(full), cases q)
    case (Inl e)
    then show "grows s n hour t \<and> (r = Inr u \<longrightarrow> live t \<and> gw_open t \<and> gw_hour t = hour \<and> st_files t \<noteq> st_files s)"
      using run q v by (auto simp: begin_shard_def MAX_SHARD_CLAIM_RETRIES_def abind_def gets_def grows_def clock_ok_def)
  next
    case (Inr c)
    then obtain lines where c: "c = (n, shard_filename (gw_run s) n hour)"
      and F: "F = st_files s @ [(shard_filename (gw_run s) n hour, lines)]" "games lines = []" using v by auto
    let ?w = "v\<lparr>gw_segment := n, gw_hour := hour, gw_path := shard_filename (gw_run s) n hour, gw_open := True, gw_shard_games := 0\<rparr>"
    obtain h stamp x where x: "tick ?w = (Inr (h, stamp), x)" using tick_Inr by blast
    have idle: "idle ?w x" using moves_run [OF idle_tick x] .
    have open_: "gw_open x = gw_open ?w" using x by (auto simp: tick_def split: list.splits)
    have t: "t = x\<lparr>gw_opened_at := stamp\<rparr>"
    proof -
      have 64: "claim_shard (gw_run s) hour seg 64 s = (Inr (n, shard_filename (gw_run s) n hour), v)" using q Inr c by simp
      show ?thesis using run x by (simp add: begin_shard_def MAX_SHARD_CLAIM_RETRIES_def adopt_def abind_def gets_def modify_def 64 del: claim_shard.simps)
    qed
    have fields: "st_files t = F" "gw_run t = gw_run s" "gw_written t = gw_written s" "gw_disabled t = gw_disabled s" "gw_segment t = n"
      "gw_hour t = hour" "gw_path t = shard_filename (gw_run s) n hour"
      using idle unfolding idle_def by (simp_all add: t v(1))
    have errors: "gw_errors t = gw_errors s" using x by (auto simp: t v(1) tick_def split: list.splits)
    have "clock_ok lo ?w = clock_ok lo s" "clock_ok lo t = clock_ok lo x" for lo by (rule clock_unchanged; simp add: v(1) t)+
    then have "clock_ok lo s \<longrightarrow> clock_ok lo t" for lo using idle unfolding idle_def by simp
    then have "grows s n hour t" using F errors by (auto simp: grows_def fields)
    moreover have "live t" using F good hour shards_below by (auto simp: live_def fields)
    ultimately show "grows s n hour t \<and> (r = Inr u \<longrightarrow> live t \<and> gw_open t \<and> gw_hour t = hour \<and> st_files t \<noteq> st_files s)"
      using open_ F by (simp add: fields) (simp add: t)
  qed
qed

section \<open>Writing a record\<close>

lemma live_below:
  assumes "live s" "gw_hour s < h"
  shows "shards_below (st_files s) (gw_run s) (gw_segment s, h)"
proof -
  obtain G lines where s: "st_files s = G @ [(gw_path s, lines)]" "shards_below G (gw_run s) (gw_segment s, gw_hour s)"
    "SHARD_RE (gw_path s) = Some (gw_run s, gw_segment s, gw_hour s)"
    using assms(1) good_shard unfolding live_def by metis
  have "(m, h') < (gw_segment s, h)" if "(m, h') < (gw_segment s, gw_hour s)" for m h'
    using that assms(2) by (auto simp: less_prod_def)
  moreover have "(gw_segment s, gw_hour s) < (gw_segment s, h)" using assms(2) by (simp add: less_prod_def)
  ultimately show ?thesis using s by (auto simp: shards_below_def)
qed

lemma grows_iter:
  assumes "grows s n hour t" "good_run (gw_run s)" "valid_hour hour" "shards_below (st_files s) (gw_run s) (n, hour)"
  shows "iter_run_games (st_files t) (gw_run s) = iter_run_games (st_files s) (gw_run s)"
proof (cases "st_files t = st_files s")
  case False
  then obtain lines where "st_files t = st_files s @ [(shard_filename (gw_run s) n hour, lines)]" "games lines = []"
    using assms(1) unfolding grows_def by blast
  then show ?thesis using iter_last [OF assms(4) good_shard [OF assms(2,3)]] by simp
qed simp

text \<open>One line into the writer's shard.\<close>

lemma put_live:
  assumes "put_line (gw_path s) c s = (r, t)" "live s" "games [Row c] = [c]"
  shows "live t \<and> gw_run t = gw_run s \<and> gw_written t = gw_written s \<and> gw_disabled t = gw_disabled s \<and> gw_errors t = gw_errors s \<and>
    gw_open t = gw_open s \<and> gw_hour t = gw_hour s \<and> (\<forall>lo. clock_ok lo t = clock_ok lo s) \<and>
    (\<exists>X. st_files t = butlast (st_files s) @ X \<and> X \<noteq> []) \<and>
    iter_run_games (st_files t) (gw_run s) = iter_run_games (st_files s) (gw_run s) @ (case r of Inr _ \<Rightarrow> [c] | Inl _ \<Rightarrow> [])"
proof -
  obtain G lines where s: "st_files s = G @ [(gw_path s, lines)]" "shards_below G (gw_run s) (gw_segment s, gw_hour s)"
    "SHARD_RE (gw_path s) = Some (gw_run s, gw_segment s, gw_hour s)"
    using assms(2) good_shard unfolding live_def by metis
  have fresh: "gw_path s \<notin> dkeys G" using s(2,3) by (force simp: shards_below_def)
  have iter: "iter_run_games (G @ [(gw_path s, ls)]) (gw_run s) = iter_run_games G (gw_run s) @ games ls" for ls
    by (rule iter_last [OF s(2,3)])
  obtain fs ls where t: "t = s\<lparr>st_faults := fs, st_files := G @ [(gw_path s, ls)]\<rparr>"
    and ls: "games ls = games lines @ (case r of Inr _ \<Rightarrow> [c] | Inl _ \<Rightarrow> [])"
    using put_line_cases [OF assms(1)]
  proof (elim disjE)
    assume a: "r = Inr () \<and> t = s\<lparr>st_faults := tl (st_faults s), st_files := AList.update (gw_path s) (dget (st_files s) (gw_path s) [] @ [Row c]) (st_files s)\<rparr>"
    show thesis by (rule that [of "lines @ [Row c]" "tl (st_faults s)"]) (use a s(1) fresh assms(3) in \<open>simp_all add: update_last dget_last games_append\<close>)
  next
    assume a: "r = Inl OSError \<and> t = s\<lparr>st_faults := tl (st_faults s)\<rparr>"
    show thesis by (rule that [of lines "tl (st_faults s)"]) (use a s(1) in simp_all)
  next
    assume a: "r = Inl OSError \<and> t = s\<lparr>st_faults := tl (st_faults s), st_files := AList.update (gw_path s) (dget (st_files s) (gw_path s) [] @ [Bad_Json]) (st_files s)\<rparr>"
    show thesis by (rule that [of "lines @ [Bad_Json]" "tl (st_faults s)"]) (use a s(1) fresh in \<open>simp_all add: update_last dget_last games_append\<close>)
  qed
  have "live t" using assms(2) s(2) by (auto simp: t live_def)
  moreover have "clock_ok lo t = clock_ok lo s" for lo by (rule clock_unchanged) (simp add: t)
  moreover have "iter_run_games (st_files t) (gw_run s) = iter_run_games (st_files s) (gw_run s) @ (case r of Inr _ \<Rightarrow> [c] | Inl _ \<Rightarrow> [])"
    using iter [of ls] iter [of lines] ls s(1) by (simp add: t)
  ultimately show ?thesis using s(1) by (simp add: t)
qed

definition appended :: "store \<Rightarrow> json \<Rightarrow> unit res \<Rightarrow> store \<Rightarrow> bool" where
  "appended s j r t \<longleftrightarrow> gw_run t = gw_run s \<and> gw_written t = gw_written s \<and> gw_disabled t = gw_disabled s \<and>
     (\<exists>X. st_files t = butlast (st_files s) @ X \<and> X \<noteq> []) \<and>
     iter_run_games (st_files t) (gw_run s) = iter_run_games (st_files s) (gw_run s) @ (case r of Inr _ \<Rightarrow> [sorted_json j] | Inl _ \<Rightarrow> []) \<and>
     (\<forall>u. r = Inr u \<longrightarrow> live t \<and> gw_open t \<and> clock_ok (gw_hour t) t)"

lemma idle_live: "idle s t \<Longrightarrow> live s \<Longrightarrow> live t"
  by (auto simp: idle_def live_def)

lemma live_ne: "live s \<Longrightarrow> st_files s \<noteq> []"
  by (auto simp: live_def)

lemma idle_failed: "idle s t \<Longrightarrow> live s \<Longrightarrow> appended s j (Inl e) t"
  using live_ne [of s] unfolding appended_def idle_def
  by (auto intro: exI [of _ "[last (st_files s)]"])

lemma append_spec:
  assumes run: "append_record bytes j s = (r, t)" and live: "live s" "gw_open s" and clock: "clock_ok (gw_hour s) s" and j: "is_game j"
  shows "appended s j r t"
proof -
  obtain h stamp s1 where k: "tick s = (Inr (h, stamp), s1)" using tick_Inr by blast
  note k1 = tick_ok [OF k clock]
  then have s1: "idle s s1" "live s1" "gw_open s1" using idle_live live by auto
  let ?rest = "\<lambda>u. if gw_open u then put_line (gw_path u) (sorted_json j) u else (Inl ValueError, u)"
  have put: "appended s j r t" if u: "live u" "gw_open u" "clock_ok (gw_hour u) u" "gw_run u = gw_run s" "gw_written u = gw_written s"
      "gw_disabled u = gw_disabled s" "iter_run_games (st_files u) (gw_run s) = iter_run_games (st_files s) (gw_run s)"
      "\<exists>X. butlast (st_files u) = butlast (st_files s) @ X" and rest: "?rest u = (r, t)" for u
    using put_live [OF _ u(1) canonical_game [OF j], of r t] rest u by (auto simp: appended_def)
  have step: "append_record bytes j s = (if h = gw_hour s1 then ?rest s1
      else case close_shard bytes s1 of (Inl e, u) \<Rightarrow> (Inl e, u)
        | (Inr _, u) \<Rightarrow> (case begin_shard h (Some (gw_segment s1)) u of (Inl e, v) \<Rightarrow> (Inl e, v) | (Inr _, v) \<Rightarrow> ?rest v))"
    by (simp add: append_record_def abind_def k gets_def ret_def lift_def split: prod.split sum.split)
  show ?thesis
  proof (cases "h = gw_hour s1")
    case True
    have "?rest s1 = (r, t)" using run step True by simp
    then show ?thesis using put [of s1] s1 k1 True by (simp add: idle_def)
  next
    case False
    then have later: "gw_hour s1 < h" using k1 s1(1) by (auto simp: idle_def)
    obtain q u where q: "close_shard bytes s1 = (q, u)" by (rule prod.exhaust)
    have su: "idle s u" using idle.follow [OF s1(1) moves_run [OF idle_close q]] .
    show ?thesis
    proof (cases q)
      case (Inl e)
      then have "r = Inl e" "t = u" using run step False q by simp_all
      then show ?thesis using idle_failed [OF su live(1)] by simp
    next
      case (Inr x)
      obtain p v where p: "begin_shard h (Some (gw_segment s1)) u = (p, v)" by (rule prod.exhaust)
      have same: "gw_run u = gw_run s" "gw_segment u = gw_segment s1" "gw_hour u = gw_hour s1" "st_files u = st_files s"
        "gw_written u = gw_written s" "gw_disabled u = gw_disabled s" using su s1(1) by (simp_all add: idle_def)
      have good: "good_run (gw_run u)" using live(1) same(1) by (simp add: live_def)
      have shards_below: "shards_below (st_files u) (gw_run u) (gw_segment s1, h)"
        using live_below [OF idle_live [OF su live(1)], of h] later same by simp
      note b = begin_spec [OF p _ good _ shards_below]
      have grows: "grows u (gw_segment s1) h v" using b(1) k1 by simp
      have iter: "iter_run_games (st_files v) (gw_run s) = iter_run_games (st_files s) (gw_run s)"
        using grows_iter [OF grows good _ shards_below] k1 same by simp
      have ne: "st_files s = butlast (st_files s) @ [last (st_files s)]" using live_ne [OF live(1)] by simp
      have X: "(\<exists>X. st_files v = butlast (st_files s) @ X \<and> X \<noteq> []) \<and> (st_files v \<noteq> st_files u \<longrightarrow> butlast (st_files v) = st_files s)"
      proof (cases "st_files v = st_files u")
        case True
        then have "st_files v = butlast (st_files s) @ [last (st_files s)]" using ne same(4) by metis
        with True show ?thesis by blast
      next
        case False
        then obtain lines where v: "st_files v = st_files s @ [(shard_filename (gw_run u) (gw_segment s1) h, lines)]"
          using grows same by (auto simp: grows_def)
        also have "\<dots> = butlast (st_files s) @ [last (st_files s), (shard_filename (gw_run u) (gw_segment s1) h, lines)]"
          by (subst ne) simp
        finally have "\<exists>X. st_files v = butlast (st_files s) @ X \<and> X \<noteq> []" by blast
        then show ?thesis using v by simp
      qed
      show ?thesis
      proof (cases p)
        case p': (Inl e)
        then have "r = Inl e" "t = v" using run step False q Inr p by simp_all
        then show ?thesis using grows iter X same by (simp add: appended_def grows_def)
      next
        case p': (Inr y)
        have v: "live v" "gw_open v" "gw_hour v = h" "st_files v \<noteq> st_files u" using b(2) k1 p' by simp_all
        have "?rest v = (r, t)" using run step False q Inr p p' by simp
        moreover have "clock_ok h v" using k1 moves_run [OF idle_close q] grows by (simp add: idle_def grows_def)
        moreover have "\<exists>X. butlast (st_files v) = butlast (st_files s) @ X" using X v(4) ne by metis
        ultimately show ?thesis using put [of v] v iter grows same by (simp add: grows_def)
      qed
    qed
  qed
qed

section \<open>Properties\<close>

lemma live_same: "live s \<Longrightarrow> st_files t = st_files s \<Longrightarrow> gw_run t = gw_run s \<Longrightarrow> gw_segment t = gw_segment s \<Longrightarrow>
    gw_hour t = gw_hour s \<Longrightarrow> gw_path t = gw_path s \<Longrightarrow> live t"
  by (auto simp: live_def)

lemma store_write_disabled: "gw_disabled s \<Longrightarrow> store_write bytes j s = (Inr (), s)"
  by (simp add: store_write_def)

lemma write_all_disabled: "gw_disabled s \<Longrightarrow> write_all bytes js s = (Inr (), s)"
  by (induction js) (simp_all add: abind_def ret_def store_write_disabled)

lemma store_write_spec:
  assumes w: "store_write bytes j s = (r, t)" and live: "live s" "gw_open s" "\<not> gw_disabled s" and clock: "clock_ok (gw_hour s) s" and j: "is_game j"
  shows "r = Inr () \<and> gw_run t = gw_run s \<and> (\<exists>X. st_files t = butlast (st_files s) @ X \<and> X \<noteq> []) \<and>
    (\<not> gw_disabled t \<and> live t \<and> gw_open t \<and> clock_ok (gw_hour t) t \<and> gw_written t = Suc (gw_written s) \<and>
       iter_run_games (st_files t) (gw_run s) = iter_run_games (st_files s) (gw_run s) @ [sorted_json j] \<or>
     gw_disabled t \<and> 0 < gw_errors t \<and> gw_written t = gw_written s \<and>
       iter_run_games (st_files t) (gw_run s) = iter_run_games (st_files s) (gw_run s))"
proof -
  obtain q u where q: "append_record bytes j s = (q, u)" by (rule prod.exhaust)
  have spec: "appended s j q u" by (rule append_spec [OF q live(1,2) clock j])
  show ?thesis
  proof (cases q)
    case (Inl e)
    have "caught e" using raises_append [of bytes j] q Inl unfolding raises_def caught_def by blast
    then have "r = Inr ()" "t = u\<lparr>gw_disabled := True, gw_errors := Suc (gw_errors u)\<rparr>"
      using w live(3) q Inl by (simp_all add: store_write_def note_failure_def modify_def)
    then show ?thesis using spec Inl by (simp add: appended_def)
  next
    case (Inr x)
    then have t: "r = Inr ()" "t = u\<lparr>gw_shard_games := Suc (gw_shard_games u), gw_written := Suc (gw_written u)\<rparr>"
      using w live(3) q by (simp_all add: store_write_def)
    have u: "live u" "gw_open u" "clock_ok (gw_hour u) u" using spec Inr by (simp_all add: appended_def)
    have "clock_ok (gw_hour t) t = clock_ok (gw_hour u) u" by (simp add: t clock_ok_def)
    moreover have "live t" by (rule live_same [OF u(1)]) (simp_all add: t)
    ultimately have "live t" "clock_ok (gw_hour t) t" using u by simp_all
    then show ?thesis using spec Inr u live(3) by (simp add: appended_def t)
  qed
qed

lemma write_all_spec:
  assumes "write_all bytes js s = (r, t)" "live s" "gw_open s" "\<not> gw_disabled s" "clock_ok (gw_hour s) s" "\<forall>j \<in> set js. is_game j"
    "st_files s = F @ X" "X \<noteq> []"
  shows "r = Inr () \<and> gw_run t = gw_run s \<and> gw_written s \<le> gw_written t \<and> gw_written t \<le> gw_written s + length js \<and>
    (\<exists>X. st_files t = F @ X) \<and>
    iter_run_games (st_files t) (gw_run s) = iter_run_games (st_files s) (gw_run s) @ map sorted_json (take (gw_written t - gw_written s) js) \<and>
    (gw_written t < gw_written s + length js \<longrightarrow> gw_disabled t \<and> 0 < gw_errors t)"
  using assms
proof (induction js arbitrary: s X)
  case Nil
  then show ?case by (simp add: ret_def)
next
  case (Cons j js)
  obtain q u where q: "store_write bytes j s = (q, u)" by (rule prod.exhaust)
  from store_write_spec [OF q Cons.prems(2-5)] Cons.prems(6)
  have u: "q = Inr ()" "gw_run u = gw_run s" "\<exists>Y. st_files u = butlast (st_files s) @ Y \<and> Y \<noteq> []"
    and cases: "\<not> gw_disabled u \<and> live u \<and> gw_open u \<and> clock_ok (gw_hour u) u \<and> gw_written u = Suc (gw_written s) \<and>
       iter_run_games (st_files u) (gw_run s) = iter_run_games (st_files s) (gw_run s) @ [sorted_json j] \<or>
     gw_disabled u \<and> 0 < gw_errors u \<and> gw_written u = gw_written s \<and>
       iter_run_games (st_files u) (gw_run s) = iter_run_games (st_files s) (gw_run s)" by auto
  have rest: "write_all bytes js u = (r, t)" using Cons.prems(1) q u(1) by (simp add: abind_def)
  obtain Y where Y: "st_files u = butlast (F @ X) @ Y" "Y \<noteq> []" using u(3) Cons.prems(7) by auto
  then have F: "st_files u = F @ (butlast X @ Y)" "butlast X @ Y \<noteq> []" using Cons.prems(8) by (simp_all add: butlast_append)
  from cases show ?case
  proof (elim disjE conjE)
    assume live: "\<not> gw_disabled u" "live u" "gw_open u" "clock_ok (gw_hour u) u" "gw_written u = Suc (gw_written s)"
      "iter_run_games (st_files u) (gw_run s) = iter_run_games (st_files s) (gw_run s) @ [sorted_json j]"
    have IH: "r = Inr () \<and> gw_run t = gw_run u \<and> gw_written u \<le> gw_written t \<and> gw_written t \<le> gw_written u + length js \<and>
      (\<exists>X. st_files t = F @ X) \<and>
      iter_run_games (st_files t) (gw_run u) = iter_run_games (st_files u) (gw_run u) @ map sorted_json (take (gw_written t - gw_written u) js) \<and>
      (gw_written t < gw_written u + length js \<longrightarrow> gw_disabled t \<and> 0 < gw_errors t)"
      by (rule Cons.IH [OF rest live(2,3,1,4) _ F]) (use Cons.prems(6) in simp)
    moreover have "gw_written u \<le> gw_written t" using IH by blast
    then have "gw_written t - gw_written s = Suc (gw_written t - gw_written u)" using live(5) by linarith
    ultimately show ?thesis using live(5,6) u(2) by auto
  next
    assume dead: "gw_disabled u" "0 < gw_errors u" "gw_written u = gw_written s"
      "iter_run_games (st_files u) (gw_run s) = iter_run_games (st_files s) (gw_run s)"
    then have "r = Inr ()" "t = u" using rest write_all_disabled by simp_all
    then show ?thesis using dead u(2) F(1) by auto
  qed
qed

lemma store_prefix:
  assumes start: "open_store run s = (Inr (), s0)" and clock: "clock_ok [] s" and js: "\<forall>j \<in> set js. is_game j"
    and writes: "write_all bytes js s0 = (r, t)" and shut: "close_store bytes t = (q, u)"
  shows "r = Inr () \<and> gw_written t \<le> length js \<and>
    iter_run_games (st_files t) run = iter_run_games (st_files s) run @ map sorted_json (take (gw_written t) js) \<and>
    (gw_written t < length js \<longrightarrow> gw_disabled t \<and> 0 < gw_errors t) \<and>
    (\<exists>X. st_files t = st_files s @ X) \<and> st_files u = st_files t"
proof -
  let ?s = "s\<lparr>gw_run := run, gw_errors := 0, gw_written := 0, gw_disabled := False\<rparr>"
  have good: "good_run run" using start
    by (auto simp: open_store_def abind_def lift_def good_run_def validate_run_id_def split: if_splits)
  obtain h stamp s1 where k: "tick ?s = (Inr (h, stamp), s1)" using tick_Inr by blast
  have begin_: "begin_shard h None s1 = (Inr (), s0)"
    using start good k by (simp add: open_store_def good_run_def abind_def lift_def modify_def)
  have "clock_ok [] ?s" using clock by (simp add: clock_ok_def)
  note k1 = tick_ok [OF k this]
  let ?n = "next_segment_index (map fst (st_files s1)) run shard_segment"
  have s1: "st_files s1 = st_files s" "gw_run s1 = run" "gw_written s1 = 0" "\<not> gw_disabled s1" using k1 by (simp_all add: idle_def)
  have "m < ?n" if "name \<in> dkeys (st_files s1)" "SHARD_RE name = Some (run, m, hr)" for name m hr
    by (rule next_is_new [of name]) (use that in \<open>auto simp: dkeys_def shard_segment_def\<close>)
  then have shards_below: "shards_below (st_files s1) (gw_run s1) (?n, h)" using s1(2) by (auto simp: shards_below_def less_prod_def)
  have n: "?n = (case None of None \<Rightarrow> next_segment_index (map fst (st_files s1)) (gw_run s1) shard_segment | Some n \<Rightarrow> n)" using s1(2) by simp
  have good1: "good_run (gw_run s1)" and hour: "valid_hour h" using good s1(2) k1 by simp_all
  note b = begin_spec [OF begin_ hour good1 n shards_below]
  have live: "live s0" "gw_open s0" "gw_hour s0 = h" "st_files s0 \<noteq> st_files s1" using b(2) by simp_all
  have grows: "grows s1 ?n h s0" by (rule b(1))
  then have s0: "gw_run s0 = run" "gw_written s0 = 0" "\<not> gw_disabled s0" "clock_ok (gw_hour s0) s0"
    using s1 k1 live(3) by (auto simp: grows_def)
  obtain X where X: "st_files s0 = st_files s @ X" "X \<noteq> []" using grows live(4) s1(1) by (auto simp: grows_def)
  have iter: "iter_run_games (st_files s0) run = iter_run_games (st_files s) run"
    using grows_iter [OF grows good1 hour shards_below] s1 by simp
  have "moves idle (close_store bytes)"
    using idle_close [of bytes] idle.stay by (auto simp: moves_def close_store_def)
  then have "idle t u" using shut by (rule moves_run)
  then have u: "st_files u = st_files t" by (simp add: idle_def)
  from write_all_spec [OF writes live(1,2) s0(3,4) js X]
  have "r = Inr () \<and> gw_written t \<le> length js \<and> (\<exists>X. st_files t = st_files s @ X) \<and>
    iter_run_games (st_files t) run = iter_run_games (st_files s) run @ map sorted_json (take (gw_written t) js) \<and>
    (gw_written t < length js \<longrightarrow> gw_disabled t \<and> 0 < gw_errors t)"
    unfolding s0(1,2) iter by simp
  with u show ?thesis by blast
qed

text \<open>C20: The game store keeps exactly a prefix of the games: whatever the disk does and however the hours advance,
  a run that has opened its store can write any games without an exception; reading the run back gives what was
  readable before, followed by the first \<open>games_written\<close> of the games in order, torn lines and headers left out;
  a store that kept fewer than it was given has disabled itself and counted the failure; no file that was there
  before is touched; and closing changes no file.\<close>

theorem store_keeps_a_prefix:
  assumes start: "open_store run s = (Inr (), s0)" and clock: "clock_ok [] s" and js: "\<forall>j \<in> set js. is_game j"
    and writes: "write_all bytes js s0 = (r, t)" and shut: "close_store bytes t = (q, u)"
  shows "r = Inr () \<and> gw_written t \<le> length js \<and>
    iter_run_games (st_files t) run = iter_run_games (st_files s) run @ map sorted_json (take (gw_written t) js) \<and>
    (gw_written t < length js \<longrightarrow> gw_disabled t \<and> 0 < gw_errors t) \<and>
    (\<exists>X. st_files t = st_files s @ X) \<and> st_files u = st_files t"
  by (rule store_prefix [OF assms])

section \<open>A rotation has no second try\<close>

text \<open>
  With its segment given, every attempt of a claim names the same file. When that file exists the 64 attempts
  change nothing and fail, and the store disables itself for the rest of the run.
\<close>

lemma claim_stuck: "shard_filename run n hour \<in> dkeys (st_files s) \<Longrightarrow> claim_shard run hour (Some n) k s = (Inl GameRecordError, s)"
  by (induction k) (simp_all add: lift_def abind_def gets_def dkeys_def Let_def)

section \<open>A small store\<close>

definition demo_store :: store where
  "demo_store = \<lparr>st_files = [], st_index = [], st_faults = [Fine, Fine, Fine, Tears], st_clock = [(''2026010100'', ''t'')],
     gw_run = [], gw_segment = 0, gw_hour = [], gw_path = [], gw_open = False, gw_shard_games = 0, gw_opened_at = [],
     gw_errors = 0, gw_written = 0, gw_disabled = False\<rparr>"

definition demo_record :: "int \<Rightarrow> json" where
  "demo_record i = JObj [(''n'', JInt i)]"

lemma demo_opens: "\<exists>s. open_store ''r'' demo_store = (Inr (), s) \<and> st_faults s = [Fine, Tears] \<and> gw_hour s = ''2026010100'' \<and>
    st_clock s = [(''2026010100'', ''t'')] \<and> gw_disabled s = False \<and> gw_open s \<and> gw_written s = 0"
  by (simp add: open_store_def validate_run_id_def stripped_def py_space_def white_def control_def demo_store_def abind_def lift_def ret_def
      modify_def gets_def tick_def begin_shard_def adopt_def MAX_SHARD_CLAIM_RETRIES_def next_segment_index_def
      io_def put_line_def add_line_def Let_def numeral_eq_Suc del: sorted_json.simps)

text \<open>The second record meets a torn write: the store keeps the first one and counts the failure.\<close>

theorem store_keeps_a_prefix_witness:
  "\<exists>s0 t u. open_store ''r'' demo_store = (Inr (), s0) \<and>
     write_all (\<lambda>_. 0) [demo_record 1, demo_record 2, demo_record 3] s0 = (Inr (), t) \<and>
     iter_run_games (st_files t) ''r'' = [demo_record 1] \<and> gw_disabled t \<and> 0 < gw_errors t \<and>
     close_store (\<lambda>_. 0) t = (Inr (), u) \<and> st_files u = st_files t"
proof -
  obtain s0 where s0: "open_store ''r'' demo_store = (Inr (), s0)" "st_faults s0 = [Fine, Tears]" "gw_hour s0 = ''2026010100''"
    "st_clock s0 = [(''2026010100'', ''t'')]" "gw_disabled s0 = False" "gw_open s0" "gw_written s0 = 0" using demo_opens by blast
  have clock: "clock_ok [] demo_store" by (simp add: clock_ok_def demo_store_def valid_hour_def is_digit_def)
  have js: "\<forall>j \<in> set [demo_record 1, demo_record 2, demo_record 3]. is_game j"
    by (auto simp: is_game_def demo_record_def framing_def dget_def)
  obtain r t where w: "write_all (\<lambda>_. 0) [demo_record 1, demo_record 2, demo_record 3] s0 = (r, t)" by (rule prod.exhaust)
  obtain q u where c: "close_store (\<lambda>_. 0) t = (q, u)" by (rule prod.exhaust)
  have one: "gw_written t = 1 \<and> gw_open t \<and> st_faults t = []"
    using w s0(2-7) by (auto simp: abind_def store_write_def append_record_def tick_def gets_def ret_def lift_def modify_def put_line_def
      add_line_def io_def caught_def note_failure_def split_beta)
  then have "q = Inr ()" using c by (auto simp: close_store_def close_shard_def abind_def gets_def ret_def io_def lift_def modify_def
      index_line_def tick_def split_beta split: list.splits)
  moreover have "iter_run_games (st_files demo_store) ''r'' = []"
    by (simp add: iter_run_games_def demo_store_def run_shard_paths_def List.map_filter_simps)
  moreover have "sorted_json (demo_record 1) = demo_record 1" by (simp add: demo_record_def)
  ultimately show ?thesis
    using store_keeps_a_prefix [OF s0(1) clock js w c] s0(1) w c one by auto
qed

end
