(* ===== verification/Game_Records.thy ===== *)
theory Game_Records
  imports Game_Store
begin

text \<open>
  The builders of a game record (\<open>selfplay_record\<close>, \<open>eval_record\<close>, \<open>seat_result\<close> of
  \<open>src/mantis/monitor/game_record.py\<close>) and the recorder of self-play games (\<open>game_recorder.py\<close>), which hands
  them to the store. A record is a JSON object with its keys in the order the code writes them.
\<close>

section \<open>Builders\<close>

definition CHANNELS :: "string list" where
  "CHANNELS = [''selfplay'', ''promotion'', ''external'', ''random_floor'']"

definition axial :: "cell list \<Rightarrow> json" where
  "axial ms = JList (map (\<lambda>(q, r). JList [JInt q, JInt r]) ms)"

type_synonym child_stats = "cell \<times> int \<times> pyfloat \<times> pyfloat"
type_synonym position_stats = "int \<times> pyfloat \<times> pyfloat option \<times> child_stats list \<times> pyfloat"

fun position_entry :: "position_stats \<Rightarrow> json" where
  "position_entry (ply, root_value, root_raw, children, search_value) = JObj (
     [(''ply'', JInt ply), (''root_value'', JFloat root_value)] @
     (case root_raw of None \<Rightarrow> [] | Some x \<Rightarrow> [(''root_raw'', JFloat x)]) @
     [(''search_value'', JFloat search_value),
      (''visits'', JList (map (\<lambda>((q, r), n, _, _). JList [JInt q, JInt r, JInt n]) children)),
      (''q'', JList (map (\<lambda>(_, _, q, _). JFloat q) children)), (''prior'', JList (map (\<lambda>(_, _, _, p). JFloat p) children))])"

record selfplay_args =
  sa_game_id :: string
  sa_run_id :: string
  sa_step :: int
  sa_moves :: "cell list"
  sa_result :: string
  sa_plies :: int
  sa_termination :: string
  sa_worker_id :: int
  sa_seed :: int
  sa_served_sims :: int
  sa_move_arms :: "(int \<times> string) list"
  sa_byte_hash :: "string option"
  sa_search_stats :: "position_stats list option"

definition selfplay_head :: "selfplay_args \<Rightarrow> (string, json) dict" where
  "selfplay_head a =
     [(''contract'', JStr GAME_RECORD_CONTRACT), (''game_id'', JStr (sa_game_id a)), (''run_id'', JStr (sa_run_id a)),
      (''channel'', JStr ''selfplay''), (''step'', JInt (sa_step a)), (''step_kind'', JStr ''actor''),
      (''worker_id'', JInt (sa_worker_id a)), (''seed'', JInt (sa_seed a)), (''served_sims'', JInt (sa_served_sims a)),
      (''plies'', JInt (sa_plies a)), (''result'', JStr (sa_result a)), (''termination'', JStr (sa_termination a)),
      (''moves'', axial (sa_moves a)), (''move_sims'', JList (map (JInt \<circ> fst) (sa_move_arms a))),
      (''move_arms'', JList (map (JStr \<circ> snd) (sa_move_arms a)))]"

definition selfplay_record :: "selfplay_args \<Rightarrow> json res" where
  "selfplay_record a = (if length (sa_move_arms a) \<noteq> length (sa_moves a) then Inl ValueError else Inr (JObj (
     selfplay_head a @
     (case sa_byte_hash a of None \<Rightarrow> [] | Some h \<Rightarrow> [(''game_id_byte_hash'', JStr h)]) @
     (case sa_search_stats a of None \<Rightarrow> [] | Some rows \<Rightarrow> [(''search_stats'', JList (map position_entry rows))]))))"

record eval_args =
  ea_game_id :: string
  ea_run_id :: string
  ea_step :: int
  ea_channel :: string
  ea_rung :: string
  ea_phase :: string
  ea_game_index :: int
  ea_moves :: "cell list"
  ea_result :: string
  ea_plies :: int
  ea_termination :: string
  ea_candidate_color :: int
  ea_seed :: int
  ea_served_sims :: int
  ea_trajectory_hash :: "string option"
  ea_search_stats :: "json list option"
  ea_tactics :: "(string, json) dict option"
  ea_search :: "(string, json) dict option"

definition eval_head :: "eval_args \<Rightarrow> (string, json) dict" where
  "eval_head a =
     [(''contract'', JStr GAME_RECORD_CONTRACT), (''game_id'', JStr (ea_game_id a)), (''run_id'', JStr (ea_run_id a)),
      (''channel'', JStr (ea_channel a)), (''rung'', JStr (ea_rung a)), (''phase'', JStr (ea_phase a)),
      (''step'', JInt (ea_step a)), (''step_kind'', JStr ''round''), (''game_index'', JInt (ea_game_index a)),
      (''colors'', JObj [(''candidate'', JInt (ea_candidate_color a)), (''opponent'', JInt (- ea_candidate_color a))]),
      (''seed'', JInt (ea_seed a)), (''served_sims'', JInt (ea_served_sims a)), (''plies'', JInt (ea_plies a)),
      (''result'', JStr (ea_result a)), (''termination'', JStr (ea_termination a)), (''moves'', axial (ea_moves a))]"

definition eval_game_record :: "eval_args \<Rightarrow> json res" where
  "eval_game_record a = (if ea_channel a \<notin> set CHANNELS then Inl ValueError else Inr (JObj (
     eval_head a @
     (case ea_trajectory_hash a of None \<Rightarrow> [] | Some h \<Rightarrow> [(''trajectory_hash'', JStr h)]) @
     (case ea_search_stats a of None \<Rightarrow> [] | Some rows \<Rightarrow> if rows = [] then [] else [(''search_stats'', JList rows)]) @
     (case ea_tactics a of None \<Rightarrow> [] | Some d \<Rightarrow> [(''candidate_tactics'', JObj d)]) @
     (case ea_search a of None \<Rightarrow> [] | Some d \<Rightarrow> [(''candidate_search'', JObj d)]))))"

definition seat_result :: "string \<Rightarrow> int \<Rightarrow> string" where
  "seat_result winner candidate_color = (if winner = ''draw'' then ''draw''
     else if (candidate_color = 1) = (winner = ''candidate'') then ''p1'' else ''p2'')"

section \<open>The recorder\<close>

definition SEAT_BY_WINNER_CODE :: "(int, string) dict" where
  "SEAT_BY_WINNER_CODE = [(0, ''draw''), (1, ''p1''), (2, ''p2'')]"

record recorder =
  gr_run :: string
  gr_seed :: int
  gr_step :: int
  gr_store :: store

definition on_store :: "(store, 'a) act \<Rightarrow> (recorder, 'a) act" where
  "on_store m g = (case m (gr_store g) of (r, s) \<Rightarrow> (r, g\<lparr>gr_store := s\<rparr>))"

definition open_recorder :: "string \<Rightarrow> int \<Rightarrow> (recorder, unit) act" where
  "open_recorder run seed = abind (on_store (open_store run)) (\<lambda>_. modify (\<lambda>g. g\<lparr>gr_run := run, gr_seed := seed, gr_step := - 1\<rparr>))"

definition set_step :: "int \<Rightarrow> (recorder, unit) act" where
  "set_step step = modify (\<lambda>g. g\<lparr>gr_step := step\<rparr>)"

record drained_game =
  dr_game_id :: string
  dr_moves :: "cell list"
  dr_winner_code :: int
  dr_plies :: int
  dr_worker_id :: int
  dr_terminal_reason :: string
  dr_byte_hash :: string
  dr_served_sims :: int
  dr_move_arms :: "(int \<times> string) list"
  dr_search_stats :: "position_stats list option"

definition args_of :: "string \<Rightarrow> int \<Rightarrow> int \<Rightarrow> drained_game \<Rightarrow> selfplay_args" where
  "args_of run seed step d = \<lparr>sa_game_id = dr_game_id d, sa_run_id = run, sa_step = step, sa_moves = dr_moves d,
     sa_result = dget SEAT_BY_WINNER_CODE (dr_winner_code d) ''unknown'', sa_plies = dr_plies d,
     sa_termination = dr_terminal_reason d, sa_worker_id = dr_worker_id d, sa_seed = seed,
     sa_served_sims = dr_served_sims d, sa_move_arms = dr_move_arms d, sa_byte_hash = Some (dr_byte_hash d),
     sa_search_stats = dr_search_stats d\<rparr>"

definition maybe_record :: "(sline list \<Rightarrow> int) \<Rightarrow> drained_game \<Rightarrow> (recorder, unit) act" where
  "maybe_record bytes d = abind (gets (\<lambda>g. selfplay_record (args_of (gr_run g) (gr_seed g) (gr_step g) d))) (\<lambda>r. abind (lift r) (\<lambda>j. on_store (store_write bytes j)))"

definition stop_recorder :: "(sline list \<Rightarrow> int) \<Rightarrow> (recorder, unit) act" where
  "stop_recorder bytes = on_store (close_store bytes)"

text \<open>The pool's use of it: steps set and games recorded, in any order.\<close>

datatype recorder_call = Set_Step int | Record drained_game

fun recorder_calls :: "(sline list \<Rightarrow> int) \<Rightarrow> recorder_call list \<Rightarrow> (recorder, unit) act" where
  "recorder_calls bytes [] = ret ()"
| "recorder_calls bytes (Set_Step n # cs) = abind (set_step n) (\<lambda>_. recorder_calls bytes cs)"
| "recorder_calls bytes (Record d # cs) = abind (maybe_record bytes d) (\<lambda>_. recorder_calls bytes cs)"

section \<open>What a recorded run reads back\<close>

text \<open>An optional field adds its key at most once.\<close>

definition at_most :: "string \<Rightarrow> (string, json) dict \<Rightarrow> bool" where
  "at_most k d \<longleftrightarrow> map fst d = [] \<or> map fst d = [k]"

lemma at_most_option: "(\<And>x. at_most k (f x)) \<Longrightarrow> at_most k (case y of None \<Rightarrow> [] | Some x \<Rightarrow> f x)"
  by (cases y) (simp_all add: at_most_def)

lemma at_most_field: "at_most k [(k, v)]" "at_most k (if b then [] else [(k, v)])"
  by (simp_all add: at_most_def)

lemma optional_keys:
  "list_all2 at_most ks es \<Longrightarrow> distinct ks \<Longrightarrow> distinct (map fst (concat es)) \<and> set (map fst (concat es)) \<subseteq> set ks"
proof (induction rule: list_all2_induct)
  case (Cons k ks e es)
  have "map fst e = [] \<or> map fst e = [k]" using Cons.hyps(1) by (simp add: at_most_def)
  moreover have "set (map fst (concat es)) \<subseteq> set ks" "distinct (map fst (concat es))" "k \<notin> set ks"
    using Cons.IH Cons.prems by simp_all
  then have "k \<notin> set (map fst (concat es))" by blast
  ultimately show ?case using Cons.IH Cons.prems unfolding concat.simps map_append by (elim disjE) auto
qed simp

lemma fields_are_game:
  assumes "list_all2 at_most ks es" "distinct (map fst d @ ks)" "''record'' \<notin> set (map fst d @ ks)" "j = JObj (d @ concat es)"
  shows "is_game j"
proof -
  have o: "distinct (map fst (concat es))" "set (map fst (concat es)) \<subseteq> set ks"
    using optional_keys [OF assms(1)] assms(2) by auto
  have "distinct (map fst (d @ concat es))" using o assms(2) by (auto simp: distinct_append)
  moreover have "map_of (d @ concat es) ''record'' = None" unfolding map_of_eq_None_iff using o(2) assms(3) by auto
  then have "dget (d @ concat es) ''record'' JNull = JNull" unfolding dget_def by (simp only: option.case)
  ultimately show ?thesis unfolding is_game_def framing_def assms(4) by (intro exI [of _ "d @ concat es"]) simp
qed

lemma selfplay_is_game:
  assumes "selfplay_record a = Inr j"
  shows "is_game j"
proof -
  let ?es = "[case sa_byte_hash a of None \<Rightarrow> [] | Some h \<Rightarrow> [(''game_id_byte_hash'', JStr h)],
    case sa_search_stats a of None \<Rightarrow> [] | Some rows \<Rightarrow> [(''search_stats'', JList (map position_entry rows))]]"
  have "list_all2 at_most [''game_id_byte_hash'', ''search_stats''] ?es" by (simp add: at_most_option at_most_field)
  then show ?thesis
    by (rule fields_are_game [where d = "selfplay_head a"])
      (use assms in \<open>simp_all add: selfplay_head_def selfplay_record_def split: if_splits\<close>)
qed

lemma eval_is_game:
  assumes "eval_game_record a = Inr j"
  shows "is_game j"
proof -
  let ?es = "[case ea_trajectory_hash a of None \<Rightarrow> [] | Some h \<Rightarrow> [(''trajectory_hash'', JStr h)],
    case ea_search_stats a of None \<Rightarrow> [] | Some rows \<Rightarrow> if rows = [] then [] else [(''search_stats'', JList rows)],
    case ea_tactics a of None \<Rightarrow> [] | Some d \<Rightarrow> [(''candidate_tactics'', JObj d)],
    case ea_search a of None \<Rightarrow> [] | Some d \<Rightarrow> [(''candidate_search'', JObj d)]]"
  have "list_all2 at_most [''trajectory_hash'', ''search_stats'', ''candidate_tactics'', ''candidate_search''] ?es"
    by (simp add: at_most_option at_most_field)
  then show ?thesis
    by (rule fields_are_game [where d = "eval_head a"]) (use assms in \<open>simp_all add: eval_head_def eval_game_record_def split: if_splits\<close>)
qed

text \<open>The records the calls ask for, the step being the last one set.\<close>

fun asked :: "string \<Rightarrow> int \<Rightarrow> int \<Rightarrow> recorder_call list \<Rightarrow> json list" where
  "asked run seed step [] = []"
| "asked run seed step (Set_Step n # cs) = asked run seed n cs"
| "asked run seed step (Record d # cs) =
     projr (selfplay_record (args_of run seed step d)) # asked run seed step cs"

definition well_labelled :: "recorder_call \<Rightarrow> bool" where
  "well_labelled c \<longleftrightarrow> (case c of Record d \<Rightarrow> length (dr_move_arms d) = length (dr_moves d) | _ \<Rightarrow> True)"

lemma well_labelled_record:
  "well_labelled (Record d) \<Longrightarrow> selfplay_record (args_of run seed step d) = Inr (projr (selfplay_record (args_of run seed step d)))"
  by (simp add: well_labelled_def selfplay_record_def args_of_def)

lemma asked_are_games: "\<forall>c \<in> set cs. well_labelled c \<Longrightarrow> \<forall>j \<in> set (asked run seed step cs). is_game j"
proof (induction cs arbitrary: step)
  case (Cons c cs)
  then show ?case using selfplay_is_game [OF well_labelled_record] by (cases c) auto
qed simp

lemma calls_are_writes:
  "recorder_calls bytes cs g = (r, g') \<Longrightarrow> \<forall>c \<in> set cs. well_labelled c \<Longrightarrow>
   write_all bytes (asked (gr_run g) (gr_seed g) (gr_step g) cs) (gr_store g) = (r, gr_store g')"
proof (induction cs arbitrary: g)
  case (Cons c cs)
  show ?case
  proof (cases c)
    case (Set_Step n)
    then show ?thesis using Cons.IH [of "g\<lparr>gr_step := n\<rparr>"] Cons.prems by (simp add: abind_def set_step_def modify_def)
  next
    case (Record d)
    let ?j = "projr (selfplay_record (args_of (gr_run g) (gr_seed g) (gr_step g) d))"
    obtain q s where q: "store_write bytes ?j (gr_store g) = (q, s)" by (rule prod.exhaust)
    have "maybe_record bytes d g = (q, g\<lparr>gr_store := s\<rparr>)"
    proof -
      have "selfplay_record (args_of (gr_run g) (gr_seed g) (gr_step g) d) = Inr ?j"
        using well_labelled_record Cons.prems(2) Record by simp
      then obtain j where "selfplay_record (args_of (gr_run g) (gr_seed g) (gr_step g) d) = Inr j" "?j = j" by blast
      then show ?thesis using q by (simp add: maybe_record_def abind_def gets_def lift_def on_store_def)
    qed
    then show ?thesis using Cons.IH [of "g\<lparr>gr_store := s\<rparr>"] Cons.prems Record q
      by (cases q) (auto simp: abind_def)
  qed
qed (simp add: ret_def)


text \<open>The seat of a winner: the docstring's \<open>KeyError\<close> is never raised, another winner is read as the opponent.\<close>

lemma seat_of_stranger: "winner \<notin> {''draw'', ''candidate''} \<Longrightarrow> seat_result winner c = seat_result ''opponent'' c"
  by (simp add: seat_result_def)

section \<open>A small run\<close>

definition demo_drained :: drained_game where
  "demo_drained = \<lparr>dr_game_id = ''g1'', dr_moves = [(0, 0)], dr_winner_code = 7, dr_plies = 1, dr_worker_id = 2,
     dr_terminal_reason = ''colony'', dr_byte_hash = ''h'', dr_served_sims = 16, dr_move_arms = [(16, ''full'')], dr_search_stats = None\<rparr>"

definition demo_recorder :: recorder where
  "demo_recorder = \<lparr>gr_run = [], gr_seed = 0, gr_step = 0, gr_store = demo_store\<lparr>st_faults := []\<rparr>\<rparr>"

lemma demo_recorder_opens: "\<exists>s. open_recorder ''r'' 9 demo_recorder = (Inr (), \<lparr>gr_run = ''r'', gr_seed = 9, gr_step = - 1, gr_store = s\<rparr>)"
  by (simp add: open_recorder_def on_store_def demo_recorder_def open_store_def validate_run_id_def stripped_def py_space_def white_def
      control_def demo_store_def abind_def lift_def ret_def modify_def gets_def tick_def begin_shard_def adopt_def
      MAX_SHARD_CLAIM_RETRIES_def next_segment_index_def io_def put_line_def add_line_def Let_def numeral_eq_Suc del: sorted_json.simps)


end
