(* ===== verification/Spec2Isabelle.thy ===== *)
theory Spec2Isabelle
  imports Supervisor_Stop Match Eval_Cache Sequential Pipeline_Threads Coordinator_Duties Graph_Wire Watchdog_Laws Served_Graphs Resume_Config Arming_Laws Pool_Feed Event_Sink Game_Records
begin

text \<open>
  A verification library for \<^bold>\<open>mantis\<close>, the Python half of a self-play learner for a two-stones-a-turn hexagonal
  connection game. The board, the tree search and the replay buffer are a Rust engine behind a bridge, the
  networks are torch; the Python under \<open>src/mantis/\<close> is what decides: which games are legal and count, when a
  network is promoted, when a run must stop, what a checkpoint may say and what survives a crash. This library
  models that part. File names below are relative to \<open>src/mantis/\<close>.

  \<^bold>\<open>The program and how its parts meet.\<close> A supervisor process (\<open>monitor/supervise.py\<close>) starts the run and
  relaunches it when its heartbeat file goes stale. In the run, the self-play pool (\<open>selfplay/pool*.py\<close>) drains
  games from the Rust workers into the replay buffer, announces them to the event sink (\<open>monitor/sink.py\<close>) and
  records them (\<open>monitor/game_recorder.py\<close>, \<open>game_record.py\<close>). The step coordinator
  (\<open>train/coordinator/\<close>, driven by \<open>train/loop.py\<close>) trains, reads the pool's telemetry for its two hard-abort
  gates, saves checkpoints (\<open>train/checkpoints.py\<close>) and resume bundles (\<open>train/bundle.py\<close>), and kicks eval
  rounds. The eval pipeline (\<open>eval/pipeline.py\<close>) sends a round specification to a child process, which plays
  paired matches (\<open>arena/\<close>) under a sequential gate (\<open>eval/sequential.py\<close>) and returns a result that decides
  the promotion (\<open>eval/promote.py\<close>). A watchdog thread (\<open>train/lifecycle/heartbeat_watchdog.py\<close>) mirrors the
  beats to the heartbeat file and ends a process that hangs. A manifest of armed aborts
  (\<open>config/armed_aborts.py\<close>) audits, before a launch, whether the aborts can fire at all.

  \<^bold>\<open>Shared theories.\<close> \<open>Prelude\<close>: exceptions, floats with their non-finite values, JSON values, insertion-ordered
  dictionaries, and the interfaces \<open>counter_registry\<close> and \<open>first_wins\<close>. \<open>Text\<close>: decimal rendering and separated
  keys, with injectivity. \<open>Py_Values\<close>: Python's built-ins on JSON values, and actions \<open>('s, 'a) act\<close>, state
  transformers that may raise and keep what was done before, with the interface \<open>state_order\<close> for what no
  operation can undo.

  \<^bold>\<open>Arena and evaluation.\<close>
  \<open>Arena\<close> (\<open>arena/regime.py\<close>, \<open>adjudicate.py\<close>, \<open>books.py\<close>), \<open>Match\<close> (\<open>arena/match.py\<close>): every recorded game
  is legal and its result is the rules'. \<open>Eval_Cache\<close> (\<open>arena/eval_cache.py\<close>): the cache is transparent.
  \<open>Aggregate\<close>, \<open>Sequential\<close> (\<open>eval/aggregate.py\<close>, \<open>sequential.py\<close>, \<open>floor_gate.py\<close>): the pools count each
  game once, the gate ends and equals the midpoint test at its cap. \<open>Round_Spec\<close>, \<open>Rounds\<close> (\<open>eval/rounds.py\<close>,
  \<open>errors.py\<close>, \<open>promote.py\<close>): what crosses the process seam and which results move the deploy tag. \<open>Pipeline\<close>,
  \<open>Pipeline_Threads\<close> (\<open>eval/pipeline.py\<close>): the operations, and their interleavings as the inductive step
  relation \<open>pl_step\<close>; a round is posted at most once and none is lost.

  \<^bold>\<open>Self-play.\<close>
  \<open>Game_Shape\<close> (\<open>selfplay/instrumentation.py\<close>, \<open>util/coordinates.py\<close>): components and straight runs are what
  they are named for. \<open>Telemetry\<close>: the bounded windows refine the whole history of games. \<open>Pool_Feed\<close>
  (\<open>selfplay/pool_push.py\<close>, \<open>pool_drain.py\<close>, the feeder thread of \<open>pool.py\<close>): game ids are translated
  faithfully, every drained game is announced and recorded. \<open>Graph_Wire\<close>, \<open>Served_Graphs\<close>
  (\<open>selfplay/graph_wire_split.py\<close>, \<open>served_graphs.py\<close>): splitting a wire keeps its graphs and is minimal; the
  ladder of buckets is finite.

  \<^bold>\<open>Events and records.\<close>
  \<open>Segments\<close>, \<open>Event_Sink\<close> (\<open>monitor/sink.py\<close>): racing processes never own one segment file; every event is a
  line or a counted failure. \<open>Game_Store\<close>, \<open>Game_Records\<close> (\<open>monitor/game_record.py\<close>, \<open>game_recorder.py\<close>): the
  shards read back as a prefix of the games given, whatever the disk does.

  \<^bold>\<open>Training and its stops.\<close>
  \<open>Rules\<close>, \<open>Budget\<close>, \<open>Axis\<close> (\<open>monitor/rules.py\<close>, \<open>train/mixing.py\<close>, \<open>coordinator/config.py\<close>,
  \<open>axis_distribution.py\<close>), \<open>Guards\<close>, \<open>Coordinator\<close>, \<open>Close_Out\<close> (\<open>train/coordinator/step.py\<close>, \<open>drain.py\<close>,
  \<open>train/events.py\<close>, \<open>loop.py\<close>, \<open>lifecycle/signals.py\<close>, \<open>lifecycle/watchdog.py\<close>): state, operations and the
  outer iteration. \<open>Coordinator_Laws\<close>, \<open>Coordinator_Duties\<close>: at most one hard abort and one final save a run,
  the trimmed ring decides like the whole history, the close-out keeps its order. \<open>Arming\<close>, \<open>Arming_Laws\<close>
  (\<open>config/armed_aborts.py\<close>): the cadence audit agrees with the coordinator about when the draw-rate abort can
  fire.

  \<^bold>\<open>Processes.\<close>
  \<open>Heartbeat\<close> (\<open>monitor/heartbeat.py\<close>, \<open>best_effort.py\<close>), \<open>Supervisor\<close>, \<open>Supervisor_Stop\<close>
  (\<open>monitor/supervise.py\<close>): relaunches stay within the budget, a frozen heartbeat goes stale, the exit codes are
  the contract's. \<open>Watchdog\<close>, \<open>Watchdog_Laws\<close>: the thread fires exactly when its readings say so, once, and a
  fire reaches the exit whatever the optional effects do.

  \<^bold>\<open>What survives.\<close>
  \<open>Bundle\<close>, \<open>Resume\<close> (\<open>train/bundle.py\<close>, \<open>resume_state.py\<close>, \<open>bundle_receipts.py\<close>, \<open>util/mirror_receipts.py\<close>):
  publication is all or nothing at every crash point and pruning keeps the newest bundle. \<open>Config_Tree\<close>
  (\<open>config/retired.py\<close>, \<open>resolve/arch_scope.py\<close>, \<open>resolve/gnn_widths.py\<close>), \<open>Checkpoints\<close>, \<open>Checkpoint_Laws\<close>,
  \<open>Restamp\<close>, \<open>Resume_Config\<close> (\<open>train/checkpoints.py\<close>, \<open>model/arch.py\<close>): a save reads back, a load accepts only
  what name, hash and declared facts agree on, a resume keeps the identity of the run.

  \<^bold>\<open>Conventions.\<close> A Python object is a record, its methods are definitions over it; a raised exception is \<open>Inl\<close>
  of a \<open>py_exc\<close>, and the state an action had reached stays. Collaborators outside the Python (the engine, torch,
  clocks, files, hashes, the git and operating-system calls) are operations on a world of any type, or a script
  of answers: a theorem over them holds for every behaviour, failures included, except what it assumes by name.
  Floats whose finiteness the code tests are \<open>pyfloat\<close>; other floats are exact reals, so the rounding of doubles
  is not modelled. Log lines are left out; events, files and process exits are not.

  \<^bold>\<open>Bounds and fuel.\<close> Loops of the code that end are total functions with a proved measure. Where the code may
  run for ever, not having ended is a value: \<open>walk_line\<close> is a partial function, proved to end for the engine's
  axes; the ladder of buckets is proved to end for every cap; \<open>drain_loop\<close> takes the number of iterations, each of
  them the code's, and answers \<open>None\<close> while it still runs; the supervisor loop consumes a script with one entry an
  iteration. The retries of a segment claim are the code's 64; its two steps a try are why 129 steps of a process
  are enough.

  \<^bold>\<open>Interfaces.\<close> \<open>counter_registry\<close> is interpreted by the counters of \<open>Heartbeat\<close> and the skips of \<open>Rules\<close>;
  \<open>first_wins\<close> by the abort latch of \<open>Guards\<close> and the recorded reason of \<open>Close_Out\<close>; \<open>liveness_core\<close> by the
  tracker of \<open>Supervisor\<close>; \<open>state_order\<close> by \<open>Bundle\<close>, \<open>Checkpoint_Laws\<close>, \<open>Guards\<close>, \<open>Coordinator_Duties\<close>,
  \<open>Watchdog_Laws\<close> and \<open>Game_Store\<close>, each with what its operations cannot undo.

  \<^bold>\<open>Not modelled.\<close> Tensor code (trainer, losses, networks, collation, CUDA graphs, the inference server): its
  values are not visible to a kernel proof. The composition root \<open>run.py\<close>, the pydantic schema, the offline tools
  and diagnostics: construction, declarations and scripts outside the run. The deploy head and the eval child
  \<open>eval/worker.py\<close>: glue between the engine, torch and the modelled match, gate and floor. The best-model anchor,
  the disk guard, actor sync and the two third-party opponents: file and process life cycles around collaborators
  the library does not see. The capture of random streams and what an \<open>fsync\<close> adds against power loss.
\<close>

end
